(* ===== verification/Prelude.thy ===== *)
theory Prelude
  imports Main "HOL-Library.Multiset" "HOL-Library.Char_ord" "HOL-Library.List_Lexorder"
begin

text \<open>
  Shared vocabulary of the development: 64-bit integers with the checked and
  saturating operations of Rust's standard library, fallible results with the
  early return of the question-mark operator, JSON values, and the SQL row
  operations (insert with a fresh rowid, conditional update, ordered select)
  that every table of the control plane is read and written through.

  The locale \<open>sql_table\<close> is the interface between one table and its clients: a row
  carries an optional id and an insert fills it. It is interpreted in theory Schema
  on every table of the schema.
\<close>

named_theorems store_defs \<open>definitions of the store's statements\<close>
named_theorems table_simps \<open>rewrite rules for inserts, updates and selects\<close>

section \<open>Integers of 64 bits\<close>

type_synonym i64 = int

definition i64_max :: int where "i64_max = 9223372036854775807"
definition i64_min :: int where "i64_min = -9223372036854775808"

definition fits_i64 :: "int \<Rightarrow> bool" where
  "fits_i64 x \<longleftrightarrow> i64_min \<le> x \<and> x \<le> i64_max"

definition try_i64 :: "int \<Rightarrow> i64 option" where
  "try_i64 x = (if fits_i64 x then Some x else None)"

definition checked_add_i64 :: "i64 \<Rightarrow> i64 \<Rightarrow> i64 option" where
  "checked_add_i64 a b = try_i64 (a + b)"

definition checked_sub_i64 :: "i64 \<Rightarrow> i64 \<Rightarrow> i64 option" where
  "checked_sub_i64 a b = try_i64 (a - b)"

definition saturating_add_i64 :: "i64 \<Rightarrow> i64 \<Rightarrow> i64" where
  "saturating_add_i64 a b = max i64_min (min i64_max (a + b))"

lemma try_i64_Some [simp]: "try_i64 x = Some y \<longleftrightarrow> fits_i64 x \<and> y = x"
  by (auto simp: try_i64_def)

lemma try_i64_None [simp]: "try_i64 x = None \<longleftrightarrow> \<not> fits_i64 x"
  by (auto simp: try_i64_def)

lemma saturating_add_exact: "fits_i64 (a + b) \<Longrightarrow> saturating_add_i64 a b = a + b"
  by (auto simp: saturating_add_i64_def fits_i64_def)

lemma saturating_add_fits: "fits_i64 (saturating_add_i64 a b)"
  by (auto simp: saturating_add_i64_def fits_i64_def i64_min_def i64_max_def)

section \<open>Fallible results\<close>

text \<open>
  A \<open>Result\<close> is a sum with the error on the left. \<open>and_then\<close> is the early return of
  the question-mark operator.
\<close>

definition and_then :: "'e + 'a \<Rightarrow> ('a \<Rightarrow> 'e + 'b) \<Rightarrow> 'e + 'b" where
  "and_then r k = (case r of Inl e \<Rightarrow> Inl e | Inr a \<Rightarrow> k a)"

definition ok_or :: "'a option \<Rightarrow> 'e \<Rightarrow> 'e + 'a" where
  "ok_or x e = (case x of None \<Rightarrow> Inl e | Some a \<Rightarrow> Inr a)"

lemma and_then_simps [simp]:
  "and_then (Inl e) k = Inl e" "and_then (Inr a) k = k a"
  by (simp_all add: and_then_def)

lemma and_then_Inr_iff: "and_then r k = Inr b \<longleftrightarrow> (\<exists>a. r = Inr a \<and> k a = Inr b)"
  by (cases r) auto

lemma and_then_Inl_iff:
  "and_then r k = Inl e \<longleftrightarrow> r = Inl e \<or> (\<exists>a. r = Inr a \<and> k a = Inl e)"
  by (cases r) auto

lemma and_then_InrE:
  assumes "and_then r k = Inr b"
  obtains a where "r = Inr a" "k a = Inr b"
  using assms by (auto simp: and_then_Inr_iff)

lemma ok_or_simps [simp]: "ok_or None e = Inl e" "ok_or (Some a) e = Inr a"
  by (simp_all add: ok_or_def)

lemma ok_or_Inr_iff: "ok_or x e = Inr a \<longleftrightarrow> x = Some a"
  by (cases x) auto

section \<open>JSON values and JSON text columns\<close>

text \<open>
  A JSON value, with numbers split into the integers \<open>as_i64\<close> reads back and all
  others, kept as their literal. A \<open>TEXT\<close> column that holds JSON is represented by
  the value it is the text of (\<open>JText\<close>); text that is not JSON at all is \<open>Malformed\<close>.
\<close>

datatype json =
    JNull
  | JBool bool
  | JInt int
  | JFloat string
  | JString string
  | JArray "json list"
  | JObject "(string \<times> json) list"

datatype jtext = JText json | Malformed string

fun from_str :: "jtext \<Rightarrow> json option" where
  "from_str (JText v) = Some v"
| "from_str (Malformed s) = None"

definition json_valid :: "jtext \<Rightarrow> bool" where
  "json_valid t \<longleftrightarrow> from_str t \<noteq> None"

definition json_is_array :: "jtext \<Rightarrow> bool" where
  "json_is_array t = (case t of JText (JArray xs) \<Rightarrow> True | _ \<Rightarrow> False)"

fun json_get :: "json \<Rightarrow> string \<Rightarrow> json option" where
  "json_get (JObject fields) k = map_of fields k"
| "json_get v k = None"

fun as_str :: "json \<Rightarrow> string option" where
  "as_str (JString s) = Some s"
| "as_str v = None"

fun as_i64 :: "json \<Rightarrow> int option" where
  "as_i64 (JInt n) = try_i64 n"
| "as_i64 v = None"

fun insert_field :: "string \<Rightarrow> json \<Rightarrow> (string \<times> json) list \<Rightarrow> (string \<times> json) list" where
  "insert_field k v [] = [(k, v)]"
| "insert_field k v ((k', v') # fs) =
     (if k = k' then (k, v) # fs else (k', v') # insert_field k v fs)"

definition insert_fields :: "(string \<times> json) list \<Rightarrow> (string \<times> json) list \<Rightarrow> (string \<times> json) list" where
  "insert_fields detail fields = fold (\<lambda>(k, v). insert_field k v) detail fields"

definition json_opt :: "('a \<Rightarrow> json) \<Rightarrow> 'a option \<Rightarrow> json" where
  "json_opt f x = (case x of None \<Rightarrow> JNull | Some a \<Rightarrow> f a)"

lemma map_of_insert_field [simp]: "map_of (insert_field k v fs) = (map_of fs)(k \<mapsto> v)"
  by (induction fs) (auto simp: fun_eq_iff)

lemma map_of_insert_fields:
  "k \<notin> fst ` set detail \<Longrightarrow> map_of (insert_fields detail fields) k = map_of fields k"
  unfolding insert_fields_def
  by (induction detail arbitrary: fields) (auto simp: fun_upd_def)

section \<open>Tables\<close>

text \<open>
  \<open>next_rowid\<close> is the rowid an \<open>INTEGER PRIMARY KEY\<close> column without
  \<open>AUTOINCREMENT\<close> is given: one more than the largest in use, and 1 for an empty
  table.
\<close>

definition next_rowid :: "int list \<Rightarrow> int" where
  "next_rowid ids = (case ids of [] \<Rightarrow> 1 | i # is \<Rightarrow> fold max is i + 1)"

definition stored_id :: "int option \<Rightarrow> int" where
  "stored_id i = (case i of None \<Rightarrow> 0 | Some n \<Rightarrow> n)"

definition tbl_ids :: "('r \<Rightarrow> int option) \<Rightarrow> 'r list \<Rightarrow> int list" where
  "tbl_ids rid rows = map (\<lambda>r. stored_id (rid r)) rows"

definition sql_insert ::
  "('r \<Rightarrow> int option) \<Rightarrow> (int \<Rightarrow> 'r \<Rightarrow> 'r) \<Rightarrow> 'r \<Rightarrow> 'r list \<Rightarrow> 'r list \<times> int" where
  "sql_insert rid set_id r rows =
     (let i = next_rowid (tbl_ids rid rows) in (rows @ [set_id i r], i))"

definition sql_update :: "('r \<Rightarrow> bool) \<Rightarrow> ('r \<Rightarrow> 'r) \<Rightarrow> 'r list \<Rightarrow> 'r list" where
  "sql_update p f rows = map (\<lambda>r. if p r then f r else r) rows"

definition sql_count :: "('r \<Rightarrow> bool) \<Rightarrow> 'r list \<Rightarrow> nat" where
  "sql_count p rows = length (filter p rows)"

definition sql_select :: "('r \<Rightarrow> bool) \<Rightarrow> ('r \<Rightarrow> 'k :: linorder) \<Rightarrow> 'r list \<Rightarrow> 'r list" where
  "sql_select p k rows = sort_key k (filter p rows)"

text \<open>A stored table: every row has its id, and ids ascend from at least 1.\<close>

definition tbl_ok :: "('r \<Rightarrow> int option) \<Rightarrow> 'r list \<Rightarrow> bool" where
  "tbl_ok rid rows \<longleftrightarrow>
     (\<forall>r \<in> set rows. rid r \<noteq> None) \<and> sorted_wrt (<) (tbl_ids rid rows) \<and>
     (\<forall>i \<in> set (tbl_ids rid rows). 1 \<le> i)"

lemma stored_id_Some [simp]: "stored_id (Some i) = i"
  by (simp add: stored_id_def)

lemma fold_max_ge: "(x :: int) \<le> fold max xs x"
  by (induction xs arbitrary: x) (auto, metis max.boundedE)

lemma fold_max_bound: "y \<in> set (x # xs) \<Longrightarrow> (y :: int) \<le> fold max xs x"
proof (induction xs arbitrary: x)
  case Nil
  then show ?case by simp
next
  case (Cons z zs)
  have "x \<le> max z x" "z \<le> max z x" by auto
  moreover have "max z x \<le> fold max zs (max z x)" by (rule fold_max_ge)
  ultimately show ?case using Cons by (auto intro: order_trans)
qed

lemma next_rowid_fresh: "i \<in> set ids \<Longrightarrow> i < next_rowid ids"
  using fold_max_bound by (fastforce simp: next_rowid_def split: list.splits)

lemma next_rowid_pos: "\<forall>i \<in> set ids. 1 \<le> i \<Longrightarrow> 1 \<le> next_rowid ids"
proof (cases ids)
  case (Cons i "is")
  moreover assume "\<forall>i \<in> set ids. 1 \<le> i"
  ultimately show ?thesis using fold_max_ge [of i "is"] by (auto simp: next_rowid_def)
qed (simp add: next_rowid_def)

lemma tbl_ids_append [simp]: "tbl_ids rid (xs @ ys) = tbl_ids rid xs @ tbl_ids rid ys"
  by (simp add: tbl_ids_def)

lemma tbl_ids_Cons [simp]: "tbl_ids rid (x # xs) = stored_id (rid x) # tbl_ids rid xs"
  by (simp add: tbl_ids_def)

lemma tbl_ids_Nil [simp]: "tbl_ids rid [] = []"
  by (simp add: tbl_ids_def)

lemma length_sql_update [simp]: "length (sql_update p f rows) = length rows"
  by (simp add: sql_update_def)

lemma in_sql_update:
  "r' \<in> set (sql_update p f rows) \<longleftrightarrow> (\<exists>r \<in> set rows. r' = (if p r then f r else r))"
  by (induction rows) (auto simp: sql_update_def)

lemma ball_sql_update:
  "(\<forall>r \<in> set (sql_update p f rows). P r) \<longleftrightarrow> (\<forall>r \<in> set rows. P (if p r then f r else r))"
  by (induction rows) (auto simp: sql_update_def)

lemma bex_sql_update:
  "(\<exists>r \<in> set (sql_update p f rows). P r) \<longleftrightarrow> (\<exists>r \<in> set rows. P (if p r then f r else r))"
  by (induction rows) (auto simp: sql_update_def)

lemma sql_update_none: "sql_count p rows = 0 \<Longrightarrow> sql_update p f rows = rows"
  by (auto simp: sql_count_def sql_update_def filter_empty_conv intro!: map_idI)

lemma map_sql_update:
  "(\<And>r. r \<in> set rows \<Longrightarrow> p r \<Longrightarrow> g (f r) = g r) \<Longrightarrow> map g (sql_update p f rows) = map g rows"
  by (auto simp: sql_update_def)

lemma filter_sql_update:
  "(\<And>r. r \<in> set rows \<Longrightarrow> p r \<Longrightarrow> q (f r) \<longleftrightarrow> q r) \<Longrightarrow>
     filter q (sql_update p f rows) = sql_update p f (filter q rows)"
  by (induction rows) (auto simp: sql_update_def)

lemma set_sql_select [simp]: "set (sql_select p k rows) = {r \<in> set rows. p r}"
  by (auto simp: sql_select_def)

lemma mset_sql_select: "mset (sql_select p k rows) = mset (filter p rows)"
  by (simp add: sql_select_def)

lemma length_sql_select [simp]: "length (sql_select p k rows) = length (filter p rows)"
  by (simp add: sql_select_def)

lemma sorted_sql_select: "sorted (map k (sql_select p k rows))"
  by (simp add: sql_select_def)

text \<open>Selecting in an order the table is already in is plain filtering.\<close>

lemma sql_select_sorted:
  assumes "sorted (map k rows)"
  shows "sql_select p k rows = filter p rows"
  using assms unfolding sql_select_def
  by (induction rows) (auto simp: insort_is_Cons)

lemma sql_select_filtered:
  assumes "sorted (map k (filter p rows))" shows "sql_select p k rows = filter p rows"
  using sql_select_sorted [OF assms, of "\<lambda>_. True"] by (simp add: sql_select_def)

locale sql_table =
  fixes rid :: "'r \<Rightarrow> int option"
    and set_id :: "int \<Rightarrow> 'r \<Rightarrow> 'r"
  assumes rid_set_id [simp]: "rid (set_id i r) = Some i"
begin

lemma ids_distinct: "tbl_ok rid rows \<Longrightarrow> distinct (tbl_ids rid rows)"
  by (auto simp: tbl_ok_def strict_sorted_iff)

lemma insert_ok: "tbl_ok rid rows \<Longrightarrow> tbl_ok rid (fst (sql_insert rid set_id r rows))"
  using next_rowid_fresh next_rowid_pos
  by (auto simp: tbl_ok_def sql_insert_def Let_def sorted_wrt_append)

lemma insert_ascends:
  "tbl_ok rid rows \<Longrightarrow> i \<in> set (tbl_ids rid rows) \<Longrightarrow> i < snd (sql_insert rid set_id r rows)"
  by (auto simp: sql_insert_def Let_def next_rowid_fresh)

lemma insert_fst: "fst (sql_insert rid set_id r rows) = rows @ [set_id (snd (sql_insert rid set_id r rows)) r]"
  by (simp add: sql_insert_def Let_def)

lemma update_ids:
  "(\<And>r. rid (f r) = rid r) \<Longrightarrow> tbl_ids rid (sql_update p f rows) = tbl_ids rid rows"
  by (auto simp: tbl_ids_def sql_update_def)

lemma update_ok:
  assumes "\<And>r. rid (f r) = rid r" and "tbl_ok rid rows"
  shows "tbl_ok rid (sql_update p f rows)"
  using assms(2) unfolding tbl_ok_def update_ids [OF assms(1)]
  by (auto simp: ball_sql_update assms(1))

lemma select_by_id: "tbl_ok rid rows \<Longrightarrow> sql_select p (\<lambda>r. stored_id (rid r)) rows = filter p rows"
  by (rule sql_select_sorted) (simp add: tbl_ok_def tbl_ids_def strict_sorted_iff)

lemma id_unique:
  assumes "tbl_ok rid rows" "r \<in> set rows" "r' \<in> set rows" "rid r = rid r'"
  shows "r = r'"
  using ids_distinct [OF assms(1)] assms(2-4)
  by (auto simp: tbl_ids_def distinct_map inj_on_def)

lemma filter_by_id:
  assumes ok: "tbl_ok rid rows" and r: "r \<in> set rows" "rid r = Some i"
  shows "filter (\<lambda>r. rid r = Some i) rows = [r]"
proof -
  from r(1) obtain xs ys where rows: "rows = xs @ r # ys" by (auto dest: split_list)
  have "distinct (tbl_ids rid rows)" using ok by (rule ids_distinct)
  then have "\<forall>x \<in> set xs \<union> set ys. rid x \<noteq> Some i"
    using r(2) unfolding rows by (auto simp: tbl_ids_def) (metis image_eqI stored_id_Some)+
  then show ?thesis using r(2) unfolding rows by (auto simp: filter_empty_conv)
qed

lemma count_by_id:
  assumes "tbl_ok rid rows" "r \<in> set rows" "rid r = Some i"
  shows "sql_count (\<lambda>r. rid r = Some i \<and> q r) rows = (if q r then 1 else 0)"
proof -
  have "filter (\<lambda>r. rid r = Some i \<and> q r) rows = filter q (filter (\<lambda>r. rid r = Some i) rows)"
    by (auto intro!: filter_cong simp: conj_commute)
  then show ?thesis using filter_by_id [OF assms] by (simp add: sql_count_def)
qed

end

text \<open>The standard library's \<open>last\<close> of a slice.\<close>

definition last_opt :: "'a list \<Rightarrow> 'a option" where
  "last_opt xs = (if xs = [] then None else Some (last xs))"

end
