(* ===== verification/Ordered_Map.thy ===== *)
theory Ordered_Map
  imports Prelude
begin

text \<open>
  \<open>BTreeMap\<close> keyed by an integer, as an association list kept in ascending key order.
  The session registry and the recency index of the run cache are such maps.
\<close>

fun btree_insert :: "int \<Rightarrow> 'v \<Rightarrow> (int \<times> 'v) list \<Rightarrow> (int \<times> 'v) list" where
  "btree_insert k v [] = [(k, v)]"
| "btree_insert k v ((k', v') # m) =
     (if k < k' then (k, v) # (k', v') # m
      else if k = k' then (k, v) # m
      else (k', v') # btree_insert k v m)"

definition btree_remove :: "int \<Rightarrow> (int \<times> 'v) list \<Rightarrow> (int \<times> 'v) list" where
  "btree_remove k m = filter (\<lambda>(k', v). k' \<noteq> k) m"

definition btree_ok :: "(int \<times> 'v) list \<Rightarrow> bool" where
  "btree_ok m \<longleftrightarrow> sorted_wrt (<) (map fst m)"

lemma map_of_btree_insert [simp]: "btree_ok m \<Longrightarrow> map_of (btree_insert k v m) = (map_of m)(k \<mapsto> v)"
proof (induction m)
  case (Cons x m)
  have "k < fst x \<Longrightarrow> k \<notin> fst ` set m" using Cons.prems by (force simp: btree_ok_def)
  then show ?case using Cons by (cases x) (auto simp: btree_ok_def fun_eq_iff)
qed simp

lemma keys_btree_insert [simp]: "fst ` set (btree_insert k v m) = insert k (fst ` set m)"
  by (induction k v m rule: btree_insert.induct) (simp_all add: insert_commute)

lemma btree_insert_ok: "btree_ok m \<Longrightarrow> btree_ok (btree_insert k v m)"
proof (induction m)
  case (Cons x m)
  have "fst ` set (btree_insert k v m) = insert k (fst ` set m)" by simp
  then show ?case using Cons by (cases x) (auto simp: btree_ok_def)
qed (simp add: btree_ok_def)

lemma btree_filter_ok: "btree_ok m \<Longrightarrow> btree_ok (filter p m)"
  unfolding btree_ok_def by (induction m) auto

lemma btree_remove_ok: "btree_ok m \<Longrightarrow> btree_ok (btree_remove k m)"
  unfolding btree_remove_def by (rule btree_filter_ok)

lemma map_of_btree_remove [simp]: "map_of (btree_remove k m) = (map_of m)(k := None)"
  by (induction m) (auto simp: btree_remove_def fun_eq_iff)

lemma btree_distinct: "btree_ok m \<Longrightarrow> distinct (map fst m)"
  by (simp add: btree_ok_def strict_sorted_iff)

lemma btree_entry: "btree_ok m \<Longrightarrow> (k, v) \<in> set m \<longleftrightarrow> map_of m k = Some v"
  using btree_distinct by (auto intro: map_of_is_SomeI dest: map_of_SomeD)

end
