(* ===== verification/Sessions.thy ===== *)
theory Sessions
  imports Ordered_Map
begin

text \<open>
  The daemon's registry of live sessions (crates/agens-server/src/sessions.rs). The
  registry is an ordered map from session id. A budget
  and a cancellation flag are shared handles in the code; here they are fields of the
  registered session, written by the operations that hold the handle.
\<close>

section \<open>Budgets\<close>

record session_budget =
  sb_max_turns :: "nat option"
  sb_spent_turns :: nat
  sb_max_iterations_per_turn :: "nat option"

definition u64_max :: nat where "u64_max = 18446744073709551615"

definition unlimited :: session_budget where
  "unlimited = \<lparr>sb_max_turns = None, sb_spent_turns = 0, sb_max_iterations_per_turn = None\<rparr>"

definition with_max_turns :: "nat \<Rightarrow> session_budget" where
  "with_max_turns n = \<lparr>sb_max_turns = Some n, sb_spent_turns = 0, sb_max_iterations_per_turn = None\<rparr>"

definition remaining_turns :: "session_budget \<Rightarrow> nat option" where
  "remaining_turns b = map_option (\<lambda>m. m - sb_spent_turns b) (sb_max_turns b)"

definition consume_turn :: "session_budget \<Rightarrow> session_budget \<times> bool" where
  "consume_turn b =
     (if remaining_turns b = Some 0 then (b, False)
      else (b\<lparr>sb_spent_turns := min u64_max (sb_spent_turns b + 1)\<rparr>, True))"

section \<open>The registry\<close>

datatype session_outcome = Completed | Failed | Cancelled

datatype session_state = Running | Cancelling | Finished session_outcome

fun terminal :: "session_state \<Rightarrow> session_outcome option" where
  "terminal (Finished outcome) = Some outcome"
| "terminal Running = None"
| "terminal Cancelling = None"

datatype session_registry_error = AlreadyLive | AtCapacity | Unknown | Terminal

record session_limits =
  li_max_live_sessions :: nat
  li_retained_finished_sessions :: nat

definition default_session_limits :: session_limits where
  "default_session_limits = \<lparr>li_max_live_sessions = 8, li_retained_finished_sessions = 32\<rparr>"

record registered_session =
  rs_model :: string
  rs_budget :: session_budget
  rs_cancelled :: bool
  rs_state :: session_state
  rs_finished_at :: "nat option"

record session_registry =
  sr_sessions :: "(i64 \<times> registered_session) list"
  sr_limits :: session_limits
  sr_ended :: nat

record session_admission =
  sa_session :: i64
  sa_model :: string
  sa_budget :: session_budget

definition new_registry :: "session_limits \<Rightarrow> session_registry" where
  "new_registry limits = \<lparr>sr_sessions = [], sr_limits = limits, sr_ended = 0\<rparr>"

definition is_live :: "registered_session \<Rightarrow> bool" where
  "is_live s \<longleftrightarrow> terminal (rs_state s) = None"

definition live_count :: "session_registry \<Rightarrow> nat" where
  "live_count r = length (filter (\<lambda>(i, s). is_live s) (sr_sessions r))"

definition registry_admit ::
  "session_registry \<Rightarrow> session_admission \<Rightarrow> session_registry \<times> (session_registry_error + i64)" where
  "registry_admit r a =
     (if (case map_of (sr_sessions r) (sa_session a) of None \<Rightarrow> False | Some s \<Rightarrow> is_live s)
      then (r, Inl AlreadyLive)
      else if li_max_live_sessions (sr_limits r) \<le> live_count r then (r, Inl AtCapacity)
      else (r\<lparr>sr_sessions := btree_insert (sa_session a)
                \<lparr>rs_model = sa_model a, rs_budget = sa_budget a, rs_cancelled = False,
                 rs_state = Running, rs_finished_at = None\<rparr> (sr_sessions r)\<rparr>,
            Inr (sa_session a)))"

definition registry_cancel ::
  "session_registry \<Rightarrow> i64 \<Rightarrow> session_registry \<times> (session_registry_error + unit)" where
  "registry_cancel r i =
     (case map_of (sr_sessions r) i of
        None \<Rightarrow> (r, Inl Unknown)
      | Some s \<Rightarrow>
          if \<not> is_live s then (r, Inl Terminal)
          else (r\<lparr>sr_sessions := btree_insert i (s\<lparr>rs_cancelled := True, rs_state := Cancelling\<rparr>) (sr_sessions r)\<rparr>,
                Inr ()))"

definition registry_cancel_all :: "session_registry \<Rightarrow> session_registry \<times> i64 list" where
  "registry_cancel_all r =
     (r\<lparr>sr_sessions := map (\<lambda>(i, s). if is_live s then (i, s\<lparr>rs_cancelled := True, rs_state := Cancelling\<rparr>)
                                    else (i, s)) (sr_sessions r)\<rparr>,
      map fst (filter (\<lambda>(i, s). is_live s) (sr_sessions r)))"

datatype session_end_record = Recorded | AlreadyEnded | NotFound

definition record_end ::
  "session_registry \<Rightarrow> i64 \<Rightarrow> session_outcome \<Rightarrow> session_registry \<times> session_end_record" where
  "record_end r i outcome =
     (let ended = min u64_max (sr_ended r + 1)
      in case map_of (sr_sessions r) i of
           None \<Rightarrow> (r, NotFound)
         | Some s \<Rightarrow>
             if \<not> is_live s then (r, AlreadyEnded)
             else (r\<lparr>sr_sessions := btree_insert i (s\<lparr>rs_state := Finished outcome, rs_finished_at := Some ended\<rparr>)
                       (sr_sessions r), sr_ended := ended\<rparr>, Recorded))"

definition registry_finish ::
  "session_registry \<Rightarrow> i64 \<Rightarrow> session_outcome \<Rightarrow> session_registry \<times> (session_registry_error + unit)" where
  "registry_finish r i outcome =
     (case record_end r i outcome of
        (r', Recorded) \<Rightarrow> (r', Inr ())
      | (r', AlreadyEnded) \<Rightarrow> (r', Inl Terminal)
      | (r', NotFound) \<Rightarrow> (r', Inl Unknown))"

definition registry_release ::
  "session_registry \<Rightarrow> i64 \<Rightarrow> session_registry \<times> (session_registry_error + unit)" where
  "registry_release r i =
     (case map_of (sr_sessions r) i of
        None \<Rightarrow> (r, Inl Unknown)
      | Some s \<Rightarrow>
          if is_live s then (r, Inl Terminal)
          else (r\<lparr>sr_sessions := btree_remove i (sr_sessions r)\<rparr>, Inr ()))"

text \<open>
  Pruning drops the sessions that ended first. The code sorts pairs of the ending
  sequence number and the id; the registry is in id order, so a stable sort on the
  sequence number gives the same order.
\<close>

definition finished_in_order :: "session_registry \<Rightarrow> (nat \<times> i64) list" where
  "finished_in_order r = sort_key fst
     (List.map_filter (\<lambda>(i, s). map_option (\<lambda>ended. (ended, i)) (rs_finished_at s)) (sr_sessions r))"

definition prune_finished :: "session_registry \<Rightarrow> session_registry \<times> i64 list" where
  "prune_finished r =
     (let finished = finished_in_order r;
          retained = li_retained_finished_sessions (sr_limits r)
      in if length finished \<le> retained then (r, [])
         else (let pruned = map snd (take (length finished - retained) finished)
               in (r\<lparr>sr_sessions := fold btree_remove pruned (sr_sessions r)\<rparr>, pruned)))"

text \<open>
  \<open>SessionSupervisor::start\<close>: admit, then prune. The task it spawns ends in
  \<open>record_end\<close>, which the registry sees as a later operation.
\<close>

definition supervisor_start ::
  "session_registry \<Rightarrow> session_admission \<Rightarrow> session_registry \<times> (session_registry_error + i64)" where
  "supervisor_start r a =
     (case registry_admit r a of
        (r', Inl e) \<Rightarrow> (r', Inl e)
      | (r', Inr i) \<Rightarrow> (fst (prune_finished r'), Inr i))"


section \<open>The registry as a transition system\<close>

datatype registry_op =
    AdmitSession session_admission
  | CancelSession i64
  | CancelAllSessions
  | EndSession i64 session_outcome
  | ReleaseSession i64
  | PruneSessions
  | StartSession session_admission

fun registry_perform :: "registry_op \<Rightarrow> session_registry \<Rightarrow> session_registry" where
  "registry_perform (AdmitSession a) r = fst (registry_admit r a)"
| "registry_perform (CancelSession i) r = fst (registry_cancel r i)"
| "registry_perform CancelAllSessions r = fst (registry_cancel_all r)"
| "registry_perform (EndSession i outcome) r = fst (registry_finish r i outcome)"
| "registry_perform (ReleaseSession i) r = fst (registry_release r i)"
| "registry_perform PruneSessions r = fst (prune_finished r)"
| "registry_perform (StartSession a) r = fst (supervisor_start r a)"

definition session_ok :: "registered_session \<Rightarrow> bool" where
  "session_ok s \<longleftrightarrow> (rs_finished_at s = None) = is_live s \<and> (rs_state s = Cancelling \<longrightarrow> rs_cancelled s)"

definition registry_ok :: "session_registry \<Rightarrow> bool" where
  "registry_ok r \<longleftrightarrow>
     btree_ok (sr_sessions r) \<and>
     (\<forall>(i, s) \<in> set (sr_sessions r). session_ok s) \<and>
     live_count r \<le> li_max_live_sessions (sr_limits r)"

definition live_ids :: "session_registry \<Rightarrow> i64 set" where
  "live_ids r = {i. \<exists>s. map_of (sr_sessions r) i = Some s \<and> is_live s}"

lemma live_count_card:
  assumes "btree_ok (sr_sessions r)" shows "live_count r = card (live_ids r)" "finite (live_ids r)"
proof -
  have "live_ids r = fst ` set (filter (\<lambda>(i, s). is_live s) (sr_sessions r))"
    using btree_entry [OF assms] by (force simp: live_ids_def image_iff)
  moreover have "distinct (map fst (filter (\<lambda>(i, s). is_live s) (sr_sessions r)))"
    using btree_distinct [OF btree_filter_ok [OF assms]] .
  ultimately show "live_count r = card (live_ids r)" "finite (live_ids r)"
    by (auto simp: live_count_def) (metis distinct_card length_map set_filter set_map)
qed

lemma sessions_ok_map:
  "btree_ok m \<Longrightarrow> (\<forall>(i, s) \<in> set m. P s) \<longleftrightarrow> (\<forall>i s. map_of m i = Some s \<longrightarrow> P s)"
  using btree_entry by fastforce

text \<open>What each operation does to the set of live sessions.\<close>

lemma admit_cases:
  obtains (refused) e where "registry_admit r a = (r, Inl e)"
  | (admitted) r' where "registry_admit r a = (r', Inr (sa_session a))"
      "sa_session a \<notin> live_ids r" "live_count r < li_max_live_sessions (sr_limits r)"
      "r' = r\<lparr>sr_sessions := btree_insert (sa_session a)
         \<lparr>rs_model = sa_model a, rs_budget = sa_budget a, rs_cancelled = False,
          rs_state = Running, rs_finished_at = None\<rparr> (sr_sessions r)\<rparr>"
proof (cases "sa_session a \<in> live_ids r")
  case True
  then show ?thesis using refused by (auto simp: registry_admit_def live_ids_def)
next
  case False
  then have "\<not> (case map_of (sr_sessions r) (sa_session a) of None \<Rightarrow> False | Some s \<Rightarrow> is_live s)"
    by (auto simp: live_ids_def split: option.splits)
  then show ?thesis using False refused admitted
    by (cases "li_max_live_sessions (sr_limits r) \<le> live_count r") (auto simp: registry_admit_def not_le)
qed

lemma admit_ok: assumes "registry_ok r" shows "registry_ok (fst (registry_admit r a))"
proof (rule admit_cases [of r a])
  fix r' assume res: "registry_admit r a = (r', Inr (sa_session a))"
    and new: "sa_session a \<notin> live_ids r" and room: "live_count r < li_max_live_sessions (sr_limits r)"
    and r': "r' = r\<lparr>sr_sessions := btree_insert (sa_session a)
         \<lparr>rs_model = sa_model a, rs_budget = sa_budget a, rs_cancelled = False,
          rs_state = Running, rs_finished_at = None\<rparr> (sr_sessions r)\<rparr>"
  have ok: "btree_ok (sr_sessions r)" using assms by (simp add: registry_ok_def)
  have ok': "btree_ok (sr_sessions r')" by (simp add: r' btree_insert_ok ok)
  have "live_ids r' = insert (sa_session a) (live_ids r)"
    by (auto simp: live_ids_def r' ok is_live_def)
  then have "live_count r' = Suc (live_count r)"
    using live_count_card [OF ok] live_count_card [OF ok'] new by simp
  moreover have "\<forall>i s. map_of (sr_sessions r') i = Some s \<longrightarrow> session_ok s"
    using assms by (auto simp: r' ok registry_ok_def sessions_ok_map session_ok_def is_live_def)
  ultimately show ?thesis
    using room ok' by (simp add: res registry_ok_def sessions_ok_map r')
qed (use assms in simp)

lemma shrink_ok:
  assumes "registry_ok r" "btree_ok m" "sr_limits r' = sr_limits r" "sr_sessions r' = m"
    and "\<And>i s. map_of m i = Some s \<Longrightarrow> session_ok s"
    and "\<And>i s. map_of m i = Some s \<Longrightarrow> is_live s \<Longrightarrow> i \<in> live_ids r"
  shows "registry_ok r'"
proof -
  have ok: "btree_ok (sr_sessions r)" using assms(1) by (simp add: registry_ok_def)
  have "live_ids r' \<subseteq> live_ids r" using assms(4,6) by (auto simp: live_ids_def [of r'])
  then have "live_count r' \<le> live_count r"
    using live_count_card [OF ok] live_count_card [of r'] assms(2,4) by (simp add: card_mono)
  then show ?thesis using assms by (auto simp: registry_ok_def sessions_ok_map)
qed

lemma registered_ok: "registry_ok r \<Longrightarrow> map_of (sr_sessions r) i = Some s \<Longrightarrow> session_ok s"
  using sessions_ok_map [of "sr_sessions r" session_ok] by (simp add: registry_ok_def)

lemma registry_btree: "registry_ok r \<Longrightarrow> btree_ok (sr_sessions r)"
  by (simp add: registry_ok_def)

lemma cancel_ok: assumes "registry_ok r" shows "registry_ok (fst (registry_cancel r i))"
proof (cases "\<exists>s. map_of (sr_sessions r) i = Some s \<and> is_live s")
  case True
  then obtain s where s: "map_of (sr_sessions r) i = Some s" "is_live s" by blast
  let ?m = "btree_insert i (s\<lparr>rs_cancelled := True, rs_state := Cancelling\<rparr>) (sr_sessions r)"
  have "registry_ok (r\<lparr>sr_sessions := ?m\<rparr>)"
    by (rule shrink_ok [OF assms, of ?m])
      (use registry_btree [OF assms] registered_ok [OF assms] s in
        \<open>auto simp: btree_insert_ok live_ids_def session_ok_def is_live_def split: if_splits\<close>)
  then show ?thesis using s by (simp add: registry_cancel_def)
next
  case False
  then have "registry_cancel r i = (r, snd (registry_cancel r i))"
    by (auto simp: registry_cancel_def split: option.split)
  then show ?thesis using assms by (metis fst_conv)
qed

lemma record_end_ok: assumes "registry_ok r" shows "registry_ok (fst (record_end r i outcome))"
proof (cases "\<exists>s. map_of (sr_sessions r) i = Some s \<and> is_live s")
  case True
  then obtain s where s: "map_of (sr_sessions r) i = Some s" "is_live s" by blast
  let ?n = "min u64_max (sr_ended r + 1)"
  let ?m = "btree_insert i (s\<lparr>rs_state := Finished outcome, rs_finished_at := Some ?n\<rparr>) (sr_sessions r)"
  have "registry_ok (r\<lparr>sr_sessions := ?m, sr_ended := ?n\<rparr>)"
    by (rule shrink_ok [OF assms, of ?m])
      (use registry_btree [OF assms] registered_ok [OF assms] s in
        \<open>auto simp: btree_insert_ok live_ids_def session_ok_def is_live_def split: if_splits\<close>)
  then show ?thesis using s by (simp add: record_end_def Let_def)
next
  case False
  then have "record_end r i outcome = (r, snd (record_end r i outcome))"
    by (auto simp: record_end_def Let_def split: option.split)
  then show ?thesis using assms by (metis fst_conv)
qed

lemma finish_fst: "fst (registry_finish r i outcome) = fst (record_end r i outcome)"
  by (auto simp: registry_finish_def split: prod.splits session_end_record.splits)

lemma release_ok: assumes "registry_ok r" shows "registry_ok (fst (registry_release r i))"
proof -
  have "registry_ok (r\<lparr>sr_sessions := btree_remove i (sr_sessions r)\<rparr>)"
    by (rule shrink_ok [OF assms, of "btree_remove i (sr_sessions r)"])
      (use registry_btree [OF assms] registered_ok [OF assms] in
        \<open>auto simp: btree_remove_ok live_ids_def split: if_splits\<close>)
  then show ?thesis using assms by (auto simp: registry_release_def split: option.split)
qed

lemma cancel_all_sessions:
  "map_of (sr_sessions (fst (registry_cancel_all r))) i = map_option (\<lambda>s. if is_live s
     then s\<lparr>rs_cancelled := True, rs_state := Cancelling\<rparr> else s) (map_of (sr_sessions r) i)"
proof -
  have "map_of (map (\<lambda>(i, s). if is_live s then (i, s\<lparr>rs_cancelled := True, rs_state := Cancelling\<rparr>) else (i, s)) m) i =
      map_option (\<lambda>s. if is_live s then s\<lparr>rs_cancelled := True, rs_state := Cancelling\<rparr> else s) (map_of m i)" for m
    by (induction m) auto
  then show ?thesis by (simp add: registry_cancel_all_def)
qed

lemma cancel_all_ok: assumes "registry_ok r" shows "registry_ok (fst (registry_cancel_all r))"
proof -
  let ?r = "fst (registry_cancel_all r)"
  have keys: "map fst (sr_sessions ?r) = map fst (sr_sessions r)"
    by (auto simp: registry_cancel_all_def)
  have old: "\<exists>s0. map_of (sr_sessions r) i = Some s0 \<and>
      s = (if is_live s0 then s0\<lparr>rs_cancelled := True, rs_state := Cancelling\<rparr> else s0)"
    if "map_of (sr_sessions ?r) i = Some s" for i s
    using that unfolding cancel_all_sessions by auto
  show ?thesis
  proof (rule shrink_ok [OF assms _ _ refl])
    show "btree_ok (sr_sessions ?r)" using registry_btree [OF assms] by (simp add: btree_ok_def keys)
    show "sr_limits ?r = sr_limits r" by (simp add: registry_cancel_all_def)
    show "session_ok s" if "map_of (sr_sessions ?r) i = Some s" for i s
      using old [OF that] registered_ok [OF assms, of i] by (auto simp: session_ok_def is_live_def)
    show "i \<in> live_ids r" if "map_of (sr_sessions ?r) i = Some s" "is_live s" for i s
      using old [OF that(1)] that(2) by (auto simp: live_ids_def split: if_splits)
  qed
qed

text \<open>Pruning: only ended sessions go, the ones that ended first, down to the retained number.\<close>

lemma map_of_fold_remove: "map_of (fold btree_remove ks m) i = (if i \<in> set ks then None else map_of m i)"
  by (induction ks arbitrary: m) auto

lemma fold_remove_ok: "btree_ok m \<Longrightarrow> btree_ok (fold btree_remove ks m)"
  by (induction ks arbitrary: m) (auto intro: btree_remove_ok)

lemma finished_in_order_set:
  "set (finished_in_order r) = {(n, i). \<exists>s. (i, s) \<in> set (sr_sessions r) \<and> rs_finished_at s = Some n}"
  by (force simp: finished_in_order_def map_filter_def)

lemma prune_fst:
  "fst (prune_finished r) = r\<lparr>sr_sessions := fold btree_remove (snd (prune_finished r)) (sr_sessions r)\<rparr>"
  by (simp add: prune_finished_def Let_def)

lemma pruned_was_finished:
  assumes "registry_ok r" "i \<in> set (snd (prune_finished r))"
  shows "\<exists>s n. map_of (sr_sessions r) i = Some s \<and> rs_finished_at s = Some n"
proof -
  have "i \<in> snd ` set (finished_in_order r)"
    using assms(2) by (auto simp: prune_finished_def Let_def dest: in_set_takeD split: if_splits)
  then show ?thesis
    using btree_entry [OF registry_btree [OF assms(1)]] by (force simp: finished_in_order_set)
qed

lemma prune_keeps_live: assumes "registry_ok r" shows "live_ids (fst (prune_finished r)) = live_ids r"
proof -
  have "i \<notin> set (snd (prune_finished r))" if "map_of (sr_sessions r) i = Some s" "is_live s" for i s
    using pruned_was_finished [OF assms, of i] registered_ok [OF assms that(1)] that by (auto simp: session_ok_def)
  then show ?thesis unfolding live_ids_def by (auto simp: prune_fst map_of_fold_remove)
qed

lemma prune_ok: assumes "registry_ok r" shows "registry_ok (fst (prune_finished r))"
  unfolding prune_fst
  by (rule shrink_ok [OF assms, of "fold btree_remove (snd (prune_finished r)) (sr_sessions r)"])
    (use registry_btree [OF assms] registered_ok [OF assms] in
      \<open>auto simp: fold_remove_ok map_of_fold_remove live_ids_def split: if_splits\<close>)

lemma registry_perform_ok: "registry_ok r \<Longrightarrow> registry_ok (registry_perform op r)"
proof (cases op)
  case (StartSession a)
  assume "registry_ok r"
  then have "registry_ok (fst (registry_admit r a))" by (rule admit_ok)
  then show ?thesis
    by (auto simp: StartSession supervisor_start_def prune_ok split: prod.splits sum.splits)
qed (simp_all add: admit_ok cancel_ok cancel_all_ok finish_fst record_end_ok release_ok prune_ok)

lemma new_registry_ok: "registry_ok (new_registry limits)"
  by (simp add: registry_ok_def new_registry_def btree_ok_def live_count_def)


section \<open>The order of pruning\<close>

lemma fold_remove_filter: "fold btree_remove ks m = filter (\<lambda>(k, v). k \<notin> set ks) m"
proof (induction ks arbitrary: m)
  case (Cons k ks)
  have "fold btree_remove (k # ks) m = filter (\<lambda>(k', v). k' \<notin> set ks) (btree_remove k m)"
    using Cons [of "btree_remove k m"] by simp
  also have "\<dots> = filter (\<lambda>(k', v). k' \<notin> set (k # ks)) m"
    unfolding btree_remove_def filter_filter by (rule filter_cong) auto
  finally show ?case .
qed simp

definition unsorted_finished :: "(i64 \<times> registered_session) list \<Rightarrow> (nat \<times> i64) list" where
  "unsorted_finished m = List.map_filter (\<lambda>(i, s). map_option (\<lambda>ended. (ended, i)) (rs_finished_at s)) m"

lemma finished_in_order_sort: "finished_in_order r = sort_key fst (unsorted_finished (sr_sessions r))"
  by (simp add: finished_in_order_def unsorted_finished_def)

lemma unsorted_finished_filter:
  "unsorted_finished (filter (\<lambda>(k, v). q k) m) = filter (\<lambda>(n, i). q i) (unsorted_finished m)"
  by (induction m) (auto simp: unsorted_finished_def List.map_filter_simps split: option.splits)

lemma unsorted_finished_distinct: "distinct (map fst m) \<Longrightarrow> distinct (map snd (unsorted_finished m))"
proof (induction m)
  case (Cons x m)
  have "set (map snd (unsorted_finished m)) \<subseteq> fst ` set m"
    by (force simp: unsorted_finished_def List.map_filter_def)
  then show ?case using Cons
    by (cases x) (auto simp: unsorted_finished_def List.map_filter_simps split: option.splits)
qed (simp add: unsorted_finished_def List.map_filter_simps)

lemma finished_distinct: assumes "registry_ok r" shows "distinct (map snd (finished_in_order r))"
proof -
  have "mset (map snd (finished_in_order r)) = mset (map snd (unsorted_finished (sr_sessions r)))"
    by (simp add: finished_in_order_sort)
  then show ?thesis
    using unsorted_finished_distinct [OF btree_distinct [OF registry_btree [OF assms]]] mset_eq_imp_distinct_iff by blast
qed

lemma finished_sorted:
  assumes "(n, i) \<in> set (take k (finished_in_order r))" "(n', j) \<in> set (drop k (finished_in_order r))"
  shows "n \<le> n'"
proof -
  have "sorted (map fst (take k (finished_in_order r) @ drop k (finished_in_order r)))"
    by (simp add: finished_in_order_sort)
  then have "\<forall>x \<in> set (map fst (take k (finished_in_order r))). \<forall>y \<in> set (map fst (drop k (finished_in_order r))). x \<le> y"
    unfolding map_append sorted_append by (elim conjE)
  moreover have "n \<in> set (map fst (take k (finished_in_order r)))" "n' \<in> set (map fst (drop k (finished_in_order r)))"
    using imageI [OF assms(1), of fst] imageI [OF assms(2), of fst] by simp_all
  ultimately show ?thesis by blast
qed

lemma finished_entry:
  assumes "registry_ok r" "map_of (sr_sessions r) i = Some s" "rs_finished_at s = Some n"
    and "i \<in> snd ` set (take k (finished_in_order r))"
  shows "(n, i) \<in> set (take k (finished_in_order r))"
proof -
  from assms(4) obtain n' where n': "(n', i) \<in> set (take k (finished_in_order r))" by auto
  then have "(n', i) \<in> set (finished_in_order r)" by (rule in_set_takeD)
  then obtain s' where "(i, s') \<in> set (sr_sessions r)" "rs_finished_at s' = Some n'"
    by (auto simp: finished_in_order_set)
  then have "n' = n" using assms(2,3) btree_entry [OF registry_btree [OF assms(1)]] by auto
  then show ?thesis using n' by simp
qed

lemma finished_after_filter:
  assumes "registry_ok r"
  shows "length (unsorted_finished (filter (\<lambda>(i, v). i \<notin> snd ` set (take k (finished_in_order r))) (sr_sessions r))) =
    length (finished_in_order r) - k"
proof -
  let ?fin = "finished_in_order r"
  have "mset (filter (\<lambda>(n, i). i \<notin> snd ` set (take k ?fin)) (unsorted_finished (sr_sessions r))) =
      mset (filter (\<lambda>(n, i). i \<notin> snd ` set (take k ?fin)) ?fin)"
    by (simp add: finished_in_order_sort)
  then have "length (unsorted_finished (filter (\<lambda>(i, v). i \<notin> snd ` set (take k ?fin)) (sr_sessions r))) =
      length (filter (\<lambda>(n, i). i \<notin> snd ` set (take k ?fin)) (take k ?fin @ drop k ?fin))"
    unfolding unsorted_finished_filter append_take_drop_id by (rule mset_eq_length)
  also have "\<dots> = length (filter (\<lambda>(n, i). i \<notin> snd ` set (take k ?fin)) (drop k ?fin))"
  proof -
    have "filter (\<lambda>(n, i). i \<notin> snd ` set (take k ?fin)) (take k ?fin) = []"
    proof (rule filter_False, rule ballI)
      fix x assume "x \<in> set (take k ?fin)"
      then have "snd x \<in> snd ` set (take k ?fin)" by (rule imageI)
      then show "\<not> (case x of (n, i) \<Rightarrow> i \<notin> snd ` set (take k ?fin))" by (cases x) simp
    qed
    then show ?thesis unfolding filter_append by (simp only: append_Nil)
  qed
  also have "filter (\<lambda>(n, i). i \<notin> snd ` set (take k ?fin)) (drop k ?fin) = drop k ?fin"
  proof (rule filter_True, rule ballI)
    fix x assume "x \<in> set (drop k ?fin)"
    then have "snd x \<in> set (map snd (drop k ?fin))" unfolding set_map by (rule imageI)
    moreover have "distinct (map snd (take k ?fin) @ map snd (drop k ?fin))"
      using finished_distinct [OF assms] by (metis append_take_drop_id map_append)
    then have "set (map snd (take k ?fin)) \<inter> set (map snd (drop k ?fin)) = {}"
      unfolding distinct_append by (elim conjE)
    ultimately have "snd x \<notin> snd ` set (take k ?fin)" unfolding set_map by (metis disjoint_iff)
    then show "case x of (n, i) \<Rightarrow> i \<notin> snd ` set (take k ?fin)" by (cases x) simp
  qed
  finally show ?thesis by simp
qed

end
