(* ===== verification/Schema.thy ===== *)
theory Schema
  imports Prelude
begin

text \<open>
  The control plane's data: the enums the store keeps as SQL text, one record per
  table row, the database as the record of its tables, and the constraints the
  schema declares (\<open>CHECK\<close>, \<open>UNIQUE\<close>, \<open>FOREIGN KEY\<close>), with \<open>db_wf\<close> collecting them.
  Sources: crates/agens-store/src/control_plane.rs for enums and rows, and the
  control-plane migration in crates/agens-store/src/database.rs for the constraints.
\<close>

section \<open>Enums stored as SQL text\<close>

text \<open>
  The macro \<open>sql_enum\<close> writes every variant's text once. Reading back is the match
  over the same list, in the order of the variants.
\<close>

definition enum_parse :: "'v list \<Rightarrow> ('v \<Rightarrow> string) \<Rightarrow> string \<Rightarrow> 'v option" where
  "enum_parse variants str text = find (\<lambda>v. str v = text) variants"

locale sql_enum =
  fixes variants :: "'v list" and str :: "'v \<Rightarrow> string"
  assumes texts_distinct: "distinct (map str variants)"
    and complete: "v \<in> set variants"
begin

lemma str_inject: "str v = str w \<longleftrightarrow> v = w"
  using texts_distinct complete by (auto simp: distinct_map inj_on_def)

lemma parse_str: "enum_parse variants str (str v) = Some v"
  unfolding enum_parse_def find_Some_iff
proof -
  from complete [of v] obtain i where i: "i < length variants" "v = variants ! i"
    by (metis in_set_conv_nth)
  have "\<forall>j<i. str (variants ! j) \<noteq> str (variants ! i)"
    using i(1) texts_distinct by (auto simp: distinct_conv_nth)
  then show "\<exists>i<length variants. str (variants ! i) = str v \<and> v = variants ! i \<and>
      (\<forall>j<i. str (variants ! j) \<noteq> str v)"
    using i by auto
qed

lemma parse_Some_iff: "enum_parse variants str text = Some v \<longleftrightarrow> text = str v"
  using parse_str by (auto simp: enum_parse_def find_Some_iff)

lemma parse_None_iff: "enum_parse variants str text = None \<longleftrightarrow> text \<notin> range str"
  using complete by (auto simp: enum_parse_def find_None_iff)

end

datatype run_state =
    Draft | Queued | Running | AwaitingInput | AwaitingQuota | Done | Failed | Interrupted | Cancelled

fun run_state_str :: "run_state \<Rightarrow> string" where
  "run_state_str Draft = ''draft''"
| "run_state_str Queued = ''queued''"
| "run_state_str Running = ''running''"
| "run_state_str AwaitingInput = ''awaiting_input''"
| "run_state_str AwaitingQuota = ''awaiting_quota''"
| "run_state_str Done = ''done''"
| "run_state_str run_state.Failed = ''failed''"
| "run_state_str run_state.Interrupted = ''interrupted''"
| "run_state_str Cancelled = ''cancelled''"

definition run_states :: "run_state list" where
  "run_states = [Draft, Queued, Running, AwaitingInput, AwaitingQuota, Done, run_state.Failed,
     run_state.Interrupted, Cancelled]"

interpretation run_state: sql_enum run_states run_state_str
proof unfold_locales
  fix v show "v \<in> set run_states" by (cases v) (auto simp: run_states_def)
qed (simp add: run_states_def)

datatype worktree_status = Active | Reclaimable | Cleaned

fun worktree_status_str :: "worktree_status \<Rightarrow> string" where
  "worktree_status_str Active = ''active''"
| "worktree_status_str Reclaimable = ''reclaimable''"
| "worktree_status_str Cleaned = ''cleaned''"

definition worktree_statuses :: "worktree_status list" where
  "worktree_statuses = [Active, Reclaimable, Cleaned]"

interpretation worktree_status: sql_enum worktree_statuses worktree_status_str
proof unfold_locales
  fix v show "v \<in> set worktree_statuses" by (cases v) (auto simp: worktree_statuses_def)
qed (simp add: worktree_statuses_def)

datatype attempt_outcome = Succeeded | Failed | ChangesRequested | Interrupted

fun attempt_outcome_str :: "attempt_outcome \<Rightarrow> string" where
  "attempt_outcome_str Succeeded = ''succeeded''"
| "attempt_outcome_str attempt_outcome.Failed = ''failed''"
| "attempt_outcome_str ChangesRequested = ''changes_requested''"
| "attempt_outcome_str attempt_outcome.Interrupted = ''interrupted''"

definition attempt_outcomes :: "attempt_outcome list" where
  "attempt_outcomes =
     [Succeeded, attempt_outcome.Failed, ChangesRequested, attempt_outcome.Interrupted]"

interpretation attempt_outcome: sql_enum attempt_outcomes attempt_outcome_str
proof unfold_locales
  fix v show "v \<in> set attempt_outcomes" by (cases v) (auto simp: attempt_outcomes_def)
qed (simp add: attempt_outcomes_def)

datatype retry_trigger = User | Praetor | Coordinator

fun retry_trigger_str :: "retry_trigger \<Rightarrow> string" where
  "retry_trigger_str retry_trigger.User = ''user''"
| "retry_trigger_str retry_trigger.Praetor = ''praetor''"
| "retry_trigger_str retry_trigger.Coordinator = ''coordinator''"

definition retry_triggers :: "retry_trigger list" where
  "retry_triggers = [retry_trigger.User, retry_trigger.Praetor, retry_trigger.Coordinator]"

interpretation retry_trigger: sql_enum retry_triggers retry_trigger_str
proof unfold_locales
  fix v show "v \<in> set retry_triggers" by (cases v) (auto simp: retry_triggers_def)
qed (simp add: retry_triggers_def)

datatype event_class = Agent | Infra

fun event_class_str :: "event_class \<Rightarrow> string" where
  "event_class_str Agent = ''agent''"
| "event_class_str Infra = ''infra''"

definition event_classes :: "event_class list" where
  "event_classes = [Agent, Infra]"

interpretation event_class: sql_enum event_classes event_class_str
proof unfold_locales
  fix v show "v \<in> set event_classes" by (cases v) (auto simp: event_classes_def)
qed (simp add: event_classes_def)

datatype question_kind = Question | Approval

fun question_kind_str :: "question_kind \<Rightarrow> string" where
  "question_kind_str Question = ''question''"
| "question_kind_str Approval = ''approval''"

definition question_kinds :: "question_kind list" where
  "question_kinds = [Question, Approval]"

interpretation question_kind: sql_enum question_kinds question_kind_str
proof unfold_locales
  fix v show "v \<in> set question_kinds" by (cases v) (auto simp: question_kinds_def)
qed (simp add: question_kinds_def)

datatype question_author = Praetor | User

fun question_author_str :: "question_author \<Rightarrow> string" where
  "question_author_str question_author.Praetor = ''praetor''"
| "question_author_str question_author.User = ''user''"

definition question_authors :: "question_author list" where
  "question_authors = [question_author.Praetor, question_author.User]"

interpretation question_author: sql_enum question_authors question_author_str
proof unfold_locales
  fix v show "v \<in> set question_authors" by (cases v) (auto simp: question_authors_def)
qed (simp add: question_authors_def)

datatype question_state = Open | Answered | Delivered | Expired

fun question_state_str :: "question_state \<Rightarrow> string" where
  "question_state_str Open = ''open''"
| "question_state_str Answered = ''answered''"
| "question_state_str Delivered = ''delivered''"
| "question_state_str Expired = ''expired''"

definition question_states :: "question_state list" where
  "question_states = [Open, Answered, Delivered, Expired]"

interpretation question_state: sql_enum question_states question_state_str
proof unfold_locales
  fix v show "v \<in> set question_states" by (cases v) (auto simp: question_states_def)
qed (simp add: question_states_def)

datatype evidence_class = Deterministic | Inferential | Insufficient

fun evidence_class_str :: "evidence_class \<Rightarrow> string" where
  "evidence_class_str Deterministic = ''deterministic''"
| "evidence_class_str Inferential = ''inferential''"
| "evidence_class_str Insufficient = ''insufficient''"

definition evidence_classes :: "evidence_class list" where
  "evidence_classes = [Deterministic, Inferential, Insufficient]"

interpretation evidence_class: sql_enum evidence_classes evidence_class_str
proof unfold_locales
  fix v show "v \<in> set evidence_classes" by (cases v) (auto simp: evidence_classes_def)
qed (simp add: evidence_classes_def)

datatype causal_disposition = CandidateCaused | PreExisting | Unknown

fun causal_disposition_str :: "causal_disposition \<Rightarrow> string" where
  "causal_disposition_str CandidateCaused = ''candidate_caused''"
| "causal_disposition_str PreExisting = ''pre_existing''"
| "causal_disposition_str Unknown = ''unknown''"

definition causal_dispositions :: "causal_disposition list" where
  "causal_dispositions = [CandidateCaused, PreExisting, Unknown]"

interpretation causal_disposition: sql_enum causal_dispositions causal_disposition_str
proof unfold_locales
  fix v show "v \<in> set causal_dispositions" by (cases v) (auto simp: causal_dispositions_def)
qed (simp add: causal_dispositions_def)

datatype quota_state = Ok | Capped

fun quota_state_str :: "quota_state \<Rightarrow> string" where
  "quota_state_str Ok = ''ok''"
| "quota_state_str Capped = ''capped''"

definition quota_states :: "quota_state list" where
  "quota_states = [Ok, Capped]"

interpretation quota_state: sql_enum quota_states quota_state_str
proof unfold_locales
  fix v show "v \<in> set quota_states" by (cases v) (auto simp: quota_states_def)
qed (simp add: quota_states_def)

section \<open>Rows\<close>

record run_row =
  rr_id :: "i64 option"
  rr_repo_id :: string
  rr_repo_root :: string
  rr_remote_url :: "string option"
  rr_external_ref :: "string option"
  rr_parent_run_id :: "i64 option"
  rr_task :: string
  rr_scope :: string
  rr_dod :: string
  rr_genesis_paths :: "jtext option"
  rr_state :: run_state
  rr_priority :: i64
  rr_dep_run_id :: "i64 option"
  rr_provider :: string
  rr_budget_tokens :: "i64 option"
  rr_worktree_path :: "string option"
  rr_worktree_status :: "worktree_status option"
  rr_created_at :: i64
  rr_result :: "string option"

record attempt_row =
  at_id :: "i64 option"
  at_run_id :: i64
  at_n :: i64
  at_session_id :: "i64 option"
  at_session_attempt_id :: "i64 option"
  at_started_at :: i64
  at_ended_at :: "i64 option"
  at_outcome :: "attempt_outcome option"
  at_retry_trigger :: "retry_trigger option"
  at_tokens :: "i64 option"
  at_cost_micros :: "i64 option"

record event_row =
  ev_id :: "i64 option"
  ev_run_id :: "i64 option"
  ev_type :: string
  ev_class :: event_class
  ev_payload :: jtext
  ev_ts :: i64

record question_row =
  qu_id :: "i64 option"
  qu_run_id :: i64
  qu_kind :: question_kind
  qu_blocked_decision :: string
  qu_options :: jtext
  qu_recommendation :: "string option"
  qu_answer :: "string option"
  qu_author :: "question_author option"
  qu_expires_at :: "i64 option"
  qu_tree_hash :: "string option"
  qu_paths_digest :: "string option"
  qu_state :: question_state
  qu_created_at :: i64

record finding_row =
  fi_id :: "i64 option"
  fi_run_id :: i64
  fi_checkpoint_id :: "i64 option"
  fi_description :: string
  fi_evidence_class :: evidence_class
  fi_proof_refs :: jtext
  fi_causal_disposition :: causal_disposition
  fi_created_at :: i64

record provider_row =
  pr_provider :: string
  pr_quota_state :: quota_state
  pr_reset_at :: "i64 option"
  pr_updated_at :: i64

record run_health_row =
  rh_run_id :: i64
  rh_last_progress_turn :: "i64 option"
  rh_noop_turns :: i64
  rh_failing_test_signature :: "string option"
  rh_tokens_since_progress :: i64
  rh_updated_at :: i64

text \<open>
  The database as the control plane sees it. \<open>db_sessions\<close> and \<open>db_session_attempts\<close>
  are the ids of the session tables, which other components write and the control
  plane only references.
\<close>

record db =
  db_runs :: "run_row list"
  db_attempts :: "attempt_row list"
  db_events :: "event_row list"
  db_questions :: "question_row list"
  db_findings :: "finding_row list"
  db_providers :: "provider_row list"
  db_health :: "run_health_row list"
  db_sessions :: "i64 list"
  db_session_attempts :: "i64 list"

definition empty_db :: db where
  "empty_db = \<lparr>db_runs = [], db_attempts = [], db_events = [], db_questions = [],
     db_findings = [], db_providers = [], db_health = [], db_sessions = [],
     db_session_attempts = []\<rparr>"

interpretation runs: sql_table rr_id "\<lambda>i. rr_id_update (\<lambda>_. Some i)"
  by unfold_locales simp
interpretation attempts: sql_table at_id "\<lambda>i. at_id_update (\<lambda>_. Some i)"
  by unfold_locales simp
interpretation events: sql_table ev_id "\<lambda>i. ev_id_update (\<lambda>_. Some i)"
  by unfold_locales simp
interpretation questions: sql_table qu_id "\<lambda>i. qu_id_update (\<lambda>_. Some i)"
  by unfold_locales simp
interpretation findings: sql_table fi_id "\<lambda>i. fi_id_update (\<lambda>_. Some i)"
  by unfold_locales simp

section \<open>Constraints of the schema\<close>

text \<open>A constraint on a nullable column holds of \<open>NULL\<close>.\<close>

definition null_or :: "('a \<Rightarrow> bool) \<Rightarrow> 'a option \<Rightarrow> bool" where
  "null_or p x = (case x of None \<Rightarrow> True | Some a \<Rightarrow> p a)"

lemma null_or_simps [simp]: "null_or p None" "null_or p (Some a) = p a"
  by (simp_all add: null_or_def)

lemma null_or_mono: "null_or p x \<Longrightarrow> (\<And>a. p a \<Longrightarrow> q a) \<Longrightarrow> null_or q x"
  by (cases x) auto

definition run_exists :: "run_row list \<Rightarrow> i64 \<Rightarrow> bool" where
  "run_exists runs i \<longleftrightarrow> (\<exists>r \<in> set runs. rr_id r = Some i)"

definition event_exists :: "event_row list \<Rightarrow> i64 \<Rightarrow> bool" where
  "event_exists events i \<longleftrightarrow> (\<exists>e \<in> set events. ev_id e = Some i)"

definition run_checks :: "run_row \<Rightarrow> bool" where
  "run_checks r \<longleftrightarrow>
     rr_repo_id r \<noteq> '''' \<and> rr_repo_root r \<noteq> '''' \<and> rr_task r \<noteq> '''' \<and>
     null_or json_is_array (rr_genesis_paths r) \<and>
     rr_provider r \<noteq> '''' \<and> null_or (\<lambda>b. 0 \<le> b) (rr_budget_tokens r) \<and>
     null_or (\<lambda>p. rr_id r \<noteq> Some p) (rr_parent_run_id r) \<and>
     null_or (\<lambda>d. rr_id r \<noteq> Some d) (rr_dep_run_id r)"

definition run_fks :: "run_row list \<Rightarrow> run_row \<Rightarrow> bool" where
  "run_fks runs r \<longleftrightarrow>
     null_or (run_exists runs) (rr_parent_run_id r) \<and> null_or (run_exists runs) (rr_dep_run_id r)"

definition attempt_checks :: "attempt_row \<Rightarrow> bool" where
  "attempt_checks a \<longleftrightarrow>
     0 < at_n a \<and> null_or (\<lambda>t. 0 \<le> t) (at_tokens a) \<and> null_or (\<lambda>c. 0 \<le> c) (at_cost_micros a) \<and>
     ((at_ended_at a = None) = (at_outcome a = None))"

definition attempt_fks :: "db \<Rightarrow> attempt_row \<Rightarrow> bool" where
  "attempt_fks d a \<longleftrightarrow>
     run_exists (db_runs d) (at_run_id a) \<and>
     null_or (\<lambda>s. s \<in> set (db_sessions d)) (at_session_id a) \<and>
     null_or (\<lambda>s. s \<in> set (db_session_attempts d)) (at_session_attempt_id a)"

definition attempt_key :: "attempt_row \<Rightarrow> i64 \<times> i64" where
  "attempt_key a = (at_run_id a, at_n a)"

definition event_checks :: "event_row \<Rightarrow> bool" where
  "event_checks e \<longleftrightarrow> ev_type e \<noteq> '''' \<and> json_valid (ev_payload e)"

definition event_fks :: "run_row list \<Rightarrow> event_row \<Rightarrow> bool" where
  "event_fks runs e \<longleftrightarrow> null_or (run_exists runs) (ev_run_id e)"

definition question_checks :: "question_row \<Rightarrow> bool" where
  "question_checks q \<longleftrightarrow>
     qu_blocked_decision q \<noteq> '''' \<and> json_is_array (qu_options q) \<and>
     null_or (\<lambda>t. t \<noteq> '''') (qu_tree_hash q) \<and> null_or (\<lambda>p. p \<noteq> '''') (qu_paths_digest q) \<and>
     ((qu_answer q = None) = (qu_author q = None)) \<and>
     (qu_state q \<in> {Open, Expired} \<or> qu_answer q \<noteq> None) \<and>
     ((qu_kind q = Approval) = (qu_tree_hash q \<noteq> None)) \<and>
     ((qu_tree_hash q = None) = (qu_paths_digest q = None))"

definition question_fks :: "run_row list \<Rightarrow> question_row \<Rightarrow> bool" where
  "question_fks runs q \<longleftrightarrow> run_exists runs (qu_run_id q)"

definition finding_checks :: "finding_row \<Rightarrow> bool" where
  "finding_checks f \<longleftrightarrow> fi_description f \<noteq> '''' \<and> json_is_array (fi_proof_refs f)"

definition finding_fks :: "db \<Rightarrow> finding_row \<Rightarrow> bool" where
  "finding_fks d f \<longleftrightarrow>
     run_exists (db_runs d) (fi_run_id f) \<and> null_or (event_exists (db_events d)) (fi_checkpoint_id f)"

definition provider_checks :: "provider_row \<Rightarrow> bool" where
  "provider_checks p \<longleftrightarrow> pr_provider p \<noteq> ''''"

definition health_checks :: "run_health_row \<Rightarrow> bool" where
  "health_checks h \<longleftrightarrow>
     null_or (\<lambda>t. 0 \<le> t) (rh_last_progress_turn h) \<and> 0 \<le> rh_noop_turns h \<and>
     0 \<le> rh_tokens_since_progress h"

text \<open>The state every statement keeps: ids, keys, checks and references all hold.\<close>

definition db_wf :: "db \<Rightarrow> bool" where
  "db_wf d \<longleftrightarrow>
     tbl_ok rr_id (db_runs d) \<and>
     (\<forall>r \<in> set (db_runs d). run_checks r \<and> run_fks (db_runs d) r) \<and>
     tbl_ok at_id (db_attempts d) \<and>
     (\<forall>a \<in> set (db_attempts d). attempt_checks a \<and> attempt_fks d a) \<and>
     distinct (map attempt_key (db_attempts d)) \<and>
     tbl_ok ev_id (db_events d) \<and>
     (\<forall>e \<in> set (db_events d). event_checks e \<and> event_fks (db_runs d) e) \<and>
     tbl_ok qu_id (db_questions d) \<and>
     (\<forall>q \<in> set (db_questions d). question_checks q \<and> question_fks (db_runs d) q) \<and>
     tbl_ok fi_id (db_findings d) \<and>
     (\<forall>f \<in> set (db_findings d). finding_checks f \<and> finding_fks d f) \<and>
     distinct (map pr_provider (db_providers d)) \<and>
     (\<forall>p \<in> set (db_providers d). provider_checks p) \<and>
     distinct (map rh_run_id (db_health d)) \<and>
     (\<forall>h \<in> set (db_health d). health_checks h \<and> run_exists (db_runs d) (rh_run_id h))"

lemma tbl_ok_Nil [simp]: "tbl_ok rid []"
  by (simp add: tbl_ok_def)

lemma empty_db_wf: "db_wf empty_db"
  by (simp add: db_wf_def empty_db_def)

lemma run_exists_sub:
  "run_exists runs i \<Longrightarrow> (\<And>r. r \<in> set runs \<Longrightarrow> \<exists>r' \<in> set runs'. rr_id r' = rr_id r) \<Longrightarrow>
     run_exists runs' i"
  by (fastforce simp: run_exists_def)

lemma run_exists_append: "run_exists runs i \<Longrightarrow> run_exists (runs @ rs) i"
  by (auto simp: run_exists_def)

lemma run_exists_update:
  "(\<And>r. rr_id (f r) = rr_id r) \<Longrightarrow> run_exists (sql_update p f runs) i = run_exists runs i"
  by (simp add: run_exists_def bex_sql_update if_distrib [of rr_id] cong: if_cong)

lemma event_exists_append: "event_exists events i \<Longrightarrow> event_exists (events @ es) i"
  by (auto simp: event_exists_def)

text \<open>Which tables a reference check reads.\<close>

lemma attempt_fks_frame [simp]:
  "attempt_fks (d\<lparr>db_attempts := as\<rparr>) a = attempt_fks d a"
  "attempt_fks (d\<lparr>db_events := es\<rparr>) a = attempt_fks d a"
  "attempt_fks (d\<lparr>db_questions := qs\<rparr>) a = attempt_fks d a"
  "attempt_fks (d\<lparr>db_findings := fs\<rparr>) a = attempt_fks d a"
  "attempt_fks (d\<lparr>db_providers := ps\<rparr>) a = attempt_fks d a"
  "attempt_fks (d\<lparr>db_health := hs\<rparr>) a = attempt_fks d a"
  by (simp_all add: attempt_fks_def)

lemma finding_fks_frame [simp]:
  "finding_fks (d\<lparr>db_attempts := as\<rparr>) f = finding_fks d f"
  "finding_fks (d\<lparr>db_questions := qs\<rparr>) f = finding_fks d f"
  "finding_fks (d\<lparr>db_findings := fs\<rparr>) f = finding_fks d f"
  "finding_fks (d\<lparr>db_providers := ps\<rparr>) f = finding_fks d f"
  "finding_fks (d\<lparr>db_health := hs\<rparr>) f = finding_fks d f"
  by (simp_all add: finding_fks_def)

lemma fks_runs:
  "run_exists runs = run_exists (db_runs d) \<Longrightarrow> attempt_fks (d\<lparr>db_runs := runs\<rparr>) a = attempt_fks d a"
  "run_exists runs = run_exists (db_runs d) \<Longrightarrow> finding_fks (d\<lparr>db_runs := runs\<rparr>) f = finding_fks d f"
  by (simp_all add: attempt_fks_def finding_fks_def)

lemma fks_runs_append:
  "run_fks runs r \<Longrightarrow> run_fks (runs @ rs) r"
  "event_fks runs e \<Longrightarrow> event_fks (runs @ rs) e"
  "question_fks runs q \<Longrightarrow> question_fks (runs @ rs) q"
  "attempt_fks d a \<Longrightarrow> attempt_fks (d\<lparr>db_runs := db_runs d @ rs\<rparr>) a"
  "finding_fks d f \<Longrightarrow> finding_fks (d\<lparr>db_runs := db_runs d @ rs\<rparr>) f"
  by (auto simp: run_fks_def event_fks_def question_fks_def attempt_fks_def finding_fks_def
      run_exists_append elim!: null_or_mono)

lemma finding_fks_events_append:
  "finding_fks d f \<Longrightarrow> finding_fks (d\<lparr>db_events := db_events d @ es\<rparr>) f"
  by (auto simp: finding_fks_def event_exists_append elim!: null_or_mono)

text \<open>
  Every stored enum text reads back as the variant it was written from, and nothing
  else does.
\<close>

lemmas enum_round_trips =
  run_state.parse_str worktree_status.parse_str attempt_outcome.parse_str retry_trigger.parse_str
  event_class.parse_str question_kind.parse_str question_author.parse_str question_state.parse_str
  evidence_class.parse_str causal_disposition.parse_str quota_state.parse_str

end
