(* ===== verification/Store.thy ===== *)
theory Store
  imports Schema
begin

text \<open>
  The control-plane store of crates/agens-store/src/control_plane.rs: every statement
  it executes, on the database record of theory Schema.

  A statement is a function from the database to an error or the new database with
  what the statement returned. A transaction is a sequence of statements on a working
  copy: \<open>commit\<close> publishes the copy if the sequence ended well and drops it otherwise,
  which is the rollback of a transaction that goes out of scope. A violated constraint
  is \<open>Storage\<close> with the table that refused the row; a conditional write that matched
  no row is a \<open>Conflict\<close>. I/O failures of the database file are not modelled, so
  reads are plain functions.
\<close>

section \<open>Errors and transactions\<close>

datatype conflict =
    RunMoved i64 run_state
  | WorktreeMoved i64 worktree_status
  | QuestionMoved i64 i64 question_state
  | NotCorrelatable i64

datatype store_error = Conflict conflict | Storage string

definition is_conflict :: "store_error \<Rightarrow> bool" where
  "is_conflict e = (case e of Conflict c \<Rightarrow> True | Storage s \<Rightarrow> False)"

definition commit :: "db \<Rightarrow> 'e + db \<times> 'a \<Rightarrow> db \<times> ('e + 'a)" where
  "commit d r = (case r of Inl e \<Rightarrow> (d, Inl e) | Inr (d', a) \<Rightarrow> (d', Inr a))"

lemma commit_simps [simp]:
  "commit d (Inl e) = (d, Inl e)" "commit d (Inr (d', a)) = (d', Inr a)"
  by (simp_all add: commit_def)

lemma commit_Inl_iff: "commit d r = (d', Inl e) \<longleftrightarrow> d' = d \<and> r = Inl e"
  by (auto simp: commit_def split: sum.splits prod.splits)

lemma commit_Inr_iff: "commit d r = (d', Inr a) \<longleftrightarrow> r = Inr (d', a)"
  by (auto simp: commit_def split: sum.splits prod.splits)

section \<open>Row statements\<close>

definition insert_run_row :: "db \<Rightarrow> run_row \<Rightarrow> store_error + db \<times> i64" where
  "insert_run_row d r =
     (let (rows, i) = sql_insert rr_id (\<lambda>i. rr_id_update (\<lambda>_. Some i)) r (db_runs d)
      in if run_checks (r\<lparr>rr_id := Some i\<rparr>) \<and> run_fks rows r
         then Inr (d\<lparr>db_runs := rows\<rparr>, i) else Inl (Storage ''runs''))"

definition insert_attempt_row :: "db \<Rightarrow> attempt_row \<Rightarrow> store_error + db \<times> i64" where
  "insert_attempt_row d a =
     (let (rows, i) = sql_insert at_id (\<lambda>i. at_id_update (\<lambda>_. Some i)) a (db_attempts d)
      in if attempt_checks a \<and> attempt_fks d a \<and> attempt_key a \<notin> set (map attempt_key (db_attempts d))
         then Inr (d\<lparr>db_attempts := rows\<rparr>, i) else Inl (Storage ''attempts''))"

definition close_open_attempts :: "db \<Rightarrow> i64 \<Rightarrow> i64 \<Rightarrow> attempt_outcome \<Rightarrow> db \<times> nat" where
  "close_open_attempts d run_id ended_at outcome =
     (let p = (\<lambda>a. at_run_id a = run_id \<and> at_ended_at a = None \<and> at_outcome a = None)
      in (d\<lparr>db_attempts := sql_update p (\<lambda>a. a\<lparr>at_ended_at := Some ended_at, at_outcome := Some outcome\<rparr>)
              (db_attempts d)\<rparr>,
          sql_count p (db_attempts d)))"

definition insert_question_row :: "db \<Rightarrow> question_row \<Rightarrow> store_error + db \<times> i64" where
  "insert_question_row d q =
     (let (rows, i) = sql_insert qu_id (\<lambda>i. qu_id_update (\<lambda>_. Some i)) q (db_questions d)
      in if question_checks q \<and> question_fks (db_runs d) q
         then Inr (d\<lparr>db_questions := rows\<rparr>, i) else Inl (Storage ''questions''))"

definition insert_finding_row :: "db \<Rightarrow> finding_row \<Rightarrow> store_error + db \<times> i64" where
  "insert_finding_row d f =
     (let (rows, i) = sql_insert fi_id (\<lambda>i. fi_id_update (\<lambda>_. Some i)) f (db_findings d)
      in if finding_checks f \<and> finding_fks d f
         then Inr (d\<lparr>db_findings := rows\<rparr>, i) else Inl (Storage ''findings''))"

definition append_event_row :: "db \<Rightarrow> event_row \<Rightarrow> store_error + db \<times> i64" where
  "append_event_row d e =
     (let (rows, i) = sql_insert ev_id (\<lambda>i. ev_id_update (\<lambda>_. Some i)) e (db_events d)
      in if event_checks e \<and> event_fks (db_runs d) e
         then Inr (d\<lparr>db_events := rows\<rparr>, i) else Inl (Storage ''events''))"

definition sql_upsert :: "('r \<Rightarrow> 'k) \<Rightarrow> 'r \<Rightarrow> 'r list \<Rightarrow> 'r list" where
  "sql_upsert key r rows =
     (if key r \<in> set (map key rows) then sql_update (\<lambda>r'. key r' = key r) (\<lambda>_. r) rows
      else rows @ [r])"

definition record_run_health_row :: "db \<Rightarrow> run_health_row \<Rightarrow> store_error + db" where
  "record_run_health_row d h =
     (if health_checks h \<and> run_exists (db_runs d) (rh_run_id h)
      then Inr (d\<lparr>db_health := sql_upsert rh_run_id h (db_health d)\<rparr>) else Inl (Storage ''run_health''))"

definition record_provider_row :: "db \<Rightarrow> provider_row \<Rightarrow> store_error + db" where
  "record_provider_row d p =
     (if provider_checks p
      then Inr (d\<lparr>db_providers := sql_upsert pr_provider p (db_providers d)\<rparr>)
      else Inl (Storage ''providers''))"

definition opened_question_id_key :: string where
  "opened_question_id_key = ''opened_question_id''"

definition fill_opened_question_slot :: "event_row \<Rightarrow> i64 option \<Rightarrow> event_row option" where
  "fill_opened_question_slot e question_id =
     (case question_id of None \<Rightarrow> None
      | Some qid \<Rightarrow> (case from_str (ev_payload e) of
          Some (JObject fs) \<Rightarrow>
            (if map_of fs opened_question_id_key = Some JNull
             then Some (e\<lparr>ev_payload :=
               JText (JObject (insert_field opened_question_id_key (JInt qid) fs))\<rparr>)
             else None)
        | _ \<Rightarrow> None))"

section \<open>One applied transition\<close>

record 's state_change =
  sc_expected :: 's
  sc_next :: 's

record question_answer =
  qa_answer :: string
  qa_author :: question_author

record question_change =
  qc_question_id :: i64
  qc_expected :: question_state
  qc_next :: question_state
  qc_answer :: "question_answer option"

record attempt_close =
  ac_ended_at :: i64
  ac_outcome :: attempt_outcome

record transition_write =
  tw_run_id :: i64
  tw_run_state :: "run_state state_change option"
  tw_worktree_status :: "worktree_status state_change option"
  tw_question :: "question_change option"
  tw_new_question :: "question_row option"
  tw_attempt :: "attempt_row option"
  tw_close_attempt :: "attempt_close option"
  tw_result :: "string option"
  tw_provider :: "provider_row option"
  tw_events :: "event_row list"

record transition_outcome =
  to_event_ids :: "i64 list"
  to_attempt_id :: "i64 option"
  to_closed_attempts :: nat
  to_question_id :: "i64 option"

definition write_run_state :: "i64 \<Rightarrow> run_state state_change option \<Rightarrow> db \<Rightarrow> store_error + db" where
  "write_run_state run_id change d =
     (case change of None \<Rightarrow> Inr d
      | Some c \<Rightarrow>
          (let p = (\<lambda>r. rr_id r = Some run_id \<and> rr_state r = sc_expected c)
           in if sql_count p (db_runs d) \<noteq> 1 then Inl (Conflict (RunMoved run_id (sc_expected c)))
              else Inr (d\<lparr>db_runs := sql_update p (\<lambda>r. r\<lparr>rr_state := sc_next c\<rparr>) (db_runs d)\<rparr>)))"

definition write_worktree_status ::
  "i64 \<Rightarrow> worktree_status state_change option \<Rightarrow> db \<Rightarrow> store_error + db" where
  "write_worktree_status run_id change d =
     (case change of None \<Rightarrow> Inr d
      | Some c \<Rightarrow>
          (let p = (\<lambda>r. rr_id r = Some run_id \<and> rr_worktree_status r = Some (sc_expected c))
           in if sql_count p (db_runs d) \<noteq> 1
              then Inl (Conflict (WorktreeMoved run_id (sc_expected c)))
              else Inr (d\<lparr>db_runs :=
                     sql_update p (\<lambda>r. r\<lparr>rr_worktree_status := Some (sc_next c)\<rparr>) (db_runs d)\<rparr>)))"

text \<open>
  The row an \<open>UPDATE questions\<close> leaves is checked again: moving a question on without
  an answer has to be a move the \<open>CHECK\<close> allows.
\<close>

definition change_question :: "question_change \<Rightarrow> question_row \<Rightarrow> question_row" where
  "change_question c q =
     (case qc_answer c of
        Some a \<Rightarrow> q\<lparr>qu_state := qc_next c, qu_answer := Some (qa_answer a), qu_author := Some (qa_author a)\<rparr>
      | None \<Rightarrow> q\<lparr>qu_state := qc_next c\<rparr>)"

definition write_question :: "i64 \<Rightarrow> question_change option \<Rightarrow> db \<Rightarrow> store_error + db" where
  "write_question run_id change d =
     (case change of None \<Rightarrow> Inr d
      | Some c \<Rightarrow>
          (let p = (\<lambda>q. qu_id q = Some (qc_question_id c) \<and> qu_run_id q = run_id \<and>
                       qu_state q = qc_expected c)
           in if \<not> list_all (\<lambda>q. p q \<longrightarrow> question_checks (change_question c q)) (db_questions d)
              then Inl (Storage ''questions'')
              else if sql_count p (db_questions d) \<noteq> 1
              then Inl (Conflict (QuestionMoved (qc_question_id c) run_id (qc_expected c)))
              else Inr (d\<lparr>db_questions := sql_update p (change_question c) (db_questions d)\<rparr>)))"

definition write_result :: "i64 \<Rightarrow> string option \<Rightarrow> db \<Rightarrow> db" where
  "write_result run_id result d =
     (case result of None \<Rightarrow> d
      | Some text \<Rightarrow> d\<lparr>db_runs := sql_update (\<lambda>r. rr_id r = Some run_id)
                          (\<lambda>r. r\<lparr>rr_result := Some text\<rparr>) (db_runs d)\<rparr>)"

definition write_new_question :: "question_row option \<Rightarrow> db \<Rightarrow> store_error + db \<times> i64 option" where
  "write_new_question question d =
     (case question of None \<Rightarrow> Inr (d, None)
      | Some q \<Rightarrow> and_then (insert_question_row d q) (\<lambda>(d', i). Inr (d', Some i)))"

definition write_close_attempt :: "i64 \<Rightarrow> attempt_close option \<Rightarrow> db \<Rightarrow> db \<times> nat" where
  "write_close_attempt run_id close d =
     (case close of None \<Rightarrow> (d, 0)
      | Some c \<Rightarrow> close_open_attempts d run_id (ac_ended_at c) (ac_outcome c))"

definition write_attempt :: "attempt_row option \<Rightarrow> db \<Rightarrow> store_error + db \<times> i64 option" where
  "write_attempt attempt d =
     (case attempt of None \<Rightarrow> Inr (d, None)
      | Some a \<Rightarrow> and_then (insert_attempt_row d a) (\<lambda>(d', i). Inr (d', Some i)))"

definition write_provider :: "provider_row option \<Rightarrow> db \<Rightarrow> store_error + db" where
  "write_provider provider d =
     (case provider of None \<Rightarrow> Inr d | Some p \<Rightarrow> record_provider_row d p)"

fun write_events :: "i64 option \<Rightarrow> event_row list \<Rightarrow> db \<Rightarrow> store_error + db \<times> i64 list" where
  "write_events question_id [] d = Inr (d, [])"
| "write_events question_id (e # es) d =
     (let row = (case fill_opened_question_slot e question_id of None \<Rightarrow> e | Some filled \<Rightarrow> filled)
      in and_then (append_event_row d row) (\<lambda>(d1, i).
         and_then (write_events question_id es d1) (\<lambda>(d2, ids). Inr (d2, i # ids))))"

text \<open>The conditional state changes come first; the rows they add follow.\<close>

definition transition_changes :: "transition_write \<Rightarrow> db \<Rightarrow> store_error + db" where
  "transition_changes w d =
     and_then (write_run_state (tw_run_id w) (tw_run_state w) d) (\<lambda>d1.
     and_then (write_worktree_status (tw_run_id w) (tw_worktree_status w) d1) (\<lambda>d2.
     write_question (tw_run_id w) (tw_question w) d2))"

definition transition_rows :: "transition_write \<Rightarrow> db \<Rightarrow> store_error + db \<times> transition_outcome" where
  "transition_rows w d =
     and_then (write_new_question (tw_new_question w) d) (\<lambda>(d5, question_id).
     let closed = write_close_attempt (tw_run_id w) (tw_close_attempt w) d5 in
     and_then (write_attempt (tw_attempt w) (fst closed)) (\<lambda>(d7, attempt_id).
     and_then (write_provider (tw_provider w) d7) (\<lambda>d8.
     and_then (write_events question_id (tw_events w) d8) (\<lambda>(d9, event_ids).
     Inr (d9, \<lparr>to_event_ids = event_ids, to_attempt_id = attempt_id,
               to_closed_attempts = snd closed, to_question_id = question_id\<rparr>)))))"

definition transition_tx :: "transition_write \<Rightarrow> db \<Rightarrow> store_error + db \<times> transition_outcome" where
  "transition_tx w d =
     and_then (transition_changes w d) (\<lambda>d3.
     transition_rows w (write_result (tw_run_id w) (tw_result w) d3))"

definition apply_transition :: "db \<Rightarrow> transition_write \<Rightarrow> db \<times> (store_error + transition_outcome)" where
  "apply_transition d w = commit d (transition_tx w d)"

section \<open>The store's other writes\<close>

definition insert_run :: "db \<Rightarrow> run_row \<Rightarrow> db \<times> (store_error + i64)" where
  "insert_run d r = commit d (insert_run_row d r)"

definition insert_attempt :: "db \<Rightarrow> attempt_row \<Rightarrow> db \<times> (store_error + i64)" where
  "insert_attempt d a = commit d (insert_attempt_row d a)"

definition append_event :: "db \<Rightarrow> event_row \<Rightarrow> db \<times> (store_error + i64)" where
  "append_event d e = commit d (append_event_row d e)"

definition insert_question :: "db \<Rightarrow> question_row \<Rightarrow> db \<times> (store_error + i64)" where
  "insert_question d q = commit d (insert_question_row d q)"

definition insert_finding :: "db \<Rightarrow> finding_row \<Rightarrow> db \<times> (store_error + i64)" where
  "insert_finding d f = commit d (insert_finding_row d f)"

definition record_provider :: "db \<Rightarrow> provider_row \<Rightarrow> db \<times> (store_error + unit)" where
  "record_provider d p = commit d (and_then (record_provider_row d p) (\<lambda>d'. Inr (d', ())))"

definition record_run_health :: "db \<Rightarrow> run_health_row \<Rightarrow> db \<times> (store_error + unit)" where
  "record_run_health d h = commit d (and_then (record_run_health_row d h) (\<lambda>d'. Inr (d', ())))"

definition correlate_attempt_row :: "db \<Rightarrow> i64 \<Rightarrow> i64 \<Rightarrow> store_error + db \<times> unit" where
  "correlate_attempt_row d attempt_id session_attempt_id =
     (let p = (\<lambda>a. at_id a = Some attempt_id \<and> at_ended_at a = None \<and>
                  (at_session_attempt_id a = None \<or> at_session_attempt_id a = Some session_attempt_id))
      in if sql_count p (db_attempts d) = 0 then Inl (Conflict (NotCorrelatable attempt_id))
         else if session_attempt_id \<notin> set (db_session_attempts d) then Inl (Storage ''attempts'')
         else Inr (d\<lparr>db_attempts :=
                sql_update p (\<lambda>a. a\<lparr>at_session_attempt_id := Some session_attempt_id\<rparr>) (db_attempts d)\<rparr>, ()))"

definition correlate_attempt :: "db \<Rightarrow> i64 \<Rightarrow> i64 \<Rightarrow> db \<times> (store_error + unit)" where
  "correlate_attempt d attempt_id session_attempt_id =
     commit d (correlate_attempt_row d attempt_id session_attempt_id)"

record checkpoint_write =
  cw_checkpoint_id :: i64
  cw_finding_ids :: "i64 list"

fun write_findings :: "i64 \<Rightarrow> finding_row list \<Rightarrow> db \<Rightarrow> store_error + db \<times> i64 list" where
  "write_findings checkpoint_id [] d = Inr (d, [])"
| "write_findings checkpoint_id (f # fs) d =
     and_then (insert_finding_row d (f\<lparr>fi_checkpoint_id := Some checkpoint_id\<rparr>)) (\<lambda>(d1, i).
     and_then (write_findings checkpoint_id fs d1) (\<lambda>(d2, ids). Inr (d2, i # ids)))"

definition record_checkpoint ::
  "db \<Rightarrow> event_row \<Rightarrow> finding_row list \<Rightarrow> db \<times> (store_error + checkpoint_write)" where
  "record_checkpoint d checkpoint findings = commit d (
     and_then (append_event_row d checkpoint) (\<lambda>(d1, checkpoint_id).
     and_then (write_findings checkpoint_id findings d1) (\<lambda>(d2, finding_ids).
     Inr (d2, \<lparr>cw_checkpoint_id = checkpoint_id, cw_finding_ids = finding_ids\<rparr>))))"

record ingest_write =
  iw_run_id :: i64
  iw_health :: run_health_row
  iw_freeze_genesis_paths :: "jtext option"
  iw_charge_attempt_tokens :: "i64 option"
  iw_events :: "event_row list"

record ingest_outcome =
  io_event_ids :: "i64 list"
  io_genesis_paths_frozen :: bool

definition freeze_genesis :: "i64 \<Rightarrow> jtext option \<Rightarrow> db \<Rightarrow> store_error + db \<times> bool" where
  "freeze_genesis run_id paths d =
     (case paths of None \<Rightarrow> Inr (d, False)
      | Some text \<Rightarrow>
          (let p = (\<lambda>r. rr_id r = Some run_id \<and> rr_genesis_paths r = None)
           in if sql_count p (db_runs d) \<noteq> 0 \<and> \<not> json_is_array text then Inl (Storage ''runs'')
              else Inr (d\<lparr>db_runs := sql_update p (\<lambda>r. r\<lparr>rr_genesis_paths := Some text\<rparr>) (db_runs d)\<rparr>,
                        sql_count p (db_runs d) = 1)))"

definition charge_tokens :: "i64 \<Rightarrow> i64 option \<Rightarrow> db \<Rightarrow> store_error + db" where
  "charge_tokens run_id tokens d =
     (case tokens of None \<Rightarrow> Inr d
      | Some n \<Rightarrow>
          (let p = (\<lambda>a. at_run_id a = run_id \<and> at_ended_at a = None);
               f = (\<lambda>a. a\<lparr>at_tokens := Some (case_option 0 id (at_tokens a) + n)\<rparr>)
           in if \<not> list_all (\<lambda>a. p a \<longrightarrow> attempt_checks (f a)) (db_attempts d)
              then Inl (Storage ''attempts'')
              else Inr (d\<lparr>db_attempts := sql_update p f (db_attempts d)\<rparr>)))"

definition apply_ingest :: "db \<Rightarrow> ingest_write \<Rightarrow> db \<times> (store_error + ingest_outcome)" where
  "apply_ingest d w = commit d (
     and_then (freeze_genesis (iw_run_id w) (iw_freeze_genesis_paths w) d) (\<lambda>(d1, frozen).
     and_then (charge_tokens (iw_run_id w) (iw_charge_attempt_tokens w) d1) (\<lambda>d2.
     and_then (record_run_health_row d2 (iw_health w)) (\<lambda>d3.
     and_then (write_events None (iw_events w) d3) (\<lambda>(d4, event_ids).
     Inr (d4, \<lparr>io_event_ids = event_ids, io_genesis_paths_frozen = frozen\<rparr>))))))"

section \<open>Reads\<close>

definition load_optional :: "'r list \<Rightarrow> 'r option" where
  "load_optional rows = (if rows = [] then None else Some (last rows))"

definition load_run :: "db \<Rightarrow> i64 \<Rightarrow> run_row option" where
  "load_run d i = load_optional (filter (\<lambda>r. rr_id r = Some i) (db_runs d))"

definition runs_for_repo :: "db \<Rightarrow> string \<Rightarrow> run_row list" where
  "runs_for_repo d repo = sql_select (\<lambda>r. rr_repo_id r = repo) (\<lambda>r. stored_id (rr_id r)) (db_runs d)"

definition run_repo_ids :: "db \<Rightarrow> string list" where
  "run_repo_ids d = sort (remdups (map rr_repo_id (db_runs d)))"

definition runs_in_state :: "db \<Rightarrow> run_state \<Rightarrow> run_row list" where
  "runs_in_state d s = sql_select (\<lambda>r. rr_state r = s) (\<lambda>r. stored_id (rr_id r)) (db_runs d)"

definition holds_worktree_in :: "run_state list \<Rightarrow> run_row \<Rightarrow> bool" where
  "holds_worktree_in states r \<longleftrightarrow>
     rr_state r \<in> set states \<and> rr_worktree_status r \<noteq> None \<and> rr_worktree_status r \<noteq> Some Cleaned"

definition held_worktrees_in :: "db \<Rightarrow> run_state list \<Rightarrow> nat" where
  "held_worktrees_in d states =
     (if states = [] then 0 else sql_count (holds_worktree_in states) (db_runs d))"

definition attempts_for_run :: "db \<Rightarrow> i64 \<Rightarrow> attempt_row list" where
  "attempts_for_run d i = sql_select (\<lambda>a. at_run_id a = i) at_n (db_attempts d)"

definition events_after :: "db \<Rightarrow> i64 \<Rightarrow> nat \<Rightarrow> event_row list" where
  "events_after d after limit =
     take limit (sql_select (\<lambda>e. after < stored_id (ev_id e)) (\<lambda>e. stored_id (ev_id e)) (db_events d))"

definition latest_event_id :: "db \<Rightarrow> i64" where
  "latest_event_id d =
     (case tbl_ids ev_id (db_events d) of [] \<Rightarrow> 0 | i # is \<Rightarrow> fold max is i)"

definition events_for_run :: "db \<Rightarrow> i64 \<Rightarrow> event_row list" where
  "events_for_run d i = sql_select (\<lambda>e. ev_run_id e = Some i) (\<lambda>e. stored_id (ev_id e)) (db_events d)"

definition events_of_type_for_run :: "db \<Rightarrow> i64 \<Rightarrow> string \<Rightarrow> event_row list" where
  "events_of_type_for_run d i t =
     sql_select (\<lambda>e. ev_run_id e = Some i \<and> ev_type e = t) (\<lambda>e. stored_id (ev_id e)) (db_events d)"

definition load_question :: "db \<Rightarrow> i64 \<Rightarrow> question_row option" where
  "load_question d i = load_optional (filter (\<lambda>q. qu_id q = Some i) (db_questions d))"

definition questions_for_run :: "db \<Rightarrow> i64 \<Rightarrow> question_row list" where
  "questions_for_run d i =
     sql_select (\<lambda>q. qu_run_id q = i) (\<lambda>q. stored_id (qu_id q)) (db_questions d)"

definition questions_past_expiry :: "db \<Rightarrow> i64 \<Rightarrow> question_row list" where
  "questions_past_expiry d now =
     sql_select (\<lambda>q. (case qu_expires_at q of None \<Rightarrow> False | Some at \<Rightarrow> at \<le> now) \<and>
                    qu_state q \<in> {Open, Answered})
       (\<lambda>q. stored_id (qu_id q)) (db_questions d)"

definition findings_for_run :: "db \<Rightarrow> i64 \<Rightarrow> finding_row list" where
  "findings_for_run d i =
     sql_select (\<lambda>f. fi_run_id f = i) (\<lambda>f. stored_id (fi_id f)) (db_findings d)"

definition load_provider :: "db \<Rightarrow> string \<Rightarrow> provider_row option" where
  "load_provider d name = load_optional (filter (\<lambda>p. pr_provider p = name) (db_providers d))"

definition provider_due :: "i64 \<Rightarrow> i64 option \<Rightarrow> provider_row \<Rightarrow> bool" where
  "provider_due now fallback_window p \<longleftrightarrow>
     pr_quota_state p = Capped \<and>
     (case pr_reset_at p of
        Some at \<Rightarrow> at \<le> now
      | None \<Rightarrow> (case fallback_window of None \<Rightarrow> False | Some w \<Rightarrow> pr_updated_at p + w \<le> now))"

definition providers_due :: "db \<Rightarrow> i64 \<Rightarrow> i64 option \<Rightarrow> provider_row list" where
  "providers_due d now fallback_window =
     sql_select (provider_due now fallback_window) pr_provider (db_providers d)"

definition load_run_health :: "db \<Rightarrow> i64 \<Rightarrow> run_health_row option" where
  "load_run_health d i = load_optional (filter (\<lambda>h. rh_run_id h = i) (db_health d))"

section \<open>Every statement keeps the constraints\<close>

lemma run_exists_sql_update [simp]:
  "(\<And>r. rr_id (f r) = rr_id r) \<Longrightarrow> run_exists (sql_update p f runs) = run_exists runs"
  by (simp add: fun_eq_iff run_exists_update)

lemma db_wf_update_runs:
  assumes wf: "db_wf d"
    and f: "\<And>r. rr_id (f r) = rr_id r" "\<And>r. rr_parent_run_id (f r) = rr_parent_run_id r"
      "\<And>r. rr_dep_run_id (f r) = rr_dep_run_id r"
    and chk: "\<And>r. r \<in> set (db_runs d) \<Longrightarrow> p r \<Longrightarrow> run_checks r \<Longrightarrow> run_checks (f r)"
  shows "db_wf (d\<lparr>db_runs := sql_update p f (db_runs d)\<rparr>)"
proof -
  have "\<forall>r \<in> set (sql_update p f (db_runs d)). run_checks r \<and> run_fks (db_runs d) r"
    using wf chk by (simp add: db_wf_def ball_sql_update run_fks_def f)
  then show ?thesis
    using wf runs.update_ok [OF f(1)] by (simp add: db_wf_def f fks_runs run_fks_def event_fks_def question_fks_def)
qed

lemma db_wf_update_attempts:
  assumes wf: "db_wf d"
    and f: "\<And>a. at_id (f a) = at_id a" "\<And>a. attempt_key (f a) = attempt_key a"
    and chk: "\<And>a. a \<in> set (db_attempts d) \<Longrightarrow> p a \<Longrightarrow> attempt_checks a \<Longrightarrow> attempt_fks d a \<Longrightarrow>
      attempt_checks (f a) \<and> attempt_fks d (f a)"
  shows "db_wf (d\<lparr>db_attempts := sql_update p f (db_attempts d)\<rparr>)"
proof -
  have "map attempt_key (sql_update p f (db_attempts d)) = map attempt_key (db_attempts d)"
    by (rule map_sql_update) (rule f(2))
  moreover have "\<forall>a \<in> set (sql_update p f (db_attempts d)). attempt_checks a \<and> attempt_fks d a"
    using wf chk by (auto simp: db_wf_def ball_sql_update)
  ultimately show ?thesis
    using wf attempts.update_ok [OF f(1)] by (simp add: db_wf_def)
qed

lemma db_wf_update_questions:
  assumes wf: "db_wf d"
    and f: "\<And>q. qu_id (f q) = qu_id q" "\<And>q. qu_run_id (f q) = qu_run_id q"
    and chk: "\<And>q. q \<in> set (db_questions d) \<Longrightarrow> p q \<Longrightarrow> question_checks (f q)"
  shows "db_wf (d\<lparr>db_questions := sql_update p f (db_questions d)\<rparr>)"
proof -
  have "\<forall>q \<in> set (sql_update p f (db_questions d)). question_checks q \<and> question_fks (db_runs d) q"
    using wf chk by (auto simp: db_wf_def ball_sql_update question_fks_def f)
  then show ?thesis
    using wf questions.update_ok [OF f(1)] by (simp add: db_wf_def)
qed

lemma sql_upsert_distinct:
  assumes "distinct (map key rows)" shows "distinct (map key (sql_upsert key r rows))"
proof -
  have "map key (sql_update (\<lambda>r'. key r' = key r) (\<lambda>_. r) rows) = map key rows"
    by (rule map_sql_update) simp
  with assms show ?thesis by (auto simp: sql_upsert_def)
qed

lemma in_sql_upsert: "x \<in> set (sql_upsert key r rows) \<Longrightarrow> x = r \<or> x \<in> set rows"
  by (auto simp: sql_upsert_def in_sql_update split: if_splits)

lemma row_checks_id [simp]:
  "attempt_checks (a\<lparr>at_id := i\<rparr>) = attempt_checks a"
  "attempt_fks d (a\<lparr>at_id := i\<rparr>) = attempt_fks d a"
  "attempt_key (a\<lparr>at_id := i\<rparr>) = attempt_key a"
  "question_checks (q\<lparr>qu_id := i\<rparr>) = question_checks q"
  "question_fks runs (q\<lparr>qu_id := i\<rparr>) = question_fks runs q"
  "finding_checks (f\<lparr>fi_id := i\<rparr>) = finding_checks f"
  "finding_fks d (f\<lparr>fi_id := i\<rparr>) = finding_fks d f"
  "event_checks (e\<lparr>ev_id := i\<rparr>) = event_checks e"
  "event_fks runs (e\<lparr>ev_id := i\<rparr>) = event_fks runs e"
  "run_fks runs (r\<lparr>rr_id := i\<rparr>) = run_fks runs r"
  by (simp_all add: attempt_checks_def attempt_fks_def attempt_key_def question_checks_def
      question_fks_def finding_checks_def finding_fks_def event_checks_def event_fks_def run_fks_def)

text \<open>What each insert adds, and where.\<close>

lemma insert_run_rowE:
  assumes "insert_run_row d r = Inr (d', i)"
  shows "d' = d\<lparr>db_runs := db_runs d @ [r\<lparr>rr_id := Some i\<rparr>]\<rparr>"
    and "run_checks (r\<lparr>rr_id := Some i\<rparr>)" "run_fks (db_runs d') r"
    and "tbl_ok rr_id (db_runs d) \<Longrightarrow> tbl_ok rr_id (db_runs d')"
    and "i = next_rowid (tbl_ids rr_id (db_runs d))"
  using assms runs.insert_ok [of "db_runs d" r]
  by (auto simp: insert_run_row_def Let_def sql_insert_def split: if_splits)

lemma insert_attempt_rowE:
  assumes "insert_attempt_row d a = Inr (d', i)"
  shows "d' = d\<lparr>db_attempts := db_attempts d @ [a\<lparr>at_id := Some i\<rparr>]\<rparr>"
    and "attempt_checks a" "attempt_fks d a" "attempt_key a \<notin> set (map attempt_key (db_attempts d))"
    and "tbl_ok at_id (db_attempts d) \<Longrightarrow> tbl_ok at_id (db_attempts d')"
  using assms attempts.insert_ok [of "db_attempts d" a]
  by (auto simp: insert_attempt_row_def Let_def sql_insert_def split: if_splits)

lemma insert_question_rowE:
  assumes "insert_question_row d q = Inr (d', i)"
  shows "d' = d\<lparr>db_questions := db_questions d @ [q\<lparr>qu_id := Some i\<rparr>]\<rparr>"
    and "question_checks q" "question_fks (db_runs d) q"
    and "tbl_ok qu_id (db_questions d) \<Longrightarrow> tbl_ok qu_id (db_questions d')"
  using assms questions.insert_ok [of "db_questions d" q]
  by (auto simp: insert_question_row_def Let_def sql_insert_def split: if_splits)

lemma insert_finding_rowE:
  assumes "insert_finding_row d f = Inr (d', i)"
  shows "d' = d\<lparr>db_findings := db_findings d @ [f\<lparr>fi_id := Some i\<rparr>]\<rparr>"
    and "finding_checks f" "finding_fks d f"
    and "tbl_ok fi_id (db_findings d) \<Longrightarrow> tbl_ok fi_id (db_findings d')"
  using assms findings.insert_ok [of "db_findings d" f]
  by (auto simp: insert_finding_row_def Let_def sql_insert_def split: if_splits)

lemma append_event_rowE:
  assumes "append_event_row d e = Inr (d', i)"
  shows "d' = d\<lparr>db_events := db_events d @ [e\<lparr>ev_id := Some i\<rparr>]\<rparr>"
    and "event_checks e" "event_fks (db_runs d) e"
    and "i = next_rowid (tbl_ids ev_id (db_events d))"
    and "tbl_ok ev_id (db_events d) \<Longrightarrow> tbl_ok ev_id (db_events d')"
  using assms events.insert_ok [of "db_events d" e]
  by (auto simp: append_event_row_def Let_def sql_insert_def split: if_splits)

lemma insert_run_row_wf: "db_wf d \<Longrightarrow> insert_run_row d r = Inr (d', i) \<Longrightarrow> db_wf d'"
  by (frule insert_run_rowE(1), frule insert_run_rowE(2), frule insert_run_rowE(3),
      frule insert_run_rowE(4)) (auto simp: db_wf_def fks_runs_append run_exists_append)

lemma insert_attempt_row_wf: "db_wf d \<Longrightarrow> insert_attempt_row d a = Inr (d', i) \<Longrightarrow> db_wf d'"
  by (frule insert_attempt_rowE(1), frule insert_attempt_rowE(2), frule insert_attempt_rowE(3),
      frule insert_attempt_rowE(4), frule insert_attempt_rowE(5)) (simp_all add: db_wf_def)

lemma close_open_attempts_wf: "db_wf d \<Longrightarrow> db_wf (fst (close_open_attempts d r t oc))"
  unfolding close_open_attempts_def Let_def fst_conv
  by (rule db_wf_update_attempts) (auto simp: attempt_key_def attempt_checks_def attempt_fks_def)

lemma insert_question_row_wf: "db_wf d \<Longrightarrow> insert_question_row d q = Inr (d', i) \<Longrightarrow> db_wf d'"
  by (frule insert_question_rowE(1), frule insert_question_rowE(2), frule insert_question_rowE(3),
      frule insert_question_rowE(4)) (simp_all add: db_wf_def)

lemma insert_finding_row_wf: "db_wf d \<Longrightarrow> insert_finding_row d f = Inr (d', i) \<Longrightarrow> db_wf d'"
  by (frule insert_finding_rowE(1), frule insert_finding_rowE(2), frule insert_finding_rowE(3),
      frule insert_finding_rowE(4)) (simp_all add: db_wf_def)

lemma append_event_row_wf: "db_wf d \<Longrightarrow> append_event_row d e = Inr (d', i) \<Longrightarrow> db_wf d'"
  by (frule append_event_rowE(1), frule append_event_rowE(2), frule append_event_rowE(3),
      frule append_event_rowE(5)) (simp_all add: db_wf_def finding_fks_events_append)

lemma record_provider_row_wf: "db_wf d \<Longrightarrow> record_provider_row d p = Inr d' \<Longrightarrow> db_wf d'"
  by (auto simp: record_provider_row_def db_wf_def sql_upsert_distinct dest!: in_sql_upsert split: if_splits)

lemma record_run_health_row_wf: "db_wf d \<Longrightarrow> record_run_health_row d h = Inr d' \<Longrightarrow> db_wf d'"
  by (auto simp: record_run_health_row_def db_wf_def sql_upsert_distinct
      dest!: in_sql_upsert split: if_splits)


section \<open>Transactions keep the constraints\<close>

lemma write_run_state_wf: "db_wf d \<Longrightarrow> write_run_state i c d = Inr d' \<Longrightarrow> db_wf d'"
  by (auto simp: write_run_state_def Let_def run_checks_def split: option.splits if_splits
      intro!: db_wf_update_runs)

lemma write_worktree_status_wf: "db_wf d \<Longrightarrow> write_worktree_status i c d = Inr d' \<Longrightarrow> db_wf d'"
  by (auto simp: write_worktree_status_def Let_def run_checks_def split: option.splits if_splits
      intro!: db_wf_update_runs)

lemma change_question_frame [simp]:
  "qu_id (change_question c q) = qu_id q" "qu_run_id (change_question c q) = qu_run_id q"
  "qu_kind (change_question c q) = qu_kind q" "qu_state (change_question c q) = qc_next c"
  "qu_expires_at (change_question c q) = qu_expires_at q"
  "qu_tree_hash (change_question c q) = qu_tree_hash q"
  by (simp_all add: change_question_def split: option.split)

lemma write_question_wf: "db_wf d \<Longrightarrow> write_question i c d = Inr d' \<Longrightarrow> db_wf d'"
  by (auto simp: write_question_def Let_def list_all_iff split: option.splits if_splits
      intro!: db_wf_update_questions)

lemma write_result_wf: "db_wf d \<Longrightarrow> db_wf (write_result i t d)"
  by (auto simp: write_result_def run_checks_def split: option.splits intro!: db_wf_update_runs)

lemma write_new_question_wf: "db_wf d \<Longrightarrow> write_new_question q d = Inr (d', i) \<Longrightarrow> db_wf d'"
  by (auto simp: write_new_question_def and_then_Inr_iff split: option.splits
      dest: insert_question_row_wf)

lemma write_close_attempt_wf: "db_wf d \<Longrightarrow> write_close_attempt i c d = (d', n) \<Longrightarrow> db_wf d'"
  using close_open_attempts_wf [of d] by (auto simp: write_close_attempt_def split: option.splits) (metis fst_conv)

lemma write_attempt_wf: "db_wf d \<Longrightarrow> write_attempt a d = Inr (d', i) \<Longrightarrow> db_wf d'"
  by (auto simp: write_attempt_def and_then_Inr_iff split: option.splits dest: insert_attempt_row_wf)

lemma write_provider_wf: "db_wf d \<Longrightarrow> write_provider p d = Inr d' \<Longrightarrow> db_wf d'"
  by (auto simp: write_provider_def split: option.splits dest: record_provider_row_wf)

lemma write_events_wf: "db_wf d \<Longrightarrow> write_events q es d = Inr (d', ids) \<Longrightarrow> db_wf d'"
proof (induction q es d arbitrary: d' ids rule: write_events.induct)
  case (2 q e es d)
  then show ?case by (auto simp: Let_def and_then_Inr_iff dest: append_event_row_wf)
qed simp

lemma write_findings_wf: "db_wf d \<Longrightarrow> write_findings c fs d = Inr (d', ids) \<Longrightarrow> db_wf d'"
proof (induction c fs d arbitrary: d' ids rule: write_findings.induct)
  case (2 c f fs d)
  then show ?case by (auto simp: and_then_Inr_iff dest: insert_finding_row_wf)
qed simp

lemma transition_changesE:
  assumes "transition_changes w d = Inr d3"
  obtains d1 d2 where
    "write_run_state (tw_run_id w) (tw_run_state w) d = Inr d1"
    "write_worktree_status (tw_run_id w) (tw_worktree_status w) d1 = Inr d2"
    "write_question (tw_run_id w) (tw_question w) d2 = Inr d3"
  using assms unfolding transition_changes_def by (elim and_then_InrE)

lemma transition_rowsE:
  assumes "transition_rows w d4 = Inr (d9, out)"
  obtains d5 d7 d8 where
    "write_new_question (tw_new_question w) d4 = Inr (d5, to_question_id out)"
    "to_closed_attempts out = snd (write_close_attempt (tw_run_id w) (tw_close_attempt w) d5)"
    "write_attempt (tw_attempt w) (fst (write_close_attempt (tw_run_id w) (tw_close_attempt w) d5)) =
       Inr (d7, to_attempt_id out)"
    "write_provider (tw_provider w) d7 = Inr d8"
    "write_events (to_question_id out) (tw_events w) d8 = Inr (d9, to_event_ids out)"
  using assms by (auto simp: transition_rows_def Let_def and_then_Inr_iff)

lemma transition_changes_wf: "db_wf d \<Longrightarrow> transition_changes w d = Inr d' \<Longrightarrow> db_wf d'"
  by (elim transition_changesE) (blast intro: write_run_state_wf write_worktree_status_wf write_question_wf)

lemma transition_rows_wf:
  assumes "db_wf d" "transition_rows w d = Inr (d', out)" shows "db_wf d'"
  using assms(2)
proof (rule transition_rowsE)
  fix d5 d7 d8
  assume 1: "write_new_question (tw_new_question w) d = Inr (d5, to_question_id out)"
    and 2: "write_attempt (tw_attempt w) (fst (write_close_attempt (tw_run_id w) (tw_close_attempt w) d5)) =
       Inr (d7, to_attempt_id out)"
    and 3: "write_provider (tw_provider w) d7 = Inr d8"
    and 4: "write_events (to_question_id out) (tw_events w) d8 = Inr (d', to_event_ids out)"
  have "db_wf d5" by (rule write_new_question_wf [OF assms(1) 1])
  then have "db_wf (fst (write_close_attempt (tw_run_id w) (tw_close_attempt w) d5))"
    by (rule write_close_attempt_wf) (rule prod.collapse [symmetric])
  then have "db_wf d7" using 2 by (rule write_attempt_wf)
  then have "db_wf d8" using 3 by (rule write_provider_wf)
  then show "db_wf d'" using 4 by (rule write_events_wf)
qed

lemma transition_tx_wf:
  assumes "db_wf d" "transition_tx w d = Inr (d', out)" shows "db_wf d'"
proof -
  from assms(2) obtain d3 where 1: "transition_changes w d = Inr d3"
    and 2: "transition_rows w (write_result (tw_run_id w) (tw_result w) d3) = Inr (d', out)"
    unfolding transition_tx_def by (elim and_then_InrE)
  have "db_wf d3" by (rule transition_changes_wf [OF assms(1) 1])
  then show ?thesis by (rule transition_rows_wf [OF write_result_wf 2])
qed

lemma commit_wf:
  "db_wf d \<Longrightarrow> (\<And>d' a. r = Inr (d', a) \<Longrightarrow> db_wf d') \<Longrightarrow> db_wf (fst (commit d r))"
  by (auto simp: commit_def split: sum.splits prod.splits)

lemma apply_transition_wf: "db_wf d \<Longrightarrow> db_wf (fst (apply_transition d w))"
  by (cases "transition_tx w d") (auto simp: apply_transition_def transition_tx_wf)

lemma insert_run_wf: "db_wf d \<Longrightarrow> db_wf (fst (insert_run d r))"
  by (cases "insert_run_row d r") (auto simp: insert_run_def insert_run_row_wf)

lemma correlate_attempt_wf: "db_wf d \<Longrightarrow> db_wf (fst (correlate_attempt d a s))"
  by (auto simp: correlate_attempt_def correlate_attempt_row_def Let_def attempt_key_def
      attempt_checks_def attempt_fks_def intro!: db_wf_update_attempts)

lemma record_checkpoint_wf: "db_wf d \<Longrightarrow> db_wf (fst (record_checkpoint d e fs))"
  unfolding record_checkpoint_def
  by (rule commit_wf) (auto simp: and_then_Inr_iff, meson append_event_row_wf write_findings_wf)

lemma freeze_genesis_wf:
  assumes wf: "db_wf d" and res: "freeze_genesis i p d = Inr (d', b)" shows "db_wf d'"
proof (cases p)
  case (Some t)
  let ?p = "\<lambda>r. rr_id r = Some i \<and> rr_genesis_paths r = None"
  have d': "d' = d\<lparr>db_runs := sql_update ?p (\<lambda>r. r\<lparr>rr_genesis_paths := Some t\<rparr>) (db_runs d)\<rparr>"
    and ok: "sql_count ?p (db_runs d) = 0 \<or> json_is_array t"
    using res by (auto simp: freeze_genesis_def Some Let_def split: if_splits)
  show ?thesis
  proof (cases "sql_count ?p (db_runs d) = 0")
    case True
    then show ?thesis using wf by (simp add: d' sql_update_none)
  next
    case False
    with ok have "json_is_array t" by simp
    then show ?thesis unfolding d' using wf by (intro db_wf_update_runs) (simp_all add: run_checks_def)
  qed
qed (use assms in \<open>simp add: freeze_genesis_def\<close>)

lemma charge_tokens_wf: "db_wf d \<Longrightarrow> charge_tokens i t d = Inr d' \<Longrightarrow> db_wf d'"
  by (auto simp: charge_tokens_def Let_def list_all_iff attempt_key_def attempt_fks_def
      split: option.splits if_splits intro!: db_wf_update_attempts)

lemma apply_ingest_wf: "db_wf d \<Longrightarrow> db_wf (fst (apply_ingest d w))"
  unfolding apply_ingest_def
  by (rule commit_wf) (auto simp: and_then_Inr_iff,
    meson freeze_genesis_wf charge_tokens_wf record_run_health_row_wf write_events_wf)

section \<open>The journal\<close>

text \<open>
  What \<open>write_events\<close> leaves behind: the given events in order, slots filled, under
  consecutive ids above every id already in the journal; nothing else changes.
\<close>

definition filled_event :: "i64 option \<Rightarrow> event_row \<Rightarrow> event_row" where
  "filled_event question_id e =
     (case fill_opened_question_slot e question_id of None \<Rightarrow> e | Some filled \<Rightarrow> filled)"

definition number_events :: "i64 \<Rightarrow> event_row list \<Rightarrow> event_row list" where
  "number_events start es = map (\<lambda>(e, k). e\<lparr>ev_id := Some (start + int k)\<rparr>) (zip es [0..<length es])"

definition next_event_id :: "db \<Rightarrow> i64" where
  "next_event_id d = next_rowid (tbl_ids ev_id (db_events d))"

lemma filled_event_None [simp]: "filled_event None e = e"
  by (simp add: filled_event_def fill_opened_question_slot_def)

lemma filled_event_frame [simp]:
  "ev_type (filled_event q e) = ev_type e" "ev_run_id (filled_event q e) = ev_run_id e"
  "ev_class (filled_event q e) = ev_class e" "ev_ts (filled_event q e) = ev_ts e"
  by (auto simp: filled_event_def fill_opened_question_slot_def split: option.splits json.splits)

lemma number_events_Nil [simp]: "number_events s [] = []"
  by (simp add: number_events_def)

lemma number_events_Cons [simp]:
  "number_events s (e # es) = e\<lparr>ev_id := Some s\<rparr> # number_events (s + 1) es"
proof -
  have "zip (e # es) [0..<length (e # es)] = (e, 0) # map (\<lambda>(e, k). (e, Suc k)) (zip es [0..<length es])"
    by (simp add: upt_conv_Cons map_Suc_upt [symmetric] zip_map2 case_prod_beta' del: upt_Suc)
  then show ?thesis by (simp add: number_events_def case_prod_beta' algebra_simps)
qed

lemma length_number_events [simp]: "length (number_events s es) = length es"
  by (simp add: number_events_def)

lemma next_rowid_snoc:
  "next_rowid (ids @ [next_rowid ids]) = next_rowid ids + 1"
proof (cases ids)
  case (Cons i "is")
  have "fold max (is @ [next_rowid ids]) i = next_rowid ids"
    using fold_max_bound [of _ i "is"] by (simp add: next_rowid_def Cons)
  then show ?thesis by (simp add: next_rowid_def Cons)
qed (simp add: next_rowid_def)

lemma write_eventsE:
  assumes "write_events q es d = Inr (d', ids)"
  shows "d' = d\<lparr>db_events := db_events d @ number_events (next_event_id d) (map (filled_event q) es)\<rparr> \<and>
    ids = map (\<lambda>k. next_event_id d + int k) [0..<length es]"
  using assms
proof (induction q es d arbitrary: d' ids rule: write_events.induct)
  case (2 q e es d)
  then obtain d1 i d2 ids' where app: "append_event_row d (filled_event q e) = Inr (d1, i)"
    and rest: "write_events q es d1 = Inr (d2, ids')" and res: "d' = d2" "ids = i # ids'"
    by (auto simp: Let_def and_then_Inr_iff filled_event_def)
  note d1 = append_event_rowE(1) [OF app] and i = append_event_rowE(4) [OF app]
  have next1: "next_event_id d1 = next_event_id d + 1"
    by (simp add: next_event_id_def d1 i next_rowid_snoc)
  have i': "i = next_event_id d" by (simp add: i next_event_id_def)
  have IH: "d2 = d1\<lparr>db_events := db_events d1 @ number_events (next_event_id d + 1) (map (filled_event q) es)\<rparr>"
    "ids' = map (\<lambda>k. next_event_id d + 1 + int k) [0..<length es]"
    using "2.IH" [OF refl rest] unfolding next1 by blast+
  have "ids = map (\<lambda>k. next_event_id d + int k) [0..<length (e # es)]"
    by (simp add: res IH(2) i' map_upt_Suc algebra_simps del: upt_Suc)
  moreover have "d' = d\<lparr>db_events := db_events d @
      number_events (next_event_id d) (map (filled_event q) (e # es))\<rparr>"
    unfolding res IH(1) by (simp add: d1 i')
  ultimately show ?case by blast
qed simp


section \<open>What a transition leaves in each table\<close>

definition runs_written :: "transition_write \<Rightarrow> run_row list \<Rightarrow> run_row list" where
  "runs_written w rows =
     (let rows1 = (case tw_run_state w of None \<Rightarrow> rows
                   | Some c \<Rightarrow> sql_update (\<lambda>r. rr_id r = Some (tw_run_id w) \<and> rr_state r = sc_expected c)
                                 (\<lambda>r. r\<lparr>rr_state := sc_next c\<rparr>) rows);
          rows2 = (case tw_worktree_status w of None \<Rightarrow> rows1
                   | Some c \<Rightarrow> sql_update (\<lambda>r. rr_id r = Some (tw_run_id w) \<and>
                                               rr_worktree_status r = Some (sc_expected c))
                                 (\<lambda>r. r\<lparr>rr_worktree_status := Some (sc_next c)\<rparr>) rows1)
      in case tw_result w of None \<Rightarrow> rows2
         | Some text \<Rightarrow> sql_update (\<lambda>r. rr_id r = Some (tw_run_id w)) (\<lambda>r. r\<lparr>rr_result := Some text\<rparr>) rows2)"

definition questions_written :: "transition_write \<Rightarrow> question_row list \<Rightarrow> question_row list" where
  "questions_written w rows =
     (case tw_question w of None \<Rightarrow> rows
      | Some c \<Rightarrow> sql_update (\<lambda>q. qu_id q = Some (qc_question_id c) \<and> qu_run_id q = tw_run_id w \<and>
                                   qu_state q = qc_expected c) (change_question c) rows)"

definition attempts_closed :: "transition_write \<Rightarrow> attempt_row list \<Rightarrow> attempt_row list" where
  "attempts_closed w rows =
     (case tw_close_attempt w of None \<Rightarrow> rows
      | Some c \<Rightarrow> sql_update (\<lambda>a. at_run_id a = tw_run_id w \<and> at_ended_at a = None \<and> at_outcome a = None)
                    (\<lambda>a. a\<lparr>at_ended_at := Some (ac_ended_at c), at_outcome := Some (ac_outcome c)\<rparr>) rows)"

lemma transition_changes_tables:
  assumes "transition_changes w d = Inr d3"
  shows "write_result (tw_run_id w) (tw_result w) d3 =
      d\<lparr>db_runs := runs_written w (db_runs d), db_questions := questions_written w (db_questions d)\<rparr>"
  using assms
  by (elim transition_changesE)
    (auto simp: write_run_state_def write_worktree_status_def write_question_def write_result_def
      runs_written_def questions_written_def Let_def split: option.splits if_splits)

lemma transition_rows_tables:
  assumes "transition_rows w d4 = Inr (d', out)"
  shows "db_runs d' = db_runs d4"
    and "db_questions d' = db_questions d4 @
      (case tw_new_question w of None \<Rightarrow> [] | Some q \<Rightarrow> [q\<lparr>qu_id := to_question_id out\<rparr>])"
    and "db_attempts d' = attempts_closed w (db_attempts d4) @
      (case tw_attempt w of None \<Rightarrow> [] | Some a \<Rightarrow> [a\<lparr>at_id := to_attempt_id out\<rparr>])"
    and "db_providers d' = (case tw_provider w of None \<Rightarrow> db_providers d4
      | Some p \<Rightarrow> sql_upsert pr_provider p (db_providers d4))"
    and "db_findings d' = db_findings d4" "db_health d' = db_health d4"
    and "db_sessions d' = db_sessions d4" "db_session_attempts d' = db_session_attempts d4"
  using assms
  by (elim transition_rowsE;
      auto simp: write_new_question_def write_close_attempt_def close_open_attempts_def Let_def
        write_attempt_def write_provider_def record_provider_row_def attempts_closed_def and_then_Inr_iff
      dest!: insert_question_rowE(1) insert_attempt_rowE(1) write_eventsE
      split: option.splits if_splits)+

lemma transition_tx_tables:
  assumes "transition_tx w d = Inr (d', out)"
  shows "db_runs d' = runs_written w (db_runs d)"
    and "db_questions d' = questions_written w (db_questions d) @
      (case tw_new_question w of None \<Rightarrow> [] | Some q \<Rightarrow> [q\<lparr>qu_id := to_question_id out\<rparr>])"
    and "db_attempts d' = attempts_closed w (db_attempts d) @
      (case tw_attempt w of None \<Rightarrow> [] | Some a \<Rightarrow> [a\<lparr>at_id := to_attempt_id out\<rparr>])"
    and "db_providers d' = (case tw_provider w of None \<Rightarrow> db_providers d
      | Some p \<Rightarrow> sql_upsert pr_provider p (db_providers d))"
    and "db_findings d' = db_findings d" "db_health d' = db_health d"
    and "db_sessions d' = db_sessions d" "db_session_attempts d' = db_session_attempts d"
proof -
  from assms obtain d3 where 1: "transition_changes w d = Inr d3"
    and 2: "transition_rows w (write_result (tw_run_id w) (tw_result w) d3) = Inr (d', out)"
    unfolding transition_tx_def by (elim and_then_InrE)
  note tables = transition_rows_tables [OF 2, unfolded transition_changes_tables [OF 1]]
  from tables show "db_runs d' = runs_written w (db_runs d)"
    "db_questions d' = questions_written w (db_questions d) @
      (case tw_new_question w of None \<Rightarrow> [] | Some q \<Rightarrow> [q\<lparr>qu_id := to_question_id out\<rparr>])"
    "db_attempts d' = attempts_closed w (db_attempts d) @
      (case tw_attempt w of None \<Rightarrow> [] | Some a \<Rightarrow> [a\<lparr>at_id := to_attempt_id out\<rparr>])"
    "db_providers d' = (case tw_provider w of None \<Rightarrow> db_providers d
      | Some p \<Rightarrow> sql_upsert pr_provider p (db_providers d))"
    "db_findings d' = db_findings d" "db_health d' = db_health d"
    "db_sessions d' = db_sessions d" "db_session_attempts d' = db_session_attempts d"
    by (simp_all split: option.split)
qed

text \<open>Loading by id finds the one row with that id.\<close>

lemma load_optional_in: "load_optional rows = Some r \<Longrightarrow> r \<in> set rows"
  by (auto simp: load_optional_def split: if_splits intro: last_in_set)

lemma load_upserted: "load_optional (filter (\<lambda>x. key x = key r) (sql_upsert key r rows)) = Some r"
proof -
  let ?xs = "filter (\<lambda>x. key x = key r) (sql_upsert key r rows)"
  have "\<forall>x \<in> set ?xs. x = r"
  proof (cases "key r \<in> set (map key rows)")
    case False
    then have "\<forall>x \<in> set rows. key x \<noteq> key r" by (metis in_set_conv_nth length_map nth_map)
    then show ?thesis using False by (auto simp: sql_upsert_def)
  qed (auto simp: sql_upsert_def in_sql_update)
  moreover have "r \<in> set ?xs" by (force simp: sql_upsert_def in_sql_update)
  then have "?xs \<noteq> []" by (metis empty_iff empty_set)
  ultimately show ?thesis by (metis last_in_set load_optional_def)
qed

lemma load_run_iff:
  assumes "db_wf d" shows "load_run d i = Some r \<longleftrightarrow> r \<in> set (db_runs d) \<and> rr_id r = Some i"
proof
  assume "load_run d i = Some r"
  then have "r \<in> set (filter (\<lambda>r. rr_id r = Some i) (db_runs d))"
    unfolding load_run_def by (rule load_optional_in)
  then show "r \<in> set (db_runs d) \<and> rr_id r = Some i" by simp
next
  assume "r \<in> set (db_runs d) \<and> rr_id r = Some i"
  then show "load_run d i = Some r"
    using runs.filter_by_id [of "db_runs d" r i] assms
    by (simp add: load_run_def load_optional_def db_wf_def)
qed

lemma load_question_iff:
  assumes "db_wf d" shows "load_question d i = Some q \<longleftrightarrow> q \<in> set (db_questions d) \<and> qu_id q = Some i"
proof
  assume "load_question d i = Some q"
  then have "q \<in> set (filter (\<lambda>q. qu_id q = Some i) (db_questions d))"
    unfolding load_question_def by (rule load_optional_in)
  then show "q \<in> set (db_questions d) \<and> qu_id q = Some i" by simp
next
  assume "q \<in> set (db_questions d) \<and> qu_id q = Some i"
  then show "load_question d i = Some q"
    using questions.filter_by_id [of "db_questions d" q i] assms
    by (simp add: load_question_def load_optional_def db_wf_def)
qed

lemma load_run_none_iff: "load_run d i = None \<longleftrightarrow> \<not> run_exists (db_runs d) i"
  by (auto simp: load_run_def load_optional_def run_exists_def filter_empty_conv)

text \<open>The row a conditional update by id and expected value matches.\<close>

lemma run_update_by_id:
  assumes "db_wf d" "load_run d i = Some run" "q run"
  shows "sql_update (\<lambda>r. rr_id r = Some i \<and> q r) f (db_runs d) = sql_update (\<lambda>r. rr_id r = Some i) f (db_runs d)"
proof -
  have "\<forall>r \<in> set (db_runs d). rr_id r = Some i \<longrightarrow> r = run"
    using assms(1,2) load_run_iff [OF assms(1)] by (metis option.inject)
  then show ?thesis using assms(3) by (auto simp: sql_update_def)
qed

end
