(* ===== verification/Fsm.thy ===== *)
theory Fsm
  imports Store
begin

text \<open>
  What the three state machines of crates/agens-server/src/fsm share
  (\<open>mod.rs\<close>): principals, rejections, applied transitions and the pair of journal
  entries each of them writes. The formatted detail of a refusal is a constructor
  carrying the values that are formatted.

  Two interfaces: \<open>keyed_table\<close> is a transition table that holds at most one row per
  key, and \<open>journaled_store\<close> is what the machines rely on from the store's
  \<open>apply_transition\<close>: a refused write leaves the database alone, and an applied one
  extends the journal by exactly its events.
\<close>

section \<open>Principals, rejections, outcomes\<close>

datatype principal = User | Praetor | Coordinator

fun principal_str :: "principal \<Rightarrow> string" where
  "principal_str principal.User = ''user''"
| "principal_str principal.Praetor = ''praetor''"
| "principal_str principal.Coordinator = ''coordinator''"

datatype detail =
    PrincipalCannot principal string
  | AdmissionFacts bool bool bool
  | NoQuestionNamed
  | QuestionOfAnotherRun i64
  | QuestionIs i64 question_state
  | QuestionCarriesRun i64 i64
  | NoQuestionToParkOn
  | NothingRecordedFor string
  | ResetsAt string i64 i64
  | NoResetNamed string
  | WorktreeIs "worktree_status option"
  | NoGuidance
  | BudgetSpent i64 i64
  | OnlyBootInterrupts
  | MergeNotReDerived
  | UncommittedChanges
  | DispositionUnconfirmed
  | AnswerIncomplete
  | AuthorizationIncomplete
  | OnlyUserAuthorizes
  | AuthorizationExpired i64
  | ExpiredSilence i64
  | NotExpiredYet
  | NeverReads run_state

datatype rejection =
    NoSuchRow string i64
  | NoSuchTransition string string string
  | GuardFailed string string detail
  | Conflict conflict
  | Storage string

fun rejection_of :: "store_error \<Rightarrow> rejection" where
  "rejection_of (store_error.Conflict c) = rejection.Conflict c"
| "rejection_of (store_error.Storage s) = rejection.Storage s"

record ('s, 'e) applied_transition =
  ap_from :: 's
  ap_to :: 's
  ap_effects :: "'e list"
  ap_domain_event :: string
  ap_state_changed_event_id :: i64
  ap_domain_event_id :: i64
  ap_opened_question_id :: "i64 option"

datatype ('s, 'e) transition_result =
    Applied "('s, 'e) applied_transition"
  | AlreadySettled

fun applied :: "('s, 'e) transition_result \<Rightarrow> ('s, 'e) applied_transition option" where
  "applied (Applied t) = Some t"
| "applied AlreadySettled = None"

section \<open>The pair of journal entries\<close>

record journaled_move =
  jm_run_id :: i64
  jm_ts :: i64
  jm_class :: event_class
  jm_machine :: string
  jm_from :: string
  jm_to :: string
  jm_trigger :: string
  jm_domain_event :: string

definition move_description :: "journaled_move \<Rightarrow> (string \<times> json) list" where
  "move_description m =
     [(''machine'', JString (jm_machine m)), (''from'', JString (jm_from m)),
      (''to'', JString (jm_to m)), (''trigger'', JString (jm_trigger m))]"

definition run_state_changed :: string where
  "run_state_changed = ''run_state_changed''"

definition transition_events :: "journaled_move \<Rightarrow> (string \<times> json) list \<Rightarrow> event_row list" where
  "transition_events m domain_detail =
     [\<lparr>ev_id = None, ev_run_id = Some (jm_run_id m), ev_type = run_state_changed,
       ev_class = jm_class m, ev_payload = JText (JObject (move_description m)), ev_ts = jm_ts m\<rparr>,
      \<lparr>ev_id = None, ev_run_id = Some (jm_run_id m), ev_type = jm_domain_event m,
       ev_class = jm_class m,
       ev_payload = JText (JObject (insert_fields domain_detail (move_description m))),
       ev_ts = jm_ts m\<rparr>]"

definition missing_pair :: string where
  "missing_pair = ''an applied transition must journal exactly the generic event and its domain event''"

definition event_pair :: "i64 list \<Rightarrow> rejection + i64 \<times> i64" where
  "event_pair ids = (case ids of [a, b] \<Rightarrow> Inr (a, b) | _ \<Rightarrow> Inl (rejection.Storage missing_pair))"

definition empty_write :: "i64 \<Rightarrow> event_row list \<Rightarrow> transition_write" where
  "empty_write run_id evs =
     \<lparr>tw_run_id = run_id, tw_run_state = None, tw_worktree_status = None, tw_question = None,
      tw_new_question = None, tw_attempt = None, tw_close_attempt = None, tw_result = None,
      tw_provider = None, tw_events = evs\<rparr>"

text \<open>
  The tail every machine shares: apply the write, read the pair of ids back, and
  describe the applied transition. The pair is read after the commit.
\<close>

definition settle_write ::
  "db \<Rightarrow> transition_write \<Rightarrow> 's \<Rightarrow> 's \<Rightarrow> 'e list \<Rightarrow> string \<Rightarrow>
   db \<times> (rejection + ('s, 'e) transition_result)" where
  "settle_write d w from to effects domain_event =
     (case apply_transition d w of
        (d', Inl e) \<Rightarrow> (d', Inl (rejection_of e))
      | (d', Inr out) \<Rightarrow>
          (case event_pair (to_event_ids out) of
             Inl e \<Rightarrow> (d', Inl e)
           | Inr (changed, domain) \<Rightarrow>
               (d', Inr (Applied \<lparr>ap_from = from, ap_to = to, ap_effects = effects,
                  ap_domain_event = domain_event, ap_state_changed_event_id = changed,
                  ap_domain_event_id = domain, ap_opened_question_id = to_question_id out\<rparr>))))"

section \<open>Writes that are not transitions\<close>

definition machines_load_run :: "db \<Rightarrow> i64 \<Rightarrow> rejection + run_row" where
  "machines_load_run d i = ok_or (load_run d i) (NoSuchRow ''run'' i)"

definition machines_load_question :: "db \<Rightarrow> i64 \<Rightarrow> rejection + question_row" where
  "machines_load_question d i = ok_or (load_question d i) (NoSuchRow ''question'' i)"

definition open_run :: "db \<Rightarrow> run_row \<Rightarrow> db \<times> (store_error + i64)" where
  "open_run d run = insert_run d run"

definition open_question :: "db \<Rightarrow> question_row \<Rightarrow> event_row list \<Rightarrow> db \<times> (rejection + i64)" where
  "open_question d question evs =
     (case apply_transition d ((empty_write (qu_run_id question) evs)\<lparr>tw_new_question := Some question\<rparr>) of
        (d', Inl e) \<Rightarrow> (d', Inl (rejection_of e))
      | (d', Inr out) \<Rightarrow>
          (d', ok_or (to_question_id out) (rejection.Storage ''the question was written without an id'')))"

definition journal :: "db \<Rightarrow> event_row list \<Rightarrow> db \<times> (rejection + i64 list)" where
  "journal d evs =
     (case apply_transition d
        (empty_write (case evs of [] \<Rightarrow> 0 | e # _ \<Rightarrow> case_option 0 id (ev_run_id e)) evs) of
        (d', Inl e) \<Rightarrow> (d', Inl (rejection_of e))
      | (d', Inr out) \<Rightarrow> (d', Inr (to_event_ids out)))"

definition machines_correlate_attempt :: "db \<Rightarrow> i64 \<Rightarrow> i64 \<Rightarrow> db \<times> (rejection + unit)" where
  "machines_correlate_attempt d attempt_id session_attempt_id =
     (case correlate_attempt d attempt_id session_attempt_id of
        (d', Inl e) \<Rightarrow> (d', Inl (rejection_of e)) | (d', Inr u) \<Rightarrow> (d', Inr u))"

definition machines_record_checkpoint ::
  "db \<Rightarrow> event_row \<Rightarrow> finding_row list \<Rightarrow> db \<times> (rejection + checkpoint_write)" where
  "machines_record_checkpoint d checkpoint findings =
     (case record_checkpoint d checkpoint findings of
        (d', Inl e) \<Rightarrow> (d', Inl (rejection_of e)) | (d', Inr c) \<Rightarrow> (d', Inr c))"

section \<open>A table with one row per key\<close>

locale keyed_table =
  fixes rows :: "'t list" and key :: "'t \<Rightarrow> 'k"
  assumes keys_distinct: "distinct (map key rows)"
begin

lemma find_iff: "find (\<lambda>t. key t = k) rows = Some t \<longleftrightarrow> t \<in> set rows \<and> key t = k"
proof
  assume "find (\<lambda>t. key t = k) rows = Some t"
  then show "t \<in> set rows \<and> key t = k" by (auto simp: find_Some_iff)
next
  assume t: "t \<in> set rows \<and> key t = k"
  then obtain i where i: "i < length rows" "rows ! i = t" by (auto simp: in_set_conv_nth)
  have "\<forall>j<i. key (rows ! j) \<noteq> k"
    using i t keys_distinct by (auto simp: distinct_conv_nth)
  then show "find (\<lambda>t. key t = k) rows = Some t"
    using i t by (auto simp: find_Some_iff intro!: exI [of _ i])
qed

lemma find_none_iff: "find (\<lambda>t. key t = k) rows = None \<longleftrightarrow> k \<notin> key ` set rows"
  by (auto simp: find_None_iff)

lemma one_row: "t \<in> set rows \<Longrightarrow> t' \<in> set rows \<Longrightarrow> key t = key t' \<Longrightarrow> t = t'"
  using keys_distinct by (auto simp: distinct_map inj_on_def)

end

section \<open>What the machines rely on from the store\<close>

locale journaled_store =
  fixes apply_w :: "'d \<Rightarrow> 'w \<Rightarrow> 'd \<times> ('e + 'o)"
    and journal_of :: "'d \<Rightarrow> event_row list"
    and events_of :: "'w \<Rightarrow> event_row list"
    and ids_of :: "'o \<Rightarrow> i64 list"
    and ok :: "'d \<Rightarrow> bool"
  assumes rolled_back: "apply_w d w = (d', Inl e) \<Longrightarrow> d' = d"
    and ok_kept: "ok d \<Longrightarrow> ok (fst (apply_w d w))"
    and ids_given: "apply_w d w = (d', Inr out) \<Longrightarrow> length (ids_of out) = length (events_of w)"
    and journaled: "apply_w d w = (d', Inr out) \<Longrightarrow>
      \<exists>es. journal_of d' = journal_of d @ es \<and> map ev_type es = map ev_type (events_of w) \<and>
           map ev_id es = map Some (ids_of out)"
begin

lemma append_only: "\<exists>es. journal_of (fst (apply_w d w)) = journal_of d @ es"
proof (cases "apply_w d w")
  case (Pair d' r)
  then show ?thesis using rolled_back journaled by (cases r) fastforce+
qed

lemma append_only_many: "\<exists>es. journal_of (fold (\<lambda>w d. fst (apply_w d w)) ws d) = journal_of d @ es"
proof (induction ws arbitrary: d)
  case (Cons w ws)
  obtain es where "journal_of (fst (apply_w d w)) = journal_of d @ es" using append_only by blast
  with Cons [of "fst (apply_w d w)"] show ?case by auto
qed simp

lemma ok_many: "ok d \<Longrightarrow> ok (fold (\<lambda>w d. fst (apply_w d w)) ws d)"
  by (induction ws arbitrary: d) (auto intro: ok_kept)

lemma event_pair_of_two:
  "apply_w d w = (d', Inr out) \<Longrightarrow> length (events_of w) = 2 \<Longrightarrow>
     \<exists>a b. event_pair (ids_of out) = Inr (a, b)"
  using ids_given [of d w d' out]
  by (auto simp: event_pair_def length_Suc_conv numeral_2_eq_2 split: list.splits)

end

lemma map_ev_type_number [simp]: "map ev_type (number_events s es) = map ev_type es"
  by (induction es arbitrary: s) auto

lemma map_ev_id_number [simp]:
  "map ev_id (number_events s es) = map (\<lambda>k. Some (s + int k)) [0..<length es]"
proof (induction es arbitrary: s)
  case (Cons e es)
  show ?case by (simp add: Cons map_upt_Suc algebra_simps del: upt_Suc)
qed simp

lemma write_run_state_events: "write_run_state i c d = Inr d' \<Longrightarrow> db_events d' = db_events d"
  by (auto simp: write_run_state_def Let_def split: option.splits if_splits)

lemma write_worktree_status_events: "write_worktree_status i c d = Inr d' \<Longrightarrow> db_events d' = db_events d"
  by (auto simp: write_worktree_status_def Let_def split: option.splits if_splits)

lemma write_question_events: "write_question i c d = Inr d' \<Longrightarrow> db_events d' = db_events d"
  by (auto simp: write_question_def Let_def split: option.splits if_splits)

lemma write_result_events [simp]: "db_events (write_result i t d) = db_events d"
  by (simp add: write_result_def split: option.split)

lemma write_new_question_events: "write_new_question q d = Inr (d', i) \<Longrightarrow> db_events d' = db_events d"
  by (auto simp: write_new_question_def and_then_Inr_iff dest: insert_question_rowE(1) split: option.splits)

lemma write_close_attempt_events [simp]: "db_events (fst (write_close_attempt i c d)) = db_events d"
  by (simp add: write_close_attempt_def close_open_attempts_def Let_def split: option.split)

lemma write_attempt_events: "write_attempt a d = Inr (d', i) \<Longrightarrow> db_events d' = db_events d"
  by (auto simp: write_attempt_def and_then_Inr_iff dest: insert_attempt_rowE(1) split: option.splits)

lemma write_provider_events: "write_provider p d = Inr d' \<Longrightarrow> db_events d' = db_events d"
  by (auto simp: write_provider_def record_provider_row_def split: option.splits if_splits)

lemma transition_tx_journal:
  assumes "transition_tx w d = Inr (d', out)"
  shows "db_events d' = db_events d @
      number_events (next_event_id d) (map (filled_event (to_question_id out)) (tw_events w))"
    and "to_event_ids out = map (\<lambda>k. next_event_id d + int k) [0..<length (tw_events w)]"
proof -
  from assms obtain d3 where 1: "transition_changes w d = Inr d3"
    and 2: "transition_rows w (write_result (tw_run_id w) (tw_result w) d3) = Inr (d', out)"
    unfolding transition_tx_def by (elim and_then_InrE)
  have e3: "db_events d3 = db_events d"
    using 1 by (auto elim!: transition_changesE
        simp: write_run_state_events write_worktree_status_events write_question_events)
  from 2 obtain d8 where e8: "db_events d8 = db_events d"
    and we: "write_events (to_question_id out) (tw_events w) d8 = Inr (d', to_event_ids out)"
    by (auto elim!: transition_rowsE dest!: write_new_question_events write_attempt_events write_provider_events
        simp: e3)
  from write_eventsE [OF we] e8
  show "db_events d' = db_events d @
      number_events (next_event_id d) (map (filled_event (to_question_id out)) (tw_events w))"
    and "to_event_ids out = map (\<lambda>k. next_event_id d + int k) [0..<length (tw_events w)]"
    by (simp_all add: next_event_id_def)
qed

interpretation store: journaled_store apply_transition db_events tw_events to_event_ids db_wf
proof unfold_locales
  show "apply_transition d w = (d', Inl e) \<Longrightarrow> d' = d" for d w d' e
    by (auto simp: apply_transition_def commit_Inl_iff)
  show "db_wf d \<Longrightarrow> db_wf (fst (apply_transition d w))" for d w
    by (rule apply_transition_wf)
  fix d w d' and out :: transition_outcome
  assume "apply_transition d w = (d', Inr out)"
  then have tx: "transition_tx w d = Inr (d', out)" by (simp add: apply_transition_def commit_Inr_iff)
  show "length (to_event_ids out) = length (tw_events w)"
    by (simp add: transition_tx_journal(2) [OF tx])
  show "\<exists>es. db_events d' = db_events d @ es \<and> map ev_type es = map ev_type (tw_events w) \<and>
      map ev_id es = map Some (to_event_ids out)"
    by (rule exI, rule conjI, rule transition_tx_journal(1) [OF tx])
      (simp add: transition_tx_journal(2) [OF tx] comp_def)
qed

lemma length_transition_events [simp]: "length (transition_events m det) = 2"
  by (simp add: transition_events_def)

text \<open>How a settled write ends: refused with the database untouched, or applied.\<close>

lemma settle_write_cases:
  assumes "length (tw_events w) = 2"
  obtains (refused) e where "settle_write d w src dst eff ev = (d, Inl (rejection_of e))"
      "apply_transition d w = (d, Inl e)"
  | (settled) d' out a b where "transition_tx w d = Inr (d', out)" "to_event_ids out = [a, b]"
      "settle_write d w src dst eff ev = (d', Inr (Applied \<lparr>ap_from = src, ap_to = dst,
         ap_effects = eff, ap_domain_event = ev, ap_state_changed_event_id = a,
         ap_domain_event_id = b, ap_opened_question_id = to_question_id out\<rparr>))"
proof (cases "apply_transition d w")
  case (Pair d' r)
  show ?thesis
  proof (cases r)
    case (Inl e)
    then have "d' = d" using Pair store.rolled_back by blast
    then show ?thesis using Pair Inl refused by (simp add: settle_write_def)
  next
    case (Inr out)
    then have tx: "transition_tx w d = Inr (d', out)"
      using Pair by (simp add: apply_transition_def commit_Inr_iff)
    from store.ids_given [of d w d' out] Pair Inr assms obtain a b where "to_event_ids out = [a, b]"
      by (auto simp: length_Suc_conv numeral_2_eq_2)
    then show ?thesis using settled [OF tx] Pair Inr by (simp add: settle_write_def event_pair_def)
  qed
qed

end
