(* ===== verification/Worktree_Machine.thy ===== *)
theory Worktree_Machine
  imports Fsm
begin

text \<open>
  The worktree state machine of crates/agens-server/src/fsm/worktrees.rs: the three
  moves of a run's directory, and \<open>releasable\<close>, which prepares the release of one
  without writing it so that a merge can settle it in its own transaction.
\<close>

datatype worktree_trigger = MergeDetected | Reclaim | ManualDisposition

fun worktree_trigger_str :: "worktree_trigger \<Rightarrow> string" where
  "worktree_trigger_str MergeDetected = ''merge_detected''"
| "worktree_trigger_str Reclaim = ''reclaim''"
| "worktree_trigger_str ManualDisposition = ''manual_disposition''"

datatype worktree_guard = MergeReDerived | WorktreeClean | ConfirmedManualDisposition

fun worktree_guard_str :: "worktree_guard \<Rightarrow> string" where
  "worktree_guard_str worktree_guard.MergeReDerived = ''merge_re_derived''"
| "worktree_guard_str WorktreeClean = ''worktree_clean''"
| "worktree_guard_str ConfirmedManualDisposition = ''confirmed_manual_disposition''"

datatype worktree_effect = ReleaseForReclaim | RemoveWorktreeDirectory

record worktree_transition =
  wt_from :: worktree_status
  wt_trigger :: worktree_trigger
  wt_to :: worktree_status
  wt_guard :: worktree_guard
  wt_effects :: "worktree_effect list"
  wt_domain_event :: string
  wt_class :: event_class

definition worktree_transitions :: "worktree_transition list" where
  "worktree_transitions =
     [\<lparr>wt_from = Active, wt_trigger = MergeDetected, wt_to = Reclaimable,
       wt_guard = worktree_guard.MergeReDerived, wt_effects = [ReleaseForReclaim],
       wt_domain_event = ''worktree_reclaimable'', wt_class = Infra\<rparr>,
      \<lparr>wt_from = Reclaimable, wt_trigger = Reclaim, wt_to = Cleaned,
       wt_guard = WorktreeClean, wt_effects = [RemoveWorktreeDirectory],
       wt_domain_event = ''worktree_cleaned'', wt_class = Infra\<rparr>,
      \<lparr>wt_from = Active, wt_trigger = ManualDisposition, wt_to = Cleaned,
       wt_guard = ConfirmedManualDisposition, wt_effects = [RemoveWorktreeDirectory],
       wt_domain_event = ''worktree_cleaned'', wt_class = Infra\<rparr>]"

text \<open>The run states in which a run still has a claim on its worktree.\<close>

definition worktree_holding_run_states :: "run_state list" where
  "worktree_holding_run_states =
     [Draft, Queued, Running, AwaitingInput, AwaitingQuota, run_state.Interrupted, Done,
      run_state.Failed, Cancelled]"

record worktree_facts =
  wf_now :: i64
  wf_merge_re_derived :: bool
  wf_worktree_clean :: bool
  wf_manual_disposition_confirmed :: bool

definition check_worktree_guard :: "worktree_transition \<Rightarrow> worktree_facts \<Rightarrow> rejection + unit" where
  "check_worktree_guard t f =
     (let holds = (case wt_guard t of
            worktree_guard.MergeReDerived \<Rightarrow> wf_merge_re_derived f
          | WorktreeClean \<Rightarrow> wf_worktree_clean f
          | ConfirmedManualDisposition \<Rightarrow> wf_manual_disposition_confirmed f)
      in if holds then Inr ()
         else Inl (GuardFailed ''worktree'' (worktree_guard_str (wt_guard t))
            (case wt_guard t of
               worktree_guard.MergeReDerived \<Rightarrow> MergeNotReDerived
             | WorktreeClean \<Rightarrow> UncommittedChanges
             | ConfirmedManualDisposition \<Rightarrow> DispositionUnconfirmed)))"

definition find_worktree_transition :: "worktree_status \<Rightarrow> worktree_trigger \<Rightarrow> worktree_transition option" where
  "find_worktree_transition status trigger =
     find (\<lambda>c. wt_from c = status \<and> wt_trigger c = trigger) worktree_transitions"

definition worktree_events ::
  "i64 \<Rightarrow> i64 \<Rightarrow> run_row \<Rightarrow> worktree_status \<Rightarrow> worktree_transition \<Rightarrow> worktree_trigger \<Rightarrow> event_row list" where
  "worktree_events run_id now run status t trigger = transition_events
     \<lparr>jm_run_id = run_id, jm_ts = now, jm_class = wt_class t, jm_machine = ''worktree'',
      jm_from = worktree_status_str status, jm_to = worktree_status_str (wt_to t),
      jm_trigger = worktree_trigger_str trigger, jm_domain_event = wt_domain_event t\<rparr>
     [(''worktree_path'', json_opt JString (rr_worktree_path run))]"

definition worktree_write ::
  "i64 \<Rightarrow> run_row \<Rightarrow> worktree_status \<Rightarrow> worktree_transition \<Rightarrow> worktree_trigger \<Rightarrow> worktree_facts \<Rightarrow>
   transition_write" where
  "worktree_write run_id run status t trigger f =
     (empty_write run_id (worktree_events run_id (wf_now f) run status t trigger))
       \<lparr>tw_worktree_status := Some \<lparr>sc_expected = status, sc_next = wt_to t\<rparr>\<rparr>"

definition apply_worktree ::
  "db \<Rightarrow> i64 \<Rightarrow> worktree_trigger \<Rightarrow> worktree_facts \<Rightarrow>
   db \<times> (rejection + (worktree_status, worktree_effect) transition_result)" where
  "apply_worktree d run_id trigger f =
     (case machines_load_run d run_id of
        Inl e \<Rightarrow> (d, Inl e)
      | Inr run \<Rightarrow> (case rr_worktree_status run of
            None \<Rightarrow> (d, Inl (NoSuchTransition ''worktree'' ''none'' (worktree_trigger_str trigger)))
          | Some status \<Rightarrow> (case find_worktree_transition status trigger of
                None \<Rightarrow> (d, Inl (NoSuchTransition ''worktree'' (worktree_status_str status)
                              (worktree_trigger_str trigger)))
              | Some t \<Rightarrow> (case check_worktree_guard t f of
                    Inl e \<Rightarrow> (d, Inl e)
                  | Inr _ \<Rightarrow> settle_write d (worktree_write run_id run status t trigger f)
                               status (wt_to t) (wt_effects t) (wt_domain_event t)))))"

section \<open>Prepared transitions\<close>

text \<open>
  A transition whose guard has run and whose write has not
  (\<open>PreparedTransition\<close> of \<open>mod.rs\<close>).
\<close>

record ('s, 'c, 'e) prepared_transition =
  pt_change :: 'c
  pt_from :: 's
  pt_to :: 's
  pt_effects :: "'e list"
  pt_domain_event :: string
  pt_events :: "event_row list"

definition prepared_applied ::
  "('s, 'c, 'e) prepared_transition \<Rightarrow> i64 \<Rightarrow> i64 \<Rightarrow> ('s, 'e) applied_transition" where
  "prepared_applied p state_changed_event_id domain_event_id =
     \<lparr>ap_from = pt_from p, ap_to = pt_to p, ap_effects = pt_effects p,
      ap_domain_event = pt_domain_event p, ap_state_changed_event_id = state_changed_event_id,
      ap_domain_event_id = domain_event_id, ap_opened_question_id = None\<rparr>"

type_synonym prepared_worktree =
  "(worktree_status, worktree_status state_change, worktree_effect) prepared_transition"

definition releasable :: "run_row \<Rightarrow> i64 \<Rightarrow> bool \<Rightarrow> rejection + prepared_worktree option" where
  "releasable run now worktree_clean =
     (case rr_worktree_status run of
        None \<Rightarrow> Inr None
      | Some status \<Rightarrow> (case find_worktree_transition status MergeDetected of
            None \<Rightarrow> Inr None
          | Some t \<Rightarrow>
              and_then (check_worktree_guard t
                  \<lparr>wf_now = now, wf_merge_re_derived = True, wf_worktree_clean = worktree_clean,
                   wf_manual_disposition_confirmed = False\<rparr>) (\<lambda>_.
              and_then (ok_or (rr_id run) (rejection.Storage ''a stored run must carry an id'')) (\<lambda>run_id.
              Inr (Some \<lparr>pt_change = \<lparr>sc_expected = status, sc_next = wt_to t\<rparr>, pt_from = status,
                pt_to = wt_to t, pt_effects = wt_effects t, pt_domain_event = wt_domain_event t,
                pt_events = worktree_events run_id now run status t MergeDetected\<rparr>)))))"

section \<open>Facts about the machine\<close>

interpretation worktree_table: keyed_table worktree_transitions "\<lambda>t. (wt_from t, wt_trigger t)"
  by unfold_locales (simp add: worktree_transitions_def)

lemma find_worktree_transition_iff:
  "find_worktree_transition s tr = Some t \<longleftrightarrow>
     t \<in> set worktree_transitions \<and> wt_from t = s \<and> wt_trigger t = tr"
  using worktree_table.find_iff [of "(s, tr)" t] by (simp add: find_worktree_transition_def)

lemma worktree_holding_complete: "s \<in> set worktree_holding_run_states"
  by (cases s) (simp_all add: worktree_holding_run_states_def)

text \<open>\<open>cleaned\<close> is terminal, and a directory never becomes \<open>active\<close> again.\<close>

lemma worktree_moves:
  "t \<in> set worktree_transitions \<Longrightarrow> wt_from t \<noteq> Cleaned \<and> wt_to t \<noteq> Active"
  by (auto simp: worktree_transitions_def)

lemma apply_worktree_cases:
  obtains (refused) e where "apply_worktree d i tr f = (d, Inl e)"
  | (moved) run s t d' out a b where
      "load_run d i = Some run" "rr_worktree_status run = Some s" "t \<in> set worktree_transitions"
      "wt_from t = s" "wt_trigger t = tr" "check_worktree_guard t f = Inr ()"
      "transition_tx (worktree_write i run s t tr f) d = Inr (d', out)" "to_event_ids out = [a, b]"
      "apply_worktree d i tr f = (d', Inr (Applied \<lparr>ap_from = s, ap_to = wt_to t,
         ap_effects = wt_effects t, ap_domain_event = wt_domain_event t,
         ap_state_changed_event_id = a, ap_domain_event_id = b,
         ap_opened_question_id = to_question_id out\<rparr>))"
proof (cases "load_run d i")
  case None
  then show ?thesis using refused by (simp add: apply_worktree_def machines_load_run_def)
next
  case run: (Some run)
  show ?thesis
  proof (cases "rr_worktree_status run")
    case None
    then show ?thesis using refused run by (simp add: apply_worktree_def machines_load_run_def)
  next
    case s: (Some s)
    show ?thesis
    proof (cases "find_worktree_transition s tr")
      case None
      then show ?thesis using refused run s by (simp add: apply_worktree_def machines_load_run_def)
    next
      case row: (Some t)
      then have t: "t \<in> set worktree_transitions" "wt_from t = s" "wt_trigger t = tr"
        by (simp_all add: find_worktree_transition_iff)
      show ?thesis
      proof (cases "check_worktree_guard t f")
        case (Inl e)
        then show ?thesis using refused run s row by (simp add: apply_worktree_def machines_load_run_def)
      next
        case guard: (Inr u)
        have app: "apply_worktree d i tr f = settle_write d (worktree_write i run s t tr f) s
            (wt_to t) (wt_effects t) (wt_domain_event t)"
          using run s row guard by (simp add: apply_worktree_def machines_load_run_def)
        have "length (tw_events (worktree_write i run s t tr f)) = 2"
          by (simp add: worktree_write_def empty_write_def worktree_events_def)
        then show ?thesis
          by (rule settle_write_cases [where d = d and src = s and dst = "wt_to t"
                and eff = "wt_effects t" and ev = "wt_domain_event t"])
            (use refused moved run s t guard app in auto)
      qed
    qed
  qed
qed

lemma apply_worktree_rolled_back: "apply_worktree d i tr f = (d', Inl e) \<Longrightarrow> d' = d"
  by (rule apply_worktree_cases [of d i tr f]) auto

lemma apply_worktree_wf: "db_wf d \<Longrightarrow> db_wf (fst (apply_worktree d i tr f))"
  by (rule apply_worktree_cases [of d i tr f]) (auto dest: transition_tx_wf)

lemma worktree_tx_tables:
  assumes wf: "db_wf d" and run: "load_run d i = Some run" "rr_worktree_status run = Some s"
    and tx: "transition_tx (worktree_write i run s t tr f) d = Inr (d', out)"
  shows "db_runs d' = sql_update (\<lambda>r. rr_id r = Some i) (\<lambda>r. r\<lparr>rr_worktree_status := Some (wt_to t)\<rparr>) (db_runs d)"
    and "db_questions d' = db_questions d" "db_attempts d' = db_attempts d"
    and "db_providers d' = db_providers d"
proof -
  note tables = transition_tx_tables [OF tx]
  have "sql_update (\<lambda>r. rr_id r = Some i \<and> rr_worktree_status r = Some s) g (db_runs d) =
      sql_update (\<lambda>r. rr_id r = Some i) g (db_runs d)" for g
    by (rule run_update_by_id [OF wf run(1)]) (rule run(2))
  then show "db_runs d' = sql_update (\<lambda>r. rr_id r = Some i) (\<lambda>r. r\<lparr>rr_worktree_status := Some (wt_to t)\<rparr>) (db_runs d)"
    unfolding tables(1) by (simp add: runs_written_def worktree_write_def empty_write_def)
  show "db_questions d' = db_questions d" "db_attempts d' = db_attempts d" "db_providers d' = db_providers d"
    unfolding tables by (simp_all add: questions_written_def attempts_closed_def worktree_write_def empty_write_def)
qed

end
