(* ===== verification/Question_Machine.thy ===== *)
theory Question_Machine
  imports Worktree_Machine
begin

text \<open>
  The question state machine of crates/agens-server/src/fsm/questions.rs: plain
  questions and merge authorizations (kind \<open>approval\<close>), and \<open>deliverable\<close>, which
  prepares the spending of an authorization without writing it. The guard \<open>None\<close> of
  the source is \<open>NoCheck\<close> here.
\<close>

datatype question_trigger = Answer | Deliver | Expire | Void

fun question_trigger_str :: "question_trigger \<Rightarrow> string" where
  "question_trigger_str Answer = ''answer''"
| "question_trigger_str Deliver = ''deliver''"
| "question_trigger_str Expire = ''expire''"
| "question_trigger_str Void = ''void''"

datatype question_guard = AuthorRecorded | UserAuthorizationInDate | NotExpired | PastExpiry | NoCheck

fun question_guard_str :: "question_guard \<Rightarrow> string" where
  "question_guard_str AuthorRecorded = ''author_recorded''"
| "question_guard_str UserAuthorizationInDate = ''user_authorization_in_date''"
| "question_guard_str NotExpired = ''not_expired''"
| "question_guard_str PastExpiry = ''expired''"
| "question_guard_str NoCheck = ''none''"

datatype question_effect = EnqueueForDelivery | ConsumeAuthorization | InvalidateAuthorization

record question_transition =
  qt_kind :: question_kind
  qt_from :: question_state
  qt_trigger :: question_trigger
  qt_to :: question_state
  qt_guard :: question_guard
  qt_effects :: "question_effect list"
  qt_domain_event :: string
  qt_class :: event_class

definition question_transitions :: "question_transition list" where
  "question_transitions =
     [\<lparr>qt_kind = Question, qt_from = Open, qt_trigger = Answer, qt_to = Answered,
       qt_guard = AuthorRecorded, qt_effects = [EnqueueForDelivery],
       qt_domain_event = ''question_answered'', qt_class = Infra\<rparr>,
      \<lparr>qt_kind = Question, qt_from = Answered, qt_trigger = Deliver, qt_to = Delivered,
       qt_guard = NotExpired, qt_effects = [],
       qt_domain_event = ''question_delivered'', qt_class = Infra\<rparr>,
      \<lparr>qt_kind = Question, qt_from = Open, qt_trigger = Void, qt_to = Expired,
       qt_guard = NoCheck, qt_effects = [],
       qt_domain_event = ''question_voided'', qt_class = Infra\<rparr>,
      \<lparr>qt_kind = Question, qt_from = Open, qt_trigger = Expire, qt_to = Expired,
       qt_guard = PastExpiry, qt_effects = [],
       qt_domain_event = ''question_expired'', qt_class = Infra\<rparr>,
      \<lparr>qt_kind = Approval, qt_from = Open, qt_trigger = Answer, qt_to = Answered,
       qt_guard = UserAuthorizationInDate, qt_effects = [EnqueueForDelivery],
       qt_domain_event = ''approval_granted'', qt_class = Infra\<rparr>,
      \<lparr>qt_kind = Approval, qt_from = Answered, qt_trigger = Deliver, qt_to = Delivered,
       qt_guard = NotExpired, qt_effects = [ConsumeAuthorization],
       qt_domain_event = ''approval_consumed'', qt_class = Infra\<rparr>,
      \<lparr>qt_kind = Approval, qt_from = Open, qt_trigger = Expire, qt_to = Expired,
       qt_guard = PastExpiry, qt_effects = [InvalidateAuthorization],
       qt_domain_event = ''approval_expired'', qt_class = Infra\<rparr>,
      \<lparr>qt_kind = Approval, qt_from = Answered, qt_trigger = Expire, qt_to = Expired,
       qt_guard = PastExpiry, qt_effects = [InvalidateAuthorization],
       qt_domain_event = ''approval_expired'', qt_class = Infra\<rparr>]"

record question_facts =
  qf_now :: i64
  qf_answer :: "string option"
  qf_author :: "question_author option"
  qf_merge_already_landed :: bool

definition answered :: "question_facts \<Rightarrow> bool" where
  "answered f \<longleftrightarrow> qf_author f \<noteq> None \<and> (case qf_answer f of None \<Rightarrow> False | Some text \<Rightarrow> text \<noteq> [])"

definition in_date :: "question_row \<Rightarrow> i64 \<Rightarrow> bool" where
  "in_date q now \<longleftrightarrow> (case qu_expires_at q of None \<Rightarrow> True | Some at \<Rightarrow> now < at)"

definition question_guard_refused :: "question_transition \<Rightarrow> detail \<Rightarrow> rejection + unit" where
  "question_guard_refused t det = Inl (GuardFailed ''question'' (question_guard_str (qt_guard t)) det)"

definition check_question_guard ::
  "question_transition \<Rightarrow> question_row \<Rightarrow> question_facts \<Rightarrow> rejection + unit" where
  "check_question_guard t q f =
     (let expiry = case_option 0 id (qu_expires_at q)
      in case qt_guard t of
           AuthorRecorded \<Rightarrow>
             (if answered f then Inr () else question_guard_refused t AnswerIncomplete)
         | UserAuthorizationInDate \<Rightarrow>
             (if \<not> answered f then question_guard_refused t AuthorizationIncomplete
              else if qf_author f \<noteq> Some question_author.User
              then question_guard_refused t OnlyUserAuthorizes
              else if in_date q (qf_now f) then Inr ()
              else question_guard_refused t (AuthorizationExpired expiry))
         | NotExpired \<Rightarrow>
             (if in_date q (qf_now f) \<or> qf_merge_already_landed f then Inr ()
              else question_guard_refused t (ExpiredSilence expiry))
         | PastExpiry \<Rightarrow>
             (if in_date q (qf_now f) then question_guard_refused t NotExpiredYet else Inr ())
         | NoCheck \<Rightarrow> Inr ())"

definition answer_write :: "question_facts \<Rightarrow> rejection + question_answer" where
  "answer_write f =
     (case (qf_answer f, qf_author f) of
        (Some answer, Some author) \<Rightarrow> Inr \<lparr>qa_answer = answer, qa_author = author\<rparr>
      | _ \<Rightarrow> Inl (GuardFailed ''question'' (question_guard_str AuthorRecorded) AnswerIncomplete))"

definition find_question_transition ::
  "question_kind \<Rightarrow> question_state \<Rightarrow> question_trigger \<Rightarrow> question_transition option" where
  "find_question_transition kind state trigger =
     find (\<lambda>c. qt_kind c = kind \<and> qt_from c = state \<and> qt_trigger c = trigger) question_transitions"

definition question_events ::
  "i64 \<Rightarrow> i64 \<Rightarrow> question_row \<Rightarrow> question_transition \<Rightarrow> question_trigger \<Rightarrow> question_author option \<Rightarrow>
   event_row list" where
  "question_events question_id now q t trigger author = transition_events
     \<lparr>jm_run_id = qu_run_id q, jm_ts = now, jm_class = qt_class t, jm_machine = ''question'',
      jm_from = question_state_str (qu_state q), jm_to = question_state_str (qt_to t),
      jm_trigger = question_trigger_str trigger, jm_domain_event = qt_domain_event t\<rparr>
     [(''question_id'', JInt question_id), (''kind'', JString (question_kind_str (qu_kind q))),
      (''author'', json_opt (\<lambda>a. JString (question_author_str a)) author)]"

definition question_write ::
  "i64 \<Rightarrow> question_row \<Rightarrow> question_transition \<Rightarrow> question_trigger \<Rightarrow> question_facts \<Rightarrow>
   question_answer option \<Rightarrow> transition_write" where
  "question_write question_id q t trigger f answer =
     (empty_write (qu_run_id q) (question_events question_id (qf_now f) q t trigger (qf_author f)))
       \<lparr>tw_question := Some \<lparr>qc_question_id = question_id, qc_expected = qu_state q,
          qc_next = qt_to t, qc_answer = answer\<rparr>\<rparr>"

definition question_answer_of :: "question_transition \<Rightarrow> question_facts \<Rightarrow> rejection + question_answer option" where
  "question_answer_of t f =
     (if qt_to t = Answered then and_then (answer_write f) (\<lambda>a. Inr (Some a)) else Inr None)"

definition apply_question ::
  "db \<Rightarrow> i64 \<Rightarrow> question_trigger \<Rightarrow> question_facts \<Rightarrow>
   db \<times> (rejection + (question_state, question_effect) transition_result)" where
  "apply_question d question_id trigger f =
     (case machines_load_question d question_id of
        Inl e \<Rightarrow> (d, Inl e)
      | Inr q \<Rightarrow> (case find_question_transition (qu_kind q) (qu_state q) trigger of
            None \<Rightarrow> (d, Inl (NoSuchTransition ''question'' (question_state_str (qu_state q))
                          (question_trigger_str trigger)))
          | Some t \<Rightarrow>
              (case and_then (check_question_guard t q f) (\<lambda>_. question_answer_of t f) of
                 Inl e \<Rightarrow> (d, Inl e)
               | Inr answer \<Rightarrow> settle_write d (question_write question_id q t trigger f answer)
                   (qu_state q) (qt_to t) (qt_effects t) (qt_domain_event t))))"

type_synonym prepared_question = "(question_state, question_change, question_effect) prepared_transition"

definition deliverable :: "question_row \<Rightarrow> question_facts \<Rightarrow> rejection + prepared_question" where
  "deliverable q f =
     and_then (ok_or (find_question_transition (qu_kind q) (qu_state q) Deliver)
        (NoSuchTransition ''question'' (question_state_str (qu_state q)) (question_trigger_str Deliver))) (\<lambda>t.
     and_then (check_question_guard t q f) (\<lambda>_.
     and_then (ok_or (qu_id q) (rejection.Storage ''a stored question must carry an id'')) (\<lambda>question_id.
     Inr \<lparr>pt_change = \<lparr>qc_question_id = question_id, qc_expected = qu_state q, qc_next = qt_to t,
            qc_answer = None\<rparr>,
          pt_from = qu_state q, pt_to = qt_to t, pt_effects = qt_effects t,
          pt_domain_event = qt_domain_event t,
          pt_events = question_events question_id (qf_now f) q t Deliver None\<rparr>)))"

section \<open>Facts about the machine\<close>

interpretation question_table: keyed_table question_transitions "\<lambda>t. (qt_kind t, qt_from t, qt_trigger t)"
  by unfold_locales (simp add: question_transitions_def)

lemma find_question_transition_iff:
  "find_question_transition k s tr = Some t \<longleftrightarrow>
     t \<in> set question_transitions \<and> qt_kind t = k \<and> qt_from t = s \<and> qt_trigger t = tr"
  using question_table.find_iff [of "(k, s, tr)" t] by (simp add: find_question_transition_def)

lemma question_terminal: "t \<in> set question_transitions \<Longrightarrow> qt_from t \<notin> {Delivered, Expired} \<and> qt_to t \<noteq> Open"
  by (auto simp: question_transitions_def)

lemma answered_only_by_answer:
  "t \<in> set question_transitions \<Longrightarrow> qt_to t = Answered \<longleftrightarrow> qt_trigger t = Answer"
  by (auto simp: question_transitions_def)

lemma delivered_only_from_answered:
  "t \<in> set question_transitions \<Longrightarrow> qt_to t = Delivered \<longleftrightarrow> qt_trigger t = Deliver"
  "t \<in> set question_transitions \<Longrightarrow> qt_trigger t = Deliver \<Longrightarrow> qt_from t = Answered \<and> qt_guard t = NotExpired"
  by (auto simp: question_transitions_def)

lemma approval_answer_guard:
  "t \<in> set question_transitions \<Longrightarrow> qt_kind t = Approval \<Longrightarrow> qt_trigger t = Answer \<Longrightarrow>
     qt_guard t = UserAuthorizationInDate"
  by (auto simp: question_transitions_def)

lemma apply_question_cases:
  obtains (refused) e where "apply_question d i tr f = (d, Inl e)"
  | (moved) q t answer d' out a b where
      "load_question d i = Some q" "t \<in> set question_transitions" "qt_kind t = qu_kind q"
      "qt_from t = qu_state q" "qt_trigger t = tr" "check_question_guard t q f = Inr ()"
      "question_answer_of t f = Inr answer"
      "transition_tx (question_write i q t tr f answer) d = Inr (d', out)" "to_event_ids out = [a, b]"
      "apply_question d i tr f = (d', Inr (Applied \<lparr>ap_from = qu_state q, ap_to = qt_to t,
         ap_effects = qt_effects t, ap_domain_event = qt_domain_event t,
         ap_state_changed_event_id = a, ap_domain_event_id = b,
         ap_opened_question_id = to_question_id out\<rparr>))"
proof (cases "load_question d i")
  case None
  then show ?thesis using refused by (simp add: apply_question_def machines_load_question_def)
next
  case q: (Some q)
  show ?thesis
  proof (cases "find_question_transition (qu_kind q) (qu_state q) tr")
    case None
    then show ?thesis using refused q by (simp add: apply_question_def machines_load_question_def)
  next
    case row: (Some t)
    then have t: "t \<in> set question_transitions" "qt_kind t = qu_kind q" "qt_from t = qu_state q" "qt_trigger t = tr"
      by (simp_all add: find_question_transition_iff)
    show ?thesis
    proof (cases "and_then (check_question_guard t q f) (\<lambda>_. question_answer_of t f)")
      case (Inl e)
      then show ?thesis using refused q row by (simp add: apply_question_def machines_load_question_def)
    next
      case guard: (Inr answer)
      have app: "apply_question d i tr f = settle_write d (question_write i q t tr f answer) (qu_state q)
          (qt_to t) (qt_effects t) (qt_domain_event t)"
        using q row guard by (simp add: apply_question_def machines_load_question_def)
      from guard have g: "check_question_guard t q f = Inr ()" "question_answer_of t f = Inr answer"
        by (auto simp: and_then_Inr_iff)
      have "length (tw_events (question_write i q t tr f answer)) = 2"
        by (simp add: question_write_def empty_write_def question_events_def)
      then show ?thesis
        by (rule settle_write_cases [where d = d and src = "qu_state q" and dst = "qt_to t"
              and eff = "qt_effects t" and ev = "qt_domain_event t"])
          (use refused moved q t g app in auto)
    qed
  qed
qed

lemma apply_question_rolled_back: "apply_question d i tr f = (d', Inl e) \<Longrightarrow> d' = d"
  by (rule apply_question_cases [of d i tr f]) auto

lemma apply_question_wf: "db_wf d \<Longrightarrow> db_wf (fst (apply_question d i tr f))"
  by (rule apply_question_cases [of d i tr f]) (auto dest: transition_tx_wf)

text \<open>The row a conditional question update matches.\<close>

lemma question_update_by_id:
  assumes "db_wf d" "load_question d i = Some q" "p q"
  shows "sql_update (\<lambda>q. qu_id q = Some i \<and> p q) f (db_questions d) =
     sql_update (\<lambda>q. qu_id q = Some i) f (db_questions d)"
proof -
  have "\<forall>r \<in> set (db_questions d). qu_id r = Some i \<longrightarrow> r = q"
    using assms(1,2) load_question_iff [OF assms(1)] by (metis option.inject)
  then show ?thesis using assms(3) by (auto simp: sql_update_def)
qed

lemma question_tx_tables:
  assumes wf: "db_wf d" and q: "load_question d i = Some q"
    and tx: "transition_tx (question_write i q t tr f answer) d = Inr (d', out)"
  shows "db_questions d' = sql_update (\<lambda>q. qu_id q = Some i)
      (change_question \<lparr>qc_question_id = i, qc_expected = qu_state q, qc_next = qt_to t, qc_answer = answer\<rparr>)
      (db_questions d)"
    and "db_runs d' = db_runs d" "db_attempts d' = db_attempts d" "db_providers d' = db_providers d"
proof -
  note tables = transition_tx_tables [OF tx]
  have "sql_update (\<lambda>x. qu_id x = Some i \<and> qu_run_id x = qu_run_id q \<and> qu_state x = qu_state q) g
      (db_questions d) = sql_update (\<lambda>q. qu_id q = Some i) g (db_questions d)" for g
    by (rule question_update_by_id [OF wf q]) simp
  then show "db_questions d' = sql_update (\<lambda>q. qu_id q = Some i)
      (change_question \<lparr>qc_question_id = i, qc_expected = qu_state q, qc_next = qt_to t, qc_answer = answer\<rparr>)
      (db_questions d)"
    unfolding tables(2) by (simp add: questions_written_def question_write_def empty_write_def)
  show "db_runs d' = db_runs d" "db_attempts d' = db_attempts d" "db_providers d' = db_providers d"
    unfolding tables by (simp_all add: runs_written_def attempts_closed_def question_write_def empty_write_def)
qed

end
