(* ===== verification/Settlement.thy ===== *)
theory Settlement
  imports Question_Machine
begin

text \<open>
  \<open>settle_merge\<close> of crates/agens-server/src/fsm/mod.rs: the verdict of a landed merge,
  the authorization it was spent on, the \<open>merged\<close> entry and the release of the run's
  directory, in one transaction. It composes the two prepared transitions of theories
  Question_Machine and Worktree_Machine.
\<close>

record merge_settlement =
  ms_run_id :: i64
  ms_approval_id :: i64
  ms_now :: i64
  ms_verdict :: event_row
  ms_merged :: event_row
  ms_worktree_clean :: bool
  ms_landed :: bool

record settled_merge =
  sm_verdict_event_id :: i64
  sm_merged_event_id :: i64
  sm_approval :: "(question_state, question_effect) applied_transition"
  sm_worktree :: "(worktree_status, worktree_effect) applied_transition option"

definition next_id :: "i64 list \<Rightarrow> rejection + i64 \<times> i64 list" where
  "next_id ids =
     (case ids of
        [] \<Rightarrow> Inl (rejection.Storage ''a settled merge must journal one id per event it carried'')
      | i # rest \<Rightarrow> Inr (i, rest))"

definition settlement_facts :: "merge_settlement \<Rightarrow> question_facts" where
  "settlement_facts s =
     \<lparr>qf_now = ms_now s, qf_answer = None, qf_author = None, qf_merge_already_landed = ms_landed s\<rparr>"

text \<open>The guards of both machines run before anything is written.\<close>

definition prepare_settlement ::
  "db \<Rightarrow> merge_settlement \<Rightarrow> rejection + prepared_question \<times> prepared_worktree option" where
  "prepare_settlement d s =
     and_then (machines_load_question d (ms_approval_id s)) (\<lambda>question.
     and_then (deliverable question (settlement_facts s)) (\<lambda>approval.
     and_then (machines_load_run d (ms_run_id s)) (\<lambda>run.
     and_then (releasable run (ms_now s) (ms_worktree_clean s)) (\<lambda>release.
     Inr (approval, release)))))"

definition settlement_events ::
  "merge_settlement \<Rightarrow> prepared_question \<Rightarrow> prepared_worktree option \<Rightarrow> event_row list" where
  "settlement_events s approval release =
     [ms_verdict s] @ pt_events approval @ [ms_merged s] @
     (case release of None \<Rightarrow> [] | Some r \<Rightarrow> pt_events r)"

definition settlement_write ::
  "merge_settlement \<Rightarrow> prepared_question \<Rightarrow> prepared_worktree option \<Rightarrow> transition_write" where
  "settlement_write s approval release =
     (empty_write (ms_run_id s) (settlement_events s approval release))
       \<lparr>tw_worktree_status := map_option pt_change release, tw_question := Some (pt_change approval)\<rparr>"

definition settled_ids ::
  "i64 list \<Rightarrow> prepared_question \<Rightarrow> prepared_worktree option \<Rightarrow> rejection + settled_merge" where
  "settled_ids ids approval release =
     and_then (next_id ids) (\<lambda>(verdict, ids).
     and_then (next_id ids) (\<lambda>(a, ids).
     and_then (next_id ids) (\<lambda>(b, ids).
     and_then (next_id ids) (\<lambda>(merged, ids).
     and_then
       (case release of
          None \<Rightarrow> Inr None
        | Some r \<Rightarrow>
            and_then (next_id ids) (\<lambda>(x, ids).
            and_then (next_id ids) (\<lambda>(y, ids). Inr (Some (prepared_applied r x y))))) (\<lambda>worktree.
     Inr \<lparr>sm_verdict_event_id = verdict, sm_merged_event_id = merged,
          sm_approval = prepared_applied approval a b, sm_worktree = worktree\<rparr>)))))"

definition settle_merge :: "db \<Rightarrow> merge_settlement \<Rightarrow> db \<times> (rejection + settled_merge)" where
  "settle_merge d s =
     (case prepare_settlement d s of
        Inl e \<Rightarrow> (d, Inl e)
      | Inr (approval, release) \<Rightarrow>
          (case apply_transition d (settlement_write s approval release) of
             (d', Inl e) \<Rightarrow> (d', Inl (rejection_of e))
           | (d', Inr out) \<Rightarrow> (d', settled_ids (to_event_ids out) approval release)))"

section \<open>What was prepared\<close>

lemma deliverableE:
  assumes "deliverable q f = Inr p"
  obtains t i where "t \<in> set question_transitions" "qt_kind t = qu_kind q" "qt_from t = qu_state q"
    "qt_trigger t = Deliver" "check_question_guard t q f = Inr ()" "qu_id q = Some i"
    "pt_change p = \<lparr>qc_question_id = i, qc_expected = qu_state q, qc_next = qt_to t, qc_answer = None\<rparr>"
    "pt_from p = qu_state q" "pt_to p = qt_to t" "pt_effects p = qt_effects t"
    "pt_events p = question_events i (qf_now f) q t Deliver None"
  using assms unfolding deliverable_def
  by (elim and_then_InrE) (auto simp: ok_or_Inr_iff find_question_transition_iff)

lemma releasableE:
  assumes "releasable run now clean = Inr (Some p)"
  obtains s t i where "rr_worktree_status run = Some s" "t \<in> set worktree_transitions" "wt_from t = s"
    "wt_trigger t = MergeDetected" "rr_id run = Some i" "pt_change p = \<lparr>sc_expected = s, sc_next = wt_to t\<rparr>"
    "pt_from p = s" "pt_to p = wt_to t" "pt_effects p = wt_effects t"
    "pt_events p = worktree_events i now run s t MergeDetected"
  using assms unfolding releasable_def
  by (auto split: option.splits elim!: and_then_InrE simp: ok_or_Inr_iff find_worktree_transition_iff)

lemma merge_detected_row:
  "t \<in> set worktree_transitions \<Longrightarrow> wt_trigger t = MergeDetected \<Longrightarrow> wt_from t = Active \<and> wt_to t = Reclaimable"
  by (auto simp: worktree_transitions_def)

lemma find_merge_detected_none: "find_worktree_transition s MergeDetected = None \<longleftrightarrow> s \<noteq> Active"
  by (cases s) (simp_all add: find_worktree_transition_def worktree_transitions_def)

lemma releasable_none_iff:
  "releasable run now clean = Inr None \<longleftrightarrow> rr_worktree_status run \<noteq> Some Active"
proof (cases "rr_worktree_status run")
  case None
  then show ?thesis by (simp add: releasable_def)
next
  case st: (Some st)
  show ?thesis
  proof (cases "find_worktree_transition st MergeDetected")
    case None
    then have "st \<noteq> Active" using find_merge_detected_none [of st] by simp
    with None st show ?thesis by (simp add: releasable_def)
  next
    case (Some t)
    then have "st = Active" using find_merge_detected_none [of st] by simp
    with Some st show ?thesis by (auto simp: releasable_def and_then_Inr_iff)
  qed
qed

lemma deliver_row:
  "t \<in> set question_transitions \<Longrightarrow> qt_trigger t = Deliver \<Longrightarrow>
     qt_from t = Answered \<and> qt_to t = Delivered \<and> qt_guard t = NotExpired"
  by (auto simp: question_transitions_def)

lemma question_events_length [simp]: "length (question_events i n q t tr a) = 2"
  by (simp add: question_events_def)

lemma worktree_events_length [simp]: "length (worktree_events i n run s t tr) = 2"
  by (simp add: worktree_events_def)

lemma settled_ids_ok:
  assumes "length ids = length (settlement_events s approval release)"
    and "length (pt_events approval) = 2" "\<And>r. release = Some r \<Longrightarrow> length (pt_events r) = 2"
  obtains m where "settled_ids ids approval release = Inr m"
    "sm_verdict_event_id m = ids ! 0" "sm_merged_event_id m = ids ! 3"
    "sm_worktree m = map_option (\<lambda>r. prepared_applied r (ids ! 4) (ids ! 5)) release"
    "sm_approval m = prepared_applied approval (ids ! 1) (ids ! 2)"
proof (cases release)
  case None
  with assms obtain a b c e where "ids = [a, b, c, e]"
    by (auto simp: settlement_events_def length_Suc_conv numeral_eq_Suc)
  with None show ?thesis by (intro that) (simp add: settled_ids_def next_id_def, simp_all)
next
  case (Some r)
  with assms have "length ids = 6" by (simp add: settlement_events_def)
  then obtain a b c e f g where "ids = [a, b, c, e, f, g]"
    by (auto simp: length_Suc_conv numeral_eq_Suc)
  with Some show ?thesis by (intro that) (simp add: settled_ids_def next_id_def, simp_all)
qed

section \<open>How a settlement ends\<close>

lemma settle_merge_cases:
  obtains (refused) e where "settle_merge d s = (d, Inl e)"
  | (settled) q run approval release d' out m where
      "load_question d (ms_approval_id s) = Some q" "load_run d (ms_run_id s) = Some run"
      "deliverable q (settlement_facts s) = Inr approval"
      "releasable run (ms_now s) (ms_worktree_clean s) = Inr release"
      "transition_tx (settlement_write s approval release) d = Inr (d', out)"
      "settled_ids (to_event_ids out) approval release = Inr m"
      "sm_verdict_event_id m = to_event_ids out ! 0" "sm_merged_event_id m = to_event_ids out ! 3"
      "settle_merge d s = (d', Inr m)"
proof (cases "prepare_settlement d s")
  case (Inl e)
  then show ?thesis using refused by (simp add: settle_merge_def)
next
  case (Inr pr)
  then obtain q approval run release where
    q: "load_question d (ms_approval_id s) = Some q" and run: "load_run d (ms_run_id s) = Some run"
    and app: "deliverable q (settlement_facts s) = Inr approval"
    and rel: "releasable run (ms_now s) (ms_worktree_clean s) = Inr release"
    and pr: "pr = (approval, release)"
    unfolding prepare_settlement_def machines_load_question_def machines_load_run_def
    by (elim and_then_InrE) (auto simp: ok_or_Inr_iff)
  let ?w = "settlement_write s approval release"
  show ?thesis
  proof (cases "apply_transition d ?w")
    case (Pair d' r)
    show ?thesis
    proof (cases r)
      case (Inl e)
      then have "d' = d" using Pair store.rolled_back by blast
      then show ?thesis using refused Pair Inl \<open>prepare_settlement d s = Inr pr\<close>
        by (simp add: settle_merge_def pr)
    next
      case out: (Inr out)
      then have tx: "transition_tx ?w d = Inr (d', out)"
        using Pair by (simp add: apply_transition_def commit_Inr_iff)
      have len: "length (to_event_ids out) = length (settlement_events s approval release)"
        using store.ids_given [of d ?w d' out] Pair out by (simp add: settlement_write_def empty_write_def)
      have "length (pt_events approval) = 2" using app by (rule deliverableE) simp
      moreover have "length (pt_events r) = 2" if "release = Some r" for r
        using rel unfolding that by (rule releasableE) simp
      ultimately obtain m where m: "settled_ids (to_event_ids out) approval release = Inr m"
        "sm_verdict_event_id m = to_event_ids out ! 0" "sm_merged_event_id m = to_event_ids out ! 3"
        using settled_ids_ok [OF len] by metis
      have "settle_merge d s = (d', Inr m)"
        using Pair out m \<open>prepare_settlement d s = Inr pr\<close> by (simp add: settle_merge_def pr)
      with q run app rel tx m show ?thesis using settled by blast
    qed
  qed
qed

lemma settle_merge_rolled_back: "settle_merge d s = (d', Inl e) \<Longrightarrow> d' = d"
  by (rule settle_merge_cases [of d s]) auto

lemma settle_merge_wf: "db_wf d \<Longrightarrow> db_wf (fst (settle_merge d s))"
  by (rule settle_merge_cases [of d s]) (auto dest: transition_tx_wf)

text \<open>A settled question belongs to the run the settlement names: the update is conditional on it.\<close>

lemma write_question_matches:
  assumes "write_question r (Some c) d = Inr d'"
  obtains q where "q \<in> set (db_questions d)" "qu_id q = Some (qc_question_id c)" "qu_run_id q = r"
    "qu_state q = qc_expected c"
proof -
  have "sql_count (\<lambda>q. qu_id q = Some (qc_question_id c) \<and> qu_run_id q = r \<and> qu_state q = qc_expected c)
      (db_questions d) = 1"
    using assms by (auto simp: write_question_def Let_def split: if_splits)
  then have "filter (\<lambda>q. qu_id q = Some (qc_question_id c) \<and> qu_run_id q = r \<and> qu_state q = qc_expected c)
      (db_questions d) \<noteq> []"
    by (auto simp: sql_count_def)
  then show ?thesis using that by (auto simp: filter_empty_conv)
qed

lemma settlement_tx_tables:
  assumes wf: "db_wf d" and q: "load_question d (ms_approval_id s) = Some q"
    and run: "load_run d (ms_run_id s) = Some run"
    and app: "deliverable q (settlement_facts s) = Inr approval"
    and rel: "releasable run (ms_now s) (ms_worktree_clean s) = Inr release"
    and tx: "transition_tx (settlement_write s approval release) d = Inr (d', out)"
  shows "qu_run_id q = ms_run_id s"
    and "db_questions d' = sql_update (\<lambda>q. qu_id q = Some (ms_approval_id s)) (\<lambda>q. q\<lparr>qu_state := Delivered\<rparr>)
      (db_questions d)"
    and "db_runs d' = (if rr_worktree_status run = Some Active
      then sql_update (\<lambda>r. rr_id r = Some (ms_run_id s)) (\<lambda>r. r\<lparr>rr_worktree_status := Some Reclaimable\<rparr>) (db_runs d)
      else db_runs d)"
    and "db_attempts d' = db_attempts d" "db_providers d' = db_providers d"
proof -
  note tables = transition_tx_tables [OF tx]
  from app obtain t i where t: "t \<in> set question_transitions" "qt_from t = qu_state q" "qt_trigger t = Deliver"
    and i: "qu_id q = Some i"
    and ch: "pt_change approval = \<lparr>qc_question_id = i, qc_expected = qu_state q, qc_next = qt_to t, qc_answer = None\<rparr>"
    by (rule deliverableE)
  have to: "qt_to t = Delivered" using deliver_row [OF t(1,3)] by simp
  have qin: "q \<in> set (db_questions d)" "qu_id q = Some (ms_approval_id s)"
    using q load_question_iff [OF wf] by auto
  then have i': "i = ms_approval_id s" using i by simp
  from tx obtain d3 where "transition_changes (settlement_write s approval release) d = Inr d3"
    unfolding transition_tx_def by (elim and_then_InrE)
  then obtain d2 where w: "write_question (ms_run_id s) (Some (pt_change approval)) d2 = Inr d3"
    and d2: "db_questions d2 = db_questions d"
    by (auto elim!: transition_changesE simp: settlement_write_def empty_write_def write_run_state_def
        write_worktree_status_def Let_def split: option.splits if_splits)
  then obtain q' where q': "q' \<in> set (db_questions d)" "qu_id q' = Some i" "qu_run_id q' = ms_run_id s"
    by (rule_tac write_question_matches [OF w]) (simp add: ch d2)
  have ok: "tbl_ok qu_id (db_questions d)" using wf by (simp add: db_wf_def)
  have "q' = q" using questions.id_unique [OF ok q'(1) qin(1)] q'(2) i by simp
  with q'(3) show qr: "qu_run_id q = ms_run_id s" by simp
  have "sql_update (\<lambda>x. qu_id x = Some i \<and> qu_run_id x = ms_run_id s \<and> qu_state x = qu_state q) g
      (db_questions d) = sql_update (\<lambda>q. qu_id q = Some i) g (db_questions d)" for g
    by (rule question_update_by_id [OF wf q [folded i']]) (simp add: qr)
  moreover have "change_question \<lparr>qc_question_id = i, qc_expected = qu_state q, qc_next = Delivered, qc_answer = None\<rparr>
      = (\<lambda>q. q\<lparr>qu_state := Delivered\<rparr>)" for i
    by (simp add: fun_eq_iff change_question_def)
  ultimately show "db_questions d' = sql_update (\<lambda>q. qu_id q = Some (ms_approval_id s)) (\<lambda>q. q\<lparr>qu_state := Delivered\<rparr>)
      (db_questions d)"
    unfolding tables(2)
    by (simp add: questions_written_def settlement_write_def empty_write_def ch to i')
  show "db_runs d' = (if rr_worktree_status run = Some Active
      then sql_update (\<lambda>r. rr_id r = Some (ms_run_id s)) (\<lambda>r. r\<lparr>rr_worktree_status := Some Reclaimable\<rparr>) (db_runs d)
      else db_runs d)"
  proof (cases release)
    case None
    then have "rr_worktree_status run \<noteq> Some Active" using rel releasable_none_iff by simp
    then show ?thesis
      unfolding tables(1) by (simp add: runs_written_def settlement_write_def empty_write_def None)
  next
    case (Some p)
    from rel [unfolded Some] obtain st u where u: "rr_worktree_status run = Some st"
      "u \<in> set worktree_transitions" "wt_from u = st" "wt_trigger u = MergeDetected"
      "pt_change p = \<lparr>sc_expected = st, sc_next = wt_to u\<rparr>"
      by (rule releasableE)
    have st: "st = Active" "wt_to u = Reclaimable" using merge_detected_row [OF u(2,4)] u(3) by auto
    have "sql_update (\<lambda>r. rr_id r = Some (ms_run_id s) \<and> rr_worktree_status r = Some Active) g (db_runs d) =
        sql_update (\<lambda>r. rr_id r = Some (ms_run_id s)) g (db_runs d)" for g
      by (rule run_update_by_id [OF wf run]) (simp add: u(1) st)
    then show ?thesis
      unfolding tables(1)
      by (simp add: runs_written_def settlement_write_def empty_write_def Some u(1,5) st)
  qed
  show "db_attempts d' = db_attempts d" "db_providers d' = db_providers d"
    unfolding tables by (simp_all add: attempts_closed_def settlement_write_def empty_write_def)
qed

end
