(* ===== verification/Fact_Path.thy ===== *)
theory Fact_Path
  imports Prelude
begin

text \<open>
  The paths tools report (\<open>FactPath\<close>, crates/agens-core/src/lib.rs). A text is its UTF-8
  bytes. \<open>components\<close> is the standard library's reading of a Unix path: a leading
  separator is the root, empty components and every \<open>.\<close> but a leading one are dropped.
\<close>

section \<open>Components of a path\<close>

datatype component = RootDir | CurDir | ParentDir | Normal string

fun split_on :: "char \<Rightarrow> string \<Rightarrow> string list" where
  "split_on c [] = [[]]"
| "split_on c (x # xs) =
     (if x = c then [] # split_on c xs
      else (case split_on c xs of [] \<Rightarrow> [[x]] | p # ps \<Rightarrow> (x # p) # ps))"

fun join_with :: "char \<Rightarrow> string list \<Rightarrow> string" where
  "join_with c [] = []"
| "join_with c [p] = p"
| "join_with c (p # ps) = p @ c # join_with c ps"

definition separator :: char where "separator = CHR ''/''"

definition is_absolute :: "string \<Rightarrow> bool" where
  "is_absolute path \<longleftrightarrow> (case path of [] \<Rightarrow> False | c # cs \<Rightarrow> c = separator)"

definition component_of :: "string \<Rightarrow> component" where
  "component_of part = (if part = ''..'' then ParentDir else Normal part)"

definition components :: "string \<Rightarrow> component list" where
  "components path =
     (let parts = split_on separator path
      in (if is_absolute path then [RootDir] else if hd parts = ''.'' then [CurDir] else []) @
         map component_of (filter (\<lambda>part. part \<noteq> [] \<and> part \<noteq> ''.'') parts))"

text \<open>A control character is C0, DEL, or C1, whose two bytes are C2 and 80 to 9F.\<close>

fun has_control :: "string \<Rightarrow> bool" where
  "has_control [] = False"
| "has_control (c # cs) =
     ((of_char c :: nat) < 32 \<or> (of_char c :: nat) = 127 \<or>
      ((of_char c :: nat) = 194 \<and> (case cs of [] \<Rightarrow> False | d # ds \<Rightarrow> 128 \<le> (of_char d :: nat) \<and> (of_char d :: nat) < 160)) \<or>
      has_control cs)"

section \<open>Reported paths\<close>

type_synonym fact_path = "string option"

definition max_path_bytes :: nat where "max_path_bytes = 1024"

fun normal_part :: "component \<Rightarrow> string option" where
  "normal_part (Normal part) = Some part"
| "normal_part c = None"

definition normalize_path :: "string \<Rightarrow> string" where
  "normalize_path path =
     (let joined = join_with separator (List.map_filter normal_part (components path))
      in if joined = [] then path else joined)"

definition well_formed_path :: "string \<Rightarrow> bool" where
  "well_formed_path path \<longleftrightarrow>
     path \<noteq> [] \<and> length path \<le> max_path_bytes \<and> \<not> has_control path \<and>
     \<not> is_absolute path \<and> ParentDir \<notin> set (components path)"

definition new_fact_path :: "string \<Rightarrow> fact_path" where
  "new_fact_path path = (if well_formed_path path then Some (normalize_path path) else None)"

definition is_representable :: "fact_path \<Rightarrow> bool" where
  "is_representable p \<longleftrightarrow> p \<noteq> None"

section \<open>The canonical form\<close>

lemma split_on_nonempty [simp]: "split_on c xs \<noteq> []"
  by (induction xs) (auto split: list.splits)

lemma split_on_no_sep: "p \<in> set (split_on c xs) \<Longrightarrow> c \<notin> set p"
proof (induction xs arbitrary: p)
  case (Cons x xs)
  then show ?case by (cases "split_on c xs") (auto split: if_splits)
qed simp

lemma split_on_append:
  "c \<notin> set p \<Longrightarrow> split_on c (p @ c # xs) = p # split_on c xs"
  by (induction p) auto

lemma split_on_plain: "c \<notin> set p \<Longrightarrow> split_on c p = [p]"
  by (induction p) auto

lemma split_join:
  "ps \<noteq> [] \<Longrightarrow> \<forall>p \<in> set ps. c \<notin> set p \<Longrightarrow> split_on c (join_with c ps) = ps"
  by (induction c ps rule: join_with.induct) (auto simp: split_on_append split_on_plain)

lemma join_split: "join_with c (split_on c xs) = xs"
proof (induction xs)
  case (Cons x xs)
  then show ?case by (cases "split_on c xs" rule: list.exhaust; cases "tl (split_on c xs)") (auto split: list.splits)
qed simp

definition path_parts :: "string \<Rightarrow> string list" where
  "path_parts path = filter (\<lambda>part. part \<noteq> [] \<and> part \<noteq> ''.'') (split_on separator path)"

lemma parents_iff: "ParentDir \<in> set (components path) \<longleftrightarrow> ''..'' \<in> set (path_parts path)"
  by (auto simp: components_def component_of_def path_parts_def Let_def image_iff)

lemma normal_parts:
  "''..'' \<notin> set (path_parts path) \<Longrightarrow> List.map_filter normal_part (components path) = path_parts path"
proof -
  have "''..'' \<notin> set ps \<Longrightarrow> List.map_filter normal_part (map component_of ps) = ps" for ps
    by (induction ps) (auto simp: component_of_def map_filter_simps)
  then show "''..'' \<notin> set (path_parts path) \<Longrightarrow> ?thesis"
    by (simp add: components_def path_parts_def Let_def map_filter_def)
qed

lemma normalize_parts:
  "''..'' \<notin> set (path_parts path) \<Longrightarrow>
    normalize_path path = (if path_parts path = [] then path else join_with separator (path_parts path))"
proof -
  assume ok: "''..'' \<notin> set (path_parts path)"
  have "join_with separator (p # ps) = [] \<longleftrightarrow> p = [] \<and> ps = []" for p ps
    by (cases ps) auto
  moreover have "[] \<notin> set (path_parts path)" by (simp add: path_parts_def)
  ultimately show ?thesis
    by (cases "path_parts path") (auto simp: normalize_path_def normal_parts [OF ok] Let_def)
qed

lemma path_parts_plain: "p \<in> set (path_parts path) \<Longrightarrow> separator \<notin> set p \<and> p \<noteq> [] \<and> p \<noteq> ''.''"
  by (auto simp: path_parts_def dest: split_on_no_sep)

lemma path_parts_join: "path_parts (join_with separator (path_parts path)) = path_parts path"
proof (cases "path_parts path = []")
  case True
  then show ?thesis unfolding True by (simp add: path_parts_def)
next
  case False
  have "split_on separator (join_with separator (path_parts path)) = path_parts path"
    by (rule split_join [OF False]) (simp add: path_parts_plain)
  then show ?thesis unfolding path_parts_def [of "join_with separator (path_parts path)"]
    by (auto simp: filter_id_conv path_parts_plain)
qed

lemma path_parts_normalize: "''..'' \<notin> set (path_parts path) \<Longrightarrow> path_parts (normalize_path path) = path_parts path"
  by (simp add: normalize_parts path_parts_join)

lemma has_control_sep [simp]: "has_control (p @ separator # r) \<longleftrightarrow> has_control p \<or> has_control r"
  by (induction p) (auto simp: separator_def split: list.splits)

lemma has_control_join: "has_control (join_with separator ps) \<longleftrightarrow> (\<exists>p \<in> set ps. has_control p)"
  by (induction separator ps rule: join_with.induct) auto

lemma length_join: "ps \<noteq> [] \<Longrightarrow> Suc (length (join_with c ps)) = sum_list (map (\<lambda>p. Suc (length p)) ps)"
  by (induction c ps rule: join_with.induct) auto

lemma length_join_filter: "length (join_with c (filter P ps)) \<le> length (join_with c ps)"
proof (cases "filter P ps = []")
  case False
  then have "ps \<noteq> []" by auto
  have "sum_list (map (\<lambda>p. Suc (length p)) (filter P ps)) \<le> sum_list (map (\<lambda>p. Suc (length p)) ps)"
    by (induction ps) auto
  then show ?thesis using length_join [OF False, of c] length_join [OF \<open>ps \<noteq> []\<close>, of c] by simp
qed simp

lemma canonical_well_formed:
  assumes "well_formed_path path" shows "well_formed_path (normalize_path path)"
proof (cases "path_parts path = []")
  case True
  then show ?thesis using assms by (simp add: normalize_parts)
next
  case False
  have up: "''..'' \<notin> set (path_parts path)" using assms by (simp add: well_formed_path_def parents_iff)
  have eq: "normalize_path path = join_with separator (path_parts path)" using False by (simp add: normalize_parts [OF up])
  obtain q qs where parts: "path_parts path = q # qs" using False by (cases "path_parts path") auto
  have q: "q \<noteq> []" "separator \<notin> set q" using path_parts_plain [of q path] parts by auto
  then have start: "normalize_path path \<noteq> []" "\<not> is_absolute (normalize_path path)"
    unfolding eq parts by (cases q; cases qs; auto simp: is_absolute_def)+
  have "length (normalize_path path) \<le> length path"
    using length_join_filter [of separator "\<lambda>part. part \<noteq> [] \<and> part \<noteq> ''.''" "split_on separator path"]
    unfolding eq by (simp add: path_parts_def join_split)
  moreover have "\<forall>x \<in> set (split_on separator path). \<not> has_control x"
    using assms has_control_join [of "split_on separator path"] by (simp add: well_formed_path_def join_split)
  then have "\<not> has_control (normalize_path path)"
    unfolding eq has_control_join by (simp add: path_parts_def)
  ultimately show ?thesis
    using start assms up by (simp add: well_formed_path_def parents_iff path_parts_normalize)
qed

lemma normalize_idem:
  assumes "well_formed_path path" shows "normalize_path (normalize_path path) = normalize_path path"
proof -
  have up: "''..'' \<notin> set (path_parts path)" using assms by (simp add: well_formed_path_def parents_iff)
  then have "''..'' \<notin> set (path_parts (normalize_path path))" by (simp add: path_parts_normalize)
  from normalize_parts [OF this] show ?thesis
    by (simp add: path_parts_normalize [OF up]) (simp add: normalize_parts [OF up])
qed

text \<open>Two spellings of one file: the same parts, in the same order.\<close>

lemma new_fact_path_same:
  assumes "well_formed_path p" "well_formed_path q" "path_parts p \<noteq> []"
  shows "new_fact_path p = new_fact_path q \<longleftrightarrow> path_parts p = path_parts q"
proof
  assume "path_parts p = path_parts q"
  then show "new_fact_path p = new_fact_path q"
    using assms by (simp add: new_fact_path_def normalize_parts well_formed_path_def parents_iff)
next
  assume "new_fact_path p = new_fact_path q"
  then have "normalize_path p = normalize_path q" using assms by (simp add: new_fact_path_def)
  then show "path_parts p = path_parts q"
    using assms path_parts_normalize [of p] path_parts_normalize [of q]
    by (simp add: well_formed_path_def parents_iff)
qed

lemma named_components:
  assumes "well_formed_path p"
  shows "filter (\<lambda>c. c \<noteq> CurDir) (components p) = map Normal (path_parts p)"
proof -
  have "''..'' \<notin> set ps \<Longrightarrow> filter (\<lambda>c. c \<noteq> CurDir) (map component_of ps) = map Normal ps" for ps
    by (induction ps) (auto simp: component_of_def)
  moreover have "''..'' \<notin> set (path_parts p)" "\<not> is_absolute p"
    using assms by (simp_all add: well_formed_path_def parents_iff)
  ultimately show ?thesis by (simp add: components_def path_parts_def Let_def)
qed

end
