(* ===== verification/Text_Ops.thy ===== *)
theory Text_Ops
  imports Fact_Path
begin

text \<open>
  The operations of the standard library on texts the program uses: prefixes and suffixes,
  searching, the characters of a text, white space. A text is its UTF-8 bytes, so an
  offset is a byte offset and a character is the bytes it is written with.
\<close>

section \<open>Prefixes, suffixes and searching\<close>

fun strip_prefix :: "string \<Rightarrow> string \<Rightarrow> string option" where
  "strip_prefix [] s = Some s"
| "strip_prefix (c # cs) [] = None"
| "strip_prefix (c # cs) (x # xs) = (if c = x then strip_prefix cs xs else None)"

definition starts_with :: "string \<Rightarrow> string \<Rightarrow> bool" where
  "starts_with s p \<longleftrightarrow> strip_prefix p s \<noteq> None"

definition strip_suffix :: "string \<Rightarrow> string \<Rightarrow> string option" where
  "strip_suffix p s = map_option rev (strip_prefix (rev p) (rev s))"

definition ends_with :: "string \<Rightarrow> string \<Rightarrow> bool" where
  "ends_with s p \<longleftrightarrow> strip_suffix p s \<noteq> None"

fun find_text :: "string \<Rightarrow> string \<Rightarrow> nat option" where
  "find_text p [] = (if p = [] then Some 0 else None)"
| "find_text p (x # xs) = (if starts_with (x # xs) p then Some 0 else map_option Suc (find_text p xs))"

definition contains_text :: "string \<Rightarrow> string \<Rightarrow> bool" where
  "contains_text s p \<longleftrightarrow> find_text p s \<noteq> None"

fun split_once :: "char \<Rightarrow> string \<Rightarrow> (string \<times> string) option" where
  "split_once c [] = None"
| "split_once c (x # xs) =
     (if x = c then Some ([], xs) else map_option (\<lambda>(before, after). (x # before, after)) (split_once c xs))"

lemma strip_prefix_iff: "strip_prefix p s = Some rest \<longleftrightarrow> s = p @ rest"
  by (induction p s rule: strip_prefix.induct) auto

lemma strip_prefix_append [simp]: "strip_prefix p (p @ rest) = Some rest"
  by (simp add: strip_prefix_iff)

lemma strip_prefix_self [simp]: "strip_prefix p p = Some []"
  by (simp add: strip_prefix_iff)

lemma starts_with_iff: "starts_with s p \<longleftrightarrow> (\<exists>rest. s = p @ rest)"
  using strip_prefix_iff [of p s] by (auto simp: starts_with_def)

lemma strip_suffix_iff: "strip_suffix p s = Some front \<longleftrightarrow> s = front @ p"
proof -
  have "strip_suffix p s = Some front \<longleftrightarrow> strip_prefix (rev p) (rev s) = Some (rev front)"
    by (auto simp: strip_suffix_def)
  also have "\<dots> \<longleftrightarrow> s = front @ p" by (simp add: strip_prefix_iff rev_swap)
  finally show ?thesis .
qed

lemma strip_suffix_append [simp]: "strip_suffix p (front @ p) = Some front"
  by (simp add: strip_suffix_iff)

lemma ends_with_iff: "ends_with s p \<longleftrightarrow> (\<exists>front. s = front @ p)"
  using strip_suffix_iff [of p s] by (auto simp: ends_with_def)

lemma split_once_iff: "split_once c s = Some (before, after) \<longleftrightarrow> s = before @ c # after \<and> c \<notin> set before"
proof (induction s arbitrary: before)
  case (Cons x xs)
  show ?case
  proof (cases "x = c")
    case False
    then have "split_once c (x # xs) = Some (before, after) \<longleftrightarrow>
        (\<exists>b. before = x # b \<and> split_once c xs = Some (b, after))" by auto
    also have "\<dots> \<longleftrightarrow> x # xs = before @ c # after \<and> c \<notin> set before"
      using Cons.IH False by (cases before) auto
    finally show ?thesis .
  qed (cases before; auto)
qed simp

lemma split_once_append [simp]: "c \<notin> set before \<Longrightarrow> split_once c (before @ c # after) = Some (before, after)"
  by (simp add: split_once_iff)

lemma split_once_None: "split_once c s = None \<longleftrightarrow> c \<notin> set s"
  by (induction s) auto

section \<open>Characters\<close>

text \<open>The first byte of a character tells how many bytes it takes.\<close>

definition continuation_byte :: "char \<Rightarrow> bool" where
  "continuation_byte c \<longleftrightarrow> (128 :: nat) \<le> of_char c \<and> (of_char c :: nat) < 192"

definition is_char_boundary :: "string \<Rightarrow> nat \<Rightarrow> bool" where
  "is_char_boundary s i \<longleftrightarrow>
     i = 0 \<or> i = length s \<or> (i < length s \<and> \<not> continuation_byte (s ! i))"

text \<open>The last boundary not after an offset, found by stepping back from it.\<close>

fun cut_point :: "string \<Rightarrow> nat \<Rightarrow> nat" where
  "cut_point s 0 = 0"
| "cut_point s (Suc n) = (if is_char_boundary s (Suc n) then Suc n else cut_point s n)"

lemma cut_point_boundary: "cut_point s n \<le> n \<and> is_char_boundary s (cut_point s n)"
  by (induction n) (auto simp: is_char_boundary_def)

lemma cut_point_greatest: "is_char_boundary s k \<Longrightarrow> k \<le> n \<Longrightarrow> k \<le> cut_point s n"
  by (induction n) (auto simp: le_Suc_eq)

definition char_extra :: "char \<Rightarrow> nat" where
  "char_extra c =
     (let b = (of_char c :: nat)
      in if b < 192 then 0 else if b < 224 then 1 else if b < 240 then 2 else 3)"

fun chars :: "string \<Rightarrow> string list" where
  "chars [] = []"
| "chars (c # cs) = (c # take (char_extra c) cs) # chars (drop (char_extra c) cs)"

lemma concat_chars [simp]: "concat (chars s) = s"
  by (induction s rule: chars.induct) auto

lemma chars_nonempty: "ch \<in> set (chars s) \<Longrightarrow> ch \<noteq> []"
  by (induction s rule: chars.induct) auto

definition ascii :: "string \<Rightarrow> bool" where
  "ascii s \<longleftrightarrow> list_all (\<lambda>c. (of_char c :: nat) < 128) s"

lemma chars_ascii: "ascii s \<Longrightarrow> chars s = map (\<lambda>c. [c]) s"
  by (induction s rule: chars.induct) (auto simp: ascii_def char_extra_def)

text \<open>
  \<open>char::is_whitespace\<close>: the characters Unicode gives the property White_Space, by the
  bytes each is written with.
\<close>

definition is_whitespace :: "string \<Rightarrow> bool" where
  "is_whitespace ch =
     (let b = map of_char ch :: nat list
      in b \<in> {[9], [10], [11], [12], [13], [32], [194, 133], [194, 160], [225, 154, 128],
              [226, 128, 128], [226, 128, 129], [226, 128, 130], [226, 128, 131], [226, 128, 132],
              [226, 128, 133], [226, 128, 134], [226, 128, 135], [226, 128, 136], [226, 128, 137],
              [226, 128, 138], [226, 128, 168], [226, 128, 169], [226, 128, 175], [226, 129, 159],
              [227, 128, 128]})"

definition trim_start :: "string list \<Rightarrow> string list" where
  "trim_start cs = dropWhile is_whitespace cs"

definition trim :: "string \<Rightarrow> string" where
  "trim s = concat (rev (trim_start (rev (trim_start (chars s)))))"

definition blank :: "string \<Rightarrow> bool" where
  "blank s \<longleftrightarrow> list_all is_whitespace (chars s)"

lemma dropWhile_rev_prefix: "\<exists>a b. cs = a @ rev (dropWhile P (rev (dropWhile P cs))) @ b"
proof -
  let ?d = "dropWhile P cs"
  have "?d = rev (takeWhile P (rev ?d) @ dropWhile P (rev ?d))" by simp
  then have "?d = rev (dropWhile P (rev ?d)) @ rev (takeWhile P (rev ?d))"
    by (metis rev_append)
  then have "cs = takeWhile P cs @ rev (dropWhile P (rev ?d)) @ rev (takeWhile P (rev ?d))"
    using takeWhile_dropWhile_id [of P cs] by simp
  then show ?thesis by blast
qed

lemma trim_infix: "\<exists>a b. s = a @ trim s @ b"
proof -
  obtain a b where "chars s = a @ rev (trim_start (rev (trim_start (chars s)))) @ b"
    using dropWhile_rev_prefix [of "chars s" is_whitespace] by (auto simp: trim_start_def)
  then have "concat (chars s) = concat (a @ rev (trim_start (rev (trim_start (chars s)))) @ b)"
    by (rule arg_cong)
  then have "s = concat a @ trim s @ concat b" by (simp add: trim_def)
  then show ?thesis by blast
qed

lemma length_trim: "length (trim s) \<le> length s"
proof -
  obtain a b where "s = a @ trim s @ b" using trim_infix by blast
  then have "length s = length (a @ trim s @ b)" by (rule arg_cong)
  then show ?thesis by simp
qed

lemma dropWhile_outside:
  assumes "xs \<noteq> []" "\<not> P (hd xs)" "\<not> P (last xs)"
  shows "rev (dropWhile P (rev (dropWhile P xs))) = xs"
proof -
  have "dropWhile P xs = xs" "dropWhile P (rev xs) = rev xs"
    using assms by (simp_all add: dropWhile_eq_self_iff hd_rev)
  then show ?thesis by simp
qed

lemma trim_tight:
  assumes "s \<noteq> []" "\<not> is_whitespace (hd (chars s))" "\<not> is_whitespace (last (chars s))"
  shows "trim s = s"
proof -
  have "chars s \<noteq> []" using assms(1) by (cases s) auto
  then have "rev (trim_start (rev (trim_start (chars s)))) = chars s"
    unfolding trim_start_def using assms(2,3) by (rule dropWhile_outside)
  then show ?thesis by (simp add: trim_def)
qed

section \<open>Cases of letters\<close>

definition is_ascii_alphabetic :: "char \<Rightarrow> bool" where
  "is_ascii_alphabetic c \<longleftrightarrow>
     (let b = (of_char c :: nat) in (65 \<le> b \<and> b \<le> 90) \<or> (97 \<le> b \<and> b \<le> 122))"

definition is_ascii_digit :: "char \<Rightarrow> bool" where
  "is_ascii_digit c \<longleftrightarrow> (let b = (of_char c :: nat) in 48 \<le> b \<and> b \<le> 57)"

definition is_ascii_alphanumeric :: "char \<Rightarrow> bool" where
  "is_ascii_alphanumeric c \<longleftrightarrow> is_ascii_alphabetic c \<or> is_ascii_digit c"

definition ascii_upper :: "char \<Rightarrow> char" where
  "ascii_upper c =
     (let b = (of_char c :: nat) in if 97 \<le> b \<and> b \<le> 122 then char_of (b - 32) else c)"

definition ascii_lower :: "char \<Rightarrow> char" where
  "ascii_lower c =
     (let b = (of_char c :: nat) in if 65 \<le> b \<and> b \<le> 90 then char_of (b + 32) else c)"

end
