(* ===== verification/Run_Machine.thy ===== *)
theory Run_Machine
  imports Fsm Text_Ops
begin

text \<open>
  The run state machine of crates/agens-server/src/fsm/runs.rs: its transition table
  as data, its guards, and \<open>apply_run\<close>, which moves one run in one transaction.
\<close>

section \<open>Triggers, guards, effects\<close>

datatype run_trigger =
    Approve | Discard | Admit | Ask | QuotaReached | Answered | QuotaReset | Finished
  | AttemptFailed | Retry | Cancel | Reconcile | Resume

fun run_trigger_str :: "run_trigger \<Rightarrow> string" where
  "run_trigger_str Approve = ''approve''"
| "run_trigger_str Discard = ''discard''"
| "run_trigger_str Admit = ''admit''"
| "run_trigger_str Ask = ''ask''"
| "run_trigger_str QuotaReached = ''quota_reached''"
| "run_trigger_str run_trigger.Answered = ''answered''"
| "run_trigger_str QuotaReset = ''quota_reset''"
| "run_trigger_str Finished = ''finished''"
| "run_trigger_str AttemptFailed = ''attempt_failed''"
| "run_trigger_str Retry = ''retry''"
| "run_trigger_str Cancel = ''cancel''"
| "run_trigger_str Reconcile = ''reconcile''"
| "run_trigger_str Resume = ''resume''"

text \<open>The guard \<open>None\<close> of the source is \<open>NoGuard\<close> here.\<close>

datatype run_guard =
    NoGuard | UserApproval | SchedulerAdmission | ReportedByHarness | AnsweredQuestion
  | AskOpensQuestion | QuotaResetElapsed | RetryEligible | BootReconciliation

fun run_guard_str :: "run_guard \<Rightarrow> string" where
  "run_guard_str NoGuard = ''none''"
| "run_guard_str UserApproval = ''user_approval''"
| "run_guard_str SchedulerAdmission = ''scheduler_admission''"
| "run_guard_str ReportedByHarness = ''reported_by_harness''"
| "run_guard_str AnsweredQuestion = ''answered_question''"
| "run_guard_str AskOpensQuestion = ''ask_opens_question''"
| "run_guard_str QuotaResetElapsed = ''quota_reset_elapsed''"
| "run_guard_str RetryEligible = ''retry_eligible''"
| "run_guard_str BootReconciliation = ''boot_reconciliation''"

datatype run_effect =
    FreezeApprovedScope | OpenAttempt | CloseAttempt attempt_outcome | OpenQuestion
  | RecordResult | LaunchSession | SuspendSession | ReleaseSlot | CapProvider
  | ClearProviderCap | ResumePriority | ResumeWithoutChargingRetry | QueueRetryAttempt
  | EnqueueAnswerDelivery | EnqueueResumeDirective | CancelImmediately

record run_transition =
  rt_from :: run_state
  rt_trigger :: run_trigger
  rt_to :: run_state
  rt_guard :: run_guard
  rt_effects :: "run_effect list"
  rt_domain_event :: string
  rt_class :: event_class

definition cancellation :: "run_state \<Rightarrow> run_transition" where
  "cancellation from =
     \<lparr>rt_from = from, rt_trigger = Cancel, rt_to = Cancelled, rt_guard = NoGuard,
      rt_effects = [CloseAttempt attempt_outcome.Interrupted, CancelImmediately],
      rt_domain_event = ''run_cancelled'', rt_class = Infra\<rparr>"

definition run_transitions :: "run_transition list" where
  "run_transitions =
     [\<lparr>rt_from = Draft, rt_trigger = Approve, rt_to = Queued, rt_guard = UserApproval,
       rt_effects = [FreezeApprovedScope], rt_domain_event = ''run_approved'', rt_class = Infra\<rparr>,
      \<lparr>rt_from = Draft, rt_trigger = Discard, rt_to = Cancelled, rt_guard = NoGuard,
       rt_effects = [], rt_domain_event = ''run_discarded'', rt_class = Infra\<rparr>,
      \<lparr>rt_from = Queued, rt_trigger = Admit, rt_to = Running, rt_guard = SchedulerAdmission,
       rt_effects = [OpenAttempt, LaunchSession], rt_domain_event = ''run_started'', rt_class = Infra\<rparr>,
      \<lparr>rt_from = Running, rt_trigger = Ask, rt_to = AwaitingInput, rt_guard = AskOpensQuestion,
       rt_effects = [OpenQuestion, CloseAttempt attempt_outcome.Interrupted, ReleaseSlot, SuspendSession],
       rt_domain_event = ''run_awaiting_input'', rt_class = Agent\<rparr>,
      \<lparr>rt_from = Running, rt_trigger = QuotaReached, rt_to = AwaitingQuota,
       rt_guard = ReportedByHarness,
       rt_effects = [CloseAttempt attempt_outcome.Interrupted, ReleaseSlot, CapProvider],
       rt_domain_event = ''quota_reached'', rt_class = Infra\<rparr>,
      \<lparr>rt_from = AwaitingInput, rt_trigger = run_trigger.Answered, rt_to = Queued,
       rt_guard = AnsweredQuestion,
       rt_effects = [ResumePriority, ResumeWithoutChargingRetry, EnqueueAnswerDelivery],
       rt_domain_event = ''run_resumed'', rt_class = Infra\<rparr>,
      \<lparr>rt_from = AwaitingQuota, rt_trigger = QuotaReset, rt_to = Queued, rt_guard = QuotaResetElapsed,
       rt_effects = [ResumePriority, ResumeWithoutChargingRetry, ClearProviderCap, EnqueueResumeDirective],
       rt_domain_event = ''quota_reset'', rt_class = Infra\<rparr>,
      \<lparr>rt_from = Running, rt_trigger = Finished, rt_to = Done, rt_guard = ReportedByHarness,
       rt_effects = [CloseAttempt Succeeded, RecordResult],
       rt_domain_event = ''run_finished'', rt_class = Agent\<rparr>,
      \<lparr>rt_from = Running, rt_trigger = AttemptFailed, rt_to = run_state.Failed,
       rt_guard = ReportedByHarness, rt_effects = [CloseAttempt attempt_outcome.Failed],
       rt_domain_event = ''run_failed'', rt_class = Agent\<rparr>,
      \<lparr>rt_from = Done, rt_trigger = Retry, rt_to = Queued, rt_guard = RetryEligible,
       rt_effects = [QueueRetryAttempt], rt_domain_event = ''run_retried'', rt_class = Infra\<rparr>,
      \<lparr>rt_from = run_state.Failed, rt_trigger = Retry, rt_to = Queued, rt_guard = RetryEligible,
       rt_effects = [QueueRetryAttempt], rt_domain_event = ''run_retried'', rt_class = Infra\<rparr>,
      \<lparr>rt_from = Running, rt_trigger = Reconcile, rt_to = run_state.Interrupted,
       rt_guard = BootReconciliation,
       rt_effects = [CloseAttempt attempt_outcome.Interrupted, ResumeWithoutChargingRetry],
       rt_domain_event = ''run_interrupted'', rt_class = Infra\<rparr>,
      \<lparr>rt_from = run_state.Interrupted, rt_trigger = Resume, rt_to = Queued, rt_guard = NoGuard,
       rt_effects = [ResumePriority, ResumeWithoutChargingRetry, EnqueueResumeDirective],
       rt_domain_event = ''run_resumed'', rt_class = Infra\<rparr>,
      cancellation Draft,
      cancellation Queued,
      cancellation Running,
      cancellation AwaitingInput,
      cancellation AwaitingQuota,
      cancellation run_state.Interrupted]"

section \<open>Facts\<close>

record run_facts =
  rf_now :: i64
  rf_principal :: principal
  rf_slot_available :: bool
  rf_provider_serving :: bool
  rf_worktree_ready :: bool
  rf_answered_question_id :: "i64 option"
  rf_opened_question :: "question_row option"
  rf_result :: "string option"
  rf_quota_reset_at :: "i64 option"
  rf_quota_window_seconds :: "i64 option"
  rf_guidance :: "string option"
  rf_retry_trigger :: "retry_trigger option"
  rf_retry_budget :: i64
  rf_boot_reconciliation :: bool
  rf_session_attempt_id :: "i64 option"
  rf_session_id :: "i64 option"

definition default_run_facts :: run_facts where
  "default_run_facts =
     \<lparr>rf_now = 0, rf_principal = principal.Coordinator, rf_slot_available = False,
      rf_provider_serving = False, rf_worktree_ready = False, rf_answered_question_id = None,
      rf_opened_question = None, rf_result = None, rf_quota_reset_at = None,
      rf_quota_window_seconds = None, rf_guidance = None, rf_retry_trigger = None,
      rf_retry_budget = 0, rf_boot_reconciliation = False, rf_session_attempt_id = None,
      rf_session_id = None\<rparr>"

section \<open>Guards\<close>

definition run_guard_refused :: "run_transition \<Rightarrow> detail \<Rightarrow> rejection + unit" where
  "run_guard_refused t det = Inl (GuardFailed ''run'' (run_guard_str (rt_guard t)) det)"

definition check_principal :: "run_transition \<Rightarrow> principal \<Rightarrow> principal \<Rightarrow> string \<Rightarrow> rejection + unit" where
  "check_principal t who admitted act =
     (if who = admitted then Inr () else run_guard_refused t (PrincipalCannot who act))"

definition check_admission :: "run_transition \<Rightarrow> run_facts \<Rightarrow> rejection + unit" where
  "check_admission t f =
     (if rf_slot_available f \<and> rf_provider_serving f \<and> rf_worktree_ready f then Inr ()
      else run_guard_refused t
        (AdmissionFacts (rf_slot_available f) (rf_provider_serving f) (rf_worktree_ready f)))"

definition lifecycle_act :: string where
  "lifecycle_act = ''report a run's own lifecycle facts''"

definition check_ask_opens_question :: "run_transition \<Rightarrow> i64 \<Rightarrow> run_facts \<Rightarrow> rejection + unit" where
  "check_ask_opens_question t run_id f =
     and_then (check_principal t (rf_principal f) principal.Coordinator lifecycle_act) (\<lambda>_.
       case rf_opened_question f of
         Some q \<Rightarrow> (if qu_run_id q = run_id then Inr ()
                    else run_guard_refused t (QuestionCarriesRun (qu_run_id q) run_id))
       | None \<Rightarrow> run_guard_refused t NoQuestionToParkOn)"

definition check_answered_question :: "db \<Rightarrow> run_transition \<Rightarrow> i64 \<Rightarrow> run_facts \<Rightarrow> rejection + unit" where
  "check_answered_question d t run_id f =
     (case rf_answered_question_id f of
        None \<Rightarrow> run_guard_refused t NoQuestionNamed
      | Some qid \<Rightarrow>
          and_then (machines_load_question d qid) (\<lambda>q.
            if qu_run_id q \<noteq> run_id then run_guard_refused t (QuestionOfAnotherRun qid)
            else if qu_state q \<in> {question_state.Answered, Delivered} then Inr ()
            else run_guard_refused t (QuestionIs qid (qu_state q))))"

definition check_quota_reset :: "db \<Rightarrow> run_transition \<Rightarrow> string \<Rightarrow> run_facts \<Rightarrow> rejection + unit" where
  "check_quota_reset d t provider f =
     (case load_provider d provider of
        None \<Rightarrow> run_guard_refused t (NothingRecordedFor provider)
      | Some row \<Rightarrow>
          if pr_quota_state row = Ok then Inr ()
          else (let due_at = (case pr_reset_at row of
                        Some at \<Rightarrow> Some at
                      | None \<Rightarrow> map_option (saturating_add_i64 (pr_updated_at row)) (rf_quota_window_seconds f))
                in case due_at of
                     Some reset_at \<Rightarrow>
                       (if reset_at \<le> rf_now f then Inr ()
                        else run_guard_refused t (ResetsAt provider reset_at (rf_now f)))
                   | None \<Rightarrow> run_guard_refused t (NoResetNamed provider)))"

definition charged_attempts :: "attempt_row list \<Rightarrow> i64" where
  "charged_attempts attempts =
     (let n = int (length (filter (\<lambda>a. at_outcome a \<noteq> Some attempt_outcome.Interrupted) attempts))
      in case try_i64 n of Some m \<Rightarrow> m | None \<Rightarrow> i64_max)"

definition check_retry_eligible ::
  "db \<Rightarrow> run_transition \<Rightarrow> i64 \<Rightarrow> worktree_status option \<Rightarrow> run_facts \<Rightarrow> rejection + unit" where
  "check_retry_eligible d t run_id worktree_status f =
     (if worktree_status \<noteq> Some Active then run_guard_refused t (WorktreeIs worktree_status)
      else if (case rf_guidance f of None \<Rightarrow> True | Some text \<Rightarrow> text = []) then run_guard_refused t NoGuidance
      else (let chargeable = charged_attempts (attempts_for_run d run_id)
            in if rf_retry_budget f \<le> chargeable
               then run_guard_refused t (BudgetSpent chargeable (rf_retry_budget f))
               else Inr ()))"

definition check_run_guard ::
  "db \<Rightarrow> run_transition \<Rightarrow> i64 \<Rightarrow> string \<Rightarrow> worktree_status option \<Rightarrow> run_facts \<Rightarrow> rejection + unit" where
  "check_run_guard d t run_id provider worktree_status f =
     (case rt_guard t of
        NoGuard \<Rightarrow> Inr ()
      | UserApproval \<Rightarrow> check_principal t (rf_principal f) principal.User ''approve an execution''
      | ReportedByHarness \<Rightarrow> check_principal t (rf_principal f) principal.Coordinator lifecycle_act
      | SchedulerAdmission \<Rightarrow> check_admission t f
      | AnsweredQuestion \<Rightarrow> check_answered_question d t run_id f
      | AskOpensQuestion \<Rightarrow> check_ask_opens_question t run_id f
      | QuotaResetElapsed \<Rightarrow> check_quota_reset d t provider f
      | RetryEligible \<Rightarrow> check_retry_eligible d t run_id worktree_status f
      | BootReconciliation \<Rightarrow>
          (if rf_boot_reconciliation f then Inr () else run_guard_refused t OnlyBootInterrupts))"

section \<open>What a transition writes\<close>

definition next_attempt :: "db \<Rightarrow> i64 \<Rightarrow> run_facts \<Rightarrow> attempt_row" where
  "next_attempt d run_id f =
     \<lparr>at_id = None, at_run_id = run_id,
      at_n = (case map at_n (attempts_for_run d run_id) of [] \<Rightarrow> 0 | n # ns \<Rightarrow> fold max ns n) + 1,
      at_session_id = rf_session_id f, at_session_attempt_id = rf_session_attempt_id f,
      at_started_at = rf_now f, at_ended_at = None, at_outcome = None,
      at_retry_trigger = rf_retry_trigger f, at_tokens = None, at_cost_micros = None\<rparr>"

definition provider_write :: "run_transition \<Rightarrow> string \<Rightarrow> run_facts \<Rightarrow> provider_row option" where
  "provider_write t provider f =
     (if CapProvider \<in> set (rt_effects t)
      then Some \<lparr>pr_provider = provider, pr_quota_state = Capped, pr_reset_at = rf_quota_reset_at f,
                 pr_updated_at = rf_now f\<rparr>
      else if ClearProviderCap \<in> set (rt_effects t)
      then Some \<lparr>pr_provider = provider, pr_quota_state = Ok, pr_reset_at = None,
                 pr_updated_at = rf_now f\<rparr>
      else None)"

fun closed_outcome :: "run_effect list \<Rightarrow> attempt_outcome option" where
  "closed_outcome [] = None"
| "closed_outcome (CloseAttempt outcome # es) = Some outcome"
| "closed_outcome (e # es) = closed_outcome es"

text \<open>
  A result is kept as UTF-8 bytes and cut at the last character boundary under its bound.
\<close>

definition run_result_max_bytes :: nat where
  "run_result_max_bytes = 16 * 1024"

definition bounded_result :: "string \<Rightarrow> string" where
  "bounded_result result =
     (if length result \<le> run_result_max_bytes then result
      else take (cut_point result run_result_max_bytes) result)"

definition run_domain_detail :: "run_transition \<Rightarrow> run_facts \<Rightarrow> (string \<times> json) list" where
  "run_domain_detail t f =
     [(''principal'', JString (principal_str (rf_principal f))),
      (''retry_trigger'', json_opt (\<lambda>r. JString (retry_trigger_str r)) (rf_retry_trigger f)),
      (''question_id'', json_opt JInt (rf_answered_question_id f))] @
     (if OpenQuestion \<in> set (rt_effects t) then [(opened_question_id_key, JNull)] else [])"

definition run_write :: "db \<Rightarrow> i64 \<Rightarrow> run_row \<Rightarrow> run_trigger \<Rightarrow> run_transition \<Rightarrow> run_facts \<Rightarrow> transition_write" where
  "run_write d run_id run trigger t f =
     \<lparr>tw_run_id = run_id,
      tw_run_state = Some \<lparr>sc_expected = rr_state run, sc_next = rt_to t\<rparr>,
      tw_worktree_status = None,
      tw_question = None,
      tw_new_question = (if OpenQuestion \<in> set (rt_effects t) then rf_opened_question f else None),
      tw_attempt = (if OpenAttempt \<in> set (rt_effects t) then Some (next_attempt d run_id f) else None),
      tw_close_attempt = map_option (\<lambda>oc. \<lparr>ac_ended_at = rf_now f, ac_outcome = oc\<rparr>)
                           (closed_outcome (rt_effects t)),
      tw_result = (if RecordResult \<in> set (rt_effects t) then map_option bounded_result (rf_result f)
                   else None),
      tw_provider = provider_write t (rr_provider run) f,
      tw_events = transition_events
        \<lparr>jm_run_id = run_id, jm_ts = rf_now f, jm_class = rt_class t, jm_machine = ''run'',
         jm_from = run_state_str (rr_state run), jm_to = run_state_str (rt_to t),
         jm_trigger = run_trigger_str trigger, jm_domain_event = rt_domain_event t\<rparr>
        (run_domain_detail t f)\<rparr>"

definition find_run_transition :: "run_state \<Rightarrow> run_trigger \<Rightarrow> run_transition option" where
  "find_run_transition from trigger =
     find (\<lambda>c. rt_from c = from \<and> rt_trigger c = trigger) run_transitions"

definition apply_run ::
  "db \<Rightarrow> i64 \<Rightarrow> run_trigger \<Rightarrow> run_facts \<Rightarrow> db \<times> (rejection + (run_state, run_effect) transition_result)" where
  "apply_run d run_id trigger f =
     (case machines_load_run d run_id of
        Inl e \<Rightarrow> (d, Inl e)
      | Inr run \<Rightarrow>
          if trigger = Cancel \<and> rr_state run = Cancelled then (d, Inr AlreadySettled)
          else (case find_run_transition (rr_state run) trigger of
              None \<Rightarrow> (d, Inl (NoSuchTransition ''run'' (run_state_str (rr_state run)) (run_trigger_str trigger)))
            | Some t \<Rightarrow>
                (case check_run_guard d t run_id (rr_provider run) (rr_worktree_status run) f of
                   Inl e \<Rightarrow> (d, Inl e)
                 | Inr _ \<Rightarrow> settle_write d (run_write d run_id run trigger t f)
                              (rr_state run) (rt_to t) (rt_effects t) (rt_domain_event t))))"


section \<open>The table\<close>

interpretation run_table: keyed_table run_transitions "\<lambda>t. (rt_from t, rt_trigger t)"
  by unfold_locales (simp add: run_transitions_def cancellation_def)

lemma find_run_transition_iff:
  "find_run_transition s tr = Some t \<longleftrightarrow> t \<in> set run_transitions \<and> rt_from t = s \<and> rt_trigger t = tr"
  using run_table.find_iff [of "(s, tr)" t] by (simp add: find_run_transition_def)

lemma cancel_transitions:
  "t \<in> set run_transitions \<Longrightarrow> rt_trigger t = Cancel \<Longrightarrow>
     t = cancellation (rt_from t) \<and>
     rt_from t \<in> {Draft, Queued, Running, AwaitingInput, AwaitingQuota, run_state.Interrupted}"
  by (auto simp: run_transitions_def cancellation_def)

lemma never_to_draft: "t \<in> set run_transitions \<Longrightarrow> rt_to t \<noteq> Draft"
  by (auto simp: run_transitions_def cancellation_def)

lemma never_from_cancelled: "t \<in> set run_transitions \<Longrightarrow> rt_from t \<noteq> Cancelled"
  by (auto simp: run_transitions_def cancellation_def)

lemma running_only_by_admit: "t \<in> set run_transitions \<Longrightarrow> rt_to t = Running \<Longrightarrow> rt_trigger t = Admit"
  by (auto simp: run_transitions_def cancellation_def)

lemma opens_attempt_iff: "t \<in> set run_transitions \<Longrightarrow> OpenAttempt \<in> set (rt_effects t) \<longleftrightarrow> rt_trigger t = Admit"
  by (auto simp: run_transitions_def cancellation_def)

lemma opens_question_iff: "t \<in> set run_transitions \<Longrightarrow> OpenQuestion \<in> set (rt_effects t) \<longleftrightarrow> rt_trigger t = Ask"
  by (auto simp: run_transitions_def cancellation_def)

lemma records_result_iff: "t \<in> set run_transitions \<Longrightarrow> RecordResult \<in> set (rt_effects t) \<longleftrightarrow> rt_trigger t = Finished"
  by (auto simp: run_transitions_def cancellation_def)

section \<open>How an application ends\<close>

lemma apply_run_cases:
  obtains (refused) e where "apply_run d i tr f = (d, Inl e)"
  | (settled) run where "apply_run d i tr f = (d, Inr AlreadySettled)" "load_run d i = Some run"
      "tr = Cancel" "rr_state run = Cancelled"
  | (moved) run t d' out a b where
      "load_run d i = Some run" "t \<in> set run_transitions" "rt_from t = rr_state run" "rt_trigger t = tr"
      "check_run_guard d t i (rr_provider run) (rr_worktree_status run) f = Inr ()"
      "transition_tx (run_write d i run tr t f) d = Inr (d', out)" "to_event_ids out = [a, b]"
      "apply_run d i tr f = (d', Inr (Applied \<lparr>ap_from = rr_state run, ap_to = rt_to t,
         ap_effects = rt_effects t, ap_domain_event = rt_domain_event t,
         ap_state_changed_event_id = a, ap_domain_event_id = b,
         ap_opened_question_id = to_question_id out\<rparr>))"
proof (cases "load_run d i")
  case None
  then show ?thesis using refused by (simp add: apply_run_def machines_load_run_def)
next
  case (Some run)
  show ?thesis
  proof (cases "tr = Cancel \<and> rr_state run = Cancelled")
    case True
    then show ?thesis using settled Some by (simp add: apply_run_def machines_load_run_def)
  next
    case open_run: False
    show ?thesis
    proof (cases "find_run_transition (rr_state run) tr")
      case None
      then show ?thesis using refused Some open_run
        by (auto simp: apply_run_def machines_load_run_def)
    next
      case row: (Some t)
      then have t: "t \<in> set run_transitions" "rt_from t = rr_state run" "rt_trigger t = tr"
        by (simp_all add: find_run_transition_iff)
      show ?thesis
      proof (cases "check_run_guard d t i (rr_provider run) (rr_worktree_status run) f")
        case (Inl e)
        then show ?thesis using refused Some open_run row
          by (auto simp: apply_run_def machines_load_run_def)
      next
        case guard: (Inr u)
        have app: "apply_run d i tr f = settle_write d (run_write d i run tr t f) (rr_state run)
            (rt_to t) (rt_effects t) (rt_domain_event t)"
          using Some open_run row guard by (auto simp: apply_run_def machines_load_run_def)
        have "length (tw_events (run_write d i run tr t f)) = 2" by (simp add: run_write_def)
        then show ?thesis
          by (rule settle_write_cases [where d = d and src = "rr_state run" and dst = "rt_to t"
                and eff = "rt_effects t" and ev = "rt_domain_event t"])
            (use refused moved Some t guard app in auto)
      qed
    qed
  qed
qed

lemma apply_run_rolled_back: "apply_run d i tr f = (d', Inl e) \<Longrightarrow> d' = d"
  by (rule apply_run_cases [of d i tr f]) auto

lemma apply_run_wf: "db_wf d \<Longrightarrow> db_wf (fst (apply_run d i tr f))"
  by (rule apply_run_cases [of d i tr f]) (auto dest: transition_tx_wf)

text \<open>What an applied run transition leaves in each table.\<close>

definition run_moved :: "run_transition \<Rightarrow> run_facts \<Rightarrow> run_row \<Rightarrow> run_row" where
  "run_moved t f r =
     (let r1 = r\<lparr>rr_state := rt_to t\<rparr>
      in if RecordResult \<in> set (rt_effects t) \<and> rf_result f \<noteq> None
         then r1\<lparr>rr_result := map_option bounded_result (rf_result f)\<rparr> else r1)"

lemma run_moved_frame [simp]:
  "rr_id (run_moved t f r) = rr_id r" "rr_state (run_moved t f r) = rt_to t"
  "rr_worktree_status (run_moved t f r) = rr_worktree_status r"
  "rr_provider (run_moved t f r) = rr_provider r" "rr_scope (run_moved t f r) = rr_scope r"
  "rr_dod (run_moved t f r) = rr_dod r" "rr_task (run_moved t f r) = rr_task r"
  "rr_repo_id (run_moved t f r) = rr_repo_id r" "rr_priority (run_moved t f r) = rr_priority r"
  "rr_budget_tokens (run_moved t f r) = rr_budget_tokens r"
  "rr_created_at (run_moved t f r) = rr_created_at r"
  "rr_dep_run_id (run_moved t f r) = rr_dep_run_id r"
  "rr_genesis_paths (run_moved t f r) = rr_genesis_paths r"
  by (simp_all add: run_moved_def Let_def)

lemma run_tx_tables:
  assumes wf: "db_wf d" and run: "load_run d i = Some run"
    and tx: "transition_tx (run_write d i run tr t f) d = Inr (d', out)"
  shows "db_runs d' = sql_update (\<lambda>r. rr_id r = Some i) (run_moved t f) (db_runs d)"
    and "db_questions d' = db_questions d @
      (case (if OpenQuestion \<in> set (rt_effects t) then rf_opened_question f else None) of
         None \<Rightarrow> [] | Some q \<Rightarrow> [q\<lparr>qu_id := to_question_id out\<rparr>])"
    and "db_attempts d' = (case closed_outcome (rt_effects t) of None \<Rightarrow> db_attempts d
        | Some oc \<Rightarrow> sql_update (\<lambda>a. at_run_id a = i \<and> at_ended_at a = None \<and> at_outcome a = None)
            (\<lambda>a. a\<lparr>at_ended_at := Some (rf_now f), at_outcome := Some oc\<rparr>) (db_attempts d)) @
      (if OpenAttempt \<in> set (rt_effects t) then [(next_attempt d i f)\<lparr>at_id := to_attempt_id out\<rparr>] else [])"
    and "db_providers d' = (case provider_write t (rr_provider run) f of None \<Rightarrow> db_providers d
      | Some p \<Rightarrow> sql_upsert pr_provider p (db_providers d))"
    and "db_findings d' = db_findings d" "db_health d' = db_health d"
    and "db_sessions d' = db_sessions d" "db_session_attempts d' = db_session_attempts d"
proof -
  note tables = transition_tx_tables [OF tx]
  have state: "sql_update (\<lambda>r. rr_id r = Some i \<and> rr_state r = rr_state run) g (db_runs d) =
      sql_update (\<lambda>r. rr_id r = Some i) g (db_runs d)" for g
    by (rule run_update_by_id [OF wf run]) simp
  have twice: "sql_update p g (sql_update p h rows) = sql_update p (\<lambda>r. g (h r)) rows"
    if "\<And>r. p (h r) = p r" for p and g h :: "run_row \<Rightarrow> run_row" and rows
    using that by (auto simp: sql_update_def)
  show "db_runs d' = sql_update (\<lambda>r. rr_id r = Some i) (run_moved t f) (db_runs d)"
    unfolding tables(1)
    by (auto simp: runs_written_def run_write_def state twice run_moved_def Let_def
        split: option.split intro!: arg_cong [where f = "\<lambda>g. sql_update _ g _"])
  show "db_questions d' = db_questions d @
      (case (if OpenQuestion \<in> set (rt_effects t) then rf_opened_question f else None) of
         None \<Rightarrow> [] | Some q \<Rightarrow> [q\<lparr>qu_id := to_question_id out\<rparr>])"
    unfolding tables(2) by (simp add: questions_written_def run_write_def)
  show "db_attempts d' = (case closed_outcome (rt_effects t) of None \<Rightarrow> db_attempts d
        | Some oc \<Rightarrow> sql_update (\<lambda>a. at_run_id a = i \<and> at_ended_at a = None \<and> at_outcome a = None)
            (\<lambda>a. a\<lparr>at_ended_at := Some (rf_now f), at_outcome := Some oc\<rparr>) (db_attempts d)) @
      (if OpenAttempt \<in> set (rt_effects t) then [(next_attempt d i f)\<lparr>at_id := to_attempt_id out\<rparr>] else [])"
    unfolding tables(3) by (simp add: attempts_closed_def run_write_def split: option.split)
  show "db_providers d' = (case provider_write t (rr_provider run) f of None \<Rightarrow> db_providers d
      | Some p \<Rightarrow> sql_upsert pr_provider p (db_providers d))"
    unfolding tables(4) by (simp add: run_write_def)
  show "db_findings d' = db_findings d" "db_health d' = db_health d"
    "db_sessions d' = db_sessions d" "db_session_attempts d' = db_session_attempts d"
    by (rule tables)+
qed

end
