(* ===== verification/Lifecycle.thy ===== *)
theory Lifecycle
  imports Run_Machine
begin

text \<open>
  The abstract life of one run: its state and the outcomes of its attempts, oldest
  first. \<open>life\<close> is the step relation a reader of crates/agens-server/src/fsm/runs.rs
  would draw; the detailed machine, with its rows, guards and journal, refines it.
\<close>

type_synonym run_life = "run_state \<times> attempt_outcome option list"

inductive life :: "run_life \<Rightarrow> run_life \<Rightarrow> bool" where
  approve: "life (Draft, []) (Queued, [])"
| admit: "life (Queued, ls) (Running, ls @ [None])"
| leave: "(s, oc) \<in> {(AwaitingInput, attempt_outcome.Interrupted), (AwaitingQuota, attempt_outcome.Interrupted),
      (run_state.Interrupted, attempt_outcome.Interrupted), (Cancelled, attempt_outcome.Interrupted),
      (Done, Succeeded), (run_state.Failed, attempt_outcome.Failed)} \<Longrightarrow>
    life (Running, ls @ [None]) (s, ls @ [Some oc])"
| requeue: "s \<in> {AwaitingInput, AwaitingQuota, run_state.Interrupted, Done, run_state.Failed} \<Longrightarrow>
    life (s, ls) (Queued, ls)"
| drop: "s \<in> {Draft, Queued, AwaitingInput, AwaitingQuota, run_state.Interrupted} \<Longrightarrow>
    life (s, ls) (Cancelled, ls)"

inductive_cases life_from_cancelled: "life (Cancelled, ls) x"
inductive_cases life_from_running: "life (Running, ls) x"
inductive_cases life_into_running: "life x (Running, ls)"

definition leg_fits :: "run_state \<Rightarrow> attempt_outcome option list \<Rightarrow> bool" where
  "leg_fits s ls \<longleftrightarrow>
     (case s of
        Draft \<Rightarrow> ls = []
      | Queued \<Rightarrow> ls = [] \<or> last ls \<noteq> None
      | Running \<Rightarrow> ls \<noteq> [] \<and> last ls = None
      | AwaitingInput \<Rightarrow> ls \<noteq> [] \<and> last ls = Some attempt_outcome.Interrupted
      | AwaitingQuota \<Rightarrow> ls \<noteq> [] \<and> last ls = Some attempt_outcome.Interrupted
      | run_state.Interrupted \<Rightarrow> ls \<noteq> [] \<and> last ls = Some attempt_outcome.Interrupted
      | Done \<Rightarrow> ls \<noteq> [] \<and> last ls = Some Succeeded
      | run_state.Failed \<Rightarrow> ls \<noteq> [] \<and> last ls = Some attempt_outcome.Failed
      | Cancelled \<Rightarrow> ls = [] \<or> last ls \<noteq> None)"

definition life_ok :: "run_life \<Rightarrow> bool" where
  "life_ok x \<longleftrightarrow> None \<notin> set (butlast (snd x)) \<and> leg_fits (fst x) (snd x)"

lemma leg_fits_simps [simp]:
  "leg_fits Draft ls \<longleftrightarrow> ls = []"
  "leg_fits Queued ls \<longleftrightarrow> ls = [] \<or> last ls \<noteq> None"
  "leg_fits Running ls \<longleftrightarrow> ls \<noteq> [] \<and> last ls = None"
  "leg_fits AwaitingInput ls \<longleftrightarrow> ls \<noteq> [] \<and> last ls = Some attempt_outcome.Interrupted"
  "leg_fits AwaitingQuota ls \<longleftrightarrow> ls \<noteq> [] \<and> last ls = Some attempt_outcome.Interrupted"
  "leg_fits run_state.Interrupted ls \<longleftrightarrow> ls \<noteq> [] \<and> last ls = Some attempt_outcome.Interrupted"
  "leg_fits Done ls \<longleftrightarrow> ls \<noteq> [] \<and> last ls = Some Succeeded"
  "leg_fits run_state.Failed ls \<longleftrightarrow> ls \<noteq> [] \<and> last ls = Some attempt_outcome.Failed"
  "leg_fits Cancelled ls \<longleftrightarrow> ls = [] \<or> last ls \<noteq> None"
  by (simp_all add: leg_fits_def)

lemma closed_legs: "None \<notin> set (butlast ls) \<Longrightarrow> ls = [] \<or> last ls \<noteq> None \<Longrightarrow> None \<notin> set ls"
  by (cases ls rule: rev_cases) auto

lemma life_keeps_ok: "life x y \<Longrightarrow> life_ok x \<Longrightarrow> life_ok y"
  by (induction rule: life.induct) (auto simp: life_ok_def dest: closed_legs)

text \<open>Over any number of steps the history of attempts only grows, and a closed outcome never changes.\<close>

definition legs_extend :: "attempt_outcome option list \<Rightarrow> attempt_outcome option list \<Rightarrow> bool" where
  "legs_extend ls ls' \<longleftrightarrow> length ls \<le> length ls' \<and>
     (\<forall>k < length ls. ls ! k \<noteq> None \<longrightarrow> ls' ! k = ls ! k)"

lemma legs_extend_trans: "legs_extend a b \<Longrightarrow> legs_extend b c \<Longrightarrow> legs_extend a c"
  by (auto simp: legs_extend_def)

lemma life_extends: "life x y \<Longrightarrow> legs_extend (snd x) (snd y)"
  by (induction rule: life.induct) (auto simp: legs_extend_def nth_append less_Suc_eq)

lemma life_star_extends: "life\<^sup>*\<^sup>* x y \<Longrightarrow> legs_extend (snd x) (snd y)"
proof (induction rule: rtranclp_induct)
  case base
  show ?case by (simp add: legs_extend_def)
next
  case (step y z)
  then show ?case using legs_extend_trans life_extends by blast
qed

lemma cancelled_is_final: "life\<^sup>*\<^sup>* (Cancelled, ls) y \<Longrightarrow> y = (Cancelled, ls)"
  by (induction rule: rtranclp_induct) (auto elim: life_from_cancelled)

section \<open>The abstraction of the database\<close>

definition legs :: "db \<Rightarrow> i64 \<Rightarrow> (i64 \<times> attempt_outcome option) list" where
  "legs d i = map (\<lambda>a. (at_n a, at_outcome a)) (filter (\<lambda>a. at_run_id a = i) (db_attempts d))"

definition run_life_of :: "db \<Rightarrow> run_row \<Rightarrow> run_life" where
  "run_life_of d r = (rr_state r, map snd (legs d (stored_id (rr_id r))))"

definition numbered :: "(i64 \<times> attempt_outcome option) list \<Rightarrow> bool" where
  "numbered ls \<longleftrightarrow> map fst ls = map (\<lambda>k. int k + 1) [0..<length ls]"

definition lives_ok :: "db \<Rightarrow> bool" where
  "lives_ok d \<longleftrightarrow> (\<forall>r \<in> set (db_runs d).
     numbered (legs d (stored_id (rr_id r))) \<and> life_ok (run_life_of d r))"

definition close_legs :: "attempt_outcome \<Rightarrow> attempt_outcome option list \<Rightarrow> attempt_outcome option list" where
  "close_legs oc = map (\<lambda>x. case x of None \<Rightarrow> Some oc | Some y \<Rightarrow> Some y)"

definition leg_effect :: "run_effect list \<Rightarrow> attempt_outcome option list \<Rightarrow> attempt_outcome option list" where
  "leg_effect es ls =
     (case closed_outcome es of None \<Rightarrow> ls | Some oc \<Rightarrow> close_legs oc ls) @
     (if OpenAttempt \<in> set es then [None] else [])"

lemma close_legs_closed: "None \<notin> set ls \<Longrightarrow> close_legs oc ls = ls"
  by (rule map_idI [of ls "case_option (Some oc) Some", folded close_legs_def])
    (metis (no_types, lifting) not_None_eq option.simps(5))

lemma close_legs_Nil [simp]: "close_legs oc [] = []"
  by (simp add: close_legs_def)

lemma close_legs_last:
  "None \<notin> set (butlast ls) \<Longrightarrow> ls \<noteq> [] \<Longrightarrow> last ls = None \<Longrightarrow> close_legs oc ls = butlast ls @ [Some oc]"
  by (cases ls rule: rev_cases) (auto simp: close_legs_def close_legs_closed [unfolded close_legs_def])

text \<open>Every row of the table of runs is a step of \<open>life\<close>.\<close>

lemma transition_is_life:
  assumes t: "t \<in> set run_transitions" and ok: "life_ok (rt_from t, ls)"
  shows "life (rt_from t, ls) (rt_to t, leg_effect (rt_effects t) ls)"
proof (cases "rt_from t = Running")
  case True
  then obtain ks where ls: "ls = ks @ [None]" and ks: "None \<notin> set ks"
    using ok by (cases ls rule: rev_cases) (auto simp: life_ok_def)
  have "close_legs oc ls = ks @ [Some oc]" for oc
    unfolding ls using ks close_legs_closed [OF ks] by (simp add: close_legs_def)
  then show ?thesis using t True unfolding ls
    by (auto simp: run_transitions_def cancellation_def leg_effect_def intro!: life.leave)
next
  case False
  then have closed: "None \<notin> set ls"
    using ok closed_legs [of ls] by (cases "rt_from t") (auto simp: life_ok_def)
  have "rt_from t = Draft \<Longrightarrow> ls = []" using ok by (simp add: life_ok_def)
  then show ?thesis using t False
    by (auto simp: run_transitions_def cancellation_def leg_effect_def close_legs_closed [OF closed]
        intro: life.approve life.admit life.requeue life.drop)
qed

section \<open>How the statements change the legs\<close>

lemma legs_append: "legs (d\<lparr>db_attempts := as @ bs\<rparr>) i = legs (d\<lparr>db_attempts := as\<rparr>) i @ legs (d\<lparr>db_attempts := bs\<rparr>) i"
  by (simp add: legs_def)

lemma legs_cong: "db_attempts d' = db_attempts d \<Longrightarrow> legs d' i = legs d i"
  by (simp add: legs_def)

lemma legs_of_update:
  assumes "\<And>a. at_run_id (g a) = at_run_id a" "\<And>a. at_n (g a) = at_n a" "\<And>a. at_outcome (g a) = at_outcome a"
    and "db_attempts d' = sql_update p g (db_attempts d)"
  shows "legs d' i = legs d i"
proof -
  have "map (\<lambda>a. (at_run_id a, at_n a, at_outcome a)) (sql_update p g (db_attempts d)) =
      map (\<lambda>a. (at_run_id a, at_n a, at_outcome a)) (db_attempts d)"
    by (rule map_sql_update) (simp add: assms)
  then have "map snd (filter (\<lambda>x. fst x = i) (map (\<lambda>a. (at_run_id a, at_n a, at_outcome a)) (db_attempts d'))) =
      map snd (filter (\<lambda>x. fst x = i) (map (\<lambda>a. (at_run_id a, at_n a, at_outcome a)) (db_attempts d)))"
    by (simp add: assms(4))
  then show ?thesis by (simp add: legs_def filter_map comp_def)
qed

lemma legs_close:
  assumes "\<forall>a \<in> set as. (at_ended_at a = None) = (at_outcome a = None)"
    and d': "db_attempts d' = sql_update (\<lambda>a. at_run_id a = i \<and> at_ended_at a = None \<and> at_outcome a = None)
            (\<lambda>a. a\<lparr>at_ended_at := Some e, at_outcome := Some oc\<rparr>) as"
    and d: "db_attempts d = as"
  shows "map snd (legs d' j) = (if j = i then close_legs oc (map snd (legs d j)) else map snd (legs d j))"
    and "map fst (legs d' j) = map fst (legs d j)"
proof -
  let ?f = "\<lambda>a. if at_run_id a = i \<and> at_ended_at a = None \<and> at_outcome a = None
      then a\<lparr>at_ended_at := Some e, at_outcome := Some oc\<rparr> else a"
  have same: "at_run_id (?f a) = at_run_id a" "at_n (?f a) = at_n a" for a by simp_all
  have outcome: "at_outcome (?f a) = (if j = i then (case at_outcome a of None \<Rightarrow> Some oc | Some y \<Rightarrow> Some y) else at_outcome a)"
    if "a \<in> set as" "at_run_id a = j" for a
    using assms(1) that by (cases "at_outcome a") auto
  have legs': "legs d' j = map (\<lambda>a. (at_n a, at_outcome (?f a))) (filter (\<lambda>a. at_run_id a = j) as)"
    unfolding legs_def d' sql_update_def filter_map comp_def map_map same ..
  show "map fst (legs d' j) = map fst (legs d j)"
    by (simp add: legs' legs_def [of d] d comp_def)
  have "map snd (legs d' j) = map (\<lambda>a. at_outcome (?f a)) (filter (\<lambda>a. at_run_id a = j) as)"
    unfolding legs' by simp
  also have "\<dots> = map (\<lambda>a. if j = i then (case at_outcome a of None \<Rightarrow> Some oc | Some y \<Rightarrow> Some y) else at_outcome a)
      (filter (\<lambda>a. at_run_id a = j) as)"
    by (rule map_cong [OF refl]) (use outcome in simp)
  finally show "map snd (legs d' j) = (if j = i then close_legs oc (map snd (legs d j)) else map snd (legs d j))"
    by (simp add: legs_def d close_legs_def comp_def)
qed

lemma fold_max_upt: "fold max (map (\<lambda>k. 1 + int k) [Suc 0..<Suc n]) 1 = 1 + int n"
  by (induction n) (auto simp: max_def)

lemma next_attempt_n:
  assumes "numbered (legs d i)" shows "at_n (next_attempt d i f) = int (length (legs d i)) + 1"
proof -
  let ?as = "filter (\<lambda>a. at_run_id a = i) (db_attempts d)"
  have ns: "map at_n ?as = map (\<lambda>k. int k + 1) [0..<length ?as]"
    using assms by (simp add: numbered_def legs_def comp_def)
  have "attempts_for_run d i = ?as"
    unfolding attempts_for_run_def
    by (rule sql_select_filtered) (simp add: ns sorted_map sorted_wrt_iff_nth_less)
  then have "at_n (next_attempt d i f) =
      (case map (\<lambda>k. int k + 1) [0..<length ?as] of [] \<Rightarrow> 0 | n # ns \<Rightarrow> fold max ns n) + 1"
    by (simp add: next_attempt_def ns)
  also have "\<dots> = int (length ?as) + 1"
    by (cases "length ?as") (simp_all add: upt_conv_Cons fold_max_upt algebra_simps del: upt_Suc)
  finally show ?thesis by (simp add: legs_def)
qed

end
