(* ===== verification/Control_Plane.thy ===== *)
theory Control_Plane
  imports Settlement Lifecycle
begin

text \<open>
  The control plane as a transition system: every operation that writes its tables
  (the three machines and the other writes of crates/agens-server/src/fsm/mod.rs, the
  ingest write and the fatal journal entry), the databases they can reach, and what
  holds of all of them. \<open>admissible\<close> is how the daemon builds the rows it opens:
  api/runs.rs opens drafts, and introspection.rs, api/runs.rs and api/team.rs open
  unanswered questions.
\<close>

datatype cp_op =
    OpenRun run_row
  | OpenAsk question_row "event_row list"
  | MoveRun i64 run_trigger run_facts
  | MoveWorktree i64 worktree_trigger worktree_facts
  | MoveQuestion i64 question_trigger question_facts
  | SettleMerge merge_settlement
  | Journal "event_row list"
  | AppendEvent event_row
  | Correlate i64 i64
  | Checkpoint event_row "finding_row list"
  | Ingest ingest_write
  | SessionOpened i64
  | SessionAttemptOpened i64

fun perform :: "cp_op \<Rightarrow> db \<Rightarrow> db" where
  "perform (OpenRun r) d = fst (open_run d r)"
| "perform (OpenAsk q es) d = fst (open_question d q es)"
| "perform (MoveRun i tr f) d = fst (apply_run d i tr f)"
| "perform (MoveWorktree i tr f) d = fst (apply_worktree d i tr f)"
| "perform (MoveQuestion i tr f) d = fst (apply_question d i tr f)"
| "perform (SettleMerge s) d = fst (settle_merge d s)"
| "perform (Journal es) d = fst (journal d es)"
| "perform (AppendEvent e) d = fst (append_event d e)"
| "perform (Correlate a s) d = fst (machines_correlate_attempt d a s)"
| "perform (Checkpoint e fs) d = fst (machines_record_checkpoint d e fs)"
| "perform (Ingest w) d = fst (apply_ingest d w)"
| "perform (SessionOpened i) d = d\<lparr>db_sessions := i # db_sessions d\<rparr>"
| "perform (SessionAttemptOpened i) d = d\<lparr>db_session_attempts := i # db_session_attempts d\<rparr>"

definition fresh_question :: "question_row \<Rightarrow> bool" where
  "fresh_question q \<longleftrightarrow> qu_state q = Open \<and> qu_answer q = None \<and> qu_author q = None"

definition admissible :: "cp_op \<Rightarrow> bool" where
  "admissible op \<longleftrightarrow>
     (case op of
        OpenRun r \<Rightarrow> rr_state r = Draft \<and> rr_result r = None
      | OpenAsk q es \<Rightarrow> fresh_question q
      | MoveRun i tr f \<Rightarrow> null_or fresh_question (rf_opened_question f)
      | _ \<Rightarrow> True)"

inductive reachable :: "db \<Rightarrow> bool" where
  start: "reachable empty_db"
| step: "reachable d \<Longrightarrow> admissible op \<Longrightarrow> reachable (perform op d)"

section \<open>What an operation keeps of a run\<close>

definition frozen_part :: "run_row \<Rightarrow> run_row" where
  "frozen_part r = r\<lparr>rr_state := Draft, rr_worktree_status := None, rr_result := None, rr_genesis_paths := None\<rparr>"

fun worktree_rank :: "worktree_status option \<Rightarrow> nat" where
  "worktree_rank None = 0"
| "worktree_rank (Some Active) = 1"
| "worktree_rank (Some Reclaimable) = 2"
| "worktree_rank (Some Cleaned) = 3"

definition run_kept :: "run_row \<Rightarrow> run_row \<Rightarrow> bool" where
  "run_kept r r' \<longleftrightarrow>
     frozen_part r' = frozen_part r \<and>
     (rr_genesis_paths r \<noteq> None \<longrightarrow> rr_genesis_paths r' = rr_genesis_paths r) \<and>
     worktree_rank (rr_worktree_status r) \<le> worktree_rank (rr_worktree_status r') \<and>
     (rr_worktree_status r = None \<longleftrightarrow> rr_worktree_status r' = None) \<and>
     (rr_state r = Cancelled \<longrightarrow> rr_state r' = Cancelled) \<and>
     (rr_state r' = Draft \<longrightarrow> rr_state r = Draft)"

definition rows_kept :: "('r \<Rightarrow> 'r \<Rightarrow> bool) \<Rightarrow> 'r list \<Rightarrow> 'r list \<Rightarrow> bool" where
  "rows_kept kept rows rows' \<longleftrightarrow> length rows \<le> length rows' \<and> (\<forall>k < length rows. kept (rows ! k) (rows' ! k))"

text \<open>
  The history of a table: no row is ever deleted or reordered, new rows come last, and
  each row only changes along \<open>kept\<close>.
\<close>

locale row_history =
  fixes kept :: "'r \<Rightarrow> 'r \<Rightarrow> bool"
  assumes kept_refl: "kept r r"
    and kept_trans: "kept a b \<Longrightarrow> kept b c \<Longrightarrow> kept a c"
begin

lemma rows_refl: "rows' = rows \<Longrightarrow> rows_kept kept rows rows'"
  by (simp add: rows_kept_def kept_refl)

lemma rows_append: "rows_kept kept rows (rows @ rs)"
  by (simp add: rows_kept_def kept_refl nth_append)

lemma rows_update:
  "(\<And>r. r \<in> set rows \<Longrightarrow> p r \<Longrightarrow> kept r (f r)) \<Longrightarrow> rows_kept kept rows (sql_update p f rows)"
  by (simp add: rows_kept_def sql_update_def kept_refl)

lemma rows_trans: "rows_kept kept a b \<Longrightarrow> rows_kept kept b c \<Longrightarrow> rows_kept kept a c"
  by (auto simp: rows_kept_def intro: kept_trans)

lemma row_still_there:
  assumes "rows_kept kept rows rows'" "r \<in> set rows" shows "\<exists>r' \<in> set rows'. kept r r'"
proof -
  from assms(2) obtain k where "k < length rows" "rows ! k = r" by (auto simp: in_set_conv_nth)
  then have "kept r (rows' ! k)" "rows' ! k \<in> set rows'" using assms(1) by (auto simp: rows_kept_def)
  then show ?thesis by blast
qed

end

definition runs_kept :: "db \<Rightarrow> db \<Rightarrow> bool" where
  "runs_kept d d' \<longleftrightarrow> rows_kept run_kept (db_runs d) (db_runs d')"

lemma run_kept_refl [simp]: "run_kept r r"
  by (simp add: run_kept_def)

lemma run_kept_id: "run_kept r r' \<Longrightarrow> rr_id r' = rr_id r"
proof -
  assume "run_kept r r'"
  then have "rr_id (frozen_part r') = rr_id (frozen_part r)" by (simp add: run_kept_def)
  then show ?thesis by (simp add: frozen_part_def)
qed

lemma run_kept_trans: "run_kept a b \<Longrightarrow> run_kept b c \<Longrightarrow> run_kept a c"
  unfolding run_kept_def by (elim conjE, intro conjI) (metis le_trans)+

interpretation run_history: row_history run_kept
  by unfold_locales (rule run_kept_refl, rule run_kept_trans)

lemma runs_kept_refl [simp]: "db_runs d' = db_runs d \<Longrightarrow> runs_kept d d'"
  unfolding runs_kept_def by (rule run_history.rows_refl)

lemma runs_kept_append: "runs_kept d (d\<lparr>db_runs := db_runs d @ rs\<rparr>)"
  by (simp add: runs_kept_def run_history.rows_append)

lemma runs_kept_update:
  "db_runs d' = sql_update p f (db_runs d) \<Longrightarrow>
    (\<And>r. r \<in> set (db_runs d) \<Longrightarrow> p r \<Longrightarrow> run_kept r (f r)) \<Longrightarrow> runs_kept d d'"
  by (simp add: runs_kept_def run_history.rows_update)

section \<open>Operations that leave the lives of runs alone\<close>

text \<open>
  A quiet operation changes no run's state or result and no attempt's number or
  outcome. All of them but opening a run and moving one are quiet.
\<close>

definition quiet :: "db \<Rightarrow> db \<Rightarrow> bool" where
  "quiet d d' \<longleftrightarrow>
     (\<exists>p f. db_runs d' = sql_update p f (db_runs d) \<and>
        (\<forall>r \<in> set (db_runs d). p r \<longrightarrow> run_kept r (f r) \<and> rr_state (f r) = rr_state r \<and> rr_result (f r) = rr_result r)) \<and>
     (\<forall>i. legs d' i = legs d i)"

lemma sql_update_False [simp]: "sql_update (\<lambda>_. False) f rows = rows"
  by (simp add: sql_update_def)

lemma quiet_same: "db_runs d' = db_runs d \<Longrightarrow> db_attempts d' = db_attempts d \<Longrightarrow> quiet d d'"
  unfolding quiet_def by (auto simp: legs_def intro!: exI [of _ "\<lambda>_. False"])

lemma quiet_kept: "quiet d d' \<Longrightarrow> runs_kept d d'"
  by (auto simp: quiet_def intro: runs_kept_update)

text \<open>What a run transition does to the run it moves, its life included.\<close>

lemma moved_kept:
  assumes "t \<in> set run_transitions" "rt_from t = rr_state r"
  shows "run_kept r (run_moved t f r)"
  using assms never_to_draft [OF assms(1)] never_from_cancelled [OF assms(1)]
  by (auto simp: run_kept_def run_moved_def Let_def frozen_part_def)

lemma open_run_cases:
  obtains (refused) e where "open_run d r = (d, Inl e)"
  | (opened) i d' where "open_run d r = (d', Inr i)" "d' = d\<lparr>db_runs := db_runs d @ [r\<lparr>rr_id := Some i\<rparr>]\<rparr>"
      "i = next_rowid (tbl_ids rr_id (db_runs d))"
proof (cases "insert_run_row d r")
  case (Inl e)
  then show ?thesis using refused by (simp add: open_run_def insert_run_def)
next
  case (Inr x)
  then obtain d' i where x: "insert_run_row d r = Inr (d', i)" by (cases x) auto
  then show ?thesis using opened insert_run_rowE(1,5) [OF x] by (simp add: open_run_def insert_run_def)
qed

lemma open_question_cases:
  obtains (refused) e where "fst (open_question d q es) = d" "snd (open_question d q es) = Inl e"
  | (opened) d' out where
      "transition_tx ((empty_write (qu_run_id q) es)\<lparr>tw_new_question := Some q\<rparr>) d = Inr (d', out)"
      "fst (open_question d q es) = d'"
proof (cases "transition_tx ((empty_write (qu_run_id q) es)\<lparr>tw_new_question := Some q\<rparr>) d")
  case (Inl e)
  then show ?thesis using refused by (simp add: open_question_def apply_transition_def)
next
  case (Inr x)
  then show ?thesis using opened by (cases x) (simp add: open_question_def apply_transition_def)
qed

lemma open_question_tables:
  assumes "transition_tx ((empty_write (qu_run_id q) es)\<lparr>tw_new_question := Some q\<rparr>) d = Inr (d', out)"
  shows "db_runs d' = db_runs d" "db_attempts d' = db_attempts d"
    and "db_questions d' = db_questions d @ [q\<lparr>qu_id := to_question_id out\<rparr>]"
  using transition_tx_tables [OF assms]
  by (simp_all add: runs_written_def questions_written_def attempts_closed_def empty_write_def)

lemma journal_tables:
  "db_runs (fst (journal d es)) = db_runs d" "db_attempts (fst (journal d es)) = db_attempts d"
  "db_questions (fst (journal d es)) = db_questions d"
proof -
  let ?w = "empty_write (case es of [] \<Rightarrow> 0 | e # _ \<Rightarrow> case_option 0 id (ev_run_id e)) es"
  have "db_runs (fst (journal d es)) = db_runs d \<and> db_attempts (fst (journal d es)) = db_attempts d \<and>
      db_questions (fst (journal d es)) = db_questions d"
  proof (cases "transition_tx ?w d")
    case (Inl e)
    then show ?thesis by (simp add: journal_def apply_transition_def)
  next
    case (Inr x)
    then obtain d' out where tx: "transition_tx ?w d = Inr (d', out)" by (cases x) auto
    with transition_tx_tables [OF tx] show ?thesis
      by (simp add: journal_def apply_transition_def runs_written_def questions_written_def
          attempts_closed_def empty_write_def)
  qed
  then show "db_runs (fst (journal d es)) = db_runs d" "db_attempts (fst (journal d es)) = db_attempts d"
    "db_questions (fst (journal d es)) = db_questions d" by simp_all
qed


lemma apply_worktree_quiet: assumes wf: "db_wf d" shows "quiet d (fst (apply_worktree d i tr f))"
proof (rule apply_worktree_cases [of d i tr f])
  fix run s t d' and out :: transition_outcome and a b
  assume run: "load_run d i = Some run" "rr_worktree_status run = Some s"
    and t: "t \<in> set worktree_transitions" "wt_from t = s"
    and tx: "transition_tx (worktree_write i run s t tr f) d = Inr (d', out)"
    and res: "apply_worktree d i tr f = (d', Inr (Applied \<lparr>ap_from = s, ap_to = wt_to t,
         ap_effects = wt_effects t, ap_domain_event = wt_domain_event t,
         ap_state_changed_event_id = a, ap_domain_event_id = b,
         ap_opened_question_id = to_question_id out\<rparr>))"
  note tables = worktree_tx_tables [OF wf run tx]
  have "\<forall>r \<in> set (db_runs d). rr_id r = Some i \<longrightarrow> r = run"
    using load_run_iff [OF wf, of i] run(1) by (metis option.inject)
  moreover have "run_kept run (run\<lparr>rr_worktree_status := Some (wt_to t)\<rparr>)"
    using t run(2) by (auto simp: run_kept_def frozen_part_def worktree_transitions_def)
  ultimately have "quiet d d'"
    unfolding quiet_def using tables(1,3)
    by (auto simp: legs_def intro!: exI [of _ "\<lambda>r. rr_id r = Some i"]
        exI [of _ "\<lambda>r. r\<lparr>rr_worktree_status := Some (wt_to t)\<rparr>"])
  then show ?thesis by (simp add: res)
qed (simp add: quiet_same)

lemma apply_question_tables:
  assumes wf: "db_wf d"
  shows "db_runs (fst (apply_question d i tr f)) = db_runs d"
    and "db_attempts (fst (apply_question d i tr f)) = db_attempts d"
  by (rule apply_question_cases [of d i tr f]; simp add: question_tx_tables(2,3) [OF wf])+

lemma settle_merge_quiet: assumes wf: "db_wf d" shows "quiet d (fst (settle_merge d s))"
proof (rule settle_merge_cases [of d s])
  fix q run approval release d' and out :: transition_outcome and m
  assume q: "load_question d (ms_approval_id s) = Some q" and run: "load_run d (ms_run_id s) = Some run"
    and app: "deliverable q (settlement_facts s) = Inr approval"
    and rel: "releasable run (ms_now s) (ms_worktree_clean s) = Inr release"
    and tx: "transition_tx (settlement_write s approval release) d = Inr (d', out)"
    and res: "settle_merge d s = (d', Inr m)"
  note tables = settlement_tx_tables [OF wf q run app rel tx]
  have only: "\<forall>r \<in> set (db_runs d). rr_id r = Some (ms_run_id s) \<longrightarrow> r = run"
    using load_run_iff [OF wf, of "ms_run_id s"] run by (metis option.inject)
  have "quiet d d'"
  proof (cases "rr_worktree_status run = Some Active")
    case True
    then have "run_kept run (run\<lparr>rr_worktree_status := Some Reclaimable\<rparr>)"
      by (simp add: run_kept_def frozen_part_def)
    then show ?thesis
      unfolding quiet_def using tables(3,4) True only
      by (auto simp: legs_def intro!: exI [of _ "\<lambda>r. rr_id r = Some (ms_run_id s)"]
          exI [of _ "\<lambda>r. r\<lparr>rr_worktree_status := Some Reclaimable\<rparr>"])
  next
    case False
    then show ?thesis using tables(3,4) by (intro quiet_same) simp_all
  qed
  then show ?thesis by (simp add: res)
qed (simp add: quiet_same)

lemma append_event_tables:
  "db_runs (fst (append_event d e)) = db_runs d" "db_attempts (fst (append_event d e)) = db_attempts d"
  "db_questions (fst (append_event d e)) = db_questions d"
  by (cases "append_event_row d e"; force simp: append_event_def dest: append_event_rowE(1))+

lemma write_findings_tables:
  "write_findings c fs d = Inr (d', ids) \<Longrightarrow>
     db_runs d' = db_runs d \<and> db_attempts d' = db_attempts d \<and> db_questions d' = db_questions d \<and>
     db_events d' = db_events d"
proof (induction c fs d arbitrary: d' ids rule: write_findings.induct)
  case (2 c f fs d)
  then obtain d1 i d2 ids' where 1: "insert_finding_row d (f\<lparr>fi_checkpoint_id := Some c\<rparr>) = Inr (d1, i)"
    and 2: "write_findings c fs d1 = Inr (d2, ids')" "d' = d2"
    by (auto simp: and_then_Inr_iff)
  from "2.IH" [OF 2(1)] insert_finding_rowE(1) [OF 1] 2(2) show ?case by simp
qed simp

lemma record_checkpoint_cases:
  obtains (refused) e where "fst (machines_record_checkpoint d c fs) = d"
  | (written) d1 i d2 ids where "append_event_row d c = Inr (d1, i)" "write_findings i fs d1 = Inr (d2, ids)"
      "fst (machines_record_checkpoint d c fs) = d2"
proof (cases "and_then (append_event_row d c) (\<lambda>(d1, i). and_then (write_findings i fs d1) (\<lambda>(d2, ids).
     Inr (d2, \<lparr>cw_checkpoint_id = i, cw_finding_ids = ids\<rparr>)))")
  case (Inl e)
  then show ?thesis using refused by (simp add: machines_record_checkpoint_def record_checkpoint_def)
next
  case (Inr x)
  then show ?thesis using written
    by (auto simp: machines_record_checkpoint_def record_checkpoint_def and_then_Inr_iff)
qed

lemma record_checkpoint_tables:
  "db_runs (fst (machines_record_checkpoint d c fs)) = db_runs d"
  "db_attempts (fst (machines_record_checkpoint d c fs)) = db_attempts d"
  "db_questions (fst (machines_record_checkpoint d c fs)) = db_questions d"
  by (rule record_checkpoint_cases [of d c fs];
      use append_event_rowE(1) [of d c] write_findings_tables in force)+

lemma correlate_tables:
  "db_runs (fst (machines_correlate_attempt d a s)) = db_runs d"
  "db_questions (fst (machines_correlate_attempt d a s)) = db_questions d"
  "legs (fst (machines_correlate_attempt d a s)) i = legs d i"
proof -
  have "(\<exists>p. db_attempts (fst (correlate_attempt d a s)) =
        sql_update p (\<lambda>x. x\<lparr>at_session_attempt_id := Some s\<rparr>) (db_attempts d)) \<and>
      db_runs (fst (correlate_attempt d a s)) = db_runs d \<and>
      db_questions (fst (correlate_attempt d a s)) = db_questions d"
    by (auto simp: correlate_attempt_def correlate_attempt_row_def Let_def intro: sql_update_False [symmetric])
  moreover have "fst (machines_correlate_attempt d a s) = fst (correlate_attempt d a s)"
    by (cases "correlate_attempt d a s"; cases "snd (correlate_attempt d a s)")
      (auto simp: machines_correlate_attempt_def)
  ultimately show "db_runs (fst (machines_correlate_attempt d a s)) = db_runs d"
    "db_questions (fst (machines_correlate_attempt d a s)) = db_questions d"
    "legs (fst (machines_correlate_attempt d a s)) i = legs d i"
    using legs_of_update [of "\<lambda>x. x\<lparr>at_session_attempt_id := Some s\<rparr>" "fst (correlate_attempt d a s)" _ d]
    by auto
qed


lemma apply_ingest_cases:
  obtains (refused) e where "apply_ingest d w = (d, Inl e)"
  | (written) d1 b d2 d3 d4 ids where
      "freeze_genesis (iw_run_id w) (iw_freeze_genesis_paths w) d = Inr (d1, b)"
      "charge_tokens (iw_run_id w) (iw_charge_attempt_tokens w) d1 = Inr d2"
      "record_run_health_row d2 (iw_health w) = Inr d3" "write_events None (iw_events w) d3 = Inr (d4, ids)"
      "apply_ingest d w = (d4, Inr \<lparr>io_event_ids = ids, io_genesis_paths_frozen = b\<rparr>)"
proof (cases "snd (apply_ingest d w)")
  case (Inl e)
  then have "apply_ingest d w = (d, Inl e)"
    by (auto simp: apply_ingest_def commit_def split: sum.splits)
  then show ?thesis by (rule refused)
next
  case (Inr o')
  then show ?thesis using written
    by (auto simp: apply_ingest_def commit_def and_then_Inr_iff split: sum.splits)
qed

lemma freeze_genesis_quiet:
  assumes "freeze_genesis i p d = Inr (d', b)"
  shows "quiet d d'" and "db_questions d' = db_questions d" and "db_events d' = db_events d"
proof -
  show "db_questions d' = db_questions d" "db_events d' = db_events d"
    using assms by (auto simp: freeze_genesis_def Let_def split: option.splits if_splits)
  show "quiet d d'"
  proof (cases p)
    case None
    then show ?thesis using assms by (simp add: freeze_genesis_def quiet_same)
  next
    case (Some t)
    then have d': "d' = d\<lparr>db_runs := sql_update (\<lambda>r. rr_id r = Some i \<and> rr_genesis_paths r = None)
        (\<lambda>r. r\<lparr>rr_genesis_paths := Some t\<rparr>) (db_runs d)\<rparr>"
      using assms by (auto simp: freeze_genesis_def Let_def split: if_splits)
    show ?thesis unfolding quiet_def d'
      by (auto simp: legs_def run_kept_def frozen_part_def
          intro!: exI [of _ "\<lambda>r. rr_id r = Some i \<and> rr_genesis_paths r = None"]
            exI [of _ "\<lambda>r. r\<lparr>rr_genesis_paths := Some t\<rparr>"])
  qed
qed

lemma charge_tokens_tables:
  assumes "charge_tokens i t d = Inr d'"
  shows "db_runs d' = db_runs d" "db_questions d' = db_questions d" "db_events d' = db_events d"
    and "legs d' j = legs d j"
proof -
  show "db_runs d' = db_runs d" "db_questions d' = db_questions d" "db_events d' = db_events d"
    using assms by (auto simp: charge_tokens_def Let_def split: option.splits if_splits)
  show "legs d' j = legs d j"
  proof (cases t)
    case None
    then show ?thesis using assms by (simp add: charge_tokens_def)
  next
    case (Some n)
    then have "db_attempts d' = sql_update (\<lambda>a. at_run_id a = i \<and> at_ended_at a = None)
        (\<lambda>a. a\<lparr>at_tokens := Some (case_option 0 id (at_tokens a) + n)\<rparr>) (db_attempts d)"
      using assms by (auto simp: charge_tokens_def Let_def split: if_splits)
    then show ?thesis
      by (rule legs_of_update [where g = "\<lambda>a. a\<lparr>at_tokens := Some (case_option 0 id (at_tokens a) + n)\<rparr>", rotated 3])
        simp_all
  qed
qed

lemma record_run_health_row_tables:
  assumes "record_run_health_row d h = Inr d'"
  shows "db_runs d' = db_runs d" "db_questions d' = db_questions d" "db_events d' = db_events d"
    and "db_attempts d' = db_attempts d"
  using assms by (auto simp: record_run_health_row_def split: if_splits)

lemma quiet_cong:
  "quiet d d1 \<Longrightarrow> db_runs d2 = db_runs d1 \<Longrightarrow> (\<And>i. legs d2 i = legs d1 i) \<Longrightarrow> quiet d d2"
  by (auto simp: quiet_def)

lemma apply_ingest_quiet:
  "quiet d (fst (apply_ingest d w)) \<and> db_questions (fst (apply_ingest d w)) = db_questions d"
proof (rule apply_ingest_cases [of d w])
  fix d1 b d2 d3 d4 ids
  assume 1: "freeze_genesis (iw_run_id w) (iw_freeze_genesis_paths w) d = Inr (d1, b)"
    and 2: "charge_tokens (iw_run_id w) (iw_charge_attempt_tokens w) d1 = Inr d2"
    and 3: "record_run_health_row d2 (iw_health w) = Inr d3"
    and 4: "write_events None (iw_events w) d3 = Inr (d4, ids)"
    and res: "apply_ingest d w = (d4, Inr \<lparr>io_event_ids = ids, io_genesis_paths_frozen = b\<rparr>)"
  note frames = freeze_genesis_quiet [OF 1] charge_tokens_tables [OF 2] record_run_health_row_tables [OF 3]
    write_eventsE [OF 4]
  have "db_attempts d4 = db_attempts d2" using frames by simp
  then have "legs d4 i = legs d1 i" for i using legs_cong [of d4 d2] frames(7) by simp
  moreover have "db_runs d4 = db_runs d1" "db_questions d4 = db_questions d" using frames by simp_all
  ultimately show ?thesis using quiet_cong [OF frames(1)] by (simp add: res)
qed (simp add: quiet_same)


text \<open>The constraints of the schema survive every operation.\<close>

lemma journal_wf: "db_wf d \<Longrightarrow> db_wf (fst (journal d es))"
  using store.ok_kept [of d "empty_write (case es of [] \<Rightarrow> 0 | e # _ \<Rightarrow> case_option 0 id (ev_run_id e)) es"]
  by (auto simp: journal_def split: prod.splits sum.splits)

lemma append_event_wf: "db_wf d \<Longrightarrow> db_wf (fst (append_event d e))"
  unfolding append_event_def by (rule commit_wf) (auto dest: append_event_row_wf)

lemma open_question_wf: "db_wf d \<Longrightarrow> db_wf (fst (open_question d q es))"
  by (rule open_question_cases [of d q es]) (auto dest: transition_tx_wf)

lemma machines_correlate_wf: "db_wf d \<Longrightarrow> db_wf (fst (machines_correlate_attempt d a s))"
  using correlate_attempt_wf [of d a s]
  by (auto simp: machines_correlate_attempt_def split: prod.splits sum.splits)

lemma machines_checkpoint_wf: "db_wf d \<Longrightarrow> db_wf (fst (machines_record_checkpoint d e fs))"
  using record_checkpoint_wf [of d e fs]
  by (auto simp: machines_record_checkpoint_def split: prod.splits sum.splits)

lemma sessions_wf:
  "db_wf d \<Longrightarrow> db_wf (d\<lparr>db_sessions := i # db_sessions d\<rparr>)"
  "db_wf d \<Longrightarrow> db_wf (d\<lparr>db_session_attempts := i # db_session_attempts d\<rparr>)"
  by (auto simp: db_wf_def attempt_fks_def finding_fks_def elim!: null_or_mono)

lemma perform_wf: "db_wf d \<Longrightarrow> db_wf (perform op d)"
  by (cases op) (simp_all add: open_run_def insert_run_wf open_question_wf apply_run_wf apply_worktree_wf
      apply_question_wf settle_merge_wf journal_wf append_event_wf machines_correlate_wf
      machines_checkpoint_wf apply_ingest_wf sessions_wf)

lemma reachable_db_wf: "reachable d \<Longrightarrow> db_wf d"
  by (induction rule: reachable.induct) (auto intro: empty_db_wf perform_wf)

text \<open>Which operations are quiet.\<close>

fun is_quiet :: "cp_op \<Rightarrow> bool" where
  "is_quiet (OpenRun r) = False"
| "is_quiet (MoveRun i tr f) = False"
| "is_quiet op = True"

lemma quiet_operation: "db_wf d \<Longrightarrow> is_quiet op \<Longrightarrow> quiet d (perform op d)"
proof (cases op)
  case (OpenAsk q es)
  have "quiet d (fst (open_question d q es))"
    by (rule open_question_cases [of d q es]) (auto intro!: quiet_same simp: open_question_tables)
  then show ?thesis by (simp add: OpenAsk)
next
  case (Correlate a s)
  show ?thesis unfolding Correlate perform.simps
    by (rule quiet_cong [of d d]) (simp_all add: quiet_same correlate_tables)
qed (simp_all add: apply_worktree_quiet settle_merge_quiet apply_ingest_quiet quiet_same
    apply_question_tables journal_tables append_event_tables record_checkpoint_tables)

section \<open>The life of a run across one operation\<close>

lemma moved_lives:
  assumes wf: "db_wf d" and run: "load_run d i = Some run"
    and tx: "transition_tx (run_write d i run tr t f) d = Inr (d', out)"
  shows "map snd (legs d' j) = (if j = i then leg_effect (rt_effects t) (map snd (legs d j)) else map snd (legs d j))"
    and "numbered (legs d i) \<Longrightarrow> numbered (legs d' i)"
    and "j \<noteq> i \<Longrightarrow> legs d' j = legs d j"
proof -
  define d1 where "d1 = d\<lparr>db_attempts := (case closed_outcome (rt_effects t) of None \<Rightarrow> db_attempts d
        | Some oc \<Rightarrow> sql_update (\<lambda>a. at_run_id a = i \<and> at_ended_at a = None \<and> at_outcome a = None)
            (\<lambda>a. a\<lparr>at_ended_at := Some (rf_now f), at_outcome := Some oc\<rparr>) (db_attempts d))\<rparr>"
  have d': "db_attempts d' = db_attempts d1 @
      (if OpenAttempt \<in> set (rt_effects t) then [(next_attempt d i f)\<lparr>at_id := to_attempt_id out\<rparr>] else [])"
    by (simp add: d1_def run_tx_tables(3) [OF wf run tx])
  have checks: "\<forall>a \<in> set (db_attempts d). (at_ended_at a = None) = (at_outcome a = None)"
    using wf by (auto simp: db_wf_def attempt_checks_def)
  have close: "map snd (legs d1 j) = (if j = i then (case closed_outcome (rt_effects t) of
        None \<Rightarrow> map snd (legs d j) | Some oc \<Rightarrow> close_legs oc (map snd (legs d j))) else map snd (legs d j)) \<and>
      map fst (legs d1 j) = map fst (legs d j)" for j
  proof (cases "closed_outcome (rt_effects t)")
    case None
    then show ?thesis by (simp add: d1_def legs_def)
  next
    case (Some oc)
    have "db_attempts d1 = sql_update (\<lambda>a. at_run_id a = i \<and> at_ended_at a = None \<and> at_outcome a = None)
            (\<lambda>a. a\<lparr>at_ended_at := Some (rf_now f), at_outcome := Some oc\<rparr>) (db_attempts d)"
      by (simp add: d1_def Some)
    from legs_close [OF checks this refl] Some show ?thesis by simp
  qed
  have legs': "legs d' j = legs d1 j @ (if j = i \<and> OpenAttempt \<in> set (rt_effects t)
      then [(at_n (next_attempt d i f), None)] else [])" for j
    by (simp add: legs_def d' next_attempt_def)
  show "map snd (legs d' j) = (if j = i then leg_effect (rt_effects t) (map snd (legs d j)) else map snd (legs d j))"
  proof (cases "j = i")
    case True
    show ?thesis unfolding True leg_effect_def
      using close [of i] legs' [of i] by simp
  next
    case False
    then show ?thesis using close [of j] legs' [of j] by simp
  qed
  show "legs d' j = legs d j" if "j \<noteq> i"
  proof -
    have "zip (map fst (legs d1 j)) (map snd (legs d1 j)) = zip (map fst (legs d j)) (map snd (legs d j))"
      using close [of j] that by simp
    then show ?thesis using legs' [of j] that by (simp only: zip_map_fst_snd) simp
  qed
  assume num: "numbered (legs d i)"
  have len: "length (legs d1 i) = length (legs d i)"
    using close [of i] by (metis length_map)
  show "numbered (legs d' i)"
    using num close [of i] len by (simp add: numbered_def legs' next_attempt_n [OF num])
qed


text \<open>
  One operation carries every stored run along at most one step of its abstract life,
  keeps its frozen part, and only adds runs, which start as drafts never attempted.
\<close>

lemma life_ok_draft [simp]: "life_ok (Draft, [])"
  by (simp add: life_ok_def)

lemma numbered_Nil [simp]: "numbered []"
  by (simp add: numbered_def)

lemma no_legs_yet:
  assumes "db_wf d" "\<not> run_exists (db_runs d) i" shows "legs d i = []"
proof -
  have "\<forall>a \<in> set (db_attempts d). at_run_id a \<noteq> i"
    using assms by (auto simp: db_wf_def attempt_fks_def)
  then show ?thesis by (simp add: legs_def filter_empty_conv)
qed

lemma stored_run_id: "db_wf d \<Longrightarrow> r \<in> set (db_runs d) \<Longrightarrow> rr_id r = Some (stored_id (rr_id r))"
  by (auto simp: db_wf_def tbl_ok_def)

lemma quiet_lives:
  assumes q: "quiet d d'" and lives: "lives_ok d" shows "lives_ok d'"
proof -
  from q obtain p f where runs: "db_runs d' = sql_update p f (db_runs d)"
    and f: "\<And>r. r \<in> set (db_runs d) \<Longrightarrow> p r \<Longrightarrow> run_kept r (f r) \<and> rr_state (f r) = rr_state r"
    and l: "\<And>i. legs d' i = legs d i"
    by (auto simp: quiet_def)
  have "rr_id (if p r then f r else r) = rr_id r \<and> rr_state (if p r then f r else r) = rr_state r"
    if "r \<in> set (db_runs d)" for r using f [OF that] run_kept_id by auto
  then show ?thesis
    using lives unfolding lives_ok_def runs ball_sql_update run_life_of_def l by simp
qed

lemma opened_run_lives:
  assumes wf: "db_wf d" and lives: "lives_ok d" and draft: "rr_state r = Draft"
  shows "lives_ok (fst (open_run d r))"
proof (rule open_run_cases [of d r])
  fix i d'
  assume res: "open_run d r = (d', Inr i)" and d': "d' = d\<lparr>db_runs := db_runs d @ [r\<lparr>rr_id := Some i\<rparr>]\<rparr>"
    and i: "i = next_rowid (tbl_ids rr_id (db_runs d))"
  have "\<not> run_exists (db_runs d) i"
    using next_rowid_fresh [of i "tbl_ids rr_id (db_runs d)"] i
    by (auto simp: run_exists_def tbl_ids_def) (metis imageI less_irrefl stored_id_Some)
  then have "legs d i = []" using no_legs_yet [OF wf] by simp
  then show ?thesis
    using lives draft by (simp add: res d' lives_ok_def run_life_of_def legs_def)
qed (use lives in simp)

lemma only_row_with_id:
  "db_wf d \<Longrightarrow> load_run d i = Some run \<Longrightarrow> r \<in> set (db_runs d) \<Longrightarrow> rr_id r = Some i \<Longrightarrow> r = run"
  using load_run_iff [of d i] by (metis option.inject)

lemma moved_run_step:
  assumes wf: "db_wf d" and lives: "lives_ok d" and run: "load_run d i = Some run"
    and t: "t \<in> set run_transitions" "rt_from t = rr_state run"
    and tx: "transition_tx (run_write d i run tr t f) d = Inr (d', out)"
  shows "life (run_life_of d run) (run_life_of d' (run_moved t f run))" and "lives_ok d'" and "runs_kept d d'"
proof -
  have in_d: "run \<in> set (db_runs d)" "rr_id run = Some i" using load_run_iff [OF wf] run by auto
  then have num: "numbered (legs d i)" and ok: "life_ok (rr_state run, map snd (legs d i))"
    using lives by (auto simp: lives_ok_def run_life_of_def)
  have moved: "rr_state (run_moved t f run) = rt_to t" "rr_id (run_moved t f run) = Some i"
    by (simp_all add: run_moved_def Let_def in_d(2))
  note legs' = moved_lives [OF wf run tx]
  show step: "life (run_life_of d run) (run_life_of d' (run_moved t f run))"
    using transition_is_life [OF t(1)] ok t(2) by (simp add: run_life_of_def in_d(2) moved legs'(1))
  note runs = run_tx_tables(1) [OF wf run tx]
  have one: "numbered (legs d' (stored_id (rr_id r'))) \<and> life_ok (run_life_of d' r')"
    if r: "r \<in> set (db_runs d)" and r': "r' = (if rr_id r = Some i then run_moved t f r else r)" for r r'
  proof (cases "rr_id r = Some i")
    case True
    then have "r = run" using only_row_with_id [OF wf run r] by simp
    moreover have "life_ok (run_life_of d' (run_moved t f run))"
      using life_keeps_ok [OF step] ok by (simp add: run_life_of_def in_d(2))
    ultimately show ?thesis using r' True legs'(2) [OF num] moved(2) by simp
  next
    case False
    then have "stored_id (rr_id r) \<noteq> i" using stored_run_id [OF wf r] by auto
    then have "legs d' (stored_id (rr_id r)) = legs d (stored_id (rr_id r))" by (rule legs'(3))
    then show ?thesis using r r' False lives by (simp add: lives_ok_def run_life_of_def)
  qed
  show "lives_ok d'" unfolding lives_ok_def runs ball_sql_update using one by blast
  show "runs_kept d d'"
    using only_row_with_id [OF wf run] moved_kept [OF t] by (intro runs_kept_update [OF runs]) simp
qed

lemma perform_lives:
  assumes wf: "db_wf d" and lives: "lives_ok d" and adm: "admissible op" shows "lives_ok (perform op d)"
proof (cases "is_quiet op")
  case True
  then show ?thesis using quiet_lives [OF quiet_operation lives] wf by simp
next
  case False
  then consider (opened) r where "op = OpenRun r" | (moved) i tr f where "op = MoveRun i tr f"
    by (cases op) auto
  then show ?thesis
  proof cases
    case (opened r)
    then show ?thesis using opened_run_lives [OF wf lives] adm by (simp add: admissible_def)
  next
    case (moved i tr f)
    show ?thesis unfolding moved perform.simps
      by (rule apply_run_cases [of d i tr f]) (use lives moved_run_step(2) [OF wf lives] in auto)
  qed
qed

lemma perform_runs_kept:
  assumes wf: "db_wf d" and lives: "lives_ok d" shows "runs_kept d (perform op d)"
proof (cases "is_quiet op")
  case True
  then show ?thesis using quiet_kept [OF quiet_operation] wf by simp
next
  case False
  then consider (opened) r where "op = OpenRun r" | (moved) i tr f where "op = MoveRun i tr f"
    by (cases op) auto
  then show ?thesis
  proof cases
    case (opened r)
    show ?thesis unfolding opened perform.simps
      by (rule open_run_cases [of d r]) (simp_all add: runs_kept_append)
  next
    case (moved i tr f)
    show ?thesis unfolding moved perform.simps
      by (rule apply_run_cases [of d i tr f]) (use moved_run_step(3) [OF wf lives] in auto)
  qed
qed

lemma lives_ok_empty: "lives_ok empty_db"
  by (simp add: lives_ok_def empty_db_def)

lemma reachable_lives: "reachable d \<Longrightarrow> db_wf d \<and> lives_ok d"
  by (induction rule: reachable.induct) (auto intro: empty_db_wf lives_ok_empty perform_wf perform_lives)

end
