(* ===== verification/History.thy ===== *)
theory History
  imports Control_Plane
begin

text \<open>
  What no sequence of operations of the control plane undoes: the journal only grows,
  a question keeps its receipt and its answer, a run's life follows \<open>life\<close>, and a
  result belongs to a run with an attempt that succeeded.
\<close>

section \<open>Sequences of operations\<close>

definition perform_all :: "cp_op list \<Rightarrow> db \<Rightarrow> db" where
  "perform_all ops d = fold perform ops d"

lemma perform_all_simps [simp]:
  "perform_all [] d = d" "perform_all (op # ops) d = perform_all ops (perform op d)"
  by (simp_all add: perform_all_def)

lemma reachable_perform_all: "reachable d \<Longrightarrow> list_all admissible ops \<Longrightarrow> reachable (perform_all ops d)"
  by (induction ops arbitrary: d) (auto intro: reachable.step)

text \<open>An invariant of single operations, and a relation they keep, over a sequence.\<close>

lemma perform_all_induct [consumes 2, case_names refl step trans]:
  assumes "reachable d" "list_all admissible ops"
    and refl: "\<And>d. R d d"
    and step: "\<And>d op. reachable d \<Longrightarrow> admissible op \<Longrightarrow> R d (perform op d)"
    and trans: "\<And>a b c. R a b \<Longrightarrow> R b c \<Longrightarrow> R a c"
  shows "R d (perform_all ops d)"
  using assms(1,2)
proof (induction ops arbitrary: d)
  case Nil
  then show ?case by (simp add: refl)
next
  case (Cons op ops)
  then have "reachable (perform op d)" by (auto intro: reachable.step)
  with Cons have "R (perform op d) (perform_all ops (perform op d))" by simp
  moreover have "R d (perform op d)" using Cons step by simp
  ultimately show ?case using trans by simp
qed

section \<open>The journal\<close>

definition journal_grows :: "db \<Rightarrow> db \<Rightarrow> bool" where
  "journal_grows d d' \<longleftrightarrow> (\<exists>es. db_events d' = db_events d @ es)"

lemma journal_grows_refl [simp]: "db_events d' = db_events d \<Longrightarrow> journal_grows d d'"
  by (simp add: journal_grows_def)

lemma journal_grows_trans: "journal_grows a b \<Longrightarrow> journal_grows b c \<Longrightarrow> journal_grows a c"
  by (auto simp: journal_grows_def)

lemma apply_transition_grows: "journal_grows d (fst (apply_transition d w))"
  unfolding journal_grows_def by (rule store.append_only)

lemma transition_tx_grows: "transition_tx w d = Inr (d', out) \<Longrightarrow> journal_grows d d'"
  using apply_transition_grows [of d w] by (simp add: apply_transition_def)

lemma journal_op_grows: "journal_grows d (fst (journal d es))"
proof -
  have "fst (journal d es) = fst (apply_transition d
      (empty_write (case es of [] \<Rightarrow> 0 | e # _ \<Rightarrow> case_option 0 id (ev_run_id e)) es))"
    by (auto simp: journal_def split: prod.splits sum.splits)
  then show ?thesis using apply_transition_grows by simp
qed

lemma open_run_events: "db_events (fst (open_run d r)) = db_events d"
  by (rule open_run_cases [of d r]) simp_all

lemma append_event_grows: "journal_grows d (fst (append_event d e))"
  by (cases "append_event_row d e")
    (auto simp: append_event_def journal_grows_def dest: append_event_rowE(1))

lemma correlate_events: "db_events (fst (machines_correlate_attempt d a s)) = db_events d"
  by (auto simp: machines_correlate_attempt_def correlate_attempt_def correlate_attempt_row_def Let_def)

lemma checkpoint_grows: "journal_grows d (fst (machines_record_checkpoint d c fs))"
  by (rule record_checkpoint_cases [of d c fs])
    (auto simp: journal_grows_def dest!: append_event_rowE(1) write_findings_tables)

lemma ingest_grows: "journal_grows d (fst (apply_ingest d w))"
proof (rule apply_ingest_cases [of d w])
  fix d1 b d2 d3 d4 ids
  assume 1: "freeze_genesis (iw_run_id w) (iw_freeze_genesis_paths w) d = Inr (d1, b)"
    and 2: "charge_tokens (iw_run_id w) (iw_charge_attempt_tokens w) d1 = Inr d2"
    and 3: "record_run_health_row d2 (iw_health w) = Inr d3"
    and 4: "write_events None (iw_events w) d3 = Inr (d4, ids)"
    and res: "apply_ingest d w = (d4, Inr \<lparr>io_event_ids = ids, io_genesis_paths_frozen = b\<rparr>)"
  show ?thesis
    using freeze_genesis_quiet(3) [OF 1] charge_tokens_tables(3) [OF 2] record_run_health_row_tables(3) [OF 3]
      write_eventsE [OF 4]
    by (auto simp: res journal_grows_def)
qed simp

lemma perform_grows: "journal_grows d (perform op d)"
proof (cases op)
  case (OpenAsk q es)
  show ?thesis unfolding OpenAsk perform.simps
    by (rule open_question_cases [of d q es]) (auto dest: transition_tx_grows)
next
  case (MoveRun i tr f)
  show ?thesis unfolding MoveRun perform.simps
    by (rule apply_run_cases [of d i tr f]) (auto dest: transition_tx_grows)
next
  case (MoveWorktree i tr f)
  show ?thesis unfolding MoveWorktree perform.simps
    by (rule apply_worktree_cases [of d i tr f]) (auto dest: transition_tx_grows)
next
  case (MoveQuestion i tr f)
  show ?thesis unfolding MoveQuestion perform.simps
    by (rule apply_question_cases [of d i tr f]) (auto dest: transition_tx_grows)
next
  case (SettleMerge s)
  show ?thesis unfolding SettleMerge perform.simps
    by (rule settle_merge_cases [of d s]) (auto dest: transition_tx_grows)
qed (simp_all add: open_run_events journal_op_grows append_event_grows correlate_events checkpoint_grows ingest_grows)

section \<open>Questions\<close>

definition question_ok :: "question_row \<Rightarrow> bool" where
  "question_ok q \<longleftrightarrow>
     (qu_state q = Open \<longrightarrow> qu_answer q = None \<and> qu_author q = None) \<and>
     (qu_kind q = Approval \<longrightarrow> qu_author q \<in> {None, Some question_author.User})"

definition question_receipt :: "question_row \<Rightarrow> question_row" where
  "question_receipt q = q\<lparr>qu_state := Open, qu_answer := None, qu_author := None\<rparr>"

fun question_rank :: "question_state \<Rightarrow> nat" where
  "question_rank Open = 0"
| "question_rank question_state.Answered = 1"
| "question_rank Delivered = 2"
| "question_rank Expired = 2"

definition question_kept :: "question_row \<Rightarrow> question_row \<Rightarrow> bool" where
  "question_kept q q' \<longleftrightarrow>
     question_receipt q' = question_receipt q \<and>
     (qu_state q = qu_state q' \<or> question_rank (qu_state q) < question_rank (qu_state q')) \<and>
     (qu_answer q \<noteq> None \<longrightarrow> qu_answer q' = qu_answer q \<and> qu_author q' = qu_author q) \<and>
     (question_ok q \<longrightarrow> question_ok q')"

definition questions_kept :: "db \<Rightarrow> db \<Rightarrow> bool" where
  "questions_kept d d' \<longleftrightarrow> rows_kept question_kept (db_questions d) (db_questions d')"

definition questions_ok :: "db \<Rightarrow> bool" where
  "questions_ok d \<longleftrightarrow> (\<forall>q \<in> set (db_questions d). question_ok q)"

interpretation question_history: row_history question_kept
proof unfold_locales
  show "question_kept q q" for q by (simp add: question_kept_def)
  show "question_kept a c" if "question_kept a b" "question_kept b c" for a b c
    using that unfolding question_kept_def by (elim conjE, intro conjI) (metis less_trans)+
qed

lemma question_kept_id: "question_kept q q' \<Longrightarrow> qu_id q' = qu_id q"
proof -
  assume "question_kept q q'"
  then have "qu_id (question_receipt q') = qu_id (question_receipt q)" by (simp add: question_kept_def)
  then show ?thesis by (simp add: question_receipt_def)
qed

lemma questions_kept_refl [simp]: "db_questions d' = db_questions d \<Longrightarrow> questions_kept d d'"
  unfolding questions_kept_def by (rule question_history.rows_refl)

lemma questions_kept_trans: "questions_kept a b \<Longrightarrow> questions_kept b c \<Longrightarrow> questions_kept a c"
  unfolding questions_kept_def by (rule question_history.rows_trans)


text \<open>A row of the table of questions applied to a question.\<close>

lemma changed_question_kept:
  assumes ok: "question_ok q"
    and t: "t \<in> set question_transitions" "qt_kind t = qu_kind q" "qt_from t = qu_state q"
    and guard: "check_question_guard t q f = Inr ()" and ans: "question_answer_of t f = Inr answer"
  shows "question_kept q (change_question
    \<lparr>qc_question_id = i, qc_expected = qu_state q, qc_next = qt_to t, qc_answer = answer\<rparr> q)"
proof (cases "qt_to t = question_state.Answered")
  case True
  then have q: "qu_state q = Open"
    using t by (auto simp: question_transitions_def)
  from True ans obtain said a where a: "answer = Some \<lparr>qa_answer = said, qa_author = a\<rparr>"
      "qf_author f = Some a"
    by (auto simp: question_answer_of_def answer_write_def split: option.splits)
  have "qu_kind q = Approval \<Longrightarrow> qt_guard t = UserAuthorizationInDate"
    using t True by (auto simp: question_transitions_def)
  then have "qu_kind q = Approval \<Longrightarrow> a = question_author.User"
    using guard a(2) by (auto simp: check_question_guard_def Let_def question_guard_refused_def split: if_splits)
  then show ?thesis
    using True q a ok by (auto simp: question_kept_def question_receipt_def change_question_def question_ok_def)
next
  case False
  then have "answer = None" using ans by (simp add: question_answer_of_def)
  then show ?thesis
    using t False by (auto simp: question_kept_def question_receipt_def change_question_def question_ok_def
        question_transitions_def)
qed

lemma only_question_with_id:
  "db_wf d \<Longrightarrow> load_question d i = Some q \<Longrightarrow> r \<in> set (db_questions d) \<Longrightarrow> qu_id r = Some i \<Longrightarrow> r = q"
  using load_question_iff [of d i] by (metis option.inject)

lemma apply_question_kept: assumes wf: "db_wf d" and ok: "questions_ok d" shows "questions_kept d (fst (apply_question d i tr f))"
proof (rule apply_question_cases [of d i tr f])
  fix q t answer d' and out :: transition_outcome and a b
  assume q: "load_question d i = Some q"
    and t: "t \<in> set question_transitions" "qt_kind t = qu_kind q" "qt_from t = qu_state q"
    and guard: "check_question_guard t q f = Inr ()" "question_answer_of t f = Inr answer"
    and tx: "transition_tx (question_write i q t tr f answer) d = Inr (d', out)"
    and res: "apply_question d i tr f = (d', Inr (Applied \<lparr>ap_from = qu_state q, ap_to = qt_to t,
         ap_effects = qt_effects t, ap_domain_event = qt_domain_event t,
         ap_state_changed_event_id = a, ap_domain_event_id = b,
         ap_opened_question_id = to_question_id out\<rparr>))"
  have "questions_kept d d'"
    unfolding questions_kept_def question_tx_tables(1) [OF wf q tx]
  proof (rule question_history.rows_update)
    fix r assume "r \<in> set (db_questions d)" "qu_id r = Some i"
    then have "r = q" and "question_ok r" using only_question_with_id [OF wf q] ok by (auto simp: questions_ok_def)
    then show "question_kept r (change_question
      \<lparr>qc_question_id = i, qc_expected = qu_state q, qc_next = qt_to t, qc_answer = answer\<rparr> r)"
      using changed_question_kept [OF _ t guard] by simp
  qed
  then show ?thesis by (simp add: res)
qed simp

lemma settle_merge_questions_kept: assumes wf: "db_wf d" shows "questions_kept d (fst (settle_merge d s))"
proof (rule settle_merge_cases [of d s])
  fix q run approval release d' and out :: transition_outcome and m
  assume q: "load_question d (ms_approval_id s) = Some q" and run: "load_run d (ms_run_id s) = Some run"
    and app: "deliverable q (settlement_facts s) = Inr approval"
    and rel: "releasable run (ms_now s) (ms_worktree_clean s) = Inr release"
    and tx: "transition_tx (settlement_write s approval release) d = Inr (d', out)"
    and res: "settle_merge d s = (d', Inr m)"
  from app obtain t where t: "t \<in> set question_transitions" "qt_from t = qu_state q" "qt_trigger t = Deliver"
    by (rule deliverableE)
  then have "qu_state q = question_state.Answered" using deliver_row by auto
  then have kept: "question_kept q (q\<lparr>qu_state := Delivered\<rparr>)"
    by (simp add: question_kept_def question_receipt_def question_ok_def)
  have "questions_kept d d'"
    unfolding questions_kept_def settlement_tx_tables(2) [OF wf q run app rel tx]
    using only_question_with_id [OF wf q] kept by (intro question_history.rows_update) blast
  then show ?thesis by (simp add: res)
qed simp

lemma moved_questions:
  assumes wf: "db_wf d"
  shows "\<exists>new. db_questions (fst (apply_run d i tr f)) = db_questions d @ new \<and>
    (\<forall>q' \<in> set new. \<exists>q n. rf_opened_question f = Some q \<and> q' = q\<lparr>qu_id := n\<rparr>)"
proof (rule apply_run_cases [of d i tr f])
  fix run t d' and out :: transition_outcome and a b
  assume run: "load_run d i = Some run"
    and tx: "transition_tx (run_write d i run tr t f) d = Inr (d', out)"
    and res: "apply_run d i tr f = (d', Inr (Applied \<lparr>ap_from = rr_state run, ap_to = rt_to t,
         ap_effects = rt_effects t, ap_domain_event = rt_domain_event t,
         ap_state_changed_event_id = a, ap_domain_event_id = b,
         ap_opened_question_id = to_question_id out\<rparr>))"
  show ?thesis
    by (rule exI, rule conjI, unfold res fst_conv, rule run_tx_tables(2) [OF wf run tx])
      (auto split: option.splits if_splits intro: sym)
qed auto

lemma apply_worktree_questions:
  assumes wf: "db_wf d" shows "db_questions (fst (apply_worktree d i tr f)) = db_questions d"
  by (rule apply_worktree_cases [of d i tr f]) (auto simp: worktree_tx_tables(2) [OF wf])

lemma open_run_questions: "db_questions (fst (open_run d r)) = db_questions d"
  by (rule open_run_cases [of d r]) simp_all

lemma fresh_question_ok: "fresh_question q \<Longrightarrow> question_ok (q\<lparr>qu_id := i\<rparr>)"
  by (simp add: fresh_question_def question_ok_def)

lemma perform_questions_kept: assumes wf: "db_wf d" and ok: "questions_ok d" shows "questions_kept d (perform op d)"
proof (cases op)
  case (OpenAsk q es)
  show ?thesis unfolding OpenAsk perform.simps
    by (rule open_question_cases [of d q es])
      (simp_all add: questions_kept_def open_question_tables question_history.rows_append question_history.rows_refl)
next
  case (MoveRun i tr f)
  then show ?thesis using moved_questions [OF wf, of i tr f]
    by (auto simp: questions_kept_def question_history.rows_append)
qed (simp_all add: apply_question_kept [OF wf ok] settle_merge_questions_kept [OF wf] open_run_questions
    journal_tables append_event_tables correlate_tables record_checkpoint_tables
    apply_worktree_questions [OF wf] apply_ingest_quiet [THEN conjunct2])


lemma length_questions_quiet:
  assumes wf: "db_wf d"
  shows "length (db_questions (fst (apply_question d i tr f))) = length (db_questions d)"
    and "length (db_questions (fst (settle_merge d s))) = length (db_questions d)"
    and "length (db_questions (fst (open_run d r))) = length (db_questions d)"
    and "length (db_questions (fst (apply_worktree d i wtr wf'))) = length (db_questions d)"
    and "length (db_questions (fst (journal d es))) = length (db_questions d)"
    and "length (db_questions (fst (append_event d e))) = length (db_questions d)"
    and "length (db_questions (fst (machines_correlate_attempt d a sa))) = length (db_questions d)"
    and "length (db_questions (fst (machines_record_checkpoint d e fs))) = length (db_questions d)"
    and "length (db_questions (fst (apply_ingest d w))) = length (db_questions d)"
proof -
  show "length (db_questions (fst (apply_question d i tr f))) = length (db_questions d)"
    by (rule apply_question_cases [of d i tr f]) (simp_all add: question_tx_tables(1) [OF wf])
  show "length (db_questions (fst (settle_merge d s))) = length (db_questions d)"
    by (rule settle_merge_cases [of d s]) (simp_all add: settlement_tx_tables(2) [OF wf])
qed (simp_all add: open_run_questions apply_worktree_questions [OF wf] journal_tables append_event_tables
    correlate_tables record_checkpoint_tables apply_ingest_quiet [THEN conjunct2])

lemma perform_questions_ok:
  assumes wf: "db_wf d" and ok: "questions_ok d" and adm: "admissible op" shows "questions_ok (perform op d)"
proof -
  have kept: "questions_kept d (perform op d)" by (rule perform_questions_kept [OF wf ok])
  consider (asked) q es where "op = OpenAsk q es" | (moved) i tr f where "op = MoveRun i tr f"
    | (other) "length (db_questions (perform op d)) = length (db_questions d)"
    using length_questions_quiet [OF wf] by (cases op) auto
  then show ?thesis
  proof cases
    case (asked q es)
    show ?thesis unfolding asked perform.simps
      by (rule open_question_cases [of d q es])
        (use ok adm asked fresh_question_ok in \<open>auto simp: questions_ok_def open_question_tables admissible_def\<close>)
  next
    case (moved i tr f)
    obtain new where new: "db_questions (perform op d) = db_questions d @ new"
        "\<forall>q' \<in> set new. \<exists>q n. rf_opened_question f = Some q \<and> q' = q\<lparr>qu_id := n\<rparr>"
      using moved_questions [OF wf, of i tr f] moved by auto
    have "\<forall>q' \<in> set new. question_ok q'"
      using new(2) adm fresh_question_ok by (auto simp: moved admissible_def)
    then show ?thesis using ok new(1) by (auto simp: questions_ok_def)
  next
    case other
    then show ?thesis
      using kept ok unfolding questions_kept_def rows_kept_def questions_ok_def question_kept_def
      by (metis in_set_conv_nth)
  qed
qed

lemma questions_ok_empty: "questions_ok empty_db"
  by (simp add: questions_ok_def empty_db_def)

lemma reachable_questions_ok: "reachable d \<Longrightarrow> questions_ok d"
  by (induction rule: reachable.induct) (auto intro: questions_ok_empty perform_questions_ok reachable_db_wf)

section \<open>Runs\<close>

text \<open>A stored run and the row it has become, with its life in between.\<close>

definition lives_follow :: "db \<Rightarrow> db \<Rightarrow> bool" where
  "lives_follow d d' \<longleftrightarrow> (\<forall>r \<in> set (db_runs d). \<exists>r' \<in> set (db_runs d').
     rr_id r' = rr_id r \<and> life\<^sup>*\<^sup>* (run_life_of d r) (run_life_of d' r'))"

lemma lives_follow_refl [simp]: "lives_follow d d"
  by (auto simp: lives_follow_def)

lemma lives_follow_trans:
  assumes "lives_follow a b" "lives_follow b c" shows "lives_follow a c"
  unfolding lives_follow_def
proof
  fix r assume "r \<in> set (db_runs a)"
  then obtain s where s: "s \<in> set (db_runs b)" "rr_id s = rr_id r" "life\<^sup>*\<^sup>* (run_life_of a r) (run_life_of b s)"
    using assms(1) by (auto simp: lives_follow_def)
  then obtain t where "t \<in> set (db_runs c)" "rr_id t = rr_id s" "life\<^sup>*\<^sup>* (run_life_of b s) (run_life_of c t)"
    using assms(2) by (auto simp: lives_follow_def)
  with s show "\<exists>t \<in> set (db_runs c). rr_id t = rr_id r \<and> life\<^sup>*\<^sup>* (run_life_of a r) (run_life_of c t)"
    by (metis rtranclp_trans)
qed

lemma quiet_follow:
  assumes "quiet d d'" shows "lives_follow d d'"
  unfolding lives_follow_def
proof
  fix r assume r: "r \<in> set (db_runs d)"
  from assms obtain p f where runs: "db_runs d' = sql_update p f (db_runs d)"
    and f: "p r \<Longrightarrow> run_kept r (f r) \<and> rr_state (f r) = rr_state r" and l: "\<And>i. legs d' i = legs d i"
    using r by (auto simp: quiet_def)
  let ?r' = "if p r then f r else r"
  have "rr_id ?r' = rr_id r" "run_life_of d' ?r' = run_life_of d r"
    using f run_kept_id by (auto simp: run_life_of_def l)
  moreover have "?r' \<in> set (db_runs d')" unfolding runs in_sql_update using r by blast
  ultimately show "\<exists>r' \<in> set (db_runs d'). rr_id r' = rr_id r \<and> life\<^sup>*\<^sup>* (run_life_of d r) (run_life_of d' r')"
    by (intro bexI [of _ ?r']) simp_all
qed

lemma moved_run_follow:
  assumes wf: "db_wf d" and lives: "lives_ok d" and run: "load_run d i = Some run"
    and t: "t \<in> set run_transitions" "rt_from t = rr_state run"
    and tx: "transition_tx (run_write d i run tr t f) d = Inr (d', out)"
  shows "lives_follow d d'"
  unfolding lives_follow_def
proof
  fix r assume r: "r \<in> set (db_runs d)"
  let ?r' = "if rr_id r = Some i then run_moved t f r else r"
  have in': "?r' \<in> set (db_runs d')" unfolding run_tx_tables(1) [OF wf run tx] in_sql_update using r by blast
  have "life\<^sup>*\<^sup>* (run_life_of d r) (run_life_of d' ?r')"
  proof (cases "rr_id r = Some i")
    case True
    then have "r = run" by (rule only_row_with_id [OF wf run r])
    then show ?thesis using moved_run_step(1) [OF wf lives run t tx] True by auto
  next
    case False
    then have "stored_id (rr_id r) \<noteq> i" using stored_run_id [OF wf r] by auto
    then show ?thesis using False moved_lives(3) [OF wf run tx] by (simp add: run_life_of_def)
  qed
  moreover have "rr_id ?r' = rr_id r" by (simp add: run_moved_def Let_def)
  ultimately show "\<exists>r' \<in> set (db_runs d'). rr_id r' = rr_id r \<and> life\<^sup>*\<^sup>* (run_life_of d r) (run_life_of d' r')"
    using in' by blast
qed

lemma perform_follow:
  assumes wf: "db_wf d" and lives: "lives_ok d" shows "lives_follow d (perform op d)"
proof (cases "is_quiet op")
  case True
  then show ?thesis using quiet_follow [OF quiet_operation] wf by simp
next
  case False
  then consider (opened) r where "op = OpenRun r" | (moved) i tr f where "op = MoveRun i tr f"
    by (cases op) auto
  then show ?thesis
  proof cases
    case (opened r)
    show ?thesis unfolding opened perform.simps
      by (rule open_run_cases [of d r]) (auto simp: lives_follow_def run_life_of_def legs_def)
  next
    case (moved i tr f)
    show ?thesis unfolding moved perform.simps
      by (rule apply_run_cases [of d i tr f]) (use moved_run_follow [OF wf lives] in auto)
  qed
qed


section \<open>Results and parked runs\<close>

lemma length_bounded_result: "length (bounded_result s) \<le> run_result_max_bytes"
  using cut_point_boundary [of s run_result_max_bytes] by (auto simp: bounded_result_def)

definition result_backed :: "db \<Rightarrow> run_row \<Rightarrow> bool" where
  "result_backed d r \<longleftrightarrow> null_or (\<lambda>text. length text \<le> run_result_max_bytes \<and>
     Some Succeeded \<in> snd ` set (legs d (stored_id (rr_id r)))) (rr_result r)"

definition parked_on_question :: "db \<Rightarrow> run_row \<Rightarrow> bool" where
  "parked_on_question d r \<longleftrightarrow>
     (rr_state r = AwaitingInput \<longrightarrow> (\<exists>q \<in> set (db_questions d). qu_run_id q = stored_id (rr_id r)))"

definition runs_backed :: "db \<Rightarrow> bool" where
  "runs_backed d \<longleftrightarrow> (\<forall>r \<in> set (db_runs d). result_backed d r \<and> parked_on_question d r)"

lemma questions_still_there:
  assumes "questions_kept d d'" "\<exists>q \<in> set (db_questions d). qu_run_id q = i"
  shows "\<exists>q \<in> set (db_questions d'). qu_run_id q = i"
proof -
  from assms(2) obtain q where q: "q \<in> set (db_questions d)" "qu_run_id q = i" by blast
  then obtain q' where q': "q' \<in> set (db_questions d')" "question_kept q q'"
    using question_history.row_still_there [of "db_questions d"] assms(1) by (auto simp: questions_kept_def)
  then have "qu_run_id (question_receipt q') = qu_run_id (question_receipt q)" by (simp add: question_kept_def)
  then show ?thesis using q q' by (auto simp: question_receipt_def)
qed

lemma backed_kept:
  assumes "rr_id r' = rr_id r" "rr_result r' = rr_result r" "rr_state r' = AwaitingInput \<Longrightarrow> rr_state r = AwaitingInput"
    and "Some Succeeded \<in> snd ` set (legs d (stored_id (rr_id r))) \<Longrightarrow>
      Some Succeeded \<in> snd ` set (legs d' (stored_id (rr_id r)))"
    and "questions_kept d d'" "result_backed d r \<and> parked_on_question d r"
  shows "result_backed d' r' \<and> parked_on_question d' r'"
  using assms questions_still_there [OF assms(5)]
  by (auto simp: result_backed_def parked_on_question_def elim!: null_or_mono)

lemma close_legs_keeps: "Some x \<in> set ls \<Longrightarrow> Some x \<in> set (leg_effect es ls)"
  by (cases "closed_outcome es") (force simp: leg_effect_def close_legs_def image_iff)+

lemma moved_run_backed:
  assumes wf: "db_wf d" and lives: "lives_ok d" and qok: "questions_ok d" and backed: "runs_backed d"
    and run: "load_run d i = Some run" and t: "t \<in> set run_transitions" "rt_from t = rr_state run" "rt_trigger t = tr"
    and guard: "check_run_guard d t i (rr_provider run) (rr_worktree_status run) f = Inr ()"
    and tx: "transition_tx (run_write d i run tr t f) d = Inr (d', out)"
  shows "result_backed d' (run_moved t f run) \<and> parked_on_question d' (run_moved t f run)"
proof
  have in_d: "run \<in> set (db_runs d)" "rr_id run = Some i" using load_run_iff [OF wf] run by auto
  have old: "result_backed d run" using backed in_d by (simp add: runs_backed_def)
  have moved: "rr_state (run_moved t f run) = rt_to t" "rr_id (run_moved t f run) = Some i"
    by (simp_all add: run_moved_def Let_def in_d(2))
  have ok': "life_ok (run_life_of d' (run_moved t f run))"
    using life_keeps_ok [OF moved_run_step(1) [OF wf lives run t(1,2) tx]] lives in_d(1) by (simp add: lives_ok_def)
  have succ: "Some Succeeded \<in> snd ` set (legs d i) \<Longrightarrow> Some Succeeded \<in> snd ` set (legs d' i)"
    using moved_lives(1) [OF wf run tx, of i] close_legs_keeps [of Succeeded "map snd (legs d i)"]
    by (metis image_set)
  show "result_backed d' (run_moved t f run)"
  proof (cases "RecordResult \<in> set (rt_effects t) \<and> rf_result f \<noteq> None")
    case True
    then have "rt_to t = Done" using t(1) by (auto simp: run_transitions_def cancellation_def)
    then have "map snd (legs d' i) \<noteq> [] \<and> last (map snd (legs d' i)) = Some Succeeded"
      using ok' by (simp add: life_ok_def run_life_of_def moved in_d(2))
    then have "Some Succeeded \<in> snd ` set (legs d' i)" by (metis image_set last_in_set)
    then show ?thesis using True by (auto simp: result_backed_def run_moved_def Let_def in_d(2) length_bounded_result)
  next
    case False
    then have "rr_result (run_moved t f run) = rr_result run" by (auto simp: run_moved_def Let_def)
    then show ?thesis using old succ by (auto simp: result_backed_def moved(2) in_d(2) elim!: null_or_mono)
  qed
  show "parked_on_question d' (run_moved t f run)"
    unfolding parked_on_question_def moved
  proof
    assume "rt_to t = AwaitingInput"
    then have "OpenQuestion \<in> set (rt_effects t)" "rt_guard t = AskOpensQuestion"
      using t(1) by (auto simp: run_transitions_def cancellation_def)
    moreover from this guard obtain q where q: "rf_opened_question f = Some q" "qu_run_id q = i"
      by (auto simp: check_run_guard_def check_ask_opens_question_def run_guard_refused_def and_then_Inr_iff
          split: option.splits if_splits)
    ultimately show "\<exists>q \<in> set (db_questions d'). qu_run_id q = stored_id (Some i)"
      by (simp add: run_tx_tables(2) [OF wf run tx])
  qed
qed

lemma perform_backed:
  assumes wf: "db_wf d" and lives: "lives_ok d" and qok: "questions_ok d" and backed: "runs_backed d"
    and adm: "admissible op"
  shows "runs_backed (perform op d)"
proof (cases "is_quiet op")
  case True
  note kept = perform_questions_kept [OF wf qok, of op]
  from quiet_operation [OF wf True] obtain p f where runs: "db_runs (perform op d) = sql_update p f (db_runs d)"
    and f: "\<And>r. r \<in> set (db_runs d) \<Longrightarrow> p r \<Longrightarrow>
        run_kept r (f r) \<and> rr_state (f r) = rr_state r \<and> rr_result (f r) = rr_result r"
    and l: "\<And>i. legs (perform op d) i = legs d i"
    unfolding quiet_def by blast
  have "result_backed (perform op d) (if p r then f r else r) \<and> parked_on_question (perform op d) (if p r then f r else r)"
    if r: "r \<in> set (db_runs d)" for r
  proof -
    have "rr_id (if p r then f r else r) = rr_id r" "rr_result (if p r then f r else r) = rr_result r"
      "rr_state (if p r then f r else r) = rr_state r"
      using f [OF r] run_kept_id by auto
    then show ?thesis using backed_kept [of "if p r then f r else r" r d "perform op d"] kept backed r l
      by (simp add: runs_backed_def)
  qed
  then show ?thesis unfolding runs_backed_def runs ball_sql_update by blast
next
  case False
  then consider (opened) r where "op = OpenRun r" | (moved) i tr f where "op = MoveRun i tr f"
    by (cases op) auto
  then show ?thesis
  proof cases
    case (opened r)
    then show ?thesis unfolding opened perform.simps
      by (rule_tac open_run_cases [of d r])
        (use backed adm opened in \<open>auto simp: runs_backed_def result_backed_def parked_on_question_def
          legs_def admissible_def\<close>)
  next
    case (moved i tr f)
    note kept = perform_questions_kept [OF wf qok, of op, unfolded moved perform.simps]
    show ?thesis unfolding moved perform.simps
    proof (rule apply_run_cases [of d i tr f])
      fix run t d' and out :: transition_outcome and a b
      assume run: "load_run d i = Some run"
        and t: "t \<in> set run_transitions" "rt_from t = rr_state run" "rt_trigger t = tr"
        and guard: "check_run_guard d t i (rr_provider run) (rr_worktree_status run) f = Inr ()"
        and tx: "transition_tx (run_write d i run tr t f) d = Inr (d', out)"
        and res: "apply_run d i tr f = (d', Inr (Applied \<lparr>ap_from = rr_state run, ap_to = rt_to t,
           ap_effects = rt_effects t, ap_domain_event = rt_domain_event t,
           ap_state_changed_event_id = a, ap_domain_event_id = b,
           ap_opened_question_id = to_question_id out\<rparr>))"
      have "result_backed d' (if rr_id r = Some i then run_moved t f r else r) \<and>
          parked_on_question d' (if rr_id r = Some i then run_moved t f r else r)"
        if r: "r \<in> set (db_runs d)" for r
      proof (cases "rr_id r = Some i")
        case True
        then have "r = run" by (rule only_row_with_id [OF wf run r])
        then show ?thesis using moved_run_backed [OF wf lives qok backed run t guard tx] True by simp
      next
        case False
        then have "stored_id (rr_id r) \<noteq> i" using stored_run_id [OF wf r] by auto
        then have "legs d' (stored_id (rr_id r)) = legs d (stored_id (rr_id r))"
          by (rule moved_lives(3) [OF wf run tx])
        then show ?thesis using backed_kept [of r r d d'] kept backed r False
          by (simp add: res runs_backed_def)
      qed
      then show "runs_backed (fst (apply_run d i tr f))"
        unfolding res fst_conv runs_backed_def run_tx_tables(1) [OF wf run tx] ball_sql_update by blast
    qed (use backed in simp_all)
  qed
qed

lemma runs_backed_empty: "runs_backed empty_db"
  by (simp add: runs_backed_def empty_db_def)

lemma reachable_backed: "reachable d \<Longrightarrow> runs_backed d"
  by (induction rule: reachable.induct)
    (auto intro: runs_backed_empty perform_backed dest: reachable_lives reachable_questions_ok)

text \<open>What any sequence of operations leaves of what was there.\<close>

lemma history_kept:
  assumes "reachable d" "list_all admissible ops"
  shows "journal_grows d (perform_all ops d) \<and> runs_kept d (perform_all ops d) \<and>
    questions_kept d (perform_all ops d) \<and> lives_follow d (perform_all ops d)"
  using assms
proof (induction rule: perform_all_induct)
  case (step d op)
  then show ?case
    using perform_grows perform_runs_kept perform_questions_kept perform_follow reachable_lives
      reachable_questions_ok by blast
next
  case (trans a b c)
  then show ?case
    using journal_grows_trans lives_follow_trans questions_kept_trans run_history.rows_trans
    unfolding runs_kept_def by blast
qed simp

end
