(* ===== verification/Progress.thy ===== *)
theory Progress
  imports History
begin

text \<open>
  When a transition goes through: a run whose guard passes, with a question and session
  references the schema accepts, is moved, whatever else the database holds. No store
  constraint stands in the way of the machine.
\<close>

lemma write_events_succeeds:
  assumes "\<And>e. e \<in> set es \<Longrightarrow> event_checks (filled_event q e) \<and> event_fks (db_runs d) (filled_event q e)"
  shows "\<exists>d' ids. write_events q es d = Inr (d', ids)"
  using assms
proof (induction q es d rule: write_events.induct)
  case (2 q e es d)
  have "event_checks (filled_event q e) \<and> event_fks (db_runs d) (filled_event q e)" by (rule 2(2)) simp
  then obtain d1 i where app: "append_event_row d (filled_event q e) = Inr (d1, i)"
    by (cases "sql_insert ev_id (\<lambda>i. ev_id_update (\<lambda>_. Some i)) (filled_event q e) (db_events d)")
      (simp add: append_event_row_def Let_def)
  have runs: "db_runs d1 = db_runs d" using append_event_rowE(1) [OF app] by simp
  have "\<exists>d2 ids. write_events q es d1 = Inr (d2, ids)"
    by (rule "2.IH") (use app 2(2) runs in \<open>auto simp: filled_event_def\<close>)
  then show ?case using app by (auto simp: Let_def filled_event_def)
qed simp

lemma filled_event_valid: "event_checks e \<Longrightarrow> event_checks (filled_event q e)"
  by (auto simp: event_checks_def filled_event_def fill_opened_question_slot_def json_valid_def
      split: option.splits json.splits)

lemma transition_event_ok:
  assumes "e \<in> set (transition_events m det)" "jm_domain_event m \<noteq> ''''" "run_exists runs (jm_run_id m)"
  shows "event_checks (filled_event q e) \<and> event_fks runs (filled_event q e)"
proof -
  have "event_checks e" using assms(1,2)
    by (auto simp: transition_events_def event_checks_def json_valid_def run_state_changed_def)
  moreover have "ev_run_id e = Some (jm_run_id m)" using assms(1) by (auto simp: transition_events_def)
  ultimately show ?thesis using assms(3) filled_event_valid by (auto simp: event_fks_def)
qed

lemma next_attempt_above:
  assumes "a \<in> set (db_attempts d)" "at_run_id a = i" shows "at_n a < at_n (next_attempt d i f)"
proof -
  let ?ns = "map at_n (attempts_for_run d i)"
  have "at_n a \<in> set ?ns" using assms by (simp add: attempts_for_run_def)
  then have "at_n a \<le> (case ?ns of [] \<Rightarrow> 0 | n # ns \<Rightarrow> fold max ns n)"
    by (cases ?ns) (simp_all only: list.case list.set empty_iff fold_max_bound set_simps)
  then show ?thesis by (simp add: next_attempt_def)
qed

lemma next_attempt_positive: "db_wf d \<Longrightarrow> 0 < at_n (next_attempt d i f)"
proof (cases "filter (\<lambda>a. at_run_id a = i) (db_attempts d)")
  case Nil
  then have "attempts_for_run d i = []" by (simp add: attempts_for_run_def sql_select_def)
  then show ?thesis by (simp add: next_attempt_def)
next
  case (Cons a as)
  then have a: "a \<in> set (db_attempts d)" "at_run_id a = i"
    using filter_eq_ConsD [OF Cons] by auto
  moreover assume "db_wf d"
  ultimately have "0 < at_n a" by (auto simp: db_wf_def attempt_checks_def)
  then show ?thesis using next_attempt_above [OF a, of f] by simp
qed

lemma write_run_state_succeeds:
  assumes "db_wf d" "load_run d i = Some run"
  shows "write_run_state i (Some \<lparr>sc_expected = rr_state run, sc_next = s\<rparr>) d =
    Inr (d\<lparr>db_runs := sql_update (\<lambda>r. rr_id r = Some i) (\<lambda>r. r\<lparr>rr_state := s\<rparr>) (db_runs d)\<rparr>)"
proof -
  have "run \<in> set (db_runs d)" "rr_id run = Some i" using load_run_iff [OF assms(1)] assms(2) by auto
  then have "sql_count (\<lambda>r. rr_id r = Some i \<and> rr_state r = rr_state run) (db_runs d) = 1"
    using runs.count_by_id [of "db_runs d" run i] assms(1) by (simp add: db_wf_def)
  moreover have "sql_update (\<lambda>r. rr_id r = Some i \<and> rr_state r = rr_state run) g (db_runs d) =
      sql_update (\<lambda>r. rr_id r = Some i) g (db_runs d)" for g
    by (rule run_update_by_id [OF assms]) simp
  ultimately show ?thesis by (simp add: write_run_state_def Let_def)
qed

definition references_ok :: "db \<Rightarrow> run_transition \<Rightarrow> run_facts \<Rightarrow> bool" where
  "references_ok d t f \<longleftrightarrow>
     (OpenAttempt \<in> set (rt_effects t) \<longrightarrow>
        null_or (\<lambda>s. s \<in> set (db_sessions d)) (rf_session_id f) \<and>
        null_or (\<lambda>s. s \<in> set (db_session_attempts d)) (rf_session_attempt_id f)) \<and>
     (OpenQuestion \<in> set (rt_effects t) \<longrightarrow> null_or question_checks (rf_opened_question f))"

lemma domain_event_named: "t \<in> set run_transitions \<Longrightarrow> rt_domain_event t \<noteq> ''''"
  by (auto simp: run_transitions_def cancellation_def)

text \<open>The rows of a transition, one write at a time.\<close>

lemma same_tables:
  "\<exists>qs. d = d\<lparr>db_questions := qs\<rparr>" "\<exists>ps. d = d\<lparr>db_providers := ps\<rparr>"
  "\<exists>as. d = d\<lparr>db_attempts := as\<rparr>"
  by (rule exI [of _ "db_questions d"], simp, rule exI [of _ "db_providers d"], simp,
      rule exI [of _ "db_attempts d"], simp)

lemma transition_rows_succeeds:
  assumes "write_new_question (tw_new_question w) d = Inr (d5, q)"
    and "write_attempt (tw_attempt w) (fst (write_close_attempt (tw_run_id w) (tw_close_attempt w) d5)) = Inr (d7, a)"
    and "write_provider (tw_provider w) d7 = Inr d8"
    and "write_events q (tw_events w) d8 = Inr (d9, ids)"
  shows "\<exists>out. transition_rows w d = Inr (d9, out)"
  using assms by (simp add: transition_rows_def Let_def)

lemma write_new_question_succeeds:
  assumes "null_or (\<lambda>q. question_checks q \<and> run_exists (db_runs d) (qu_run_id q)) q"
  shows "\<exists>qs i. write_new_question q d = Inr (d\<lparr>db_questions := qs\<rparr>, i)"
proof (cases q)
  case None
  then show ?thesis using same_tables by (auto simp: write_new_question_def)
next
  case (Some x)
  then show ?thesis using assms
    by (auto simp: write_new_question_def insert_question_row_def Let_def sql_insert_def question_fks_def)
qed

lemma write_attempt_succeeds:
  assumes "null_or (\<lambda>a. attempt_checks a \<and> attempt_fks d a \<and> attempt_key a \<notin> set (map attempt_key (db_attempts d))) a"
  shows "\<exists>as i. write_attempt a d = Inr (d\<lparr>db_attempts := as\<rparr>, i)"
proof (cases a)
  case None
  then show ?thesis using same_tables by (auto simp: write_attempt_def)
next
  case (Some x)
  then show ?thesis using assms
    by (auto simp: write_attempt_def insert_attempt_row_def Let_def sql_insert_def)
qed

lemma write_provider_succeeds:
  assumes "null_or provider_checks p" shows "\<exists>ps. write_provider p d = Inr (d\<lparr>db_providers := ps\<rparr>)"
proof (cases p)
  case None
  then show ?thesis using same_tables by (auto simp: write_provider_def)
next
  case (Some x)
  then show ?thesis using assms by (auto simp: write_provider_def record_provider_row_def)
qed

lemma write_close_attempt_shape:
  "\<exists>as. fst (write_close_attempt i c d) = d\<lparr>db_attempts := as\<rparr> \<and> map attempt_key as = map attempt_key (db_attempts d)"
proof (cases c)
  case None
  then show ?thesis
    by (intro exI [of _ "db_attempts d"]) (simp add: write_close_attempt_def)
next
  case (Some x)
  let ?p = "\<lambda>a. at_run_id a = i \<and> at_ended_at a = None \<and> at_outcome a = None"
  let ?g = "\<lambda>a. a\<lparr>at_ended_at := Some (ac_ended_at x), at_outcome := Some (ac_outcome x)\<rparr>"
  have "map attempt_key (sql_update ?p ?g (db_attempts d)) = map attempt_key (db_attempts d)"
    by (rule map_sql_update) (simp add: attempt_key_def)
  then show ?thesis
    by (intro exI [of _ "sql_update ?p ?g (db_attempts d)"])
      (simp add: write_close_attempt_def close_open_attempts_def Let_def Some)
qed

lemma next_attempt_accepted:
  assumes wf: "db_wf d" and run: "run_exists runs i" and keys: "map attempt_key as = map attempt_key (db_attempts d)"
    and refs: "null_or (\<lambda>s. s \<in> set (db_sessions d)) (rf_session_id f)"
      "null_or (\<lambda>s. s \<in> set (db_session_attempts d)) (rf_session_attempt_id f)"
  shows "attempt_checks (next_attempt d i f)"
    and "attempt_fks (d\<lparr>db_runs := runs, db_questions := qs, db_attempts := as\<rparr>) (next_attempt d i f)"
    and "attempt_key (next_attempt d i f) \<notin> set (map attempt_key as)"
proof -
  show "attempt_checks (next_attempt d i f)"
    using next_attempt_positive [OF wf, of i f] by (simp add: attempt_checks_def next_attempt_def)
  show "attempt_fks (d\<lparr>db_runs := runs, db_questions := qs, db_attempts := as\<rparr>) (next_attempt d i f)"
    using run refs by (simp add: attempt_fks_def next_attempt_def)
  have "at_run_id (next_attempt d i f) = i" by (simp add: next_attempt_def)
  then show "attempt_key (next_attempt d i f) \<notin> set (map attempt_key as)"
    unfolding keys using next_attempt_above [of _ d i f] by (fastforce simp: attempt_key_def)
qed

lemma run_write_succeeds:
  assumes wf: "db_wf d" and run: "load_run d i = Some run"
    and t: "t \<in> set run_transitions" "rt_from t = rr_state run"
    and guard: "check_run_guard d t i (rr_provider run) (rr_worktree_status run) f = Inr ()"
    and refs: "references_ok d t f"
  shows "\<exists>d' out. transition_tx (run_write d i run tr t f) d = Inr (d', out)"
proof -
  let ?w = "run_write d i run tr t f"
  define runs1 where "runs1 = sql_update (\<lambda>r. rr_id r = Some i) (\<lambda>r. r\<lparr>rr_state := rt_to t\<rparr>) (db_runs d)"
  have changes: "transition_changes ?w d = Inr (d\<lparr>db_runs := runs1\<rparr>)"
    using write_run_state_succeeds [OF wf run]
    by (simp add: transition_changes_def run_write_def write_worktree_status_def write_question_def runs1_def)
  obtain runs2 where d4: "write_result i (tw_result ?w) (d\<lparr>db_runs := runs1\<rparr>) = d\<lparr>db_runs := runs2\<rparr>"
      and ex: "run_exists runs2 = run_exists (db_runs d)"
    by (cases "tw_result ?w") (auto simp: write_result_def runs1_def)
  have i: "run_exists runs2 i" "rr_provider run \<noteq> ''''"
    using run load_run_iff [OF wf] ex wf by (auto simp: run_exists_def db_wf_def run_checks_def)
  have "OpenQuestion \<in> set (rt_effects t) \<Longrightarrow> null_or (\<lambda>q. qu_run_id q = i) (rf_opened_question f)"
    using t(1) guard by (auto simp: run_transitions_def cancellation_def check_run_guard_def
        check_ask_opens_question_def run_guard_refused_def and_then_Inr_iff split: option.splits if_splits)
  then have "null_or (\<lambda>q. question_checks q \<and> run_exists runs2 (qu_run_id q)) (tw_new_question ?w)"
    using refs i by (cases "rf_opened_question f") (auto simp: run_write_def references_ok_def)
  then obtain qs qi where 1: "write_new_question (tw_new_question ?w) (d\<lparr>db_runs := runs2\<rparr>) =
      Inr (d\<lparr>db_runs := runs2, db_questions := qs\<rparr>, qi)"
    using write_new_question_succeeds [of "d\<lparr>db_runs := runs2\<rparr>"] by fastforce
  obtain as where 2: "fst (write_close_attempt i (tw_close_attempt ?w) (d\<lparr>db_runs := runs2, db_questions := qs\<rparr>)) =
      d\<lparr>db_runs := runs2, db_questions := qs, db_attempts := as\<rparr>"
      and keys: "map attempt_key as = map attempt_key (db_attempts d)"
    using write_close_attempt_shape [of i "tw_close_attempt ?w" "d\<lparr>db_runs := runs2, db_questions := qs\<rparr>"] by auto
  let ?d6 = "d\<lparr>db_runs := runs2, db_questions := qs, db_attempts := as\<rparr>"
  have "null_or (\<lambda>a. attempt_checks a \<and> attempt_fks ?d6 a \<and> attempt_key a \<notin> set (map attempt_key (db_attempts ?d6)))
      (tw_attempt ?w)"
    using next_attempt_accepted [OF wf i(1) keys, of f] refs by (simp add: run_write_def references_ok_def)
  then obtain bs ai where 3: "write_attempt (tw_attempt ?w) ?d6 = Inr (?d6\<lparr>db_attempts := bs\<rparr>, ai)"
    using write_attempt_succeeds [of ?d6] by blast
  have "null_or provider_checks (tw_provider ?w)"
    using i(2) by (simp add: run_write_def provider_write_def provider_checks_def)
  then obtain ps where 4: "write_provider (tw_provider ?w) (?d6\<lparr>db_attempts := bs\<rparr>) =
      Inr (?d6\<lparr>db_attempts := bs, db_providers := ps\<rparr>)"
    using write_provider_succeeds [of "tw_provider ?w" "?d6\<lparr>db_attempts := bs\<rparr>"] by auto
  obtain d9 ids where 5: "write_events qi (tw_events ?w) (?d6\<lparr>db_attempts := bs, db_providers := ps\<rparr>) = Inr (d9, ids)"
    using write_events_succeeds [of "tw_events ?w" qi "?d6\<lparr>db_attempts := bs, db_providers := ps\<rparr>"]
      transition_event_ok [of _ _ _ runs2 qi] domain_event_named [OF t(1)] i(1)
    by (auto simp: run_write_def)
  have id: "tw_run_id ?w = i" by (simp add: run_write_def)
  have "\<exists>out. transition_rows ?w (d\<lparr>db_runs := runs2\<rparr>) = Inr (d9, out)"
    by (rule transition_rows_succeeds [OF 1 _ 4 5]) (simp add: id 2 3)
  then show ?thesis using changes d4 by (auto simp: transition_tx_def id)
qed

end
