(* ===== verification/Scheduler.thy ===== *)
theory Scheduler
  imports Sessions Progress
begin

text \<open>
  Admission (crates/agens-server/src/scheduler/mod.rs, queue.rs and launcher.rs): which
  queued runs are eligible and in what order, the three ceilings one tick gives slots
  out under, and the launch of a session before its run is moved. The launcher is a
  parameter of \<open>tick\<close>, with what the tick relies on as the locale \<open>run_launcher\<close>; the
  supervisor's launcher over the session registry interprets it.
\<close>

section \<open>Limits, load, reports\<close>

record scheduler_limits =
  sl_max_concurrent :: nat
  sl_available_worktrees :: nat
  sl_provider_capacity :: "string \<rightharpoonup> nat"
  sl_default_provider_capacity :: nat

definition capacity_for :: "scheduler_limits \<Rightarrow> string \<Rightarrow> nat" where
  "capacity_for l provider =
     (case sl_provider_capacity l provider of None \<Rightarrow> sl_default_provider_capacity l | Some n \<Rightarrow> n)"

record scheduler_load =
  ld_now :: i64
  ld_subagents :: "string \<rightharpoonup> nat"

record pending_run =
  pe_run_id :: i64
  pe_run :: run_row
  pe_resumed :: bool

record launched_session =
  la_session :: i64
  la_session_attempt_id :: "i64 option"

datatype ineligible =
    ProviderCapped string
  | WorktreeNotReady "worktree_status option"
  | DependencyPending i64 "worktree_status option"

datatype deferral =
    IneligibleRun ineligible
  | MaxConcurrent nat nat
  | WorktreeCeiling nat nat
  | ProviderHeadroom string nat nat

datatype admission_failure = Launch string | Refused rejection

record admission =
  ad_run_id :: i64
  ad_session :: i64
  ad_resumed :: bool

record queue_report =
  qr_depth :: nat
  qr_running_before :: nat
  qr_admitted :: "admission list"
  qr_deferred :: "(i64 \<times> deferral) list"
  qr_failures :: "(i64 \<times> admission_failure) list"

definition is_saturated :: "queue_report \<Rightarrow> bool" where
  "is_saturated r \<longleftrightarrow>
     list_ex (\<lambda>(i, df). case df of IneligibleRun reason \<Rightarrow> False | _ \<Rightarrow> True) (qr_deferred r)"

definition deferred_count :: "queue_report \<Rightarrow> nat" where
  "deferred_count r = length (qr_deferred r)"

section \<open>The queue\<close>

record candidate =
  ca_run_id :: i64
  ca_run :: run_row
  ca_resumed :: bool

record queue =
  qe_eligible :: "candidate list"
  qe_ineligible :: "(i64 \<times> ineligible) list"

definition depth :: "queue \<Rightarrow> nat" where
  "depth q = length (qe_eligible q) + length (qe_ineligible q)"

definition eligibility :: "db \<Rightarrow> run_row \<Rightarrow> ineligible option" where
  "eligibility d run =
     (if (case load_provider d (rr_provider run) of None \<Rightarrow> False | Some row \<Rightarrow> pr_quota_state row = Capped)
      then Some (ProviderCapped (rr_provider run))
      else if rr_worktree_status run \<noteq> Some Active then Some (WorktreeNotReady (rr_worktree_status run))
      else (case rr_dep_run_id run of
          None \<Rightarrow> None
        | Some dep \<Rightarrow>
            (let status = (case load_run d dep of None \<Rightarrow> None | Some row \<Rightarrow> rr_worktree_status row)
             in if status = Some Reclaimable then None else Some (DependencyPending dep status))))"

definition resumed_from :: "string list" where
  "resumed_from = [''awaiting_input'', ''awaiting_quota'', ''interrupted'']"

definition run_move :: "event_row \<Rightarrow> json option" where
  "run_move e = (if ev_type e = run_state_changed then from_str (ev_payload e) else None)"

definition reached_queue_by_resuming :: "db \<Rightarrow> i64 \<Rightarrow> bool" where
  "reached_queue_by_resuming d run_id =
     (case find (\<lambda>payload. Option.bind (json_get payload ''machine'') as_str = Some ''run'')
             (List.map_filter run_move (rev (events_for_run d run_id))) of
        None \<Rightarrow> False
      | Some payload \<Rightarrow> (case Option.bind (json_get payload ''from'') as_str of
            None \<Rightarrow> False
          | Some state \<Rightarrow> state \<in> set resumed_from))"

text \<open>
  The admission order as a linear order: resumed first, then priority descending, then
  creation time and id ascending, compared one after the other as the code does.
\<close>

datatype admission_rank = Rank bool i64 i64 i64

fun comes_before :: "admission_rank \<Rightarrow> admission_rank \<Rightarrow> bool" where
  "comes_before (Rank r p c i) (Rank r' p' c' i') \<longleftrightarrow>
     (r \<and> \<not> r') \<or> (r = r' \<and> (p' < p \<or> (p = p' \<and> (c < c' \<or> (c = c' \<and> i < i')))))"

instantiation admission_rank :: linorder
begin

definition less_admission_rank :: "admission_rank \<Rightarrow> admission_rank \<Rightarrow> bool" where
  "less_admission_rank x y \<longleftrightarrow> comes_before x y"

definition less_eq_admission_rank :: "admission_rank \<Rightarrow> admission_rank \<Rightarrow> bool" where
  "less_eq_admission_rank x y \<longleftrightarrow> x = y \<or> comes_before x y"

instance
proof
  fix x y z :: admission_rank
  show "x < y \<longleftrightarrow> x \<le> y \<and> \<not> y \<le> x"
    by (cases x; cases y) (auto simp: less_eq_admission_rank_def less_admission_rank_def)
  show "x \<le> x" by (simp add: less_eq_admission_rank_def)
  show "x \<le> y \<Longrightarrow> y \<le> z \<Longrightarrow> x \<le> z"
    by (cases x; cases y; cases z) (auto simp: less_eq_admission_rank_def)
  show "x \<le> y \<Longrightarrow> y \<le> x \<Longrightarrow> x = y"
    by (cases x; cases y) (auto simp: less_eq_admission_rank_def)
  show "x \<le> y \<or> y \<le> x"
    by (cases x; cases y) (auto simp: less_eq_admission_rank_def)
qed

end

lemma less_Rank [simp]: "Rank r p c i < Rank r' p' c' i' \<longleftrightarrow> comes_before (Rank r p c i) (Rank r' p' c' i')"
  by (simp add: less_admission_rank_def)

definition admission_rank :: "candidate \<Rightarrow> admission_rank" where
  "admission_rank c =
     Rank (ca_resumed c) (rr_priority (ca_run c)) (rr_created_at (ca_run c)) (ca_run_id c)"

definition queued_with_id :: "db \<Rightarrow> (i64 \<times> run_row) list" where
  "queued_with_id d = List.map_filter (\<lambda>r. map_option (\<lambda>i. (i, r)) (rr_id r)) (runs_in_state d Queued)"

definition build_queue :: "db \<Rightarrow> queue" where
  "build_queue d =
     (let queued = queued_with_id d
      in \<lparr>qe_eligible = sort_key admission_rank
            (map (\<lambda>(i, r). \<lparr>ca_run_id = i, ca_run = r, ca_resumed = reached_queue_by_resuming d i\<rparr>)
              (filter (\<lambda>(i, r). eligibility d r = None) queued)),
          qe_ineligible = List.map_filter (\<lambda>(i, r). map_option (\<lambda>reason. (i, reason)) (eligibility d r)) queued\<rparr>)"

section \<open>Slots\<close>

record slots =
  st_running :: nat
  st_held_worktrees :: nat
  st_concurrency_limit :: nat
  st_worktree_limit :: nat
  st_per_provider :: "string \<rightharpoonup> nat"
  st_limits :: scheduler_limits
  st_subagents :: "string \<rightharpoonup> nat"

definition holding_states_outside_the_queue :: "run_state list" where
  "holding_states_outside_the_queue = filter (\<lambda>s. s \<noteq> Queued) worktree_holding_run_states"

definition entry_or_default :: "(string \<rightharpoonup> nat) \<Rightarrow> string \<Rightarrow> nat" where
  "entry_or_default m k = (case m k of None \<Rightarrow> 0 | Some n \<Rightarrow> n)"

definition count_one :: "string \<Rightarrow> (string \<rightharpoonup> nat) \<Rightarrow> (string \<rightharpoonup> nat)" where
  "count_one k m = m(k \<mapsto> entry_or_default m k + 1)"

definition read_slots :: "db \<Rightarrow> scheduler_limits \<Rightarrow> scheduler_load \<Rightarrow> slots" where
  "read_slots d limits load =
     (let running = runs_in_state d run_state.Running
      in \<lparr>st_running = length running,
          st_held_worktrees = held_worktrees_in d holding_states_outside_the_queue,
          st_concurrency_limit = sl_max_concurrent limits,
          st_worktree_limit = sl_available_worktrees limits,
          st_per_provider = fold (\<lambda>r. count_one (rr_provider r)) running Map.empty,
          st_limits = limits, st_subagents = ld_subagents load\<rparr>)"

definition headroom_for :: "slots \<Rightarrow> string \<Rightarrow> nat" where
  "headroom_for s provider = capacity_for (st_limits s) provider - entry_or_default (st_subagents s) provider"

definition offer :: "slots \<Rightarrow> string \<Rightarrow> deferral + slots" where
  "offer s provider =
     (if st_concurrency_limit s \<le> st_running s
      then Inl (MaxConcurrent (st_running s) (st_concurrency_limit s))
      else if st_worktree_limit s \<le> st_held_worktrees s
      then Inl (WorktreeCeiling (st_held_worktrees s) (st_worktree_limit s))
      else (let on_provider = entry_or_default (st_per_provider s) provider;
                headroom = headroom_for s provider
            in if headroom \<le> on_provider then Inl (ProviderHeadroom provider on_provider headroom)
               else Inr (s\<lparr>st_running := st_running s + 1, st_held_worktrees := st_held_worktrees s + 1,
                           st_per_provider := count_one provider (st_per_provider s)\<rparr>)))"

section \<open>One tick\<close>

text \<open>
  A launch may write rows of the session tables, which the attempt then refers to; the
  launcher hands them back. \<open>'l\<close> is the launcher's own state.
\<close>

type_synonym session_rows = "i64 list \<times> i64 list"

definition write_session_rows :: "session_rows \<Rightarrow> db \<Rightarrow> db" where
  "write_session_rows rows d =
     d\<lparr>db_sessions := fst rows @ db_sessions d, db_session_attempts := snd rows @ db_session_attempts d\<rparr>"

type_synonym 'l launch = "'l \<Rightarrow> pending_run \<Rightarrow> 'l \<times> session_rows \<times> (string + launched_session)"

definition admission_facts :: "scheduler_load \<Rightarrow> candidate \<Rightarrow> launched_session \<Rightarrow> run_facts" where
  "admission_facts load c launched =
     default_run_facts
       \<lparr>rf_now := ld_now load, rf_principal := principal.Coordinator, rf_slot_available := True,
        rf_provider_serving := True,
        rf_worktree_ready := rr_worktree_status (ca_run c) = Some Active,
        rf_session_id := Some (la_session launched),
        rf_session_attempt_id := la_session_attempt_id launched\<rparr>"

definition admit ::
  "'l launch \<Rightarrow> ('l \<Rightarrow> i64 \<Rightarrow> 'l) \<Rightarrow> scheduler_load \<Rightarrow> candidate \<Rightarrow>
   'l \<times> db \<times> queue_report \<Rightarrow> 'l \<times> db \<times> queue_report" where
  "admit launch abandon load c x =
     (case x of (l, d, report) \<Rightarrow>
        (case launch l \<lparr>pe_run_id = ca_run_id c, pe_run = ca_run c, pe_resumed = ca_resumed c\<rparr> of
           (l1, rows, Inl e) \<Rightarrow>
             (l1, write_session_rows rows d,
              report\<lparr>qr_failures := qr_failures report @ [(ca_run_id c, Launch e)]\<rparr>)
         | (l1, rows, Inr launched) \<Rightarrow>
             (case apply_run (write_session_rows rows d) (ca_run_id c) Admit (admission_facts load c launched) of
                (d2, Inr _) \<Rightarrow>
                  (l1, d2, report\<lparr>qr_admitted := qr_admitted report @
                     [\<lparr>ad_run_id = ca_run_id c, ad_session = la_session launched, ad_resumed = ca_resumed c\<rparr>]\<rparr>)
              | (d2, Inl rejection) \<Rightarrow>
                  (abandon l1 (la_session launched), d2,
                   report\<lparr>qr_failures := qr_failures report @ [(ca_run_id c, Refused rejection)]\<rparr>))))"

fun offer_each ::
  "'l launch \<Rightarrow> ('l \<Rightarrow> i64 \<Rightarrow> 'l) \<Rightarrow> scheduler_load \<Rightarrow> slots \<Rightarrow> candidate list \<Rightarrow>
   'l \<times> db \<times> queue_report \<Rightarrow> 'l \<times> db \<times> queue_report" where
  "offer_each launch abandon load s [] x = x"
| "offer_each launch abandon load s (c # cs) x =
     (case offer s (rr_provider (ca_run c)) of
        Inl deferral \<Rightarrow>
          offer_each launch abandon load s cs
            (case x of (l, d, report) \<Rightarrow>
               (l, d, report\<lparr>qr_deferred := qr_deferred report @ [(ca_run_id c, deferral)]\<rparr>))
      | Inr s' \<Rightarrow> offer_each launch abandon load s' cs (admit launch abandon load c x))"

definition tick ::
  "'l launch \<Rightarrow> ('l \<Rightarrow> i64 \<Rightarrow> 'l) \<Rightarrow> scheduler_limits \<Rightarrow> scheduler_load \<Rightarrow> 'l \<Rightarrow> db \<Rightarrow> 'l \<times> db \<times> queue_report" where
  "tick launch abandon limits load l d =
     (let queue = build_queue d;
          s = read_slots d limits load;
          report = \<lparr>qr_depth = depth queue, qr_running_before = st_running s, qr_admitted = [],
            qr_deferred = map (\<lambda>(i, reason). (i, IneligibleRun reason)) (qe_ineligible queue),
            qr_failures = []\<rparr>
      in offer_each launch abandon load s (qe_eligible queue) (l, d, report))"


section \<open>The queue, read back\<close>

lemma queued_with_id_iff:
  "(i, r) \<in> set (queued_with_id d) \<longleftrightarrow> r \<in> set (db_runs d) \<and> rr_state r = Queued \<and> rr_id r = Some i"
  by (force simp: queued_with_id_def runs_in_state_def List.map_filter_def)

lemma queued_ids:
  "\<forall>r \<in> set rows. rr_id r \<noteq> None \<Longrightarrow>
     map fst (List.map_filter (\<lambda>r. map_option (\<lambda>i. (i, r)) (rr_id r)) rows) = map (\<lambda>r. stored_id (rr_id r)) rows"
  by (induction rows) (auto simp: List.map_filter_simps)

lemma queued_ids_distinct: assumes "db_wf d" shows "distinct (map fst (queued_with_id d))"
proof -
  have sel: "runs_in_state d Queued = filter (\<lambda>r. rr_state r = Queued) (db_runs d)"
    unfolding runs_in_state_def by (rule runs.select_by_id) (use assms in \<open>simp add: db_wf_def\<close>)
  have "distinct (map (\<lambda>r. stored_id (rr_id r)) (db_runs d))" "\<forall>r \<in> set (db_runs d). rr_id r \<noteq> None"
    using assms runs.ids_distinct [of "db_runs d"] by (simp_all add: db_wf_def tbl_ok_def tbl_ids_def)
  moreover from this have "map fst (queued_with_id d) =
      map (\<lambda>r. stored_id (rr_id r)) (filter (\<lambda>r. rr_state r = Queued) (db_runs d))"
    unfolding queued_with_id_def sel by (intro queued_ids) simp
  ultimately show ?thesis by (simp add: distinct_map_filter)
qed

definition candidate_of :: "db \<Rightarrow> i64 \<times> run_row \<Rightarrow> candidate" where
  "candidate_of d x = \<lparr>ca_run_id = fst x, ca_run = snd x, ca_resumed = reached_queue_by_resuming d (fst x)\<rparr>"

lemma eligible_mset:
  "mset (qe_eligible (build_queue d)) =
     mset (map (candidate_of d) (filter (\<lambda>x. eligibility d (snd x) = None) (queued_with_id d)))"
  unfolding build_queue_def Let_def candidate_of_def [abs_def] by (simp add: case_prod_beta')

lemma ineligible_ids:
  "map fst (qe_ineligible (build_queue d)) =
     map fst (filter (\<lambda>x. eligibility d (snd x) \<noteq> None) (queued_with_id d))"
proof -
  have "map fst (List.map_filter (\<lambda>(i, r). map_option (\<lambda>reason. (i, reason)) (eligibility d r)) xs) =
      map fst (filter (\<lambda>x. eligibility d (snd x) \<noteq> None) xs)" for xs
    by (induction xs) (auto simp: List.map_filter_simps)
  then show ?thesis by (simp add: build_queue_def Let_def)
qed

lemma eligible_iff:
  "c \<in> set (qe_eligible (build_queue d)) \<longleftrightarrow>
     (\<exists>i r. c = candidate_of d (i, r) \<and> r \<in> set (db_runs d) \<and> rr_id r = Some i \<and>
        rr_state r = Queued \<and> eligibility d r = None)"
proof -
  have "set (qe_eligible (build_queue d)) =
      set (map (candidate_of d) (filter (\<lambda>x. eligibility d (snd x) = None) (queued_with_id d)))"
    by (rule mset_eq_setD) (rule eligible_mset)
  then have "c \<in> set (qe_eligible (build_queue d)) \<longleftrightarrow>
      (\<exists>x \<in> set (queued_with_id d). eligibility d (snd x) = None \<and> c = candidate_of d x)"
    by auto
  then show ?thesis using queued_with_id_iff [of _ _ d] by (metis prod.collapse snd_conv)
qed

text \<open>Eligible and ineligible runs together are the queue, each run once.\<close>

lemma queue_split:
  "mset (map ca_run_id (qe_eligible (build_queue d))) + mset (map fst (qe_ineligible (build_queue d))) =
     mset (map fst (queued_with_id d))"
proof -
  have "mset (map ca_run_id (qe_eligible (build_queue d))) = image_mset ca_run_id (mset (qe_eligible (build_queue d)))"
    by simp
  also have "\<dots> = mset (map fst (filter (\<lambda>x. eligibility d (snd x) = None) (queued_with_id d)))"
    by (simp add: eligible_mset candidate_of_def image_mset.compositionality comp_def)
  finally show ?thesis
    unfolding ineligible_ids
    by (simp add: image_mset_union [symmetric] multiset_partition [symmetric] del: image_mset_union)
qed

section \<open>What an admission does\<close>

lemma write_session_rows_wf: "db_wf d \<Longrightarrow> db_wf (write_session_rows rows d)"
  by (auto simp: write_session_rows_def db_wf_def attempt_fks_def finding_fks_def elim!: null_or_mono)

lemma write_session_rows_frame [simp]:
  "db_runs (write_session_rows rows d) = db_runs d" "db_attempts (write_session_rows rows d) = db_attempts d"
  "legs (write_session_rows rows d) i = legs d i" "load_run (write_session_rows rows d) i = load_run d i"
  by (simp_all add: write_session_rows_def legs_def load_run_def)

lemma admit_row:
  "t \<in> set run_transitions \<Longrightarrow> rt_trigger t = Admit \<Longrightarrow>
     rt_from t = Queued \<and> rt_to t = run_state.Running \<and> rt_effects t = [OpenAttempt, LaunchSession] \<and>
     rt_guard t = SchedulerAdmission"
  by (auto simp: run_transitions_def cancellation_def)

lemma applied_admission:
  assumes wf: "db_wf d" and app: "apply_run d i Admit f = (d', Inr x)"
  obtains run where "run \<in> set (db_runs d)" "rr_id run = Some i" "rr_state run = Queued"
    "db_runs d' = sql_update (\<lambda>r. rr_id r = Some i) (\<lambda>r. r\<lparr>rr_state := run_state.Running\<rparr>) (db_runs d)"
    "\<And>j. j \<noteq> i \<Longrightarrow> legs d' j = legs d j"
proof (rule apply_run_cases [of d i Admit f])
  fix run t d1 and out :: transition_outcome and a b
  assume run: "load_run d i = Some run" and t: "t \<in> set run_transitions" "rt_from t = rr_state run" "rt_trigger t = Admit"
    and tx: "transition_tx (run_write d i run Admit t f) d = Inr (d1, out)"
    and res: "apply_run d i Admit f = (d1, Inr (Applied \<lparr>ap_from = rr_state run, ap_to = rt_to t,
         ap_effects = rt_effects t, ap_domain_event = rt_domain_event t,
         ap_state_changed_event_id = a, ap_domain_event_id = b,
         ap_opened_question_id = to_question_id out\<rparr>))"
  have d1: "d1 = d'" using res app by simp
  note row = admit_row [OF t(1,3)]
  have "run_moved t f = (\<lambda>r. r\<lparr>rr_state := run_state.Running\<rparr>)"
    using row by (simp add: run_moved_def fun_eq_iff)
  then have "db_runs d' = sql_update (\<lambda>r. rr_id r = Some i) (\<lambda>r. r\<lparr>rr_state := run_state.Running\<rparr>) (db_runs d)"
    using run_tx_tables(1) [OF wf run tx] d1 by simp
  moreover have "run \<in> set (db_runs d)" "rr_id run = Some i" using run load_run_iff [OF wf] by auto
  ultimately show thesis
    using that [of run] t(2) row moved_lives(3) [OF wf run tx] d1 by simp
qed (use app in simp_all)

definition count_running :: "db \<Rightarrow> (run_row \<Rightarrow> bool) \<Rightarrow> nat" where
  "count_running d p = sql_count (\<lambda>r. rr_state r = run_state.Running \<and> p r) (db_runs d)"

text \<open>Moving one row with a given id changes a count by that row only.\<close>

lemma count_one_moved:
  assumes ok: "tbl_ok rr_id rows" and r: "run \<in> set rows" "rr_id run = Some i"
  shows "sql_count q (sql_update (\<lambda>r. rr_id r = Some i) g rows) + (if q run then 1 else 0) =
    sql_count q rows + (if q (g run) then 1 else 0)"
proof -
  from r(1) obtain xs ys where rows: "rows = xs @ run # ys" by (auto dest: split_list)
  have "filter (\<lambda>r. rr_id r = Some i) rows = [run]" by (rule runs.filter_by_id [OF ok r])
  then have "\<forall>x \<in> set xs \<union> set ys. rr_id x \<noteq> Some i"
    using r(2) by (auto simp: rows filter_empty_conv append_eq_Cons_conv)
  then have "sql_update (\<lambda>r. rr_id r = Some i) g rows = xs @ g run # ys"
    using r(2) by (auto simp: rows sql_update_def intro!: map_idI)
  then show ?thesis by (simp add: rows sql_count_def)
qed


text \<open>How starting one candidate ends, and what it leaves of the database.\<close>

definition start_facts :: "candidate \<Rightarrow> db \<Rightarrow> db \<Rightarrow> queue_report \<Rightarrow> queue_report \<Rightarrow> bool" where
  "start_facts c d d' report report' \<longleftrightarrow>
     (\<exists>failure. report' = report\<lparr>qr_failures := qr_failures report @ [(ca_run_id c, failure)]\<rparr> \<and>
        db_runs d' = db_runs d \<and> (\<forall>j. legs d' j = legs d j)) \<or>
     (\<exists>a run. report' = report\<lparr>qr_admitted := qr_admitted report @ [a]\<rparr> \<and> ad_run_id a = ca_run_id c \<and>
        run \<in> set (db_runs d) \<and> rr_id run = Some (ca_run_id c) \<and> rr_state run = Queued \<and>
        db_runs d' = sql_update (\<lambda>r. rr_id r = Some (ca_run_id c)) (\<lambda>r. r\<lparr>rr_state := run_state.Running\<rparr>) (db_runs d) \<and>
        (\<forall>j. j \<noteq> ca_run_id c \<longrightarrow> legs d' j = legs d j))"

lemma admit_starts:
  assumes wf: "db_wf d" and res: "admit launch abandon load c (l, d, report) = (l', d', report')"
  shows "db_wf d' \<and> start_facts c d d' report report'"
proof -
  let ?pending = "\<lparr>pe_run_id = ca_run_id c, pe_run = ca_run c, pe_resumed = ca_resumed c\<rparr>"
  obtain l1 rows r where launched: "launch l ?pending = (l1, rows, r)" by (metis prod_cases3)
  let ?d1 = "write_session_rows rows d"
  have wf1: "db_wf ?d1" by (rule write_session_rows_wf [OF wf])
  show ?thesis
  proof (cases r)
    case (Inl e)
    then show ?thesis using res launched wf1 by (auto simp: admit_def start_facts_def)
  next
    case (Inr s)
    obtain d2 x where app: "apply_run ?d1 (ca_run_id c) Admit (admission_facts load c s) = (d2, x)"
      by (metis surj_pair)
    have wf2: "db_wf d2" using apply_run_wf [OF wf1, of "ca_run_id c" Admit "admission_facts load c s"] app by simp
    show ?thesis
    proof (cases x)
      case (Inl e)
      then have "d2 = ?d1" using app apply_run_rolled_back by metis
      then show ?thesis using res launched Inr app Inl wf1 by (auto simp: admit_def start_facts_def)
    next
      case applied: (Inr y)
      from wf1 app [unfolded applied] obtain run where run: "run \<in> set (db_runs d)" "rr_id run = Some (ca_run_id c)"
        "rr_state run = Queued"
        "db_runs d2 = sql_update (\<lambda>r. rr_id r = Some (ca_run_id c)) (\<lambda>r. r\<lparr>rr_state := run_state.Running\<rparr>) (db_runs d)"
        "\<And>j. j \<noteq> ca_run_id c \<Longrightarrow> legs d2 j = legs d j"
        by (rule applied_admission) simp
      have "report' = report\<lparr>qr_admitted := qr_admitted report @
          [\<lparr>ad_run_id = ca_run_id c, ad_session = la_session s, ad_resumed = ca_resumed c\<rparr>]\<rparr>" "d' = d2"
        using res launched Inr app applied by (simp_all add: admit_def)
      then show ?thesis using run wf2 unfolding start_facts_def
        by (intro conjI disjI2 exI [of _ run]
            exI [of _ "\<lparr>ad_run_id = ca_run_id c, ad_session = la_session s, ad_resumed = ca_resumed c\<rparr>"]) simp_all
    qed
  qed
qed

section \<open>The ceilings\<close>

text \<open>
  A ceiling is a level the slots keep, a limit on it, the providers whose admissions
  are charged to it, and the runs it counts. The three ceilings of the code are
  instances, and each bounds the database the tick leaves.
\<close>

definition candidates_match :: "db \<Rightarrow> candidate list \<Rightarrow> bool" where
  "candidates_match d cs \<longleftrightarrow> (\<forall>c \<in> set cs. \<forall>r \<in> set (db_runs d).
     rr_id r = Some (ca_run_id c) \<longrightarrow> rr_provider r = rr_provider (ca_run c))"

lemma candidates_match_start:
  "candidates_match d cs \<Longrightarrow> start_facts c d d' report report' \<Longrightarrow> candidates_match d' cs"
  unfolding candidates_match_def start_facts_def by (elim disjE exE conjE) (simp_all add: ball_sql_update)

locale admission_ceiling =
  fixes level limit :: "slots \<Rightarrow> nat"
    and charges :: "string \<Rightarrow> bool"
    and counts :: "run_row \<Rightarrow> bool"
  assumes limit_kept: "offer s provider = Inr s' \<Longrightarrow> limit s' = limit s"
    and charged: "offer s provider = Inr s' \<Longrightarrow> charges provider \<Longrightarrow> level s < limit s \<and> level s' = level s + 1"
    and uncharged: "offer s provider = Inr s' \<Longrightarrow> \<not> charges provider \<Longrightarrow> level s' = level s"
    and counts_moved: "rr_state r = Queued \<Longrightarrow> counts (r\<lparr>rr_state := run_state.Running\<rparr>) \<Longrightarrow>
      counts r \<or> charges (rr_provider r)"
begin

lemma start_bounded:
  assumes wf: "db_wf d" and start: "start_facts c d d' report report'" and match: "candidates_match d [c]"
  shows "sql_count counts (db_runs d') \<le> sql_count counts (db_runs d) + (if charges (rr_provider (ca_run c)) then 1 else 0)"
  using start unfolding start_facts_def
proof (elim disjE exE conjE)
  fix a run
  assume run: "run \<in> set (db_runs d)" "rr_id run = Some (ca_run_id c)" "rr_state run = Queued"
    and d': "db_runs d' = sql_update (\<lambda>r. rr_id r = Some (ca_run_id c))
      (\<lambda>r. r\<lparr>rr_state := run_state.Running\<rparr>) (db_runs d)"
  have ok: "tbl_ok rr_id (db_runs d)" using wf by (simp add: db_wf_def)
  have "rr_provider run = rr_provider (ca_run c)" using match run by (simp add: candidates_match_def)
  then show ?thesis
    using count_one_moved [OF ok run(1,2), of counts "\<lambda>r. r\<lparr>rr_state := run_state.Running\<rparr>"] counts_moved [OF run(3)]
    by (auto simp: d' split: if_splits)
qed simp

lemma bounded:
  assumes "offer_each launch abandon load s cs (l, d, report) = (l', d', report')"
    and "db_wf d" "candidates_match d cs" "sql_count counts (db_runs d) \<le> level s"
  shows "sql_count counts (db_runs d') \<le> max (level s) (limit s)"
  using assms
proof (induction cs arbitrary: s l d report)
  case (Cons c cs)
  show ?case
  proof (cases "offer s (rr_provider (ca_run c))")
    case (Inl deferral)
    then show ?thesis using Cons.IH [OF _ Cons.prems(2)] Cons.prems by (simp add: candidates_match_def)
  next
    case (Inr s')
    obtain l1 d1 report1 where a: "admit launch abandon load c (l, d, report) = (l1, d1, report1)"
      by (metis prod_cases3)
    note start = admit_starts [OF Cons.prems(2) a]
    have match1: "candidates_match d [c]" "candidates_match d cs"
      using Cons.prems(3) by (simp_all add: candidates_match_def)
    have level: "level s' = level s + (if charges (rr_provider (ca_run c)) then 1 else 0)"
      using charged [OF Inr] uncharged [OF Inr] by simp
    then have "sql_count counts (db_runs d1) \<le> level s'"
      using start_bounded [OF Cons.prems(2) start [THEN conjunct2] match1(1)] Cons.prems(4) by simp
    moreover have "candidates_match d1 cs"
      by (rule candidates_match_start [OF match1(2) start [THEN conjunct2]])
    ultimately have "sql_count counts (db_runs d') \<le> max (level s') (limit s')"
      using Cons.IH [of s' l1 d1 report1] Cons.prems(1) Inr a start by simp
    then show ?thesis using level limit_kept [OF Inr] charged [OF Inr] by (auto split: if_splits)
  qed
qed simp

end

lemma offer_cases:
  assumes "offer s provider = Inr s'"
  shows "st_running s < st_concurrency_limit s" "st_held_worktrees s < st_worktree_limit s"
    and "entry_or_default (st_per_provider s) provider < headroom_for s provider"
    and "s' = s\<lparr>st_running := st_running s + 1, st_held_worktrees := st_held_worktrees s + 1,
      st_per_provider := count_one provider (st_per_provider s)\<rparr>"
  using assms by (auto simp: offer_def Let_def split: if_splits)

interpretation concurrency: admission_ceiling st_running st_concurrency_limit "\<lambda>provider. True"
  "\<lambda>r. rr_state r = run_state.Running"
  by unfold_locales (auto dest: offer_cases(1) offer_cases(4))

interpretation worktrees: admission_ceiling st_held_worktrees st_worktree_limit "\<lambda>provider. True"
  "holds_worktree_in holding_states_outside_the_queue"
  by unfold_locales (auto dest: offer_cases(2) offer_cases(4))

interpretation headroom: admission_ceiling "\<lambda>s. entry_or_default (st_per_provider s) p" "\<lambda>s. headroom_for s p"
  "\<lambda>provider. provider = p" "\<lambda>r. rr_state r = run_state.Running \<and> rr_provider r = p" for p
  by unfold_locales
    (auto simp: headroom_for_def entry_or_default_def count_one_def dest: offer_cases(3) offer_cases(4))

text \<open>The slots a tick reads start at what the database holds.\<close>

lemma entry_or_default_empty [simp]: "entry_or_default Map.empty p = 0"
  by (simp add: entry_or_default_def)

lemma running_per_provider:
  "entry_or_default (fold (\<lambda>r. count_one (rr_provider r)) rows m) p =
     entry_or_default m p + length (filter (\<lambda>r. rr_provider r = p) rows)"
  by (induction rows arbitrary: m) (auto simp: entry_or_default_def count_one_def)

lemma read_slots_levels:
  "st_running (read_slots d limits load) = sql_count (\<lambda>r. rr_state r = run_state.Running) (db_runs d)"
  "st_held_worktrees (read_slots d limits load) =
     sql_count (holds_worktree_in holding_states_outside_the_queue) (db_runs d)"
  "entry_or_default (st_per_provider (read_slots d limits load)) p =
     sql_count (\<lambda>r. rr_state r = run_state.Running \<and> rr_provider r = p) (db_runs d)"
proof -
  show "st_running (read_slots d limits load) = sql_count (\<lambda>r. rr_state r = run_state.Running) (db_runs d)"
    by (simp add: read_slots_def Let_def runs_in_state_def sql_count_def)
  have "holding_states_outside_the_queue \<noteq> []"
    by (simp add: holding_states_outside_the_queue_def worktree_holding_run_states_def)
  then show "st_held_worktrees (read_slots d limits load) =
     sql_count (holds_worktree_in holding_states_outside_the_queue) (db_runs d)"
    by (simp add: read_slots_def Let_def held_worktrees_in_def)
  have "mset (filter (\<lambda>r. rr_provider r = p) (runs_in_state d run_state.Running)) =
      mset (filter (\<lambda>r. rr_state r = run_state.Running \<and> rr_provider r = p) (db_runs d))"
    by (simp only: runs_in_state_def sql_select_def mset_filter mset_sort filter_filter_mset conj_commute)
  then have "length (filter (\<lambda>r. rr_provider r = p) (runs_in_state d run_state.Running)) =
      length (filter (\<lambda>r. rr_state r = run_state.Running \<and> rr_provider r = p) (db_runs d))"
    by (rule mset_eq_length)
  then show "entry_or_default (st_per_provider (read_slots d limits load)) p =
     sql_count (\<lambda>r. rr_state r = run_state.Running \<and> rr_provider r = p) (db_runs d)"
    by (simp add: read_slots_def Let_def running_per_provider sql_count_def)
qed

lemma queue_candidates_match: assumes "db_wf d" shows "candidates_match d (qe_eligible (build_queue d))"
proof -
  have ok: "tbl_ok rr_id (db_runs d)" using assms by (simp add: db_wf_def)
  have "r' = r" if "r \<in> set (db_runs d)" "r' \<in> set (db_runs d)" "rr_id r = Some i" "rr_id r' = Some i" for r r' i
    by (rule runs.id_unique [OF ok]) (use that in simp_all)
  then show ?thesis
    by (fastforce simp: candidates_match_def eligible_iff candidate_of_def)
qed


section \<open>What one tick reports and leaves alone\<close>

definition reported_ids :: "queue_report \<Rightarrow> i64 multiset" where
  "reported_ids r = mset (map ad_run_id (qr_admitted r)) + mset (map fst (qr_deferred r)) +
     mset (map fst (qr_failures r))"

definition admitted_ids :: "queue_report \<Rightarrow> i64 set" where
  "admitted_ids r = ad_run_id ` set (qr_admitted r)"

definition untouched :: "i64 \<Rightarrow> db \<Rightarrow> db \<Rightarrow> bool" where
  "untouched i d d' \<longleftrightarrow> legs d' i = legs d i \<and>
     filter (\<lambda>r. rr_id r = Some i) (db_runs d') = filter (\<lambda>r. rr_id r = Some i) (db_runs d)"

lemma untouched_refl [simp]: "untouched i d d"
  by (simp add: untouched_def)

lemma untouched_trans: "untouched i a b \<Longrightarrow> untouched i b c \<Longrightarrow> untouched i a c"
  by (simp add: untouched_def)

lemma start_untouched:
  assumes "start_facts c d d' report report'" "i \<notin> admitted_ids report'" shows "untouched i d d'"
  using assms unfolding start_facts_def
proof (elim disjE exE conjE)
  fix a run
  assume rep: "report' = report\<lparr>qr_admitted := qr_admitted report @ [a]\<rparr>" "ad_run_id a = ca_run_id c"
    and runs: "db_runs d' = sql_update (\<lambda>r. rr_id r = Some (ca_run_id c))
      (\<lambda>r. r\<lparr>rr_state := run_state.Running\<rparr>) (db_runs d)"
    and legs: "\<forall>j. j \<noteq> ca_run_id c \<longrightarrow> legs d' j = legs d j"
  have i: "i \<noteq> ca_run_id c" using assms(2) rep by (auto simp: admitted_ids_def)
  have "filter (\<lambda>r. rr_id r = Some i) (sql_update (\<lambda>r. rr_id r = Some (ca_run_id c)) g rows) =
      filter (\<lambda>r. rr_id r = Some i) rows" if "\<And>r. rr_id (g r) = rr_id r" for g rows
    using i that by (induction rows) (auto simp: sql_update_def)
  from this [of "\<lambda>r. r\<lparr>rr_state := run_state.Running\<rparr>" "db_runs d"]
  show ?thesis using legs i by (simp add: untouched_def runs)
qed (simp add: untouched_def)

lemma start_report:
  assumes "start_facts c d d' report report'"
  shows "reported_ids report' = reported_ids report + {#ca_run_id c#}"
    and "admitted_ids report \<subseteq> admitted_ids report'"
    and "qr_depth report' = qr_depth report" "qr_running_before report' = qr_running_before report"
    and "qr_deferred report' = qr_deferred report"
  using assms unfolding start_facts_def
  by (elim disjE exE conjE; simp add: reported_ids_def admitted_ids_def subset_insertI)+

lemma offer_each_report:
  assumes "offer_each launch abandon load s cs (l, d, report) = (l', d', report')" "db_wf d"
  shows "db_wf d' \<and> reported_ids report' = reported_ids report + mset (map ca_run_id cs) \<and>
    admitted_ids report \<subseteq> admitted_ids report' \<and> qr_depth report' = qr_depth report \<and>
    qr_running_before report' = qr_running_before report \<and>
    (\<forall>i. i \<notin> admitted_ids report' \<longrightarrow> untouched i d d')"
  using assms
proof (induction cs arbitrary: s l d report)
  case (Cons c cs)
  show ?case
  proof (cases "offer s (rr_provider (ca_run c))")
    case (Inl deferral)
    then show ?thesis
      using Cons.IH [OF _ Cons.prems(2), of s l "report\<lparr>qr_deferred := qr_deferred report @ [(ca_run_id c, deferral)]\<rparr>"]
        Cons.prems by (simp add: reported_ids_def admitted_ids_def)
  next
    case (Inr s')
    obtain l1 d1 report1 where a: "admit launch abandon load c (l, d, report) = (l1, d1, report1)"
      by (metis prod_cases3)
    note start = admit_starts [OF Cons.prems(2) a]
    note rep = start_report [OF start [THEN conjunct2]]
    have IH: "db_wf d' \<and> reported_ids report' = reported_ids report1 + mset (map ca_run_id cs) \<and>
        admitted_ids report1 \<subseteq> admitted_ids report' \<and> qr_depth report' = qr_depth report1 \<and>
        qr_running_before report' = qr_running_before report1 \<and>
        (\<forall>i. i \<notin> admitted_ids report' \<longrightarrow> untouched i d1 d')"
      using Cons.IH [of s' l1 d1 report1] Cons.prems(1) Inr a start by simp
    moreover have "untouched i d d'" if "i \<notin> admitted_ids report'" for i
      using IH start_untouched [OF start [THEN conjunct2], of i] that untouched_trans by blast
    ultimately show ?thesis using rep by (simp add: ac_simps) blast
  qed
qed simp

lemma tick_unfold:
  "tick launch abandon limits load l d =
     offer_each launch abandon load (read_slots d limits load) (qe_eligible (build_queue d)) (l, d,
       \<lparr>qr_depth = depth (build_queue d), qr_running_before = st_running (read_slots d limits load), qr_admitted = [],
        qr_deferred = map (\<lambda>(i, reason). (i, IneligibleRun reason)) (qe_ineligible (build_queue d)), qr_failures = []\<rparr>)"
  by (simp add: tick_def Let_def)

lemma tick_report:
  assumes "tick launch abandon limits load l d = (l', d', report)" "db_wf d"
  shows "db_wf d'" and "reported_ids report = mset (map fst (queued_with_id d))"
    and "qr_depth report = length (queued_with_id d)"
    and "\<And>i. i \<notin> admitted_ids report \<Longrightarrow> untouched i d d'"
proof -
  note facts = offer_each_report [OF assms(1) [unfolded tick_unfold] assms(2)]
  have fst': "map fst (map (\<lambda>(i, reason). (i, IneligibleRun reason)) xs) = map fst xs" for xs
    by (simp add: case_prod_beta' comp_def)
  show "db_wf d'" using facts by simp
  show ids: "reported_ids report = mset (map fst (queued_with_id d))"
    using facts queue_split [of d]
    by (simp add: reported_ids_def fst' del: map_map mset_map) (simp add: ac_simps)
  have "size (mset (map ca_run_id (qe_eligible (build_queue d))) + mset (map fst (qe_ineligible (build_queue d)))) =
      length (queued_with_id d)"
    unfolding queue_split by simp
  then show "qr_depth report = length (queued_with_id d)" using facts by (simp add: depth_def)
  show "\<And>i. i \<notin> admitted_ids report \<Longrightarrow> untouched i d d'" using facts by simp
qed

section \<open>The launcher\<close>

text \<open>
  \<open>active\<close> is the set of sessions running and not asked to stop. A launch adds a new
  one or changes none; abandoning one removes it.
\<close>

locale run_launcher =
  fixes launch :: "'l launch"
    and abandon :: "'l \<Rightarrow> i64 \<Rightarrow> 'l"
    and active :: "'l \<Rightarrow> i64 set"
    and ok :: "'l \<Rightarrow> bool"
  assumes launched: "ok l \<Longrightarrow> launch l p = (l', rows, Inr s) \<Longrightarrow>
      ok l' \<and> la_session s \<notin> active l \<and> active l' = insert (la_session s) (active l)"
    and refused: "ok l \<Longrightarrow> launch l p = (l', rows, Inl e) \<Longrightarrow> ok l' \<and> active l' = active l"
    and abandoned: "ok l \<Longrightarrow> ok (abandon l i) \<and> active (abandon l i) = active l - {i}"
begin

lemma admit_sessions:
  assumes "admit launch abandon load c (l, d, report) = (l', d', report')" "ok l"
  shows "ok l' \<and> (\<exists>new. qr_admitted report' = qr_admitted report @ new \<and>
    active l' = active l \<union> ad_session ` set new \<and> (ad_session ` set new) \<inter> active l = {} \<and> distinct (map ad_session new))"
proof -
  let ?pending = "\<lparr>pe_run_id = ca_run_id c, pe_run = ca_run c, pe_resumed = ca_resumed c\<rparr>"
  obtain l1 rows r where launch: "launch l ?pending = (l1, rows, r)" by (metis prod_cases3)
  show ?thesis
  proof (cases r)
    case (Inl e)
    then show ?thesis using refused [OF assms(2)] launch assms(1) by (auto simp: admit_def)
  next
    case (Inr s)
    note law = launched [OF assms(2) launch [unfolded Inr]]
    obtain d2 x where app: "apply_run (write_session_rows rows d) (ca_run_id c) Admit (admission_facts load c s) = (d2, x)"
      by (metis surj_pair)
    show ?thesis
    proof (cases x)
      case (Inl e)
      then show ?thesis using law abandoned [of l1 "la_session s"] launch Inr app assms(1) by (auto simp: admit_def)
    next
      case applied: (Inr y)
      then have "l' = l1" "qr_admitted report' = qr_admitted report @
          [\<lparr>ad_run_id = ca_run_id c, ad_session = la_session s, ad_resumed = ca_resumed c\<rparr>]"
        using launch Inr app assms(1) by (auto simp: admit_def)
      then show ?thesis using law by simp
    qed
  qed
qed

lemma sessions_accounted:
  assumes "offer_each launch abandon load s cs (l, d, report) = (l', d', report')" "ok l"
  shows "ok l' \<and> (\<exists>new. qr_admitted report' = qr_admitted report @ new \<and>
    active l' = active l \<union> ad_session ` set new \<and> (ad_session ` set new) \<inter> active l = {} \<and> distinct (map ad_session new))"
  using assms
proof (induction cs arbitrary: s l d report)
  case (Cons c cs)
  show ?case
  proof (cases "offer s (rr_provider (ca_run c))")
    case (Inl deferral)
    then show ?thesis
      using Cons.IH [of s l d "report\<lparr>qr_deferred := qr_deferred report @ [(ca_run_id c, deferral)]\<rparr>"] Cons.prems by simp
  next
    case (Inr s')
    obtain l1 d1 report1 where a: "admit launch abandon load c (l, d, report) = (l1, d1, report1)"
      by (metis prod_cases3)
    obtain new1 where new1: "ok l1" "qr_admitted report1 = qr_admitted report @ new1"
      "active l1 = active l \<union> ad_session ` set new1" "(ad_session ` set new1) \<inter> active l = {}"
      "distinct (map ad_session new1)"
      using admit_sessions [OF a Cons.prems(2)] by blast
    obtain new2 where new2: "ok l'" "qr_admitted report' = qr_admitted report1 @ new2"
      "active l' = active l1 \<union> ad_session ` set new2" "(ad_session ` set new2) \<inter> active l1 = {}"
      "distinct (map ad_session new2)"
      using Cons.IH [of s' l1 d1 report1] Cons.prems(1) Inr a new1(1) by auto
    show ?thesis
      by (intro conjI exI [of _ "new1 @ new2"]) (use new1 new2 in auto)
  qed
qed simp

end

record run_session =
  rn_admission :: session_admission
  rn_session_attempt_id :: "i64 option"

fun describe :: "session_registry_error \<Rightarrow> string" where
  "describe AlreadyLive = ''a session with this id is already live''"
| "describe AtCapacity = ''the daemon holds as many sessions as it admits''"
| "describe session_registry_error.Unknown = ''no such session''"
| "describe Terminal = ''the session already ended''"

text \<open>The factory \<open>session_for\<close> is the caller's; it may write session rows before it answers.\<close>

definition supervisor_launch ::
  "(pending_run \<Rightarrow> session_rows \<times> (string + run_session)) \<Rightarrow> session_registry launch" where
  "supervisor_launch session_for r p =
     (case session_for p of
        (rows, Inl e) \<Rightarrow> (r, rows, Inl e)
      | (rows, Inr session) \<Rightarrow>
          (case supervisor_start r (rn_admission session) of
             (r', Inl e) \<Rightarrow> (r', rows, Inl (describe e))
           | (r', Inr i) \<Rightarrow>
               (r', rows, Inr \<lparr>la_session = i, la_session_attempt_id = rn_session_attempt_id session\<rparr>)))"

definition supervisor_abandon :: "session_registry \<Rightarrow> i64 \<Rightarrow> session_registry" where
  "supervisor_abandon r i = fst (registry_cancel r i)"

definition active_sessions :: "session_registry \<Rightarrow> i64 set" where
  "active_sessions r = {i. \<exists>s. map_of (sr_sessions r) i = Some s \<and> rs_state s = session_state.Running}"

lemma active_is_live: "active_sessions r \<subseteq> live_ids r"
  by (auto simp: active_sessions_def live_ids_def is_live_def)

lemma prune_active: assumes "registry_ok r" shows "active_sessions (fst (prune_finished r)) = active_sessions r"
proof -
  have "i \<notin> set (snd (prune_finished r))" if "map_of (sr_sessions r) i = Some s" "rs_state s = session_state.Running" for i s
    using pruned_was_finished [OF assms, of i] registered_ok [OF assms that(1)] that
    by (auto simp: session_ok_def is_live_def)
  then show ?thesis unfolding active_sessions_def by (auto simp: prune_fst map_of_fold_remove)
qed

lemma supervisor_start_cases:
  assumes "registry_ok r"
  obtains (refused) e where "supervisor_start r a = (r, Inl e)"
  | (started) r' where "supervisor_start r a = (r', Inr (sa_session a))" "registry_ok r'"
      "sa_session a \<notin> active_sessions r" "active_sessions r' = insert (sa_session a) (active_sessions r)"
proof (rule admit_cases [of r a])
  fix e assume "registry_admit r a = (r, Inl e)"
  then show ?thesis using refused by (simp add: supervisor_start_def)
next
  fix r1 assume res: "registry_admit r a = (r1, Inr (sa_session a))" and new: "sa_session a \<notin> live_ids r"
    and r1: "r1 = r\<lparr>sr_sessions := btree_insert (sa_session a)
         \<lparr>rs_model = sa_model a, rs_budget = sa_budget a, rs_cancelled = False,
          rs_state = session_state.Running, rs_finished_at = None\<rparr> (sr_sessions r)\<rparr>"
  have ok1: "registry_ok r1" using admit_ok [OF assms, of a] by (simp add: res)
  have "active_sessions r1 = insert (sa_session a) (active_sessions r)"
    using registry_btree [OF assms] by (auto simp: active_sessions_def r1)
  then show ?thesis
    using started [of "fst (prune_finished r1)"] res prune_ok [OF ok1] prune_active [OF ok1] new active_is_live
    by (auto simp: supervisor_start_def)
qed

interpretation supervisor: run_launcher "supervisor_launch session_for" supervisor_abandon active_sessions registry_ok
  for session_for
proof unfold_locales
  fix l p l' rows s
  assume ok: "registry_ok l" and res: "supervisor_launch session_for l p = (l', rows, Inr s)"
  then obtain session where s: "session_for p = (rows, Inr session)"
      "supervisor_start l (rn_admission session) = (l', Inr (la_session s))"
    by (auto simp: supervisor_launch_def split: prod.splits sum.splits)
  show "registry_ok l' \<and> la_session s \<notin> active_sessions l \<and> active_sessions l' = insert (la_session s) (active_sessions l)"
    by (rule supervisor_start_cases [OF ok, of "rn_admission session"]) (use s(2) in auto)
next
  fix l p l' rows e
  assume ok: "registry_ok l" and res: "supervisor_launch session_for l p = (l', rows, Inl e)"
  show "registry_ok l' \<and> active_sessions l' = active_sessions l"
  proof (cases "snd (session_for p)")
    case (Inl x)
    then show ?thesis using ok res by (auto simp: supervisor_launch_def split: prod.splits)
  next
    case (Inr session)
    show ?thesis
      by (rule supervisor_start_cases [OF ok, of "rn_admission session"])
        (use ok res Inr in \<open>auto simp: supervisor_launch_def split: prod.splits\<close>)
  qed
next
  fix l i assume ok: "registry_ok l"
  have "active_sessions (supervisor_abandon l i) = active_sessions l - {i}"
    using registry_btree [OF ok]
    by (auto simp: supervisor_abandon_def registry_cancel_def active_sessions_def is_live_def split: option.splits)
  then show "registry_ok (supervisor_abandon l i) \<and> active_sessions (supervisor_abandon l i) = active_sessions l - {i}"
    using cancel_ok [OF ok, of i] by (simp add: supervisor_abandon_def)
qed


section \<open>The head of the queue\<close>

lemma offer_within:
  assumes "st_running s < st_concurrency_limit s" "st_held_worktrees s < st_worktree_limit s"
    and "entry_or_default (st_per_provider s) p < headroom_for s p"
  shows "\<exists>s'. offer s p = Inr s'"
  using assms by (simp add: offer_def Let_def)

lemma admitted_stays:
  assumes "offer_each launch abandon load s cs (l, d, report) = (l', d', report')" "db_wf d" "i \<in> admitted_ids report"
  shows "i \<in> admitted_ids report'"
  using offer_each_report [OF assms(1,2)] assms(3) by blast

lemma eligible_admission_applies:
  assumes wf: "db_wf d" and c: "c \<in> set (qe_eligible (build_queue d))"
    and launch: "la_session s \<in> set (db_sessions d1)"
      "null_or (\<lambda>a. a \<in> set (db_session_attempts d1)) (la_session_attempt_id s)"
    and d1: "d1 = write_session_rows rows d"
  shows "\<exists>d' x. apply_run d1 (ca_run_id c) Admit (admission_facts load c s) = (d', Inr x)"
proof -
  from c obtain i r where r: "c = candidate_of d (i, r)" "r \<in> set (db_runs d)" "rr_id r = Some i" "rr_state r = Queued"
    "eligibility d r = None"
    by (auto simp: eligible_iff)
  have wf1: "db_wf d1" unfolding d1 by (rule write_session_rows_wf [OF wf])
  have active: "rr_worktree_status r = Some Active" using r(5) by (auto simp: eligibility_def split: if_splits)
  have run: "load_run d1 i = Some r" using r(2,3) by (simp add: load_run_iff [OF wf1]) (simp add: d1)
  obtain t where t: "find_run_transition Queued Admit = Some t" "t \<in> set run_transitions" "rt_from t = Queued"
      "rt_trigger t = Admit"
    by (auto simp: find_run_transition_def run_transitions_def cancellation_def)
  let ?f = "admission_facts load c s"
  note row = admit_row [OF t(2,4)]
  have guard: "check_run_guard d1 t i (rr_provider r) (rr_worktree_status r) ?f = Inr ()"
    using row active by (simp add: check_run_guard_def check_admission_def admission_facts_def r(1) candidate_of_def)
  have refs: "references_ok d1 t ?f"
    using launch row by (simp add: references_ok_def admission_facts_def)
  obtain d' out where tx: "transition_tx (run_write d1 i r Admit t ?f) d1 = Inr (d', out)"
    using run_write_succeeds [OF wf1 run t(2) _ guard refs, of Admit] t(3) r(4) by fastforce
  have "apply_run d1 i Admit ?f = settle_write d1 (run_write d1 i r Admit t ?f) (rr_state r) (rt_to t) (rt_effects t)
      (rt_domain_event t)"
    using run t(1) guard r(4) by (simp add: apply_run_def machines_load_run_def)
  moreover have "apply_transition d1 (run_write d1 i r Admit t ?f) = (d', Inr out)"
    using tx by (simp add: apply_transition_def)
  moreover from this obtain a b where "event_pair (to_event_ids out) = Inr (a, b)"
    using store.event_pair_of_two [of d1 "run_write d1 i r Admit t ?f" d' out] by (auto simp: run_write_def)
  ultimately show ?thesis by (auto simp: settle_write_def r(1) candidate_of_def)
qed

text \<open>The limits a tick reads.\<close>

lemma read_slots_limits:
  "st_concurrency_limit (read_slots d limits load) = sl_max_concurrent limits"
  "st_worktree_limit (read_slots d limits load) = sl_available_worktrees limits"
  "headroom_for (read_slots d limits load) p = capacity_for limits p - entry_or_default (ld_subagents load) p"
  by (simp_all add: read_slots_def Let_def headroom_for_def)

lemma held_outside_queue:
  "held_worktrees_in d holding_states_outside_the_queue =
     sql_count (holds_worktree_in holding_states_outside_the_queue) (db_runs d)"
  by (simp add: held_worktrees_in_def holding_states_outside_the_queue_def worktree_holding_run_states_def)

end
