(* ===== verification/Scenario.thy ===== *)
theory Scenario
  imports Scheduler
begin

text \<open>
  Concrete databases on which the properties of the development are exercised: runs
  opened, approved, admitted and finished, a question asked and answered, a merge
  authorized and settled, all by the operations of the model itself.
\<close>

definition demo_run :: "i64 \<Rightarrow> i64 option \<Rightarrow> run_row" where
  "demo_run priority dep =
     \<lparr>rr_id = None, rr_repo_id = ''repo'', rr_repo_root = ''/repo'', rr_remote_url = None,
      rr_external_ref = None, rr_parent_run_id = None, rr_task = ''task'', rr_scope = ''scope'',
      rr_dod = ''done'', rr_genesis_paths = None, rr_state = Draft, rr_priority = priority,
      rr_dep_run_id = dep, rr_provider = ''p'', rr_budget_tokens = None,
      rr_worktree_path = Some ''/wt'', rr_worktree_status = Some Active, rr_created_at = 5,
      rr_result = None\<rparr>"

definition by_user :: run_facts where
  "by_user = default_run_facts\<lparr>rf_now := 6, rf_principal := principal.User\<rparr>"

definition ready :: run_facts where
  "ready = default_run_facts\<lparr>rf_now := 10, rf_slot_available := True, rf_provider_serving := True,
     rf_worktree_ready := True\<rparr>"

definition finished :: run_facts where
  "finished = default_run_facts\<lparr>rf_now := 20, rf_result := Some ''ok''\<rparr>"

definition demo_question :: "question_kind \<Rightarrow> question_row" where
  "demo_question kind =
     \<lparr>qu_id = None, qu_run_id = 1, qu_kind = kind, qu_blocked_decision = ''merge'',
      qu_options = JText (JArray []), qu_recommendation = None, qu_answer = None, qu_author = None,
      qu_expires_at = Some 100,
      qu_tree_hash = (if kind = Approval then Some ''tree'' else None),
      qu_paths_digest = (if kind = Approval then Some ''digest'' else None),
      qu_state = Open, qu_created_at = 20\<rparr>"

definition said_yes :: question_facts where
  "said_yes = \<lparr>qf_now = 30, qf_answer = Some ''yes'', qf_author = Some question_author.User,
     qf_merge_already_landed = False\<rparr>"

definition entry :: "string \<Rightarrow> event_row" where
  "entry name = \<lparr>ev_id = None, ev_run_id = Some 1, ev_type = name, ev_class = Infra,
     ev_payload = JText (JObject []), ev_ts = 40\<rparr>"

definition landed_merge :: merge_settlement where
  "landed_merge = \<lparr>ms_run_id = 1, ms_approval_id = 1, ms_now = 40, ms_verdict = entry ''gate_result'',
     ms_merged = entry ''merged'', ms_worktree_clean = True, ms_landed = False\<rparr>"

text \<open>Two runs approved, the second of higher priority.\<close>

definition queued_ops :: "cp_op list" where
  "queued_ops = [OpenRun (demo_run 0 None), MoveRun 1 Approve by_user,
     OpenRun (demo_run 5 None), MoveRun 2 Approve by_user]"

definition queued_db :: db where
  "queued_db = perform_all queued_ops empty_db"

definition working_ops :: "cp_op list" where
  "working_ops = [MoveRun 1 Admit ready]"

definition working_db :: db where
  "working_db = perform_all working_ops queued_db"

definition merging_ops :: "cp_op list" where
  "merging_ops = [MoveRun 1 Finished finished, OpenAsk (demo_question Approval) [],
     MoveQuestion 1 Answer said_yes]"

definition merging_db :: db where
  "merging_db = perform_all merging_ops working_db"

definition merged_db :: db where
  "merged_db = perform (SettleMerge landed_merge) merging_db"

definition park_facts :: run_facts where
  "park_facts = default_run_facts\<lparr>rf_now := 15, rf_opened_question := Some (demo_question Question)\<rparr>"

definition parked_db :: db where
  "parked_db = perform (MoveRun 1 Ask park_facts) working_db"

text \<open>A run whose dependency has been merged and whose directory has been reclaimed.\<close>

definition reclaimed_ops :: "cp_op list" where
  "reclaimed_ops = [SettleMerge landed_merge,
     MoveWorktree 1 Reclaim \<lparr>wf_now = 50, wf_merge_re_derived = False, wf_worktree_clean = True,
       wf_manual_disposition_confirmed = False\<rparr>,
     OpenRun (demo_run 0 (Some 1)), MoveRun 3 Approve by_user]"

definition reclaimed_db :: db where
  "reclaimed_db = perform_all reclaimed_ops merging_db"

lemma demo_admissible:
  "list_all admissible queued_ops" "list_all admissible working_ops" "list_all admissible merging_ops"
  "admissible (MoveRun 1 Ask park_facts)" "list_all admissible reclaimed_ops"
  by code_simp+

lemma demo_reachable:
  "reachable queued_db" "reachable working_db" "reachable merging_db" "reachable parked_db" "reachable merged_db"
  "reachable reclaimed_db"
proof -
  show 1: "reachable queued_db"
    unfolding queued_db_def by (rule reachable_perform_all [OF reachable.start demo_admissible(1)])
  show 2: "reachable working_db"
    unfolding working_db_def by (rule reachable_perform_all [OF 1 demo_admissible(2)])
  show 3: "reachable merging_db"
    unfolding merging_db_def by (rule reachable_perform_all [OF 2 demo_admissible(3)])
  show "reachable parked_db"
    unfolding parked_db_def by (rule reachable.step [OF 2 demo_admissible(4)])
  show "reachable merged_db"
    unfolding merged_db_def by (rule reachable.step [OF 3]) (simp add: admissible_def)
  show "reachable reclaimed_db"
    unfolding reclaimed_db_def by (rule reachable_perform_all [OF 3 demo_admissible(5)])
qed

text \<open>What these databases hold.\<close>

lemma queued_states: "map rr_state (db_runs queued_db) = [Queued, Queued]"
  by code_simp

lemma working_states: "map rr_state (db_runs working_db) = [run_state.Running, Queued]"
  by code_simp

lemma merging_states: "map rr_state (db_runs merging_db) = [Done, Queued]"
  by code_simp

lemma merging_question: "map qu_state (db_questions merging_db) = [question_state.Answered]"
  by code_simp

lemma parked_states: "map rr_state (db_runs parked_db) = [AwaitingInput, Queued]"
  by code_simp

lemma merged_question: "map qu_state (db_questions merged_db) = [Delivered]"
  by code_simp

lemma merged_worktrees: "map rr_worktree_status (db_runs merged_db) = [Some Reclaimable, Some Active]"
  by code_simp

lemma reclaimed_worktrees: "map rr_worktree_status (db_runs reclaimed_db) = [Some Cleaned, Some Active, Some Active]"
  by code_simp

lemma reclaimed_states: "map rr_state (db_runs reclaimed_db) = [Done, Queued, Queued]"
  by code_simp


lemma first_of_states: "map f xs = y # ys \<Longrightarrow> hd xs \<in> set xs \<and> f (hd xs) = y"
  by (cases xs) auto

lemmas working_run = first_of_states [OF working_states]
lemmas merging_run = first_of_states [OF merging_states]
lemmas parked_run = first_of_states [OF parked_states]
lemmas merged_approval = first_of_states [OF merged_question]


lemma queued_first: "\<exists>run. load_run queued_db 1 = Some run \<and> rr_state run = Queued"
proof -
  have "map_option rr_state (load_run queued_db 1) = Some Queued" by code_simp
  then show ?thesis by auto
qed

text \<open>Admitting the first queued run goes through.\<close>

definition is_applied :: "('e + ('s, 'f) transition_result) \<Rightarrow> bool" where
  "is_applied r = (case r of Inr (Applied ap) \<Rightarrow> True | _ \<Rightarrow> False)"

lemma is_applied_iff: "is_applied r \<longleftrightarrow> (\<exists>ap. r = Inr (Applied ap))"
  by (auto simp: is_applied_def split: sum.splits transition_result.splits)

lemma admit_first: "\<exists>d' ap. apply_run queued_db 1 Admit ready = (d', Inr (Applied ap))"
proof -
  have "is_applied (snd (apply_run queued_db 1 Admit ready))" by code_simp
  then show ?thesis unfolding is_applied_iff by (metis prod.collapse)
qed


definition is_inr :: "'e + 'a \<Rightarrow> bool" where
  "is_inr r = (case r of Inl e \<Rightarrow> False | Inr a \<Rightarrow> True)"

lemma is_inrD: "is_inr (snd p) \<Longrightarrow> \<exists>d x. p = (d, Inr x)"
  by (cases p) (auto simp: is_inr_def split: sum.splits)

definition try_again :: "i64 \<Rightarrow> run_facts" where
  "try_again budget = default_run_facts\<lparr>rf_guidance := Some ''again'', rf_retry_budget := budget\<rparr>"

lemma merge_settles: "\<exists>d' m. settle_merge merging_db landed_merge = (d', Inr m)"
  by (rule is_inrD) code_simp

lemma retry_granted: "\<exists>d' x. apply_run merging_db 1 Retry (try_again 2) = (d', Inr x)"
  by (rule is_inrD) code_simp

lemma cancel_accepted: "\<exists>d' x. apply_run working_db 1 Cancel ready = (d', Inr x)"
  by (rule is_inrD) code_simp


section \<open>A scheduler over the session registry\<close>

text \<open>Room for one run at a time; each launch opens the session numbered after the run.\<close>

definition one_slot :: scheduler_limits where
  "one_slot = \<lparr>sl_max_concurrent = 1, sl_available_worktrees = 4, sl_provider_capacity = Map.empty,
     sl_default_provider_capacity = 2\<rparr>"

definition demo_load :: scheduler_load where
  "demo_load = \<lparr>ld_now = 10, ld_subagents = Map.empty\<rparr>"

definition demo_session_for :: "pending_run \<Rightarrow> session_rows \<times> (string + run_session)" where
  "demo_session_for p =
     (([pe_run_id p + 100], []),
      Inr \<lparr>rn_admission = \<lparr>sa_session = pe_run_id p + 100, sa_model = ''m'', sa_budget = unlimited\<rparr>,
           rn_session_attempt_id = None\<rparr>)"

definition demo_registry :: session_registry where
  "demo_registry = new_registry default_session_limits"

definition demo_tick :: "session_registry \<times> db \<times> queue_report" where
  "demo_tick = tick (supervisor_launch demo_session_for) supervisor_abandon one_slot demo_load demo_registry queued_db"

lemma demo_tick_report:
  "map ad_run_id (qr_admitted (snd (snd demo_tick))) = [2]"
  by code_simp

lemma demo_tick_deferred:
  "qr_deferred (snd (snd demo_tick)) = [(1, MaxConcurrent 1 1)]"
  by code_simp

lemma demo_registry_ok: "registry_ok demo_registry"
  unfolding demo_registry_def by (rule new_registry_ok)


lemma demo_head:
  "\<exists>c cs. qe_eligible (build_queue queued_db) = c # cs \<and> ca_run_id c = 2 \<and> rr_provider (ca_run c) = ''p''"
proof -
  have "map (\<lambda>c. (ca_run_id c, rr_provider (ca_run c))) (qe_eligible (build_queue queued_db)) = [(2, ''p''), (1, ''p'')]"
    by code_simp
  then show ?thesis by auto
qed

lemma reclaimed_rows:
  "\<exists>r x. r \<in> set (db_runs reclaimed_db) \<and> rr_state r = Queued \<and> rr_dep_run_id r = Some 1 \<and>
     load_run reclaimed_db 1 = Some x \<and> rr_worktree_status x = Some Cleaned"
proof -
  have "list_ex (\<lambda>r. rr_state r = Queued \<and> rr_dep_run_id r = Some 1) (db_runs reclaimed_db)" by code_simp
  moreover have "map_option rr_worktree_status (load_run reclaimed_db 1) = Some (Some Cleaned)" by code_simp
  ultimately show ?thesis by (auto simp: list_ex_iff)
qed

definition two_sessions :: session_registry where
  "two_sessions = fold registry_perform
     [AdmitSession \<lparr>sa_session = 1, sa_model = ''a'', sa_budget = unlimited\<rparr>,
      AdmitSession \<lparr>sa_session = 2, sa_model = ''b'', sa_budget = with_max_turns 3\<rparr>] demo_registry"

lemma two_sessions_ok: "registry_ok two_sessions"
  unfolding two_sessions_def by (simp add: demo_registry_ok admit_ok)

lemma two_sessions_first: "\<exists>s. map_of (sr_sessions two_sessions) 1 = Some s"
proof -
  have "map_of (sr_sessions two_sessions) 1 \<noteq> None" by code_simp
  then show ?thesis by auto
qed


text \<open>Two sessions ended, the second first, and room to retain one.\<close>

definition ended_sessions :: session_registry where
  "ended_sessions = fold registry_perform
     [AdmitSession \<lparr>sa_session = 1, sa_model = ''a'', sa_budget = unlimited\<rparr>,
      AdmitSession \<lparr>sa_session = 2, sa_model = ''b'', sa_budget = unlimited\<rparr>,
      EndSession 2 Completed, EndSession 1 session_outcome.Failed]
     (new_registry \<lparr>li_max_live_sessions = 3, li_retained_finished_sessions = 1\<rparr>)"

lemma ended_sessions_ok: "registry_ok ended_sessions"
  unfolding ended_sessions_def by (simp add: new_registry_ok admit_ok finish_fst record_end_ok)

lemma ended_sessions_pruned: "snd (prune_finished ended_sessions) = [2]"
  by (simp add: ended_sessions_def new_registry_def registry_admit_def registry_finish_def record_end_def Let_def
    unlimited_def live_count_def is_live_def u64_max_def prune_finished_def finished_in_order_def map_filter_def)

end
