(* ===== verification/Json_Text.thy ===== *)
theory Json_Text
  imports Prelude
begin

text \<open>
  Reading back what was written as JSON: the accessors of \<open>serde_json::Value\<close> the code
  uses beside \<open>get\<close>, \<open>as_str\<close> and \<open>as_i64\<close>, and the decimal rendering of an integer.
\<close>

section \<open>Accessors\<close>

fun as_bool :: "json \<Rightarrow> bool option" where
  "as_bool (JBool b) = Some b"
| "as_bool v = None"

fun as_array :: "json \<Rightarrow> json list option" where
  "as_array (JArray vs) = Some vs"
| "as_array v = None"

definition get_str :: "json \<Rightarrow> string \<Rightarrow> string option" where
  "get_str v k = Option.bind (json_get v k) as_str"

definition get_i64 :: "json \<Rightarrow> string \<Rightarrow> i64 option" where
  "get_i64 v k = Option.bind (json_get v k) as_i64"

definition get_bool :: "json \<Rightarrow> string \<Rightarrow> bool option" where
  "get_bool v k = Option.bind (json_get v k) as_bool"

lemma try_i64_fits [simp]: "fits_i64 n \<Longrightarrow> try_i64 n = Some n"
  by (simp add: try_i64_def)

lemma get_obj [simp]:
  "get_str (JObject fs) k = Option.bind (map_of fs k) as_str"
  "get_i64 (JObject fs) k = Option.bind (map_of fs k) as_i64"
  "get_bool (JObject fs) k = Option.bind (map_of fs k) as_bool"
  by (simp_all add: get_str_def get_i64_def get_bool_def)

text \<open>Merging an object into another, as \<open>insert\<close> in a loop does.\<close>

lemma map_of_insert_fields_distinct:
  "distinct (map fst detail) \<Longrightarrow> map_of (insert_fields detail fields) = map_of fields ++ map_of detail"
proof -
  assume d: "distinct (map fst detail)"
  have "map_of (fold (\<lambda>(k, v). insert_field k v) detail fields) = map_of fields ++ map_of detail"
    using d
  proof (induction detail arbitrary: fields)
    case (Cons x detail)
    obtain k v where x: "x = (k, v)" by (cases x)
    have "k \<notin> dom (map_of detail)" using Cons.prems by (simp add: x dom_map_of_conv_image_fst)
    then show ?case using Cons by (auto simp: x fun_eq_iff map_add_def split: option.splits)
  qed simp
  then show ?thesis by (simp add: insert_fields_def)
qed

section \<open>Decimal rendering\<close>

fun show_nat :: "nat \<Rightarrow> string" where
  "show_nat n = (if n < 10 then [char_of (48 + n)] else show_nat (n div 10) @ [char_of (48 + n mod 10)])"

declare show_nat.simps [simp del]

definition show_i64 :: "i64 \<Rightarrow> string" where
  "show_i64 n = (if n < 0 then CHR ''-'' # show_nat (nat (- n)) else show_nat (nat n))"

lemma length_show_nat: "n < 10 ^ k \<Longrightarrow> 1 \<le> k \<Longrightarrow> length (show_nat n) \<le> k"
proof (induction n arbitrary: k rule: show_nat.induct)
  case (1 n)
  show ?case
  proof (cases "n < 10")
    case True
    then show ?thesis using 1 by (subst show_nat.simps) simp
  next
    case False
    then obtain j where k: "k = Suc j" "1 \<le> j" using 1 by (cases k; cases "k - 1") auto
    have "n div 10 < 10 ^ j" using "1.prems" k by (simp add: less_mult_imp_div_less)
    then have "length (show_nat (n div 10)) \<le> j" using "1.IH" [OF False] k by blast
    then show ?thesis using False k by (subst show_nat.simps) simp
  qed
qed

end
