(* ===== verification/Health.thy ===== *)
theory Health
  imports Schema Json_Text Fact_Path
begin

text \<open>
  The derivation of a run's health (crates/agens-server/src/ingest/health.rs, with the
  detectors of detectors.rs and the claims of checkpoint.rs, and the typed facts tools
  report, crates/agens-core/src/lib.rs): what a reported fact reduces to, the state that
  folding the facts of a run builds, and the journal entries each one is recorded as.
\<close>

section \<open>What a tool reports\<close>

datatype tool_outcome = Succeeded | Failed | Denied

record write_magnitude =
  wm_is_new_file :: bool
  wm_bytes_written :: nat
  wm_lines_written :: nat

record edit_magnitude =
  em_lines_added :: nat
  em_lines_removed :: nat

datatype tool_result_facts =
    WriteFacts fact_path tool_outcome "write_magnitude option"
  | EditFacts fact_path tool_outcome "edit_magnitude option"
  | BashFacts tool_outcome "i64 option"
  | ReadFacts fact_path tool_outcome
  | SearchFacts tool_outcome nat bool

record reported_checkpoint =
  rk_evidence_class :: evidence_class
  rk_claims_progress :: bool

definition credits_progress :: "reported_checkpoint \<Rightarrow> bool" where
  "credits_progress c \<longleftrightarrow> rk_claims_progress c \<and> rk_evidence_class c = Deterministic"

section \<open>Observations\<close>

datatype observation =
    Mutation string
  | UnrepresentableMutation
  | InertTool
  | CommandExit i64
  | TurnStarted
  | TurnEnded i64
  | ContextExhausted
  | QuotaReached
  | Checkpoint evidence_class bool
  | CheckpointExpired
  | GenesisPathsFrozen "string list"

definition mutation :: "fact_path \<Rightarrow> observation" where
  "mutation path = (case path of None \<Rightarrow> UnrepresentableMutation | Some value \<Rightarrow> Mutation value)"

fun from_tool_result :: "tool_result_facts \<Rightarrow> observation" where
  "from_tool_result (WriteFacts path Succeeded (Some w)) = mutation path"
| "from_tool_result (EditFacts path Succeeded (Some m)) =
     (if 0 < em_lines_added m + em_lines_removed m then mutation path else InertTool)"
| "from_tool_result (BashFacts oc (Some code)) = CommandExit code"
| "from_tool_result facts = InertTool"

fun observation_event_type :: "observation \<Rightarrow> string" where
  "observation_event_type (Mutation path) = ''tool_result_fact''"
| "observation_event_type UnrepresentableMutation = ''tool_result_fact''"
| "observation_event_type InertTool = ''tool_result_fact''"
| "observation_event_type (CommandExit code) = ''tool_result_fact''"
| "observation_event_type TurnStarted = ''turn_started''"
| "observation_event_type (TurnEnded tokens) = ''turn_ended''"
| "observation_event_type ContextExhausted = ''context_exhausted''"
| "observation_event_type QuotaReached = ''quota_parked''"
| "observation_event_type (Checkpoint ec claims) = ''checkpoint_recorded''"
| "observation_event_type CheckpointExpired = ''checkpoint_expired''"
| "observation_event_type (GenesisPathsFrozen paths) = ''genesis_paths_frozen''"

fun observation_class :: "observation \<Rightarrow> event_class" where
  "observation_class CheckpointExpired = Infra"
| "observation_class (GenesisPathsFrozen paths) = Infra"
| "observation_class ob = Agent"

fun observation_detail :: "bool \<Rightarrow> observation \<Rightarrow> (string \<times> json) list" where
  "observation_detail credited (Mutation path) = [(''observation'', JString ''mutation''), (''path'', JString path)]"
| "observation_detail credited UnrepresentableMutation = [(''observation'', JString ''unrepresentable_mutation'')]"
| "observation_detail credited InertTool = [(''observation'', JString ''inert'')]"
| "observation_detail credited (CommandExit code) =
     [(''observation'', JString ''command_exit''), (''exit_code'', JInt code)]"
| "observation_detail credited (TurnEnded tokens) = [(''tokens'', JInt tokens)]"
| "observation_detail credited (Checkpoint ec claims) =
     [(''evidence_class'', JString (evidence_class_str ec)), (''claims_progress'', JBool claims),
      (''credited'', JBool credited)]"
| "observation_detail credited (GenesisPathsFrozen paths) = [(''paths'', JArray (map JString paths))]"
| "observation_detail credited ob = []"

definition to_event :: "i64 \<Rightarrow> i64 option \<Rightarrow> i64 \<Rightarrow> i64 \<Rightarrow> bool \<Rightarrow> observation \<Rightarrow> event_row" where
  "to_event run_id attempt_id turn ts credited ob =
     \<lparr>ev_id = None, ev_run_id = Some run_id, ev_type = observation_event_type ob,
      ev_class = observation_class ob,
      ev_payload = JText (JObject (insert_fields (observation_detail credited ob)
        [(''attempt_id'', json_opt JInt attempt_id), (''turn'', JInt turn)])),
      ev_ts = ts\<rparr>"

definition or_zero :: "i64 option \<Rightarrow> i64" where
  "or_zero n = case_option 0 id n"

definition read_tool_fact :: "json \<Rightarrow> observation option" where
  "read_tool_fact payload =
     (case get_str payload ''observation'' of None \<Rightarrow> None
      | Some kind \<Rightarrow>
          if kind = ''mutation'' then map_option Mutation (get_str payload ''path'')
          else if kind = ''unrepresentable_mutation'' then Some UnrepresentableMutation
          else if kind = ''command_exit'' then map_option CommandExit (get_i64 payload ''exit_code'')
          else Some InertTool)"

definition read_checkpoint :: "json \<Rightarrow> observation option" where
  "read_checkpoint payload =
     Option.bind (get_str payload ''evidence_class'') (\<lambda>text.
     Option.bind (enum_parse evidence_classes evidence_class_str text) (\<lambda>ec.
     Some (Checkpoint ec (case_option False id (get_bool payload ''claims_progress'')))))"

definition read_genesis_paths :: "json \<Rightarrow> observation option" where
  "read_genesis_paths payload =
     Option.bind (json_get payload ''paths'') (\<lambda>v.
     Option.bind (as_array v) (\<lambda>paths. Some (GenesisPathsFrozen (List.map_filter as_str paths))))"

definition read_observation :: "string \<Rightarrow> json \<Rightarrow> observation option" where
  "read_observation event_type payload =
     (if event_type = ''tool_result_fact'' then read_tool_fact payload
      else if event_type = ''turn_started'' then Some TurnStarted
      else if event_type = ''turn_ended'' then Some (TurnEnded (or_zero (get_i64 payload ''tokens'')))
      else if event_type = ''context_exhausted'' then Some ContextExhausted
      else if event_type = ''quota_parked'' then Some QuotaReached
      else if event_type = ''checkpoint_recorded'' then read_checkpoint payload
      else if event_type = ''checkpoint_expired'' then Some CheckpointExpired
      else if event_type = ''genesis_paths_frozen'' then read_genesis_paths payload
      else None)"

definition from_event :: "event_row \<Rightarrow> (observation \<times> i64) option" where
  "from_event e =
     Option.bind (from_str (ev_payload e)) (\<lambda>payload.
     map_option (\<lambda>ob. (ob, or_zero (get_i64 payload ''turn''))) (read_observation (ev_type e) payload))"

section \<open>The fold\<close>

record checkpoint_standing =
  cs_active :: bool
  cs_claims_progress :: bool
  cs_expired :: bool

record health_state =
  hs_last_progress_turn :: "i64 option"
  hs_noop_turns :: i64
  hs_failing_test_signature :: "string option"
  hs_tokens_since_progress :: i64
  hs_progress_this_turn :: bool
  hs_parked_this_turn :: bool
  hs_repeating_exit_code :: "i64 option"
  hs_repeats :: i64
  hs_genesis_paths :: "string set option"
  hs_checkpoint :: checkpoint_standing
  hs_lost_reported :: bool

definition default_health_state :: health_state where
  "default_health_state =
     \<lparr>hs_last_progress_turn = None, hs_noop_turns = 0, hs_failing_test_signature = None,
      hs_tokens_since_progress = 0, hs_progress_this_turn = False, hs_parked_this_turn = False,
      hs_repeating_exit_code = None, hs_repeats = 0, hs_genesis_paths = None,
      hs_checkpoint = \<lparr>cs_active = False, cs_claims_progress = False, cs_expired = False\<rparr>,
      hs_lost_reported = False\<rparr>"

record folded =
  fo_credited_progress :: bool
  fo_freeze_due :: bool
  fo_divergent_path :: "string option"
  fo_uncomparable_mutation :: bool

definition nothing_folded :: folded where
  "nothing_folded = \<lparr>fo_credited_progress = False, fo_freeze_due = False, fo_divergent_path = None,
     fo_uncomparable_mutation = False\<rparr>"

definition repeats_before_signature :: i64 where "repeats_before_signature = 2"

definition credit_progress :: "i64 \<Rightarrow> health_state \<Rightarrow> health_state" where
  "credit_progress turn s =
     s\<lparr>hs_last_progress_turn := Some (max turn 0), hs_noop_turns := 0, hs_tokens_since_progress := 0,
       hs_progress_this_turn := True\<rparr>"

definition fold_turn_end :: "i64 \<Rightarrow> health_state \<Rightarrow> health_state" where
  "fold_turn_end tokens s =
     (if hs_progress_this_turn s \<or> hs_parked_this_turn s then s
      else s\<lparr>hs_noop_turns := saturating_add_i64 (hs_noop_turns s) 1,
             hs_tokens_since_progress := saturating_add_i64 (hs_tokens_since_progress s) tokens\<rparr>)"

definition fold_exit_code :: "i64 \<Rightarrow> health_state \<Rightarrow> health_state" where
  "fold_exit_code code s =
     (if code = 0
      then s\<lparr>hs_repeating_exit_code := None, hs_repeats := 0, hs_failing_test_signature := None\<rparr>
      else (let s1 = (if hs_repeating_exit_code s = Some code
                      then s\<lparr>hs_repeats := saturating_add_i64 (hs_repeats s) 1\<rparr>
                      else s\<lparr>hs_repeating_exit_code := Some code, hs_repeats := 1\<rparr>)
            in if repeats_before_signature \<le> hs_repeats s1
               then s1\<lparr>hs_failing_test_signature := Some (''bash:exit='' @ show_i64 code)\<rparr> else s1))"

fun fold_observed :: "i64 \<Rightarrow> observation \<Rightarrow> health_state \<Rightarrow> health_state \<times> folded" where
  "fold_observed turn (Mutation path) s =
     (credit_progress turn s,
      nothing_folded\<lparr>fo_credited_progress := True,
        fo_divergent_path := (case hs_genesis_paths s of None \<Rightarrow> None
          | Some frozen \<Rightarrow> if path \<in> frozen then None else Some path)\<rparr>)"
| "fold_observed turn UnrepresentableMutation s =
     (credit_progress turn s,
      nothing_folded\<lparr>fo_credited_progress := True, fo_uncomparable_mutation := hs_genesis_paths s \<noteq> None\<rparr>)"
| "fold_observed turn InertTool s = (s, nothing_folded)"
| "fold_observed turn (CommandExit code) s = (fold_exit_code code s, nothing_folded)"
| "fold_observed turn TurnStarted s =
     (s\<lparr>hs_progress_this_turn := False, hs_parked_this_turn := False\<rparr>, nothing_folded)"
| "fold_observed turn (TurnEnded tokens) s =
     ((fold_turn_end tokens s)\<lparr>hs_progress_this_turn := False, hs_parked_this_turn := False\<rparr>, nothing_folded)"
| "fold_observed turn ContextExhausted s = (s\<lparr>hs_parked_this_turn := True\<rparr>, nothing_folded)"
| "fold_observed turn QuotaReached s = (s\<lparr>hs_parked_this_turn := True\<rparr>, nothing_folded)"
| "fold_observed turn (Checkpoint ec claims) s =
     (let s1 = s\<lparr>hs_checkpoint := \<lparr>cs_active = True, cs_claims_progress = claims, cs_expired = False\<rparr>\<rparr>;
          f = nothing_folded\<lparr>fo_freeze_due := hs_genesis_paths s = None\<rparr>
      in if claims \<and> ec = Deterministic then (credit_progress turn s1, f\<lparr>fo_credited_progress := True\<rparr>)
         else (s1, f))"
| "fold_observed turn CheckpointExpired s =
     (s\<lparr>hs_checkpoint := (hs_checkpoint s)\<lparr>cs_expired := True\<rparr>\<rparr>, nothing_folded)"
| "fold_observed turn (GenesisPathsFrozen paths) s = (s\<lparr>hs_genesis_paths := Some (set paths)\<rparr>, nothing_folded)"

definition fold_health :: "i64 \<Rightarrow> observation \<Rightarrow> health_state \<Rightarrow> health_state \<times> folded" where
  "fold_health turn ob s =
     (case fold_observed turn ob s of
        (s1, f) \<Rightarrow> (if fo_credited_progress f then s1\<lparr>hs_lost_reported := False\<rparr> else s1, f))"

definition mark_lost_reported :: "health_state \<Rightarrow> health_state" where
  "mark_lost_reported s = s\<lparr>hs_lost_reported := True\<rparr>"

definition snapshot :: "i64 \<Rightarrow> i64 \<Rightarrow> health_state \<Rightarrow> run_health_row" where
  "snapshot run_id now s =
     \<lparr>rh_run_id = run_id, rh_last_progress_turn = hs_last_progress_turn s, rh_noop_turns = hs_noop_turns s,
      rh_failing_test_signature = hs_failing_test_signature s,
      rh_tokens_since_progress = hs_tokens_since_progress s, rh_updated_at = now\<rparr>"

section \<open>The detectors\<close>

record health_thresholds =
  ht_stall_turns :: i64

definition default_health_thresholds :: health_thresholds where
  "default_health_thresholds = \<lparr>ht_stall_turns = 5\<rparr>"

datatype lost_reason = ProgressClaimedWhileStalled | LostCheckpointExpired

fun lost_reason_str :: "lost_reason \<Rightarrow> string" where
  "lost_reason_str ProgressClaimedWhileStalled = ''progress_claimed_while_stalled''"
| "lost_reason_str LostCheckpointExpired = ''checkpoint_expired''"

datatype health_signal =
    WorkerLost lost_reason i64
  | Divergence string
  | SignalUnrepresentableMutation

definition worker_lost_event :: string where "worker_lost_event = ''worker_lost''"

fun signal_event_type :: "health_signal \<Rightarrow> string" where
  "signal_event_type (WorkerLost reason n) = worker_lost_event"
| "signal_event_type (Divergence path) = ''divergence_detected''"
| "signal_event_type SignalUnrepresentableMutation = ''divergence_detected''"

definition detect_worker_lost ::
  "run_health_row \<Rightarrow> checkpoint_standing \<Rightarrow> health_thresholds \<Rightarrow> health_signal option" where
  "detect_worker_lost health cp thresholds =
     (if cs_expired cp then Some (WorkerLost LostCheckpointExpired (rh_noop_turns health))
      else if cs_active cp \<and> cs_claims_progress cp \<and> ht_stall_turns thresholds \<le> rh_noop_turns health
      then Some (WorkerLost ProgressClaimedWhileStalled (rh_noop_turns health))
      else None)"

section \<open>Reading back what was journaled\<close>

fun observation_fits :: "observation \<Rightarrow> bool" where
  "observation_fits (CommandExit code) \<longleftrightarrow> fits_i64 code"
| "observation_fits (TurnEnded tokens) \<longleftrightarrow> fits_i64 tokens"
| "observation_fits ob \<longleftrightarrow> True"

lemma detail_keys:
  "distinct (map fst (observation_detail credited ob))"
  "''turn'' \<notin> fst ` set (observation_detail credited ob)"
  by (cases ob; simp)+

lemma map_filter_strings: "List.map_filter as_str (map JString paths) = paths"
  by (induction paths) (simp_all add: map_filter_simps)

lemma read_back:
  assumes "observation_fits ob"
  shows "read_observation (observation_event_type ob) (JObject (insert_fields (observation_detail credited ob)
    [(''attempt_id'', a), (''turn'', JInt turn)])) = Some ob"
  using assms
  by (cases ob) (simp_all add: insert_fields_def read_observation_def read_tool_fact_def read_checkpoint_def
    read_genesis_paths_def or_zero_def map_filter_strings evidence_class.parse_str)

lemma from_to_event:
  assumes "observation_fits ob" "fits_i64 turn"
  shows "from_event (to_event run_id attempt_id turn ts credited ob) = Some (ob, turn)"
proof -
  have "map_of (observation_detail credited ob) ''turn'' = None"
    using detail_keys(2) by (simp add: map_of_eq_None_iff)
  then show ?thesis
    using assms(2) by (simp add: from_event_def to_event_def read_back [OF assms(1)] map_of_insert_fields_distinct
      detail_keys or_zero_def map_add_def)
qed

end
