(* ===== verification/Run_Cache.thy ===== *)
theory Run_Cache
  imports Ordered_Map "HOL-Library.AList"
begin

text \<open>
  The bounded memo of crates/agens-server/src/cache.rs. \<open>entries\<close> is a hash map, an
  association list in no particular order; \<open>recency\<close> is an ordered map from the stamp an
  entry was last used under to its run. Stamps are \<open>u64\<close> and wrap.
\<close>

section \<open>The cache\<close>

record 'v run_cache =
  rc_capacity :: nat
  rc_entries :: "(i64 \<times> int \<times> 'v) list"
  rc_recency :: "(int \<times> i64) list"
  rc_stamps :: int

definition with_capacity :: "nat \<Rightarrow> 'v run_cache" where
  "with_capacity capacity =
     \<lparr>rc_capacity = max capacity 1, rc_entries = [], rc_recency = [], rc_stamps = 0\<rparr>"

definition stamp_bound :: int where "stamp_bound = 18446744073709551616"

definition next_stamp :: "'v run_cache \<Rightarrow> int" where
  "next_stamp c = (rc_stamps c + 1) mod stamp_bound"

definition touch :: "i64 \<Rightarrow> 'v run_cache \<Rightarrow> 'v run_cache" where
  "touch run_id c =
     (let stamp = next_stamp c; c1 = c\<lparr>rc_stamps := stamp\<rparr>
      in case map_of (rc_entries c1) run_id of
           None \<Rightarrow> c1
         | Some (previous, v) \<Rightarrow>
             c1\<lparr>rc_entries := AList.update run_id (stamp, v) (rc_entries c1),
                rc_recency := btree_insert stamp run_id (btree_remove previous (rc_recency c1))\<rparr>)"

definition cache_get :: "i64 \<Rightarrow> 'v run_cache \<Rightarrow> 'v run_cache \<times> 'v option" where
  "cache_get run_id c =
     (let c1 = touch run_id c in (c1, map_option snd (map_of (rc_entries c1) run_id)))"

fun evict :: "nat \<Rightarrow> (int \<times> i64) list \<Rightarrow> (i64 \<times> int \<times> 'v) list \<Rightarrow>
    (int \<times> i64) list \<times> (i64 \<times> int \<times> 'v) list" where
  "evict capacity [] entries = ([], entries)"
| "evict capacity ((stamp, oldest) # recency) entries =
     (if capacity \<le> length entries then evict capacity recency (AList.delete oldest entries)
      else ((stamp, oldest) # recency, entries))"

definition cache_insert :: "i64 \<Rightarrow> 'v \<Rightarrow> 'v run_cache \<Rightarrow> 'v run_cache" where
  "cache_insert run_id v c =
     (if map_of (rc_entries c) run_id \<noteq> None
      then (let c1 = touch run_id c
            in case map_of (rc_entries c1) run_id of
                 None \<Rightarrow> c1
               | Some (stamp, old) \<Rightarrow> c1\<lparr>rc_entries := AList.update run_id (stamp, v) (rc_entries c1)\<rparr>)
      else (case evict (rc_capacity c) (rc_recency c) (rc_entries c) of
              (recency, entries) \<Rightarrow>
                (let stamp = next_stamp c
                 in c\<lparr>rc_stamps := stamp, rc_entries := AList.update run_id (stamp, v) entries,
                      rc_recency := btree_insert stamp run_id recency\<rparr>)))"

definition get_or_insert_with :: "i64 \<Rightarrow> (unit \<Rightarrow> 'v) \<Rightarrow> 'v run_cache \<Rightarrow> 'v run_cache \<times> 'v" where
  "get_or_insert_with run_id derive c =
     (let c1 = (if map_of (rc_entries c) run_id = None then cache_insert run_id (derive ()) c
                else touch run_id c)
      in (c1, snd (the (map_of (rc_entries c1) run_id))))"

definition held :: "'v run_cache \<Rightarrow> i64 \<rightharpoonup> 'v" where
  "held c run_id = map_option snd (map_of (rc_entries c) run_id)"

section \<open>A cache as a list in order of use\<close>

text \<open>
  What the cache promises: its runs in the order they were last used, the oldest first.
\<close>

definition lru_drop :: "i64 \<Rightarrow> (i64 \<times> 'v) list \<Rightarrow> (i64 \<times> 'v) list" where
  "lru_drop k xs = filter (\<lambda>(k', v). k' \<noteq> k) xs"

definition lru_touch :: "i64 \<Rightarrow> (i64 \<times> 'v) list \<Rightarrow> (i64 \<times> 'v) list" where
  "lru_touch k xs = (case map_of xs k of None \<Rightarrow> xs | Some v \<Rightarrow> lru_drop k xs @ [(k, v)])"

definition lru_insert :: "nat \<Rightarrow> i64 \<Rightarrow> 'v \<Rightarrow> (i64 \<times> 'v) list \<Rightarrow> (i64 \<times> 'v) list" where
  "lru_insert capacity k v xs =
     (if map_of xs k \<noteq> None then lru_drop k xs @ [(k, v)]
      else drop (length xs + 1 - capacity) xs @ [(k, v)])"

definition in_use_order :: "'v run_cache \<Rightarrow> (i64 \<times> 'v) list" where
  "in_use_order c = map (\<lambda>(stamp, k). (k, the (held c k))) (rc_recency c)"

definition cache_ok :: "'v run_cache \<Rightarrow> bool" where
  "cache_ok c \<longleftrightarrow>
     1 \<le> rc_capacity c \<and> distinct (map fst (rc_entries c)) \<and> btree_ok (rc_recency c) \<and>
     (\<forall>s k. map_of (rc_recency c) s = Some k \<longleftrightarrow> (\<exists>v. map_of (rc_entries c) k = Some (s, v))) \<and>
     (\<forall>s \<in> fst ` set (rc_recency c). s \<le> rc_stamps c) \<and> 0 \<le> rc_stamps c \<and>
     length (rc_entries c) \<le> rc_capacity c"

lemma btree_insert_last: "\<forall>s \<in> fst ` set m. s < k \<Longrightarrow> btree_insert k v m = m @ [(k, v)]"
  by (induction m) auto

lemma cache_okD:
  assumes "cache_ok c"
  shows "1 \<le> rc_capacity c" "distinct (map fst (rc_entries c))" "btree_ok (rc_recency c)"
    "\<And>s k. map_of (rc_recency c) s = Some k \<longleftrightarrow> (\<exists>v. map_of (rc_entries c) k = Some (s, v))"
    "\<And>s. s \<in> fst ` set (rc_recency c) \<Longrightarrow> s \<le> rc_stamps c" "0 \<le> rc_stamps c"
    "length (rc_entries c) \<le> rc_capacity c"
  using assms unfolding cache_ok_def by blast+

lemma recency_entry:
  assumes "cache_ok c" shows "(s, k) \<in> set (rc_recency c) \<longleftrightarrow> (\<exists>v. map_of (rc_entries c) k = Some (s, v))"
  using btree_entry [OF cache_okD(3) [OF assms]] cache_okD(4) [OF assms] by simp

lemma recency_runs:
  assumes "cache_ok c"
  shows "distinct (map snd (rc_recency c))" "snd ` set (rc_recency c) = fst ` set (rc_entries c)"
    "length (rc_recency c) = length (rc_entries c)"
proof -
  note entry = recency_entry [OF assms]
  have "s = s'" if "(s, k) \<in> set (rc_recency c)" "(s', k) \<in> set (rc_recency c)" for s s' k
    using that unfolding entry by auto
  then have "x = y" if "x \<in> set (rc_recency c)" "y \<in> set (rc_recency c)" "snd x = snd y" for x y
    using that by (metis prod.collapse)
  then show d: "distinct (map snd (rc_recency c))"
    using btree_distinct [OF cache_okD(3) [OF assms]] by (auto simp: distinct_map inj_on_def)
  have "k \<in> snd ` set (rc_recency c) \<longleftrightarrow> map_of (rc_entries c) k \<noteq> None" for k
    using entry by (force simp: image_iff)
  then show s: "snd ` set (rc_recency c) = fst ` set (rc_entries c)"
    by (auto simp: map_of_eq_None_iff)
  have "length (map snd (rc_recency c)) = card (snd ` set (rc_recency c))"
    using distinct_card [OF d] by simp
  moreover have "length (map fst (rc_entries c)) = card (fst ` set (rc_entries c))"
    using distinct_card [OF cache_okD(2) [OF assms]] by simp
  ultimately show "length (rc_recency c) = length (rc_entries c)" using s by simp
qed

lemma in_use_order_keys: "map fst (in_use_order c) = map snd (rc_recency c)"
  by (simp add: in_use_order_def comp_def case_prod_beta)

lemma length_in_use_order: "cache_ok c \<Longrightarrow> length (in_use_order c) = length (rc_entries c)"
  by (simp add: in_use_order_def recency_runs(3))

lemma held_none_iff: "cache_ok c \<Longrightarrow> held c k = None \<longleftrightarrow> k \<notin> snd ` set (rc_recency c)"
  by (simp add: held_def recency_runs(2) map_of_eq_None_iff)

lemma in_use_order_lookup:
  assumes "cache_ok c" shows "map_of (in_use_order c) k = held c k"
proof (cases "held c k")
  case None
  then have "k \<notin> set (map fst (in_use_order c))"
    using held_none_iff [OF assms] in_use_order_keys [of c] by simp
  then show ?thesis using None by (simp add: map_of_eq_None_iff)
next
  case (Some v)
  then have "k \<in> snd ` set (rc_recency c)" using held_none_iff [OF assms] by (metis option.distinct(1))
  then have "(k, v) \<in> set (in_use_order c)" using Some by (force simp: in_use_order_def)
  moreover have "distinct (map fst (in_use_order c))"
    using in_use_order_keys [of c] recency_runs(1) [OF assms] by simp
  ultimately show ?thesis using Some by simp
qed

text \<open>Using a run moves it to the end.\<close>

lemma next_stamp_fresh:
  assumes "cache_ok c" "rc_stamps c + 1 < stamp_bound"
  shows "next_stamp c = rc_stamps c + 1" "\<forall>s \<in> fst ` set (rc_recency c). s < next_stamp c"
proof -
  show eq: "next_stamp c = rc_stamps c + 1"
    using cache_okD(6) [OF assms(1)] assms(2) by (simp add: next_stamp_def)
  show "\<forall>s \<in> fst ` set (rc_recency c). s < next_stamp c"
    using cache_okD(5) [OF assms(1)] unfolding eq by force
qed

lemma remove_previous:
  assumes "cache_ok c" "map_of (rc_entries c) k = Some (previous, v)"
  shows "btree_remove previous (rc_recency c) = filter (\<lambda>(s, k'). k' \<noteq> k) (rc_recency c)"
proof -
  have "(s \<noteq> previous) = (k' \<noteq> k)" if "(s, k') \<in> set (rc_recency c)" for s k'
  proof -
    have "(previous, k) \<in> set (rc_recency c)" using recency_entry [OF assms(1)] assms(2) by blast
    then show ?thesis
      using that assms(2) recency_entry [OF assms(1)] btree_entry [OF cache_okD(3) [OF assms(1)]]
      by (metis Pair_inject option.inject)
  qed
  then show ?thesis unfolding btree_remove_def by (auto intro!: filter_cong)
qed

lemma touch_held: "held (touch k c) = held c"
proof
  show "held (touch k c) j = held c j" for j
    by (cases "map_of (rc_entries c) k") (auto simp: touch_def held_def Let_def update_conv')
qed

lemma touch_missing: "held c k = None \<Longrightarrow> touch k c = c\<lparr>rc_stamps := next_stamp c\<rparr>"
  by (auto simp: touch_def held_def Let_def split: option.splits)

lemma touch_present:
  assumes "cache_ok c" "rc_stamps c + 1 < stamp_bound" "map_of (rc_entries c) k = Some (previous, v)"
  shows "touch k c = c\<lparr>rc_stamps := next_stamp c, rc_entries := AList.update k (next_stamp c, v) (rc_entries c),
    rc_recency := filter (\<lambda>(s, k'). k' \<noteq> k) (rc_recency c) @ [(next_stamp c, k)]\<rparr>"
proof -
  have "btree_insert (next_stamp c) k (btree_remove previous (rc_recency c)) =
      filter (\<lambda>(s, k'). k' \<noteq> k) (rc_recency c) @ [(next_stamp c, k)]"
    unfolding remove_previous [OF assms(1,3)]
    by (rule btree_insert_last) (use next_stamp_fresh(2) [OF assms(1,2)] in auto)
  then show ?thesis using assms(3) by (simp add: touch_def Let_def)
qed

lemma in_use_order_filter:
  assumes "\<And>j. j \<noteq> k \<Longrightarrow> held c' j = held c j"
    and "rc_recency c' = filter (\<lambda>(s, k'). k' \<noteq> k) (rc_recency c) @ [(stamp, k)]"
  shows "in_use_order c' = lru_drop k (in_use_order c) @ [(k, the (held c' k))]"
proof -
  have "map (\<lambda>(s, j). (j, the (held c' j))) (filter (\<lambda>(s, k'). k' \<noteq> k) rs) =
      lru_drop k (map (\<lambda>(s, j). (j, the (held c j))) rs)" for rs
    using assms(1) by (induction rs) (auto simp: lru_drop_def)
  then show ?thesis by (simp add: in_use_order_def assms(2))
qed

lemma touch_refines:
  assumes "cache_ok c" "rc_stamps c + 1 < stamp_bound"
  shows "in_use_order (touch k c) = lru_touch k (in_use_order c)"
proof (cases "held c k")
  case None
  then have "in_use_order (touch k c) = in_use_order c"
    by (simp add: touch_missing in_use_order_def held_def)
  moreover have "map_of (in_use_order c) k = None" using None in_use_order_lookup [OF assms(1)] by simp
  ultimately show ?thesis by (simp add: lru_touch_def)
next
  case (Some v)
  then obtain previous where e: "map_of (rc_entries c) k = Some (previous, v)" by (auto simp: held_def)
  have "in_use_order (touch k c) = lru_drop k (in_use_order c) @ [(k, the (held (touch k c) k))]"
    by (rule in_use_order_filter [where stamp = "next_stamp c"])
      (simp add: touch_held, simp add: touch_present [OF assms e])
  then show ?thesis using Some by (simp add: touch_held lru_touch_def in_use_order_lookup [OF assms(1)])
qed

lemma insert_held_refines:
  assumes "cache_ok c" "rc_stamps c + 1 < stamp_bound" "held c k \<noteq> None"
  shows "in_use_order (cache_insert k v c) = lru_insert (rc_capacity c) k v (in_use_order c)"
proof -
  obtain previous old where e: "map_of (rc_entries c) k = Some (previous, old)"
    using assms(3) by (auto simp: held_def)
  note t = touch_present [OF assms(1,2) e]
  have ins: "cache_insert k v c = (touch k c)\<lparr>rc_entries := AList.update k (next_stamp c, v) (rc_entries (touch k c))\<rparr>"
    using e by (simp add: cache_insert_def t update_conv' Let_def)
  have held: "held (cache_insert k v c) j = (if j = k then Some v else held c j)" for j
    unfolding ins held_def by (simp add: t update_conv')
  have "in_use_order (cache_insert k v c) = lru_drop k (in_use_order c) @ [(k, the (held (cache_insert k v c) k))]"
    by (rule in_use_order_filter [where stamp = "next_stamp c"]) (simp_all add: held, simp add: ins t)
  then show ?thesis using assms(3) by (simp add: held lru_insert_def in_use_order_lookup [OF assms(1)])
qed

text \<open>A full cache gives back the run used longest ago, and no other.\<close>

definition overflow :: "'v run_cache \<Rightarrow> nat" where
  "overflow c = length (rc_entries c) + 1 - rc_capacity c"

definition kept_recency :: "'v run_cache \<Rightarrow> (int \<times> i64) list" where
  "kept_recency c = drop (overflow c) (rc_recency c)"

definition kept_entries :: "'v run_cache \<Rightarrow> (i64 \<times> int \<times> 'v) list" where
  "kept_entries c = filter (\<lambda>e. fst e \<in> snd ` set (kept_recency c)) (rc_entries c)"

lemma overflow_cases:
  assumes "cache_ok c"
  shows "overflow c = (if length (rc_entries c) < rc_capacity c then 0 else 1)"
  using cache_okD(7) [OF assms] by (auto simp: overflow_def)

lemma evict_overflow:
  assumes "cache_ok c"
  shows "evict (rc_capacity c) (rc_recency c) (rc_entries c) = (kept_recency c, kept_entries c)"
proof (cases "length (rc_entries c) < rc_capacity c")
  case True
  then have "kept_recency c = rc_recency c" by (simp add: kept_recency_def overflow_cases [OF assms])
  moreover from this have "kept_entries c = rc_entries c"
    using recency_runs(2) [OF assms] by (auto simp: kept_entries_def filter_id_conv)
  ultimately show ?thesis using True by (cases "rc_recency c") auto
next
  case False
  then have full: "length (rc_entries c) = rc_capacity c" using cache_okD(7) [OF assms] by simp
  then obtain s k rs where rec: "rc_recency c = (s, k) # rs"
    using recency_runs(3) [OF assms] cache_okD(1) [OF assms] by (cases "rc_recency c") auto
  then have kept: "kept_recency c = rs" using False by (simp add: kept_recency_def overflow_cases [OF assms])
  have "k \<noteq> fst e \<longleftrightarrow> fst e \<in> snd ` set rs" if "e \<in> set (rc_entries c)" for e
    using recency_runs(1,2) [OF assms] that unfolding rec by force
  then have entries: "AList.delete k (rc_entries c) = kept_entries c"
    unfolding kept_entries_def kept AList.delete_eq case_prod_beta by (rule filter_cong [OF refl])
  have "k \<in> fst ` set (rc_entries c)" using recency_runs(2) [OF assms] unfolding rec by auto
  then obtain e where "(k, e) \<in> set (rc_entries c)" by auto
  then have "length (AList.delete k (rc_entries c)) < rc_capacity c"
    unfolding AList.delete_eq full [symmetric] by (rule length_filter_less) simp
  then show ?thesis using full by (cases rs) (auto simp: rec kept entries)
qed

lemma kept_recency_subset: "set (kept_recency c) \<subseteq> set (rc_recency c)"
  unfolding kept_recency_def by (rule set_drop_subset)

lemma map_of_filter_keys: "map_of (filter (\<lambda>e. fst e \<in> S) es) j = (if j \<in> S then map_of es j else None)"
  by (induction es) auto

lemma kept_lookup: "map_of (kept_entries c) j = Some e \<Longrightarrow> map_of (rc_entries c) j = Some e"
  by (simp add: kept_entries_def map_of_filter_keys split: if_splits)

lemma kept_entry:
  assumes "cache_ok c"
  shows "(s, j) \<in> set (kept_recency c) \<longleftrightarrow> (\<exists>v. map_of (kept_entries c) j = Some (s, v))"
proof -
  have "(s, j) \<in> set (kept_recency c)"
    if "j \<in> snd ` set (kept_recency c)" "(s, j) \<in> set (rc_recency c)"
  proof -
    from that(1) obtain s' where "(s', j) \<in> set (kept_recency c)" by auto
    moreover from this have "s' = s"
      using kept_recency_subset that(2) recency_entry [OF assms] by fastforce
    ultimately show ?thesis by simp
  qed
  moreover have "j \<in> snd ` set (kept_recency c)" "(s, j) \<in> set (rc_recency c)" if "(s, j) \<in> set (kept_recency c)"
    using that kept_recency_subset [of c] by (force, blast)
  ultimately have "(s, j) \<in> set (kept_recency c) \<longleftrightarrow> j \<in> snd ` set (kept_recency c) \<and> (s, j) \<in> set (rc_recency c)"
    by blast
  then show ?thesis unfolding kept_entries_def map_of_filter_keys recency_entry [OF assms] by auto
qed

lemma kept_entries_ok:
  assumes "cache_ok c"
  shows "distinct (map fst (kept_entries c))" "length (kept_entries c) < rc_capacity c"
proof -
  show d: "distinct (map fst (kept_entries c))"
    using cache_okD(2) [OF assms] by (simp add: kept_entries_def distinct_map_filter)
  have "fst ` set (kept_entries c) \<subseteq> snd ` set (kept_recency c)" by (auto simp: kept_entries_def)
  then have "card (fst ` set (kept_entries c)) \<le> card (snd ` set (kept_recency c))"
    by (intro card_mono) auto
  also have "\<dots> \<le> length (kept_recency c)" by (metis card_length list.set_map length_map)
  finally have "length (kept_entries c) \<le> length (kept_recency c)"
    using distinct_card [OF d] by simp
  also have "\<dots> < rc_capacity c"
    using recency_runs(3) [OF assms] cache_okD(1,7) [OF assms]
    by (auto simp: kept_recency_def overflow_cases [OF assms])
  finally show "length (kept_entries c) < rc_capacity c" .
qed

lemma insert_new:
  assumes "cache_ok c" "rc_stamps c + 1 < stamp_bound" "held c k = None"
  shows "cache_insert k v c = c\<lparr>rc_stamps := next_stamp c,
    rc_entries := AList.update k (next_stamp c, v) (kept_entries c),
    rc_recency := kept_recency c @ [(next_stamp c, k)]\<rparr>"
proof -
  have "btree_insert (next_stamp c) k (kept_recency c) = kept_recency c @ [(next_stamp c, k)]"
    by (rule btree_insert_last) (use next_stamp_fresh(2) [OF assms(1,2)] kept_recency_subset [of c] in blast)
  then show ?thesis using assms(3) by (simp add: cache_insert_def held_def evict_overflow [OF assms(1)] Let_def)
qed

lemma insert_new_refines:
  assumes "cache_ok c" "rc_stamps c + 1 < stamp_bound" "held c k = None"
  shows "in_use_order (cache_insert k v c) = lru_insert (rc_capacity c) k v (in_use_order c)"
proof -
  note ins = insert_new [OF assms]
  have own: "held (cache_insert k v c) k = Some v" by (simp add: ins held_def update_conv')
  have kept: "held (cache_insert k v c) j = held c j" if "(s, j) \<in> set (kept_recency c)" for s j
  proof -
    from that obtain x where x: "map_of (kept_entries c) j = Some (s, x)"
      unfolding kept_entry [OF assms(1)] by (elim exE)
    then have "map_of (rc_entries c) j = Some (s, x)" by (rule kept_lookup)
    moreover from this have "j \<noteq> k" using assms(3) by (auto simp: held_def)
    ultimately show ?thesis using x by (simp add: ins held_def update_conv')
  qed
  have recency: "rc_recency (cache_insert k v c) = kept_recency c @ [(next_stamp c, k)]" by (simp add: ins)
  have "map (\<lambda>(s, j). (j, the (held (cache_insert k v c) j))) (kept_recency c) =
      map (\<lambda>(s, j). (j, the (held c j))) (kept_recency c)"
    by (rule map_cong [OF refl], clarify) (simp add: kept)
  then have "in_use_order (cache_insert k v c) =
      map (\<lambda>(s, j). (j, the (held c j))) (kept_recency c) @ [(k, v)]"
    unfolding in_use_order_def recency by (simp add: own)
  also have "\<dots> = drop (overflow c) (in_use_order c) @ [(k, v)]"
    by (simp add: in_use_order_def kept_recency_def drop_map)
  finally show ?thesis
    using assms(3) in_use_order_lookup [OF assms(1)] length_in_use_order [OF assms(1)]
    by (simp add: lru_insert_def overflow_def)
qed

text \<open>The invariant, for every operation whose last step stamps one entry anew.\<close>

lemma stamped_ok:
  assumes "cache_ok c" "rc_stamps c + 1 < stamp_bound"
    and rs: "btree_ok rs" "fst ` set rs \<subseteq> fst ` set (rc_recency c)" and es: "distinct (map fst es)"
    and bij: "\<And>s j. (s, j) \<in> set rs \<longleftrightarrow> j \<noteq> k \<and> (\<exists>v. map_of es j = Some (s, v))"
    and len: "length (AList.update k (next_stamp c, v) es) \<le> rc_capacity c"
  shows "cache_ok (c\<lparr>rc_stamps := next_stamp c, rc_entries := AList.update k (next_stamp c, v) es,
    rc_recency := rs @ [(next_stamp c, k)]\<rparr>)"
proof -
  let ?n = "next_stamp c"
  have below: "\<forall>s \<in> fst ` set rs. s < ?n" using next_stamp_fresh(2) [OF assms(1,2)] rs(2) by blast
  then have bt: "btree_ok (rs @ [(?n, k)])" using rs(1) by (auto simp: btree_ok_def sorted_wrt_append)
  have "map_of (rs @ [(?n, k)]) s = Some j \<longleftrightarrow> (\<exists>x. map_of (AList.update k (?n, v) es) j = Some (s, x))" for s j
    unfolding btree_entry [OF bt, symmetric] by (auto simp: bij update_conv')
  moreover have "0 \<le> ?n" using next_stamp_fresh(1) [OF assms(1,2)] cache_okD(6) [OF assms(1)] by simp
  ultimately show ?thesis
    using bt len below cache_okD(1) [OF assms(1)] distinct_update [OF es] unfolding cache_ok_def
    by (auto intro: less_imp_le)
qed

lemma length_update_present: "map_of es k \<noteq> None \<Longrightarrow> length (AList.update k v es) = length es"
  by (induction es) (auto split: if_splits)

lemma length_update_missing: "map_of es k = None \<Longrightarrow> length (AList.update k v es) = Suc (length es)"
  by (induction es) (auto split: if_splits)

lemma restamped_ok:
  assumes "cache_ok c" "rc_stamps c + 1 < stamp_bound" "map_of (rc_entries c) k = Some e"
  shows "cache_ok (c\<lparr>rc_stamps := next_stamp c, rc_entries := AList.update k (next_stamp c, v) (rc_entries c),
    rc_recency := filter (\<lambda>(s, k'). k' \<noteq> k) (rc_recency c) @ [(next_stamp c, k)]\<rparr>)"
proof (rule stamped_ok [OF assms(1,2) btree_filter_ok [OF cache_okD(3) [OF assms(1)]] _ cache_okD(2) [OF assms(1)]])
  show "length (AList.update k (next_stamp c, v) (rc_entries c)) \<le> rc_capacity c"
    using cache_okD(7) [OF assms(1)] assms(3) by (simp add: length_update_present)
qed (auto simp: recency_entry [OF assms(1)])

lemma touch_ok:
  assumes "cache_ok c" "rc_stamps c + 1 < stamp_bound" shows "cache_ok (touch k c)"
proof (cases "held c k")
  case None
  have "s \<le> next_stamp c" if "s \<in> fst ` set (rc_recency c)" for s
    using next_stamp_fresh(2) [OF assms] that by force
  moreover have "0 \<le> next_stamp c" using next_stamp_fresh(1) [OF assms] cache_okD(6) [OF assms(1)] by simp
  ultimately show ?thesis using assms(1) None unfolding touch_missing [OF None] cache_ok_def by simp
next
  case (Some v)
  then obtain previous where e: "map_of (rc_entries c) k = Some (previous, v)" by (auto simp: held_def)
  show ?thesis unfolding touch_present [OF assms e] by (rule restamped_ok [OF assms e])
qed

lemma cache_insert_ok:
  assumes "cache_ok c" "rc_stamps c + 1 < stamp_bound" shows "cache_ok (cache_insert k v c)"
proof (cases "held c k")
  case (Some old)
  then obtain previous where e: "map_of (rc_entries c) k = Some (previous, old)" by (auto simp: held_def)
  have "AList.update k (next_stamp c, v) (AList.update k (next_stamp c, old) (rc_entries c)) =
      AList.update k (next_stamp c, v) (rc_entries c)" for old
    by (induction "rc_entries c" rule: list.induct) auto
  then have "cache_insert k v c = c\<lparr>rc_stamps := next_stamp c, rc_entries := AList.update k (next_stamp c, v) (rc_entries c),
      rc_recency := filter (\<lambda>(s, k'). k' \<noteq> k) (rc_recency c) @ [(next_stamp c, k)]\<rparr>"
    using e by (simp add: cache_insert_def touch_present [OF assms e] update_conv' Let_def)
  then show ?thesis using restamped_ok [OF assms e] by simp
next
  case None
  have "btree_ok (kept_recency c)"
    using cache_okD(3) [OF assms(1)] by (simp add: btree_ok_def kept_recency_def sorted_wrt_drop drop_map [symmetric])
  moreover have "(s, j) \<in> set (kept_recency c) \<longleftrightarrow> j \<noteq> k \<and> (\<exists>v. map_of (kept_entries c) j = Some (s, v))" for s j
  proof -
    have "k \<notin> snd ` set (kept_recency c)" using None held_none_iff [OF assms(1)] kept_recency_subset [of c] by auto
    then have "(s, k) \<notin> set (kept_recency c)" for s by force
    then show ?thesis using kept_entry [OF assms(1)] by blast
  qed
  moreover have "length (AList.update k (next_stamp c, v) (kept_entries c)) \<le> rc_capacity c"
    using kept_entries_ok(2) [OF assms(1)] length_update_missing [of "kept_entries c" k]
      length_update_present [of "kept_entries c" k]
    by (cases "map_of (kept_entries c) k") simp_all
  ultimately show ?thesis
    unfolding insert_new [OF assms None]
    by (intro stamped_ok [OF assms] image_mono kept_recency_subset kept_entries_ok(1) [OF assms(1)])
qed

section \<open>Any sequence of uses\<close>

datatype 'v cache_op = Look i64 | Remember i64 'v

fun cache_perform :: "'v cache_op \<Rightarrow> 'v run_cache \<Rightarrow> 'v run_cache" where
  "cache_perform (Look k) c = fst (cache_get k c)"
| "cache_perform (Remember k v) c = cache_insert k v c"

fun lru_perform :: "nat \<Rightarrow> 'v cache_op \<Rightarrow> (i64 \<times> 'v) list \<Rightarrow> (i64 \<times> 'v) list" where
  "lru_perform capacity (Look k) xs = lru_touch k xs"
| "lru_perform capacity (Remember k v) xs = lru_insert capacity k v xs"

lemma with_capacity_ok: "cache_ok (with_capacity n)"
  by (simp add: cache_ok_def with_capacity_def btree_ok_def)

lemma in_use_order_with_capacity [simp]: "in_use_order (with_capacity n) = []"
  by (simp add: in_use_order_def with_capacity_def)

lemma insert_refines:
  "cache_ok c \<Longrightarrow> rc_stamps c + 1 < stamp_bound \<Longrightarrow>
    in_use_order (cache_insert k v c) = lru_insert (rc_capacity c) k v (in_use_order c)"
  by (cases "held c k = None") (simp_all add: insert_new_refines insert_held_refines)

lemma touch_stamps [simp]: "rc_stamps (touch k c) = next_stamp c" "rc_capacity (touch k c) = rc_capacity c"
  by (auto simp: touch_def Let_def split: option.split)

lemma insert_stamps [simp]: "rc_stamps (cache_insert k v c) = next_stamp c" "rc_capacity (cache_insert k v c) = rc_capacity c"
  by (auto simp: cache_insert_def Let_def split: option.split prod.split)

lemma cache_perform_step:
  assumes "cache_ok c" "rc_stamps c + 1 < stamp_bound"
  shows "cache_ok (cache_perform op c)" "rc_stamps (cache_perform op c) = rc_stamps c + 1"
    "rc_capacity (cache_perform op c) = rc_capacity c"
    "in_use_order (cache_perform op c) = lru_perform (rc_capacity c) op (in_use_order c)"
  using touch_ok [OF assms] cache_insert_ok [OF assms] touch_refines [OF assms] insert_refines [OF assms]
    next_stamp_fresh(1) [OF assms]
  by (cases op; simp add: cache_get_def Let_def)+

lemma cache_performs:
  assumes "cache_ok c" "rc_stamps c + int (length ops) < stamp_bound"
  shows "cache_ok (fold cache_perform ops c) \<and> rc_capacity (fold cache_perform ops c) = rc_capacity c \<and>
    in_use_order (fold cache_perform ops c) = fold (lru_perform (rc_capacity c)) ops (in_use_order c)"
  using assms
proof (induction ops arbitrary: c)
  case (Cons op ops)
  have "rc_stamps c + 1 < stamp_bound" using Cons.prems(2) by simp
  note step = cache_perform_step [OF Cons.prems(1) this, of op]
  have "rc_stamps (cache_perform op c) + int (length ops) < stamp_bound" using Cons.prems(2) step(2) by simp
  from Cons.IH [OF step(1) this] show ?case using step by simp
qed simp

section \<open>What a memo is relied on for\<close>

text \<open>
  A client that derives what it does not find relies on one thing: a lookup gives
  nothing, or what was last remembered for that run. Nothing is promised about what is
  still held, and no bound on the number of uses is needed.
\<close>

locale run_memo =
  fixes look :: "'c \<Rightarrow> i64 \<Rightarrow> 'c \<times> 'v option"
    and remember :: "'c \<Rightarrow> i64 \<Rightarrow> 'v \<Rightarrow> 'c"
    and held_in :: "'c \<Rightarrow> i64 \<rightharpoonup> 'v"
  assumes look_gives: "snd (look c k) = held_in c k"
    and look_keeps: "held_in (fst (look c k)) j = Some v \<Longrightarrow> held_in c j = Some v"
    and remember_keeps: "held_in (remember c k v) j = Some w \<Longrightarrow> (if j = k then w = v else held_in c j = Some w)"
begin

definition faithful :: "(i64 \<Rightarrow> 'v) \<Rightarrow> 'c \<Rightarrow> bool" where
  "faithful f c \<longleftrightarrow> (\<forall>k v. held_in c k = Some v \<longrightarrow> v = f k)"

lemma look_faithful:
  assumes "faithful f c" "look c k = (c1, r)"
  shows "faithful f c1" "r = Some v \<Longrightarrow> v = f k"
  using assms look_keeps [of c k] look_gives [of c k] by (auto simp: faithful_def)

lemma remember_faithful:
  assumes "faithful f c" "\<And>j. j \<noteq> k \<Longrightarrow> g j = f j" "g k = v"
  shows "faithful g (remember c k v)"
  unfolding faithful_def
proof (intro allI impI)
  fix j w assume "held_in (remember c k v) j = Some w"
  from remember_keeps [OF this] show "w = g j" using assms by (auto simp: faithful_def split: if_splits)
qed

lemma faithful_cong: "faithful f c \<Longrightarrow> (\<And>k. g k = f k) \<Longrightarrow> faithful g c"
  by (simp add: faithful_def)

end

lemma evict_held: "map_of (snd (evict n rs es)) j = Some e \<Longrightarrow> map_of es j = Some e"
  by (induction n rs es rule: evict.induct) (auto simp: delete_conv' split: if_splits)

lemma insert_held:
  "held (cache_insert k v c) j = Some w \<Longrightarrow> (if j = k then w = v else held c j = Some w)"
proof (cases "held c k")
  case None
  then obtain rs es where e: "evict (rc_capacity c) (rc_recency c) (rc_entries c) = (rs, es)"
    by (cases "evict (rc_capacity c) (rc_recency c) (rc_entries c)")
  assume "held (cache_insert k v c) j = Some w"
  then show ?thesis
    using None evict_held [of "rc_capacity c" "rc_recency c" "rc_entries c" j]
    by (auto simp: cache_insert_def held_def e Let_def update_conv' split: if_splits)
next
  case (Some old)
  then have "held (touch k c) k = Some old" by (simp add: touch_held)
  then obtain s where s: "map_of (rc_entries (touch k c)) k = Some (s, old)" by (auto simp: held_def)
  assume *: "held (cache_insert k v c) j = Some w"
  have "held (cache_insert k v c) j = (if j = k then Some v else held (touch k c) j)"
    using Some s by (auto simp: cache_insert_def held_def Let_def update_conv')
  with * show ?thesis by (simp add: touch_held split: if_splits)
qed

lemma cache_get_held: "snd (cache_get k c) = held c k" "held (fst (cache_get k c)) = held c"
  using touch_held [of k c] by (simp_all add: cache_get_def Let_def held_def fun_eq_iff)

interpretation cache: run_memo "\<lambda>c k. cache_get k c" "\<lambda>c k v. cache_insert k v c" held
proof
  show "snd (cache_get k c) = held c k" for c k by (rule cache_get_held)
  show "held c j = Some v" if "held (fst (cache_get k c)) j = Some v" for c k j v
    using that by (simp add: cache_get_held)
  show "if j = k then w = v else held c j = Some w" if "held (cache_insert k v c) j = Some w" for c k v j w
    using that by (rule insert_held)
qed

lemma insert_gives: "held (cache_insert k v c) k = Some v"
proof (cases "held c k")
  case None
  then show ?thesis by (simp add: cache_insert_def held_def Let_def update_conv' split: prod.split)
next
  case (Some old)
  then have "held (touch k c) k = Some old" by (simp add: touch_held)
  then show ?thesis using Some by (auto simp: cache_insert_def held_def Let_def update_conv')
qed

lemma get_or_insert_with_value:
  "snd (get_or_insert_with k derive c) = (case held c k of Some v \<Rightarrow> v | None \<Rightarrow> derive ())"
proof (cases "held c k")
  case None
  then have "snd (get_or_insert_with k derive c) = the (held (cache_insert k (derive ()) c) k)"
    using insert_gives [of k "derive ()" c] by (auto simp: get_or_insert_with_def held_def Let_def)
  then show ?thesis using None by (simp add: insert_gives)
next
  case (Some v)
  then have "held (touch k c) k = Some v" by (simp add: touch_held)
  then show ?thesis using Some by (auto simp: get_or_insert_with_def held_def Let_def)
qed

end
