(* ===== verification/Ingest.thy ===== *)
theory Ingest
  imports Health Run_Cache Control_Plane
begin

text \<open>
  The single writer of reported facts (crates/agens-server/src/ingest/mod.rs). The
  channel is a parameter of nothing here: what is modelled is what the writer does with
  each fact it takes from it. \<open>touched\<close> is the store's read of the evidence ledger
  (\<open>touched_paths_for_run\<close>), whose tables belong to the session store.
\<close>

section \<open>Facts and their attribution\<close>

datatype ingest_fact =
    ToolResult tool_result_facts
  | FactTurnStarted
  | FactTurnEnded nat
  | FactContextExhausted
  | FactQuotaReached
  | FactCheckpoint reported_checkpoint
  | FactCheckpointExpired

fun fact_name :: "ingest_fact \<Rightarrow> string" where
  "fact_name (ToolResult facts) = ''tool_result''"
| "fact_name FactTurnStarted = ''turn_started''"
| "fact_name (FactTurnEnded tokens) = ''turn_ended''"
| "fact_name FactContextExhausted = ''context_exhausted''"
| "fact_name FactQuotaReached = ''quota_reached''"
| "fact_name (FactCheckpoint claim) = ''checkpoint''"
| "fact_name FactCheckpointExpired = ''checkpoint_expired''"

record reported_fact =
  re_run_id :: i64
  re_attempt_id :: "i64 option"
  re_turn :: i64
  re_now :: i64
  re_fact :: ingest_fact

record attribution =
  an_attempt_id :: "i64 option"
  an_turn :: i64

definition attribution_of :: "db \<Rightarrow> i64 \<Rightarrow> attribution option" where
  "attribution_of d run_id =
     map_option (\<lambda>a. \<lparr>an_attempt_id = at_session_attempt_id a, an_turn = at_n a\<rparr>)
       (last_opt (attempts_for_run d run_id))"

datatype ingest_rejection =
    NoSuchRun i64
  | NoLiveAttempt i64
  | StaleAttempt i64 "i64 option" "i64 option"
  | MalformedFact string
  | ChannelClosed
  | Backlogged
  | IngestStorage store_error

record accepted_fact =
  af_health :: run_health_row
  af_event_ids :: "i64 list"
  af_frozen_genesis_paths :: "string list option"
  af_signals :: "health_signal list"

definition check_attribution :: "db \<Rightarrow> reported_fact \<Rightarrow> ingest_rejection + unit" where
  "check_attribution d re =
     (if re_turn re < 0 then Inl (MalformedFact (''turn '' @ show_i64 (re_turn re) @ '' is negative''))
      else if load_run d (re_run_id re) = None then Inl (NoSuchRun (re_run_id re))
      else (case last_opt (attempts_for_run d (re_run_id re)) of
              None \<Rightarrow> Inl (NoLiveAttempt (re_run_id re))
            | Some a \<Rightarrow>
                if at_session_attempt_id a = re_attempt_id re then Inr ()
                else Inl (StaleAttempt (re_run_id re) (re_attempt_id re) (at_session_attempt_id a))))"

fun normalize :: "ingest_fact \<Rightarrow> observation" where
  "normalize (ToolResult facts) = from_tool_result facts"
| "normalize FactTurnStarted = TurnStarted"
| "normalize (FactTurnEnded tokens) = TurnEnded (case try_i64 (int tokens) of Some n \<Rightarrow> n | None \<Rightarrow> i64_max)"
| "normalize FactContextExhausted = ContextExhausted"
| "normalize FactQuotaReached = observation.QuotaReached"
| "normalize (FactCheckpoint claim) = observation.Checkpoint (rk_evidence_class claim) (rk_claims_progress claim)"
| "normalize FactCheckpointExpired = CheckpointExpired"

section \<open>Accepting a fact\<close>

definition replay_event :: "event_row \<Rightarrow> health_state \<Rightarrow> health_state" where
  "replay_event e s =
     (if ev_type e = worker_lost_event then mark_lost_reported s
      else (case from_event e of None \<Rightarrow> s | Some (ob, turn) \<Rightarrow> fst (fold_health turn ob s)))"

definition replay :: "db \<Rightarrow> i64 \<Rightarrow> health_state" where
  "replay d run_id = fold replay_event (events_for_run d run_id) default_health_state"

definition recompute :: "db \<Rightarrow> i64 \<Rightarrow> i64 \<Rightarrow> run_health_row" where
  "recompute d run_id now = snapshot run_id now (replay d run_id)"

definition state_for :: "db \<Rightarrow> health_state run_cache \<Rightarrow> i64 \<Rightarrow> health_state run_cache \<times> health_state" where
  "state_for d c run_id =
     (case cache_get run_id c of
        (c1, Some s) \<Rightarrow> (c1, s)
      | (c1, None) \<Rightarrow> (c1, replay d run_id))"

definition raise_signals ::
  "health_state \<Rightarrow> run_health_row \<Rightarrow> folded \<Rightarrow> health_thresholds \<Rightarrow> health_state \<times> health_signal list" where
  "raise_signals s health f thresholds =
     (let divergence = (case fo_divergent_path f of None \<Rightarrow> [] | Some path \<Rightarrow> [Divergence path]);
          uncomparable = (if fo_uncomparable_mutation f then [SignalUnrepresentableMutation] else [])
      in case (if hs_lost_reported s then None else detect_worker_lost health (hs_checkpoint s) thresholds) of
           None \<Rightarrow> (s, divergence @ uncomparable)
         | Some lost \<Rightarrow> (mark_lost_reported s, divergence @ uncomparable @ [lost]))"

fun signal_detail :: "health_signal \<Rightarrow> (string \<times> json) list" where
  "signal_detail (WorkerLost reason noop_turns) =
     [(''reason'', JString (lost_reason_str reason)), (''noop_turns'', JInt noop_turns)]"
| "signal_detail (Divergence path) =
     [(''reason'', JString ''path_outside_genesis_paths''), (''path'', JString path)]"
| "signal_detail SignalUnrepresentableMutation = [(''reason'', JString ''unrepresentable_path'')]"

definition signal_event :: "reported_fact \<Rightarrow> health_signal \<Rightarrow> event_row" where
  "signal_event re signal =
     \<lparr>ev_id = None, ev_run_id = Some (re_run_id re), ev_type = signal_event_type signal, ev_class = Infra,
      ev_payload = JText (JObject (insert_fields (signal_detail signal)
        [(''attempt_id'', json_opt JInt (re_attempt_id re))])),
      ev_ts = re_now re\<rparr>"

definition fact_event :: "reported_fact \<Rightarrow> bool \<Rightarrow> observation \<Rightarrow> event_row" where
  "fact_event re credited ob = to_event (re_run_id re) (re_attempt_id re) (re_turn re) (re_now re) credited ob"

text \<open>
  What one fact derives: the state it leaves, the paths it freezes, the row, the
  signals, and the entries to journal.
\<close>

record derived_fact =
  dv_state :: health_state
  dv_frozen :: "string list option"
  dv_health :: run_health_row
  dv_signals :: "health_signal list"
  dv_events :: "event_row list"

definition derive_fact ::
  "health_thresholds \<Rightarrow> string list option \<Rightarrow> reported_fact \<Rightarrow> folded \<Rightarrow> health_state \<Rightarrow> derived_fact" where
  "derive_fact thresholds frozen re f s =
     (let ob = normalize (re_fact re);
          s1 = (case frozen of None \<Rightarrow> s
                | Some paths \<Rightarrow> fst (fold_health (re_turn re) (GenesisPathsFrozen paths) s));
          freeze = (case frozen of None \<Rightarrow> [] | Some paths \<Rightarrow> [fact_event re False (GenesisPathsFrozen paths)]);
          health = snapshot (re_run_id re) (re_now re) s1
      in case raise_signals s1 health f thresholds of
           (s2, signals) \<Rightarrow>
             \<lparr>dv_state = s2, dv_frozen = frozen, dv_health = health, dv_signals = signals,
              dv_events = fact_event re (fo_credited_progress f) ob # freeze @ map (signal_event re) signals\<rparr>)"

definition ingest_write_of :: "reported_fact \<Rightarrow> derived_fact \<Rightarrow> ingest_write" where
  "ingest_write_of re x =
     \<lparr>iw_run_id = re_run_id re, iw_health = dv_health x,
      iw_freeze_genesis_paths = map_option (\<lambda>paths. JText (JArray (map JString paths))) (dv_frozen x),
      iw_charge_attempt_tokens =
        (case normalize (re_fact re) of
           TurnEnded tokens \<Rightarrow> if 0 < tokens then Some tokens else None
         | _ \<Rightarrow> None),
      iw_events = dv_events x\<rparr>"

definition frozen_paths :: "(i64 \<Rightarrow> store_error + string list) \<Rightarrow> i64 \<Rightarrow> folded \<Rightarrow> store_error + string list option" where
  "frozen_paths touched run_id f =
     (if fo_freeze_due f
      then and_then (touched run_id) (\<lambda>paths. Inr (if paths = [] then None else Some paths))
      else Inr None)"

type_synonym ingest = "db \<times> health_state run_cache"

definition accept ::
  "health_thresholds \<Rightarrow> (i64 \<Rightarrow> store_error + string list) \<Rightarrow> reported_fact \<Rightarrow> ingest \<Rightarrow>
   ingest \<times> (ingest_rejection + accepted_fact)" where
  "accept thresholds touched re x =
     (case x of (d, c) \<Rightarrow>
        (case check_attribution d re of
           Inl e \<Rightarrow> ((d, c), Inl e)
         | Inr _ \<Rightarrow>
             (case state_for d c (re_run_id re) of (c1, s) \<Rightarrow>
             (case fold_health (re_turn re) (normalize (re_fact re)) s of (s1, f) \<Rightarrow>
             (case frozen_paths touched (re_run_id re) f of
                Inl e \<Rightarrow> ((d, c1), Inl (IngestStorage e))
              | Inr frozen \<Rightarrow>
                  (let v = derive_fact thresholds frozen re f s1
                   in case apply_ingest d (ingest_write_of re v) of
                        (d1, Inl e) \<Rightarrow> ((d1, c1), Inl (IngestStorage e))
                      | (d1, Inr out) \<Rightarrow>
                          ((d1, cache_insert (re_run_id re) (dv_state v) c1),
                           Inr \<lparr>af_health = dv_health v, af_event_ids = io_event_ids out,
                                af_frozen_genesis_paths = dv_frozen v, af_signals = dv_signals v\<rparr>)))))))"

text \<open>Draining the channel: every fact that is queued, each with what became of it.\<close>

fun drain ::
  "health_thresholds \<Rightarrow> (i64 \<Rightarrow> store_error + string list) \<Rightarrow> reported_fact list \<Rightarrow> ingest \<Rightarrow>
   ingest \<times> (reported_fact \<times> (ingest_rejection + accepted_fact)) list" where
  "drain thresholds touched [] x = (x, [])"
| "drain thresholds touched (re # res) x =
     (case accept thresholds touched re x of (x1, outcome) \<Rightarrow>
     (case drain thresholds touched res x1 of (x2, rest) \<Rightarrow> (x2, (re, outcome) # rest)))"

section \<open>A refused report\<close>

record refused_report =
  rp_rejection :: ingest_rejection
  rp_fact :: reported_fact

type_synonym backlog_notice = bool

definition observe_refusal ::
  "backlog_notice \<Rightarrow> refused_report option \<Rightarrow> backlog_notice \<times> refused_report option" where
  "observe_refusal standing refused =
     (case refused of
        None \<Rightarrow> (False, None)
      | Some r \<Rightarrow>
          if rp_rejection r \<noteq> Backlogged then (standing, None)
          else (True, if standing then None else Some r))"

definition backlogged_event :: "string \<Rightarrow> refused_report \<Rightarrow> event_row" where
  "backlogged_event reporter r =
     \<lparr>ev_id = None, ev_run_id = Some (re_run_id (rp_fact r)), ev_type = ''ingest_backlogged'', ev_class = Infra,
      ev_payload = JText (JObject
        [(''reporter'', JString reporter), (''fact'', JString (fact_name (re_fact (rp_fact r)))),
         (''attempt_id'', json_opt JInt (re_attempt_id (rp_fact r))), (''turn'', JInt (re_turn (rp_fact r)))]),
      ev_ts = re_now (rp_fact r)\<rparr>"

end
