(* ===== verification/Derived_Health.thy ===== *)
theory Derived_Health
  imports Ingest History
begin

text \<open>
  Health is derived, never a source of truth: the state the writer keeps for a run is the
  one its journal folds to, whatever else the daemon writes in between, so the row that is
  stored is the row a replay computes.
\<close>

section \<open>Who writes which entries\<close>

definition adds_only :: "(string \<Rightarrow> bool) \<Rightarrow> db \<Rightarrow> db \<Rightarrow> bool" where
  "adds_only P d d' \<longleftrightarrow> (\<exists>es. db_events d' = db_events d @ es \<and> (\<forall>e \<in> set es. P (ev_type e)))"

lemma adds_only_same [intro]: "db_events d' = db_events d \<Longrightarrow> adds_only P d d'"
  by (simp add: adds_only_def)

lemma adds_only_refl [simp]: "adds_only P d d"
  by (simp add: adds_only_def)

lemma types_numbered: "ev_type ` set (number_events s es) = ev_type ` set es"
  by (metis list.set_map map_ev_type_number)

lemma transition_tx_adds:
  assumes "transition_tx w d = Inr (d', out)" "\<forall>e \<in> set (tw_events w). P (ev_type e)"
  shows "adds_only P d d'"
proof -
  have "ev_type ` set (number_events s (map (filled_event q) (tw_events w))) = ev_type ` set (tw_events w)" for s q
    unfolding types_numbered by (simp add: image_image)
  then show ?thesis
    unfolding adds_only_def transition_tx_journal(1) [OF assms(1)]
    using assms(2) by (intro exI conjI) (rule refl, metis image_eqI image_iff)
qed

definition ingest_event_types :: "string list" where
  "ingest_event_types =
     [''tool_result_fact'', ''turn_started'', ''turn_ended'', ''context_exhausted'', ''quota_parked'',
      ''checkpoint_recorded'', ''checkpoint_expired'', ''genesis_paths_frozen'', worker_lost_event]"

definition other_type :: "string \<Rightarrow> bool" where
  "other_type t \<longleftrightarrow> t \<notin> set ingest_event_types"

text \<open>The machines' own entries never look like the harness's.\<close>

lemma machine_types:
  "other_type run_state_changed"
  "t \<in> set run_transitions \<Longrightarrow> other_type (rt_domain_event t)"
  "wt \<in> set worktree_transitions \<Longrightarrow> other_type (wt_domain_event wt)"
  "qt \<in> set question_transitions \<Longrightarrow> other_type (qt_domain_event qt)"
proof -
  show "other_type run_state_changed"
    by (simp add: other_type_def ingest_event_types_def worker_lost_event_def run_state_changed_def)
  show "t \<in> set run_transitions \<Longrightarrow> other_type (rt_domain_event t)"
    by (auto simp: run_transitions_def cancellation_def other_type_def ingest_event_types_def worker_lost_event_def)
  show "wt \<in> set worktree_transitions \<Longrightarrow> other_type (wt_domain_event wt)"
    by (auto simp: worktree_transitions_def other_type_def ingest_event_types_def worker_lost_event_def)
  show "qt \<in> set question_transitions \<Longrightarrow> other_type (qt_domain_event qt)"
    by (auto simp: question_transitions_def other_type_def ingest_event_types_def worker_lost_event_def)
qed

lemma other_transition_event:
  "e \<in> set (transition_events m det) \<Longrightarrow> other_type (jm_domain_event m) \<Longrightarrow> other_type (ev_type e)"
  using machine_types(1) by (auto simp: transition_events_def)

text \<open>
  An operation of another writer: any but the ingest's own, whose caller's entries, where
  it takes some, are not the harness's either.
\<close>

fun foreign :: "cp_op \<Rightarrow> bool" where
  "foreign (OpenAsk q es) \<longleftrightarrow> (\<forall>e \<in> set es. other_type (ev_type e))"
| "foreign (SettleMerge s) \<longleftrightarrow> other_type (ev_type (ms_verdict s)) \<and> other_type (ev_type (ms_merged s))"
| "foreign (Journal es) \<longleftrightarrow> (\<forall>e \<in> set es. other_type (ev_type e))"
| "foreign (AppendEvent e) \<longleftrightarrow> other_type (ev_type e)"
| "foreign (cp_op.Checkpoint e fs) \<longleftrightarrow> other_type (ev_type e)"
| "foreign (cp_op.Ingest w) \<longleftrightarrow> False"
| "foreign op \<longleftrightarrow> True"

lemma worktree_events_types:
  "t \<in> set worktree_transitions \<Longrightarrow> e \<in> set (worktree_events i n run s t tr) \<Longrightarrow> other_type (ev_type e)"
  unfolding worktree_events_def by (erule other_transition_event) (simp add: machine_types)

lemma question_events_types:
  "t \<in> set question_transitions \<Longrightarrow> e \<in> set (question_events i n q t tr a) \<Longrightarrow> other_type (ev_type e)"
  unfolding question_events_def by (erule other_transition_event) (simp add: machine_types)

lemma settle_merge_adds:
  assumes "foreign (SettleMerge s)" shows "adds_only other_type d (fst (settle_merge d s))"
proof (rule settle_merge_cases [of d s])
  fix q run approval release d' and out :: transition_outcome and m
  assume app: "deliverable q (settlement_facts s) = Inr approval"
    and rel: "releasable run (ms_now s) (ms_worktree_clean s) = Inr release"
    and tx: "transition_tx (settlement_write s approval release) d = Inr (d', out)"
    and res: "settle_merge d s = (d', Inr m)"
  have "e \<in> set (pt_events approval) \<Longrightarrow> other_type (ev_type e)" for e
    using app by (elim deliverableE) (simp add: question_events_types)
  moreover have "release = Some r \<Longrightarrow> e \<in> set (pt_events r) \<Longrightarrow> other_type (ev_type e)" for r e
    using releasableE [of run "ms_now s" "ms_worktree_clean s" r] rel worktree_events_types by metis
  ultimately have "\<forall>e \<in> set (tw_events (settlement_write s approval release)). other_type (ev_type e)"
    using assms by (auto simp: settlement_write_def settlement_events_def empty_write_def split: option.splits)
  from transition_tx_adds [OF tx this] show ?thesis by (simp add: res)
qed auto

lemma perform_adds:
  assumes "foreign op" shows "adds_only other_type d (perform op d)"
proof (cases op)
  case (OpenAsk q es)
  show ?thesis unfolding OpenAsk perform.simps
    by (rule open_question_cases [of d q es])
      (use assms OpenAsk in \<open>auto dest!: transition_tx_adds [where P = other_type] simp: empty_write_def\<close>)
next
  case (MoveRun i tr f)
  show ?thesis unfolding MoveRun perform.simps
    by (rule apply_run_cases [of d i tr f])
      (auto intro!: transition_tx_adds simp: run_write_def machine_types elim!: other_transition_event)
next
  case (MoveWorktree i tr f)
  show ?thesis unfolding MoveWorktree perform.simps
    by (rule apply_worktree_cases [of d i tr f])
      (auto intro!: transition_tx_adds simp: worktree_write_def empty_write_def worktree_events_types)
next
  case (MoveQuestion i tr f)
  show ?thesis unfolding MoveQuestion perform.simps
    by (rule apply_question_cases [of d i tr f])
      (auto intro!: transition_tx_adds simp: question_write_def empty_write_def question_events_types)
next
  case (SettleMerge s)
  then show ?thesis using settle_merge_adds assms by simp
next
  case (Journal es)
  let ?w = "empty_write (case es of [] \<Rightarrow> 0 | e # _ \<Rightarrow> case_option 0 id (ev_run_id e)) es"
  have "fst (journal d es) = fst (apply_transition d ?w)" by (auto simp: journal_def split: prod.splits sum.splits)
  moreover have "adds_only other_type d (fst (apply_transition d ?w))"
  proof (cases "transition_tx ?w d")
    case (Inr x)
    then obtain d' out where "transition_tx ?w d = Inr (d', out)" by (cases x) auto
    from this transition_tx_adds [OF this, of other_type] show ?thesis
      using assms Journal by (simp add: apply_transition_def empty_write_def)
  qed (auto simp: apply_transition_def)
  ultimately show ?thesis using Journal by simp
next
  case (AppendEvent e)
  then show ?thesis using assms
    by (cases "append_event_row d e") (auto simp: append_event_def adds_only_def dest: append_event_rowE(1))
next
  case (Checkpoint e fs)
  show ?thesis unfolding Checkpoint perform.simps
    by (rule record_checkpoint_cases [of d e fs])
      (use assms Checkpoint in \<open>auto simp: adds_only_def dest!: append_event_rowE(1) write_findings_tables\<close>)
qed (use assms in \<open>auto simp: open_run_events correlate_events\<close>)

section \<open>Replaying\<close>

lemma replay_event_id [simp]: "replay_event (e\<lparr>ev_id := i\<rparr>) s = replay_event e s"
  by (simp add: replay_event_def from_event_def)

lemma replay_other: "other_type (ev_type e) \<Longrightarrow> replay_event e s = s"
  by (cases "from_str (ev_payload e)")
    (simp_all add: replay_event_def from_event_def read_observation_def other_type_def ingest_event_types_def)

lemma replay_others: "\<forall>e \<in> set es. other_type (ev_type e) \<Longrightarrow> fold replay_event (filter p es) s = s"
  by (induction es arbitrary: s) (auto simp: replay_other)

lemma replay_numbered:
  "fold replay_event (filter (\<lambda>e. ev_run_id e = Some i) (number_events n es)) s =
   fold replay_event (filter (\<lambda>e. ev_run_id e = Some i) es) s"
  by (induction es arbitrary: s n) auto

lemma replay_filter:
  "db_wf d \<Longrightarrow> replay d i = fold replay_event (filter (\<lambda>e. ev_run_id e = Some i) (db_events d)) default_health_state"
  unfolding replay_def events_for_run_def by (subst events.select_by_id) (simp_all add: db_wf_def)

lemma replay_append:
  assumes "db_wf d" "db_wf d'" "db_events d' = db_events d @ es"
  shows "replay d' i = fold replay_event (filter (\<lambda>e. ev_run_id e = Some i) es) (replay d i)"
  using assms by (simp add: replay_filter)

lemma replay_foreign:
  assumes "db_wf d" "db_wf d'" "adds_only other_type d d'" shows "replay d' i = replay d i"
proof -
  from assms(3) obtain es where "db_events d' = db_events d @ es" "\<forall>e \<in> set es. other_type (ev_type e)"
    by (auto simp: adds_only_def)
  then show ?thesis using replay_append [OF assms(1,2)] replay_others by simp
qed

section \<open>One accepted fact\<close>

definition fact_fits :: "reported_fact \<Rightarrow> bool" where
  "fact_fits re \<longleftrightarrow> fits_i64 (re_turn re) \<and>
     (case re_fact re of ToolResult (BashFacts oc (Some code)) \<Rightarrow> fits_i64 code | _ \<Rightarrow> True)"

lemma normalize_fits: "fact_fits re \<Longrightarrow> observation_fits (normalize (re_fact re))"
proof (cases "re_fact re")
  case (ToolResult facts)
  have "observation_fits (mutation path)" for path by (simp add: mutation_def split: option.split)
  then show "fact_fits re \<Longrightarrow> ?thesis"
    using ToolResult by (cases facts rule: from_tool_result.cases) (simp_all add: fact_fits_def)
next
  case (FactTurnEnded tokens)
  then show ?thesis by (simp add: try_i64_def fits_i64_def i64_max_def i64_min_def)
qed simp_all

lemma replay_fact_event:
  assumes "observation_fits ob" "fits_i64 (re_turn re)"
  shows "replay_event (fact_event re credited ob) s = fst (fold_health (re_turn re) ob s)"
proof -
  have "ev_type (fact_event re credited ob) \<noteq> worker_lost_event"
    by (cases ob) (simp_all add: fact_event_def to_event_def worker_lost_event_def)
  then show ?thesis
    by (simp add: replay_event_def) (simp add: fact_event_def from_to_event [OF assms])
qed

lemma replay_signal_event:
  "replay_event (signal_event re signal) s = (case signal of WorkerLost reason n \<Rightarrow> mark_lost_reported s | _ \<Rightarrow> s)"
  by (cases signal)
    (simp_all add: replay_event_def signal_event_def worker_lost_event_def from_event_def read_observation_def)

lemma raise_signals_replay:
  "fold replay_event (map (signal_event re) (snd (raise_signals s health f thresholds))) s =
   fst (raise_signals s health f thresholds)"
proof -
  let ?lost = "if hs_lost_reported s then None else detect_worker_lost health (hs_checkpoint s) thresholds"
  have quiet: "fold replay_event (map (signal_event re) (case fo_divergent_path f of None \<Rightarrow> [] | Some path \<Rightarrow> [Divergence path])) s = s"
    "fold replay_event (map (signal_event re) (if b then [SignalUnrepresentableMutation] else [])) s = s" for b
    by (simp_all add: replay_signal_event split: option.split)
  have "\<exists>reason n. lost = WorkerLost reason n" if "?lost = Some lost" for lost
    using that by (auto simp: detect_worker_lost_def split: if_splits)
  then show ?thesis
    by (cases ?lost) (fastforce simp: raise_signals_def Let_def quiet replay_signal_event)+
qed

lemma derive_fact_replay:
  assumes "observation_fits (normalize (re_fact re))" "fits_i64 (re_turn re)"
    and "fold_health (re_turn re) (normalize (re_fact re)) s = (s1, f)"
  shows "fold replay_event (dv_events (derive_fact thresholds frozen re f s1)) s = dv_state (derive_fact thresholds frozen re f s1)"
  using assms raise_signals_replay
  by (cases frozen)
    (simp_all add: derive_fact_def Let_def replay_fact_event case_prod_beta)

lemma derive_fact_runs:
  "e \<in> set (dv_events (derive_fact thresholds frozen re f s)) \<Longrightarrow> ev_run_id e = Some (re_run_id re)"
  by (auto simp: derive_fact_def Let_def fact_event_def to_event_def signal_event_def case_prod_beta split: option.splits)

lemma derive_fact_health:
  "dv_health (derive_fact thresholds frozen re f s) =
    snapshot (re_run_id re) (re_now re) (dv_state (derive_fact thresholds frozen re f s))"
  by (auto simp: derive_fact_def Let_def raise_signals_def mark_lost_reported_def snapshot_def split: option.split)

text \<open>How accepting a fact ends.\<close>

lemma accept_cases:
  obtains (refused) e where "accept thresholds touched re (d, c) = ((d, c), Inl e)"
  | (failed) e where "accept thresholds touched re (d, c) = ((d, fst (cache_get (re_run_id re) c)), Inl e)"
  | (accepted) s s1 f frozen v d1 out where
      "check_attribution d re = Inr ()" "snd (state_for d c (re_run_id re)) = s"
      "fold_health (re_turn re) (normalize (re_fact re)) s = (s1, f)"
      "frozen_paths touched (re_run_id re) f = Inr frozen"
      "v = derive_fact thresholds frozen re f s1" "apply_ingest d (ingest_write_of re v) = (d1, Inr out)"
      "accept thresholds touched re (d, c) =
        ((d1, cache_insert (re_run_id re) (dv_state v) (fst (cache_get (re_run_id re) c))),
         Inr \<lparr>af_health = dv_health v, af_event_ids = io_event_ids out,
              af_frozen_genesis_paths = dv_frozen v, af_signals = dv_signals v\<rparr>)"
proof (cases "check_attribution d re")
  case (Inl e)
  then show ?thesis using refused by (simp add: accept_def)
next
  case att: (Inr u)
  obtain s where sf: "state_for d c (re_run_id re) = (fst (cache_get (re_run_id re) c), s)"
    by (cases "cache_get (re_run_id re) c"; cases "snd (cache_get (re_run_id re) c)") (simp_all add: state_for_def)
  obtain s1 f where fold: "fold_health (re_turn re) (normalize (re_fact re)) s = (s1, f)" by (meson surj_pair)
  show ?thesis
  proof (cases "frozen_paths touched (re_run_id re) f")
    case (Inl e)
    then show ?thesis using failed by (simp add: accept_def att sf fold)
  next
    case (Inr frozen)
    let ?v = "derive_fact thresholds frozen re f s1"
    show ?thesis
    proof (cases "apply_ingest d (ingest_write_of re ?v)")
      case (Pair d1 r)
      show ?thesis
      proof (cases r)
        case (Inl e)
        then have "d1 = d" using Pair by (auto simp: apply_ingest_def commit_Inl_iff)
        then show ?thesis using failed Pair Inl by (simp add: accept_def att sf fold \<open>frozen_paths _ _ _ = _\<close> Let_def)
      next
        case (Inr out)
        then show ?thesis using accepted [OF _ _ fold \<open>frozen_paths _ _ _ = _\<close> refl] att sf Pair
          by (simp add: accept_def fold \<open>frozen_paths _ _ _ = _\<close> Let_def)
      qed
    qed
  qed
qed

definition coherent :: "ingest \<Rightarrow> bool" where
  "coherent x \<longleftrightarrow> db_wf (fst x) \<and> cache.faithful (replay (fst x)) (snd x)"

lemma new_coherent: "db_wf d \<Longrightarrow> coherent (d, with_capacity n)"
  by (simp add: coherent_def cache.faithful_def held_def with_capacity_def)

lemma state_for_replays:
  "coherent (d, c) \<Longrightarrow> snd (state_for d c i) = replay d i"
  using cache.look_faithful(2) [of "replay d" c i]
  by (cases "cache_get i c"; cases "snd (cache_get i c)") (auto simp: state_for_def coherent_def)

lemma looked_coherent: "coherent (d, c) \<Longrightarrow> coherent (d, fst (cache_get i c))"
  using cache.look_faithful(1) [of "replay d" c i] by (cases "cache_get i c") (simp add: coherent_def)

text \<open>The row and the journal a write of this form leaves.\<close>

lemma apply_ingest_writes:
  assumes "apply_ingest d w = (d1, Inr out)"
  shows "db_events d1 = db_events d @ number_events (next_event_id d) (iw_events w)"
    and "load_run_health d1 (rh_run_id (iw_health w)) = Some (iw_health w)"
proof (rule_tac [!] apply_ingest_cases [of d w])
  fix d1' b d2 d3 d4 ids
  assume 1: "freeze_genesis (iw_run_id w) (iw_freeze_genesis_paths w) d = Inr (d1', b)"
    and 2: "charge_tokens (iw_run_id w) (iw_charge_attempt_tokens w) d1' = Inr d2"
    and 3: "record_run_health_row d2 (iw_health w) = Inr d3"
    and 4: "write_events None (iw_events w) d3 = Inr (d4, ids)"
    and res: "apply_ingest d w = (d4, Inr \<lparr>io_event_ids = ids, io_genesis_paths_frozen = b\<rparr>)"
  have d4: "d4 = d1" using res assms by simp
  have "db_events d3 = db_events d"
    using freeze_genesis_quiet(3) [OF 1] charge_tokens_tables(3) [OF 2] record_run_health_row_tables(3) [OF 3] by simp
  moreover have "filled_event None = id" by auto
  ultimately show "db_events d1 = db_events d @ number_events (next_event_id d) (iw_events w)"
    using write_eventsE [OF 4] by (auto simp: next_event_id_def d4)
  have "db_health d3 = sql_upsert rh_run_id (iw_health w) (db_health d2)"
    using 3 by (auto simp: record_run_health_row_def split: if_splits)
  moreover have "db_health d4 = db_health d3" using write_eventsE [OF 4] by simp
  ultimately show "load_run_health d1 (rh_run_id (iw_health w)) = Some (iw_health w)"
    unfolding load_run_health_def d4 [symmetric] by (simp add: load_upserted)
qed (use assms in auto)

lemma accept_coherent:
  assumes "coherent (d, c)" "fact_fits re"
  shows "coherent (fst (accept thresholds touched re (d, c)))"
    and "accept thresholds touched re (d, c) = ((d1, c1), Inr a) \<Longrightarrow>
      af_health a = recompute d1 (re_run_id re) (re_now re) \<and> load_run_health d1 (re_run_id re) = Some (af_health a)"
proof -
  let ?i = "re_run_id re" and ?r = "accept thresholds touched re (d, c)"
  have "coherent (fst ?r) \<and> (\<forall>a. snd ?r = Inr a \<longrightarrow>
      af_health a = recompute (fst (fst ?r)) ?i (re_now re) \<and> load_run_health (fst (fst ?r)) ?i = Some (af_health a))"
  proof (rule accept_cases [where thresholds = thresholds and touched = touched and re = re and d = d and c = c])
    fix s s1 f frozen v d1 out
    assume s: "snd (state_for d c ?i) = s" and fold: "fold_health (re_turn re) (normalize (re_fact re)) s = (s1, f)"
      and v: "v = derive_fact thresholds frozen re f s1" and wr: "apply_ingest d (ingest_write_of re v) = (d1, Inr out)"
      and res: "?r = ((d1, cache_insert ?i (dv_state v) (fst (cache_get ?i c))),
         Inr \<lparr>af_health = dv_health v, af_event_ids = io_event_ids out,
              af_frozen_genesis_paths = dv_frozen v, af_signals = dv_signals v\<rparr>)"
    have wf: "db_wf d" using assms(1) by (simp add: coherent_def)
    have wf1: "db_wf d1" using apply_ingest_wf [OF wf, of "ingest_write_of re v"] wr by simp
    have journal: "db_events d1 = db_events d @ number_events (next_event_id d) (dv_events v)"
      using apply_ingest_writes(1) [OF wr] by (simp add: ingest_write_of_def)
    have replay: "replay d1 j = fold replay_event (filter (\<lambda>e. ev_run_id e = Some j) (dv_events v)) (replay d j)" for j
      by (simp add: replay_append [OF wf wf1 journal] replay_numbered)
    have runs: "\<forall>e \<in> set (dv_events v). ev_run_id e = Some ?i" using v derive_fact_runs by blast
    have "filter (\<lambda>e. ev_run_id e = Some ?i) (dv_events v) = dv_events v" using runs by (simp add: filter_id_conv)
    moreover have "fits_i64 (re_turn re)" using assms(2) by (simp add: fact_fits_def)
    ultimately have own: "replay d1 ?i = dv_state v"
      using derive_fact_replay [OF normalize_fits [OF assms(2)] _ fold] state_for_replays [OF assms(1), of ?i] s
      by (simp add: replay v)
    have others: "replay d1 j = replay d j" if "j \<noteq> ?i" for j
    proof -
      have "filter (\<lambda>e. ev_run_id e = Some j) (dv_events v) = []" using runs that by (auto simp: filter_empty_conv)
      then show ?thesis by (simp add: replay)
    qed
    have "cache.faithful (replay d) (fst (cache_get ?i c))" using looked_coherent [OF assms(1)] by (simp add: coherent_def)
    then have "cache.faithful (replay d1) (cache_insert ?i (dv_state v) (fst (cache_get ?i c)))"
      by (rule cache.remember_faithful) (simp_all add: own others)
    moreover have "dv_health v = recompute d1 ?i (re_now re)"
      by (simp add: recompute_def own) (simp add: v derive_fact_health)
    moreover have "load_run_health d1 ?i = Some (dv_health v)"
      using apply_ingest_writes(2) [OF wr] by (simp add: ingest_write_of_def v derive_fact_health snapshot_def)
    ultimately show ?thesis by (simp add: res coherent_def wf1)
  qed (use assms(1) looked_coherent in auto)
  then show "coherent (fst ?r)" and "?r = ((d1, c1), Inr a) \<Longrightarrow>
      af_health a = recompute d1 ?i (re_now re) \<and> load_run_health d1 ?i = Some (af_health a)"
    by auto
qed

section \<open>The writer beside every other one\<close>

inductive ingesting :: "health_thresholds \<Rightarrow> ingest \<Rightarrow> bool" for thresholds where
  restart: "reachable d \<Longrightarrow> ingesting thresholds (d, with_capacity n)"
| fact: "ingesting thresholds x \<Longrightarrow> fact_fits re \<Longrightarrow>
    ingesting thresholds (fst (accept thresholds touched re x))"
| other: "ingesting thresholds (d, c) \<Longrightarrow> foreign op \<Longrightarrow> admissible op \<Longrightarrow>
    ingesting thresholds (perform op d, c)"

lemma accept_performs:
  obtains "fst (fst (accept thresholds touched re (d, c))) = d"
  | w where "fst (fst (accept thresholds touched re (d, c))) = perform (cp_op.Ingest w) d"
proof (rule accept_cases [where thresholds = thresholds and touched = touched and re = re and d = d and c = c])
  fix s s1 f frozen v d1 out
  assume "apply_ingest d (ingest_write_of re v) = (d1, Inr out)"
    and "accept thresholds touched re (d, c) =
        ((d1, cache_insert (re_run_id re) (dv_state v) (fst (cache_get (re_run_id re) c))),
         Inr \<lparr>af_health = dv_health v, af_event_ids = io_event_ids out,
              af_frozen_genesis_paths = dv_frozen v, af_signals = dv_signals v\<rparr>)"
  then show ?thesis by (intro that(2) [of "ingest_write_of re v"]) simp
qed (simp_all add: that(1))

lemma ingesting_coherent:
  assumes "ingesting thresholds x" shows "reachable (fst x) \<and> coherent x"
  using assms
proof induction
  case (restart d n)
  then show ?case by (simp add: new_coherent reachable_db_wf)
next
  case (fact x re touched)
  obtain d c where x: "x = (d, c)" by (cases x)
  have "reachable (fst (fst (accept thresholds touched re (d, c))))"
  proof (rule accept_performs [where thresholds = thresholds and touched = touched and re = re and d = d and c = c])
    fix w assume "fst (fst (accept thresholds touched re (d, c))) = perform (cp_op.Ingest w) d"
    then show ?thesis using fact.IH reachable.step [of d "cp_op.Ingest w"] by (simp add: x admissible_def)
  qed (use fact.IH x in simp)
  then show ?case using accept_coherent(1) [where d = d and c = c and re = re and thresholds = thresholds and touched = touched] fact by (simp add: x)
next
  case (other d c op)
  then have r: "reachable (perform op d)" by (simp add: reachable.step)
  from other.IH have "reachable d" and held: "cache.faithful (replay d) c" by (simp_all add: coherent_def)
  then have "replay (perform op d) i = replay d i" for i
    using replay_foreign [OF reachable_db_wf reachable_db_wf [OF r] perform_adds [OF other.hyps(2)]] by blast
  then have "cache.faithful (replay (perform op d)) c" by (rule cache.faithful_cong [OF held])
  then show ?case using r by (simp add: coherent_def reachable_db_wf)
qed

end
