(* ===== verification/Scenario_Facts.thy ===== *)
theory Scenario_Facts
  imports Scenario Derived_Health
begin

text \<open>
  Facts reported about the running run of \<open>Scenario\<close>: a file written, then a checkpoint
  that freezes the paths the evidence ledger holds.
\<close>

definition wrote_file :: reported_fact where
  "wrote_file = \<lparr>re_run_id = 1, re_attempt_id = None, re_turn = 3, re_now = 50,
     re_fact = ToolResult (WriteFacts (new_fact_path ''./src//a.rs'') Succeeded
       (Some \<lparr>wm_is_new_file = True, wm_bytes_written = 10, wm_lines_written = 1\<rparr>))\<rparr>"

definition claimed_progress :: reported_fact where
  "claimed_progress = \<lparr>re_run_id = 1, re_attempt_id = None, re_turn = 4, re_now = 60,
     re_fact = FactCheckpoint \<lparr>rk_evidence_class = Inferential, rk_claims_progress = True\<rparr>\<rparr>"

definition touched_one :: "i64 \<Rightarrow> store_error + string list" where
  "touched_one run_id = Inr [''src/a.rs'']"

definition fresh_ingest :: ingest where
  "fresh_ingest = (working_db, with_capacity 256)"

definition after_write :: ingest where
  "after_write = fst (accept default_health_thresholds touched_one wrote_file fresh_ingest)"

lemma facts_fit: "fact_fits wrote_file" "fact_fits claimed_progress"
  by (simp_all add: fact_fits_def wrote_file_def claimed_progress_def fits_i64_def i64_max_def i64_min_def)

lemma after_write_ingesting: "ingesting default_health_thresholds after_write"
  unfolding after_write_def fresh_ingest_def
  by (rule ingesting.fact [OF ingesting.restart [OF demo_reachable(2)] facts_fit(1)])

lemma checkpoint_accepted:
  "\<exists>y a. accept default_health_thresholds touched_one claimed_progress after_write = (y, Inr a)"
  by (rule is_inrD) code_simp

lemma health_after_checkpoint:
  "map (\<lambda>h. (rh_run_id h, rh_last_progress_turn h, rh_noop_turns h))
     (db_health (fst (fst (accept default_health_thresholds touched_one claimed_progress after_write)))) = [(1, Some 3, 0)]"
  by code_simp

end
