(* ===== verification/Loops.thy ===== *)
theory Loops
  imports Prelude
begin

text \<open>
  The loop the daemon's stages share: over rows read once, each iteration changes the
  state and adds to what is collected, and the first refusal (\<open>?\<close>) leaves the loop with
  the state as it is, what was collected so far being lost.
\<close>

fun try_each :: "('r \<Rightarrow> 's \<Rightarrow> 's \<times> ('e + 'a list)) \<Rightarrow> 'r list \<Rightarrow> 's \<Rightarrow> 's \<times> ('e + 'a list)" where
  "try_each f [] s = (s, Inr [])"
| "try_each f (r # rs) s =
     (case f r s of
        (s1, Inl e) \<Rightarrow> (s1, Inl e)
      | (s1, Inr xs) \<Rightarrow>
          (case try_each f rs s1 of
             (s2, Inl e) \<Rightarrow> (s2, Inl e)
           | (s2, Inr ys) \<Rightarrow> (s2, Inr (xs @ ys))))"

text \<open>What every iteration keeps, the loop keeps, refused or not.\<close>

lemma try_each_keeps:
  assumes "\<And>r s. r \<in> set rows \<Longrightarrow> P s \<Longrightarrow> P (fst (f r s))" "P s"
  shows "P (fst (try_each f rows s))"
  using assms
proof (induction rows arbitrary: s)
  case (Cons r rs)
  obtain s1 x where step: "f r s = (s1, x)" by (cases "f r s")
  have P1: "P s1" using Cons.prems(1) [of r s] Cons.prems(2) step by simp
  have "P (fst (try_each f rs s1))" by (rule Cons.IH [OF _ P1]) (simp add: Cons.prems(1))
  then show ?case using step P1
    by (cases x; cases "try_each f rs s1"; cases "snd (try_each f rs s1)") auto
qed simp

text \<open>
  A loop whose iterations all go through: \<open>I done s\<close> is what holds once the rows \<open>done\<close>
  have been handled.
\<close>

lemma try_each_goes_through:
  assumes step: "\<And>pre r post s out. rows = pre @ r # post \<Longrightarrow> I pre s out \<Longrightarrow>
      \<exists>s' xs. f r s = (s', Inr xs) \<and> I (pre @ [r]) s' (out @ xs)"
    and init: "I [] s []"
  shows "\<exists>s' out. try_each f rows s = (s', Inr out) \<and> I rows s' out"
proof -
  have "\<exists>s' xs. try_each f post s = (s', Inr xs) \<and> I rows s' (out @ xs)"
    if "rows = pre @ post" "I pre s out" for pre post s out
    using that
  proof (induction post arbitrary: pre s out)
    case (Cons r rs)
    obtain s1 xs where 1: "f r s = (s1, Inr xs)" "I (pre @ [r]) s1 (out @ xs)"
      using step [OF Cons.prems] by blast
    obtain s2 ys where 2: "try_each f rs s1 = (s2, Inr ys)" "I rows s2 ((out @ xs) @ ys)"
      using Cons.IH [of "pre @ [r]" s1 "out @ xs"] Cons.prems(1) 1(2) by auto
    show ?case by (intro exI [of _ s2] exI [of _ "xs @ ys"]) (use 1(1) 2 in simp)
  qed auto
  from this [of "[]" rows s "[]"] init show ?thesis by simp
qed

end
