(* ===== verification/Effects.thy ===== *)
theory Effects
  imports Loops
begin

text \<open>
  Code that reads and writes a state and may leave through \<open>?\<close>: a value is the state it
  leaves and either an error or a result, and \<open>on_ok\<close> goes on only from a result.
\<close>

definition on_ok :: "'s \<times> ('e + 'a) \<Rightarrow> ('a \<Rightarrow> 's \<Rightarrow> 's \<times> ('e + 'b)) \<Rightarrow> 's \<times> ('e + 'b)" where
  "on_ok m k = (case m of (s, Inl e) \<Rightarrow> (s, Inl e) | (s, Inr a) \<Rightarrow> k a s)"

definition map_err :: "('e \<Rightarrow> 'f) \<Rightarrow> 's \<times> ('e + 'a) \<Rightarrow> 's \<times> ('f + 'a)" where
  "map_err f m = (case m of (s, Inl e) \<Rightarrow> (s, Inl (f e)) | (s, Inr a) \<Rightarrow> (s, Inr a))"

lemma on_ok_simps [simp]: "on_ok (s, Inl e) k = (s, Inl e)" "on_ok (s, Inr a) k = k a s"
  by (simp_all add: on_ok_def)

lemma map_err_simps [simp]: "map_err f (s, Inl e) = (s, Inl (f e))" "map_err f (s, Inr a) = (s, Inr a)"
  by (simp_all add: map_err_def)

lemma fst_map_err [simp]: "fst (map_err f m) = fst m"
  by (cases m; cases "snd m") auto

lemma on_ok_InrE:
  assumes "on_ok m k = (s', Inr b)"
  obtains s a where "m = (s, Inr a)" "k a s = (s', Inr b)"
  using assms by (cases m; cases "snd m") auto

lemma map_err_InrE:
  assumes "map_err f m = (s', Inr b)" obtains "m = (s', Inr b)"
  using assms by (cases m; cases "snd m") auto

text \<open>What every step keeps, the sequence keeps.\<close>

lemma on_ok_keeps:
  assumes "P (fst m)" "\<And>a s. P s \<Longrightarrow> m = (s, Inr a) \<Longrightarrow> P (fst (k a s))"
  shows "P (fst (on_ok m k))"
  using assms by (cases m; cases "snd m") auto

end
