(* ===== verification/Gates.thy ===== *)
theory Gates
  imports Effects Settlement Run_Machine Text_Ops
begin

text \<open>
  The git gates (crates/agens-server/src/gates/mod.rs): what has to be true before work
  lands, and before a worktree is let go. Git is a parameter: what each of its calls
  answers, an error being the text it renders to, as is the digest of the \<open>sha2\<close> crate.
\<close>

section \<open>What git says\<close>

record gate_derivation =
  gd_branch :: "string option"
  gd_merge_base :: "string option"
  gd_head_tree :: string
  gd_merged :: bool
  gd_dirty :: bool
  gd_changed_paths :: "string list"

datatype merge_outcome = Merged string | Conflicted string

record git =
  gi_derive :: "string \<Rightarrow> string \<Rightarrow> string + gate_derivation"
  gi_merge :: "string \<Rightarrow> string \<Rightarrow> string + merge_outcome"
  gi_remove :: "string \<Rightarrow> string \<Rightarrow> string \<Rightarrow> string + unit"
  gi_is_dir :: "string \<Rightarrow> bool"
  gi_sha256 :: "string \<Rightarrow> string"

section \<open>Requests and verdicts\<close>

datatype merge_path = Integrate | Attested

fun merge_path_str :: "merge_path \<Rightarrow> string" where
  "merge_path_str Integrate = ''integrate''"
| "merge_path_str Attested = ''attested''"

record pre_merge_request =
  pm_run_id :: i64
  pm_approval_id :: i64
  pm_path :: merge_path
  pm_main_ref :: string
  pm_attempt_cap :: i64
  pm_now :: i64

record reclaim_request =
  rq_run_id :: i64
  rq_main_ref :: string
  rq_now :: i64

record receipt =
  rc_tree_hash :: string
  rc_paths_digest :: string

datatype sub_agent_kind = Integration | Cleanup

fun sub_agent_kind_str :: "sub_agent_kind \<Rightarrow> string" where
  "sub_agent_kind_str Integration = ''integration''"
| "sub_agent_kind_str Cleanup = ''cleanup''"

record sub_agent_request =
  sg_kind :: sub_agent_kind
  sg_run_id :: i64
  sg_worktree_path :: string
  sg_branch :: "string option"
  sg_detail :: string

datatype gate_refusal =
    NoWorktree
  | DetachedHead
  | UnrelatedHistory
  | WorktreeDirty
  | ApprovalMissing
  | NotAuthorized string
  | ApprovalExpired i64
  | ReceiptMissing
  | ReceiptStale receipt receipt
  | AttemptsExhausted i64 i64
  | GenesisUnfrozen
  | OutsideGenesisPaths "string list"
  | NotMerged
  | DerivationFailed

fun gate_refusal_str :: "gate_refusal \<Rightarrow> string" where
  "gate_refusal_str NoWorktree = ''no_worktree''"
| "gate_refusal_str DetachedHead = ''detached_head''"
| "gate_refusal_str UnrelatedHistory = ''unrelated_history''"
| "gate_refusal_str WorktreeDirty = ''worktree_dirty''"
| "gate_refusal_str ApprovalMissing = ''approval_missing''"
| "gate_refusal_str (NotAuthorized state) = ''not_authorized''"
| "gate_refusal_str (ApprovalExpired expired_at) = ''approval_expired''"
| "gate_refusal_str ReceiptMissing = ''receipt_missing''"
| "gate_refusal_str (ReceiptStale frozen derived) = ''receipt_stale''"
| "gate_refusal_str (AttemptsExhausted charged cap) = ''attempts_exhausted''"
| "gate_refusal_str GenesisUnfrozen = ''genesis_unfrozen''"
| "gate_refusal_str (OutsideGenesisPaths paths) = ''outside_genesis_paths''"
| "gate_refusal_str NotMerged = ''not_merged''"
| "gate_refusal_str DerivationFailed = ''derivation_failed''"

datatype gate_error =
    NoSuchRun i64
  | Derivation string
  | Transition rejection
  | MalformedRow string

type_synonym applied_worktree = "(worktree_status, worktree_effect) applied_transition"

datatype pre_merge_verdict =
    Merged "string option" "applied_worktree option"
  | IntegrationRequired sub_agent_request
  | Refused gate_refusal

datatype reclaim_verdict =
    Released applied_worktree "applied_worktree option"
  | CleanupRequired sub_agent_request
  | ReclaimRefused gate_refusal

datatype dispose_verdict =
    DisposedTo applied_worktree
  | NotReleased
  | Retained

section \<open>The rules\<close>

definition worktree_path :: "run_row \<Rightarrow> string option" where
  "worktree_path run =
     (case rr_worktree_path run of None \<Rightarrow> None | Some path \<Rightarrow> if path = [] then None else Some path)"

definition topology_refusal :: "gate_derivation \<Rightarrow> gate_refusal option" where
  "topology_refusal v =
     (if gd_branch v = None then Some DetachedHead
      else if gd_merge_base v = None then Some UnrelatedHistory
      else if gd_dirty v then Some WorktreeDirty
      else None)"

definition receipt_holds :: "receipt \<Rightarrow> receipt \<Rightarrow> bool \<Rightarrow> bool" where
  "receipt_holds frozen derived merged \<longleftrightarrow>
     rc_tree_hash frozen = rc_tree_hash derived \<and>
     (merged \<or> rc_paths_digest frozen = rc_paths_digest derived)"

definition hashed_bytes :: "string list \<Rightarrow> string" where
  "hashed_bytes paths = concat (map (\<lambda>path. path @ [char_of (0 :: nat)]) paths)"

definition paths_digest :: "git \<Rightarrow> string list \<Rightarrow> string" where
  "paths_digest g paths = gi_sha256 g (hashed_bytes paths)"

definition receipt_of :: "git \<Rightarrow> gate_derivation \<Rightarrow> receipt" where
  "receipt_of g v = \<lparr>rc_tree_hash = gd_head_tree v, rc_paths_digest = paths_digest g (gd_changed_paths v)\<rparr>"

definition freeze_receipt :: "git \<Rightarrow> string \<Rightarrow> string \<Rightarrow> gate_error + receipt" where
  "freeze_receipt g worktree main_ref =
     (case gi_derive g worktree main_ref of
        Inl e \<Rightarrow> Inl (Derivation e) | Inr v \<Rightarrow> Inr (receipt_of g v))"

datatype authorization = AuthorizationRefused gate_refusal | Granted "i64 option"

definition authorization_refusal ::
  "git \<Rightarrow> db \<Rightarrow> pre_merge_request \<Rightarrow> gate_derivation \<Rightarrow> authorization" where
  "authorization_refusal g d request v =
     (case load_question d (pm_approval_id request) of
        None \<Rightarrow> AuthorizationRefused ApprovalMissing
      | Some q \<Rightarrow>
          if qu_run_id q \<noteq> pm_run_id request \<or> qu_kind q \<noteq> Approval then AuthorizationRefused ApprovalMissing
          else if qu_state q \<noteq> question_state.Answered \<or> qu_author q \<noteq> Some question_author.User
          then AuthorizationRefused (NotAuthorized (question_state_str (qu_state q)))
          else (let expired_at = (case qu_expires_at q of None \<Rightarrow> None
                    | Some at \<Rightarrow> if at \<le> pm_now request then Some at else None)
                in case (if gd_merged v then None else expired_at) of
                     Some at \<Rightarrow> AuthorizationRefused (ApprovalExpired at)
                   | None \<Rightarrow>
                       (case (qu_tree_hash q, qu_paths_digest q) of
                          (Some tree_hash, Some digest) \<Rightarrow>
                            (let frozen = \<lparr>rc_tree_hash = tree_hash, rc_paths_digest = digest\<rparr>;
                                 derived = receipt_of g v
                             in if receipt_holds frozen derived (gd_merged v) then Granted expired_at
                                else AuthorizationRefused (ReceiptStale frozen derived))
                        | _ \<Rightarrow> AuthorizationRefused ReceiptMissing)))"

definition as_strings :: "json list \<Rightarrow> string list option" where
  "as_strings vs =
     (if list_all (\<lambda>v. as_str v \<noteq> None) vs then Some (List.map_filter as_str vs) else None)"

definition parse_genesis_paths :: "jtext \<Rightarrow> gate_error + string list" where
  "parse_genesis_paths stored =
     (case from_str stored of
        Some (JArray vs) \<Rightarrow> ok_or (as_strings vs) (MalformedRow ''genesis_paths is not a path array'')
      | _ \<Rightarrow> Inl (MalformedRow ''genesis_paths is not a path array''))"

definition covers :: "string \<Rightarrow> string \<Rightarrow> bool" where
  "covers allowed path \<longleftrightarrow> path = allowed \<or>
     (case strip_prefix allowed path of
        Some (c # rest) \<Rightarrow> c = separator
      | _ \<Rightarrow> False)"

definition paths_outside :: "string list \<Rightarrow> string list \<Rightarrow> string list" where
  "paths_outside changed genesis = filter (\<lambda>path. \<not> list_ex (\<lambda>allowed. covers allowed path) genesis) changed"

definition transaction_refusal ::
  "db \<Rightarrow> pre_merge_request \<Rightarrow> run_row \<Rightarrow> gate_derivation \<Rightarrow> gate_error + gate_refusal option" where
  "transaction_refusal d request run v =
     (let charged = charged_attempts (attempts_for_run d (pm_run_id request))
      in if pm_attempt_cap request < charged then Inr (Some (AttemptsExhausted charged (pm_attempt_cap request)))
         else (case rr_genesis_paths run of
                 None \<Rightarrow> Inr (Some GenesisUnfrozen)
               | Some stored \<Rightarrow>
                   and_then (parse_genesis_paths stored) (\<lambda>genesis.
                   (let outside = paths_outside (gd_changed_paths v) genesis
                    in Inr (if outside = [] then None else Some (OutsideGenesisPaths outside))))))"

section \<open>What a gate journals\<close>

definition sub_agent_event :: string where "sub_agent_event = ''sub_agent_requested''"
definition gate_result_event :: string where "gate_result_event = ''gate_result''"
definition merged_event :: string where "merged_event = ''merged''"

definition infra_entry :: "i64 \<Rightarrow> string \<Rightarrow> (string \<times> json) list \<Rightarrow> i64 \<Rightarrow> event_row" where
  "infra_entry run_id event_type payload now =
     \<lparr>ev_id = None, ev_run_id = Some run_id, ev_type = event_type, ev_class = Infra,
      ev_payload = JText (JObject payload), ev_ts = now\<rparr>"

definition derivation_fields :: "gate_derivation option \<Rightarrow> (string \<times> json) list" where
  "derivation_fields derivation =
     (case derivation of None \<Rightarrow> []
      | Some v \<Rightarrow>
          [(''branch'', json_opt JString (gd_branch v)), (''merge_base'', json_opt JString (gd_merge_base v)),
           (''head_tree'', JString (gd_head_tree v)), (''merged'', JBool (gd_merged v)),
           (''dirty'', JBool (gd_dirty v)), (''changed_paths'', JArray (map JString (gd_changed_paths v)))])"

definition reason_field :: "string option \<Rightarrow> (string \<times> json) list" where
  "reason_field refusal = (case refusal of None \<Rightarrow> [] | Some r \<Rightarrow> [(''reason'', JString r)])"

definition gate_payload ::
  "pre_merge_request \<Rightarrow> gate_derivation option \<Rightarrow> string option \<Rightarrow> (string \<times> json) list" where
  "gate_payload request derivation refusal =
     insert_fields (reason_field refusal) (insert_fields (derivation_fields derivation)
       [(''gate'', JString ''pre_merge''), (''passed'', JBool (refusal = None)),
        (''path'', JString (merge_path_str (pm_path request))), (''main_ref'', JString (pm_main_ref request)),
        (''approval_id'', JInt (pm_approval_id request))])"

definition journal_result :: "event_row \<Rightarrow> db \<Rightarrow> db \<times> (gate_error + unit)" where
  "journal_result e d = on_ok (map_err Transition (journal d [e])) (\<lambda>ids d1. (d1, Inr ()))"

definition journal_gate_result :: "i64 \<Rightarrow> i64 \<Rightarrow> (string \<times> json) list \<Rightarrow> db \<Rightarrow> db \<times> (gate_error + unit)" where
  "journal_gate_result run_id now payload = journal_result (infra_entry run_id gate_result_event payload now)"

definition journal_sub_agent_request :: "sub_agent_request \<Rightarrow> i64 \<Rightarrow> db \<Rightarrow> db \<times> (gate_error + unit)" where
  "journal_sub_agent_request work now =
     journal_result (infra_entry (sg_run_id work) sub_agent_event
       [(''kind'', JString (sub_agent_kind_str (sg_kind work))), (''worktree_path'', JString (sg_worktree_path work)),
        (''branch'', json_opt JString (sg_branch work)), (''detail'', JString (sg_detail work))] now)"

definition refuse_pre_merge ::
  "pre_merge_request \<Rightarrow> gate_derivation option \<Rightarrow> gate_refusal \<Rightarrow> db \<Rightarrow> db \<times> (gate_error + pre_merge_verdict)" where
  "refuse_pre_merge request derivation refusal d =
     on_ok (journal_gate_result (pm_run_id request) (pm_now request)
       (gate_payload request derivation (Some (gate_refusal_str refusal))) d)
       (\<lambda>_ d1. (d1, Inr (Refused refusal)))"

definition journal_derivation_failure ::
  "pre_merge_request \<Rightarrow> string \<Rightarrow> db \<Rightarrow> db \<times> (gate_error + pre_merge_verdict)" where
  "journal_derivation_failure request error d =
     on_ok (journal_gate_result (pm_run_id request) (pm_now request)
       (insert_fields [(''detail'', JString error)]
         (gate_payload request None (Some (gate_refusal_str DerivationFailed)))) d)
       (\<lambda>_ d1. (d1, Inl (Derivation error)))"

section \<open>The pre-merge gate\<close>

datatype integration = Landed "string option" | Stopped pre_merge_verdict

definition integrate ::
  "git \<Rightarrow> pre_merge_request \<Rightarrow> run_row \<Rightarrow> gate_derivation \<Rightarrow> string \<Rightarrow> db \<Rightarrow> db \<times> (gate_error + integration)" where
  "integrate g request run v branch d =
     (if gd_merged v then (d, Inr (Landed None))
      else if pm_path request = Attested
      then on_ok (refuse_pre_merge request (Some v) NotMerged d) (\<lambda>verdict d1. (d1, Inr (Stopped verdict)))
      else (case gi_merge g (rr_repo_root run) branch of
              Inl e \<Rightarrow> (d, Inl (Derivation e))
            | Inr (merge_outcome.Merged sha) \<Rightarrow> (d, Inr (Landed (Some sha)))
            | Inr (Conflicted det) \<Rightarrow>
                on_ok (journal_gate_result (pm_run_id request) (pm_now request)
                    (gate_payload request (Some v) (Some ''integration_required'')) d) (\<lambda>_ d1.
                (let work = \<lparr>sg_kind = Integration, sg_run_id = pm_run_id request,
                       sg_worktree_path = case_option [] id (worktree_path run), sg_branch = Some branch,
                       sg_detail = det\<rparr>
                 in on_ok (journal_sub_agent_request work (pm_now request) d1) (\<lambda>_ d2.
                    (d2, Inr (Stopped (IntegrationRequired work))))))))"

definition gate_settlement ::
  "pre_merge_request \<Rightarrow> gate_derivation \<Rightarrow> string \<Rightarrow> string option \<Rightarrow> i64 option \<Rightarrow> merge_settlement" where
  "gate_settlement request v branch sha expired_at =
     \<lparr>ms_run_id = pm_run_id request, ms_approval_id = pm_approval_id request, ms_now = pm_now request,
      ms_verdict = infra_entry (pm_run_id request) gate_result_event (gate_payload request (Some v) None) (pm_now request),
      ms_merged = infra_entry (pm_run_id request) merged_event
        [(''branch'', JString branch), (''into'', JString (pm_main_ref request)),
         (''path'', JString (merge_path_str (pm_path request))), (''commit'', json_opt JString sha),
         (''authorization_expired_at'', json_opt JInt expired_at)] (pm_now request),
      ms_worktree_clean = \<not> gd_dirty v, ms_landed = gd_merged v\<rparr>"

definition settle ::
  "pre_merge_request \<Rightarrow> gate_derivation \<Rightarrow> string \<Rightarrow> string option \<Rightarrow> i64 option \<Rightarrow> db \<Rightarrow>
   db \<times> (gate_error + settled_merge)" where
  "settle request v branch sha expired_at d =
     map_err Transition (settle_merge d (gate_settlement request v branch sha expired_at))"

definition pre_merge :: "git \<Rightarrow> pre_merge_request \<Rightarrow> db \<Rightarrow> db \<times> (gate_error + pre_merge_verdict)" where
  "pre_merge g request d =
     (case load_run d (pm_run_id request) of
        None \<Rightarrow> (d, Inl (NoSuchRun (pm_run_id request)))
      | Some run \<Rightarrow>
     (case worktree_path run of
        None \<Rightarrow> refuse_pre_merge request None NoWorktree d
      | Some worktree \<Rightarrow>
     (case gi_derive g worktree (pm_main_ref request) of
        Inl e \<Rightarrow> journal_derivation_failure request e d
      | Inr v \<Rightarrow>
     (case topology_refusal v of
        Some refusal \<Rightarrow> refuse_pre_merge request (Some v) refusal d
      | None \<Rightarrow>
     (case authorization_refusal g d request v of
        AuthorizationRefused refusal \<Rightarrow> refuse_pre_merge request (Some v) refusal d
      | Granted expired_at \<Rightarrow>
     (case transaction_refusal d request run v of
        Inl e \<Rightarrow> (d, Inl e)
      | Inr (Some refusal) \<Rightarrow> refuse_pre_merge request (Some v) refusal d
      | Inr None \<Rightarrow>
          (let branch = case_option [] id (gd_branch v)
           in on_ok (integrate g request run v branch d) (\<lambda>outcome d1.
              case outcome of
                Stopped verdict \<Rightarrow> (d1, Inr verdict)
              | Landed sha \<Rightarrow>
                  on_ok (settle request v branch sha expired_at d1) (\<lambda>settled d2.
                  (d2, Inr (Merged sha (sm_worktree settled))))))))))))"

section \<open>The reclaim sweep\<close>

definition journal_reclaim_result ::
  "reclaim_request \<Rightarrow> gate_derivation option \<Rightarrow> gate_refusal option \<Rightarrow> db \<Rightarrow> db \<times> (gate_error + unit)" where
  "journal_reclaim_result request derivation refusal =
     journal_gate_result (rq_run_id request) (rq_now request)
       (insert_fields (reason_field (map_option gate_refusal_str refusal))
         (insert_fields (derivation_fields derivation)
           [(''gate'', JString ''reclaim''), (''passed'', JBool (refusal = None)),
            (''main_ref'', JString (rq_main_ref request))]))"

definition journal_dispose_result :: "reclaim_request \<Rightarrow> string option \<Rightarrow> db \<Rightarrow> db \<times> (gate_error + unit)" where
  "journal_dispose_result request refusal =
     journal_gate_result (rq_run_id request) (rq_now request)
       [(''gate'', JString ''dispose''), (''passed'', JBool (refusal = None)),
        (''main_ref'', JString (rq_main_ref request)), (''reason'', json_opt JString refusal)]"

definition release_worktree ::
  "i64 \<Rightarrow> i64 \<Rightarrow> gate_derivation \<Rightarrow> db \<Rightarrow> db \<times> (gate_error + applied_worktree option)" where
  "release_worktree run_id now v d =
     (case apply_worktree d run_id MergeDetected
         \<lparr>wf_now = now, wf_merge_re_derived = True, wf_worktree_clean = \<not> gd_dirty v,
          wf_manual_disposition_confirmed = False\<rparr> of
        (d1, Inr (Applied ap)) \<Rightarrow> (d1, Inr (Some ap))
      | (d1, Inr AlreadySettled) \<Rightarrow> (d1, Inr None)
      | (d1, Inl (NoSuchTransition m s t)) \<Rightarrow> (d1, Inr None)
      | (d1, Inl e) \<Rightarrow> (d1, Inl (Transition e)))"

text \<open>The last name of a path, and the name of the directory it is in.\<close>

definition last_name :: "component list \<Rightarrow> string option" where
  "last_name cs = (if cs = [] then None else normal_part (last cs))"

definition remove_directory :: "git \<Rightarrow> run_row \<Rightarrow> string \<Rightarrow> string option" where
  "remove_directory g run worktree =
     (let cs = components worktree
      in case (last_name cs, if cs = [] \<or> last cs = RootDir then None else last_name (butlast cs)) of
           (Some name, Some repository_id) \<Rightarrow>
             (case gi_remove g (rr_repo_root run) repository_id name of Inl e \<Rightarrow> Some e | Inr _ \<Rightarrow> None)
         | _ \<Rightarrow> Some (worktree @ '' is not a session worktree path''))"

definition dispose :: "git \<Rightarrow> reclaim_request \<Rightarrow> db \<Rightarrow> db \<times> (gate_error + dispose_verdict)" where
  "dispose g request d =
     (case load_run d (rq_run_id request) of
        None \<Rightarrow> (d, Inl (NoSuchRun (rq_run_id request)))
      | Some run \<Rightarrow>
          if rr_worktree_status run \<noteq> Some Reclaimable then (d, Inr NotReleased)
          else (case (case worktree_path run of None \<Rightarrow> None
                 | Some worktree \<Rightarrow> if gi_is_dir g worktree then remove_directory g run worktree else None) of
                  Some refusal \<Rightarrow> on_ok (journal_dispose_result request (Some refusal) d) (\<lambda>_ d1. (d1, Inr Retained))
                | None \<Rightarrow>
                    (case apply_worktree d (rq_run_id request) Reclaim
                        \<lparr>wf_now = rq_now request, wf_merge_re_derived = False, wf_worktree_clean = True,
                         wf_manual_disposition_confirmed = False\<rparr> of
                       (d1, Inr (Applied ap)) \<Rightarrow>
                         on_ok (journal_dispose_result request None d1) (\<lambda>_ d2. (d2, Inr (DisposedTo ap)))
                     | (d1, Inr AlreadySettled) \<Rightarrow> (d1, Inr NotReleased)
                     | (d1, Inl (NoSuchTransition m s t)) \<Rightarrow> (d1, Inr NotReleased)
                     | (d1, Inl e) \<Rightarrow> (d1, Inl (Transition e)))))"

definition refuse_reclaim ::
  "reclaim_request \<Rightarrow> gate_derivation option \<Rightarrow> gate_refusal \<Rightarrow> db \<Rightarrow> db \<times> (gate_error + reclaim_verdict)" where
  "refuse_reclaim request derivation refusal d =
     on_ok (journal_reclaim_result request derivation (Some refusal) d) (\<lambda>_ d1. (d1, Inr (ReclaimRefused refusal)))"

definition reclaim :: "git \<Rightarrow> reclaim_request \<Rightarrow> db \<Rightarrow> db \<times> (gate_error + reclaim_verdict)" where
  "reclaim g request d =
     (case load_run d (rq_run_id request) of
        None \<Rightarrow> (d, Inl (NoSuchRun (rq_run_id request)))
      | Some run \<Rightarrow>
     (case worktree_path run of
        None \<Rightarrow> refuse_reclaim request None NoWorktree d
      | Some worktree \<Rightarrow>
     (case gi_derive g worktree (rq_main_ref request) of
        Inl e \<Rightarrow> on_ok (journal_reclaim_result request None (Some DerivationFailed) d) (\<lambda>_ d1. (d1, Inl (Derivation e)))
      | Inr v \<Rightarrow>
          if gd_branch v = None then refuse_reclaim request (Some v) DetachedHead d
          else if \<not> gd_merged v then refuse_reclaim request (Some v) NotMerged d
          else if gd_dirty v
          then on_ok (journal_reclaim_result request (Some v) (Some WorktreeDirty) d) (\<lambda>_ d1.
               (let work = \<lparr>sg_kind = Cleanup, sg_run_id = rq_run_id request, sg_worktree_path = worktree,
                      sg_branch = gd_branch v, sg_detail = ''the worktree holds uncommitted changes''\<rparr>
                in on_ok (journal_sub_agent_request work (rq_now request) d1) (\<lambda>_ d2.
                   (d2, Inr (CleanupRequired work)))))
          else on_ok (journal_reclaim_result request (Some v) None d) (\<lambda>_ d1.
               on_ok (release_worktree (rq_run_id request) (rq_now request) v d1) (\<lambda>released d2.
               case released of
                 None \<Rightarrow> (d2, Inl (Transition (NoSuchTransition ''worktree'' ''not active''
                            (worktree_trigger_str MergeDetected))))
               | Some ap \<Rightarrow>
                   on_ok (dispose g request d2) (\<lambda>disposed d3.
                   (d3, Inr (Released ap (case disposed of DisposedTo cleaned \<Rightarrow> Some cleaned | _ \<Rightarrow> None)))))))))"

end
