(* ===== verification/Rejection_Text.thy ===== *)
theory Rejection_Text
  imports Fsm Json_Text
begin

text \<open>
  A rejection as the text the code renders (\<open>Display\<close> of \<open>TransitionRejection\<close>,
  crates/agens-server/src/fsm/mod.rs): the details are the formats the guards of runs.rs,
  worktrees.rs and questions.rs fill, a conflict is the message of the store.
\<close>

definition show_bool :: "bool \<Rightarrow> string" where
  "show_bool b = (if b then ''true'' else ''false'')"

fun detail_text :: "detail \<Rightarrow> string" where
  "detail_text (PrincipalCannot who act) = principal_str who @ '' cannot '' @ act"
| "detail_text (AdmissionFacts slot serving tree) =
     ''slot_available='' @ show_bool slot @ '', provider_serving='' @ show_bool serving @
     '', worktree_ready='' @ show_bool tree"
| "detail_text NoQuestionNamed = ''no question was named''"
| "detail_text (QuestionOfAnotherRun question_id) = ''question '' @ show_i64 question_id @ '' belongs to another run''"
| "detail_text (QuestionIs question_id state) =
     ''question '' @ show_i64 question_id @ '' is '' @ question_state_str state"
| "detail_text (QuestionCarriesRun carried run_id) =
     ''the question carries run '' @ show_i64 carried @ '' rather than '' @ show_i64 run_id"
| "detail_text NoQuestionToParkOn = ''a run cannot park on awaiting_input without the question it parks on''"
| "detail_text (NothingRecordedFor provider) = ''nothing recorded for provider '' @ provider"
| "detail_text (ResetsAt provider reset_at now) =
     provider @ '' resets at '' @ show_i64 reset_at @ '', which is after '' @ show_i64 now"
| "detail_text (NoResetNamed provider) = provider @ '' named no reset time''"
| "detail_text (WorktreeIs status) =
     ''worktree is '' @ (case status of None \<Rightarrow> ''absent'' | Some s \<Rightarrow> worktree_status_str s) @
     '', and what already landed is redone in a new run rather than retried''"
| "detail_text NoGuidance = ''a retry without guidance is the same attempt again''"
| "detail_text (BudgetSpent chargeable budget) =
     show_i64 chargeable @ '' chargeable attempts against a budget of '' @ show_i64 budget"
| "detail_text OnlyBootInterrupts = ''only boot reconciliation interrupts a run''"
| "detail_text MergeNotReDerived = ''merge state was not re-derived for this transition''"
| "detail_text UncommittedChanges = ''the worktree still has uncommitted changes''"
| "detail_text DispositionUnconfirmed =
     ''discarding an active worktree needs a confirmed manual disposition''"
| "detail_text AnswerIncomplete = ''an answer needs both text and an author''"
| "detail_text AuthorizationIncomplete = ''an authorization needs both text and an author''"
| "detail_text OnlyUserAuthorizes = ''only the user authorizes a merge''"
| "detail_text (AuthorizationExpired at) = ''the authorization expired at '' @ show_i64 at"
| "detail_text (ExpiredSilence at) = ''expired at '' @ show_i64 at @ '', and silence never authorizes''"
| "detail_text NotExpiredYet = ''it has not expired''"
| "detail_text (NeverReads s) =
     ''the run is '' @ run_state_str s @ '' and will never reach another safe point''"

fun conflict_text :: "conflict \<Rightarrow> string" where
  "conflict_text (RunMoved run_id expected) =
     ''run '' @ show_i64 run_id @ '' is no longer '' @ run_state_str expected"
| "conflict_text (WorktreeMoved run_id expected) =
     ''worktree of run '' @ show_i64 run_id @ '' is no longer '' @ worktree_status_str expected"
| "conflict_text (QuestionMoved question_id run_id expected) =
     ''question '' @ show_i64 question_id @ '' of run '' @ show_i64 run_id @ '' is no longer '' @
     question_state_str expected"
| "conflict_text (NotCorrelatable attempt_id) =
     ''attempt '' @ show_i64 attempt_id @
     '' is closed, already correlated with another execution, or does not exist''"

fun rejection_text :: "rejection \<Rightarrow> string" where
  "rejection_text (NoSuchRow table row_id) = ''no '' @ table @ '' with id '' @ show_i64 row_id"
| "rejection_text (NoSuchTransition machine source trigger) =
     ''the '' @ machine @ '' machine has no transition out of '' @ source @ '' on '' @ trigger"
| "rejection_text (GuardFailed machine guard det) =
     machine @ '' guard '' @ guard @ '' did not hold: '' @ detail_text det"
| "rejection_text (rejection.Conflict c) = ''state moved under the caller: '' @ conflict_text c"
| "rejection_text (rejection.Storage message) = message"

end
