(* ===== verification/Timers.thy ===== *)
theory Timers
  imports Loops Rejection_Text Question_Machine Run_Machine "HOL-Library.Signed_Division"
begin

text \<open>
  The timer wheel (crates/agens-server/src/timers/mod.rs). The clock is read once per
  tick, and its reading is the argument \<open>now\<close>; the state machines are the database that
  is passed along. The map of standing refusals is what a mutex guards in the code, and
  the only thing the wheel itself keeps.
\<close>

section \<open>Settings and the clock\<close>

record timer_settings =
  ts_grace_percent :: i64
  ts_first_checkpoint_seconds :: i64
  ts_quota_window_seconds :: i64

definition default_timer_settings :: timer_settings where
  "default_timer_settings =
     \<lparr>ts_grace_percent = 150, ts_first_checkpoint_seconds = 3600, ts_quota_window_seconds = 900\<rparr>"

text \<open>Seconds since the epoch, or nothing for a clock set before it.\<close>

definition clock_now :: "nat option \<Rightarrow> i64" where
  "clock_now elapsed =
     (case elapsed of None \<Rightarrow> 0
      | Some secs \<Rightarrow> (case try_i64 (int secs) of None \<Rightarrow> 0 | Some n \<Rightarrow> n))"

section \<open>What a tick reports\<close>

datatype timer_stage = QuotaResets | ExpiredQuestions | OverdueCheckpoints

fun timer_stage_str :: "timer_stage \<Rightarrow> string" where
  "timer_stage_str QuotaResets = ''quota_resets''"
| "timer_stage_str ExpiredQuestions = ''expired_questions''"
| "timer_stage_str OverdueCheckpoints = ''overdue_checkpoints''"

record quota_reset =
  tq_provider :: string
  tq_run_id :: i64
  tq_transition :: "(run_state, run_effect) applied_transition"

record expired_question =
  eq_question_id :: i64
  eq_run_id :: i64
  eq_kind :: question_kind
  eq_transition :: "(question_state, question_effect) applied_transition"

record overdue_checkpoint =
  oc_run_id :: i64
  oc_checkpoint_event_id :: i64
  oc_promised_at :: "i64 option"
  oc_deadline :: i64
  oc_signal_event_id :: i64

record rejected_stage =
  rs_stage :: timer_stage
  rs_rejection :: rejection
  rs_event_id :: "i64 option"

record timer_tick =
  tk_now :: i64
  tk_quota_resets :: "quota_reset list"
  tk_expired_questions :: "expired_question list"
  tk_overdue_checkpoints :: "overdue_checkpoint list"
  tk_rejections :: "rejected_stage list"

record standing_rejection =
  st_reason :: string
  st_event_id :: "i64 option"

type_synonym standing = "timer_stage \<rightharpoonup> standing_rejection"

section \<open>Quota resets\<close>

definition reset_run ::
  "timer_settings \<Rightarrow> i64 \<Rightarrow> string list \<Rightarrow> run_row \<Rightarrow> db \<Rightarrow> db \<times> (rejection + quota_reset list)" where
  "reset_run settings now due run d =
     (case rr_id run of None \<Rightarrow> (d, Inr [])
      | Some run_id \<Rightarrow>
          if rr_provider run \<notin> set due then (d, Inr [])
          else (case apply_run d run_id QuotaReset (default_run_facts\<lparr>rf_now := now,
                  rf_quota_window_seconds := Some (ts_quota_window_seconds settings)\<rparr>) of
                  (d1, Inl e) \<Rightarrow> (d1, Inl e)
                | (d1, Inr outcome) \<Rightarrow>
                    (d1, Inr (case applied outcome of None \<Rightarrow> []
                       | Some transition \<Rightarrow> [\<lparr>tq_provider = rr_provider run, tq_run_id = run_id,
                           tq_transition = transition\<rparr>]))))"

definition due_providers :: "timer_settings \<Rightarrow> i64 \<Rightarrow> db \<Rightarrow> string list" where
  "due_providers settings now d =
     map pr_provider (providers_due d now (Some (ts_quota_window_seconds settings)))"

definition lift_elapsed_quota_caps ::
  "timer_settings \<Rightarrow> i64 \<Rightarrow> db \<Rightarrow> db \<times> (rejection + quota_reset list)" where
  "lift_elapsed_quota_caps settings now d =
     (let due = due_providers settings now d
      in if due = [] then (d, Inr [])
         else try_each (reset_run settings now due) (runs_in_state d AwaitingQuota) d)"

section \<open>Expired questions\<close>

definition expirable :: "question_kind \<Rightarrow> question_state \<Rightarrow> bool" where
  "expirable kind state \<longleftrightarrow>
     list_ex (\<lambda>t. qt_kind t = kind \<and> qt_from t = state \<and> qt_trigger t = Expire) question_transitions"

definition default_question_facts :: question_facts where
  "default_question_facts =
     \<lparr>qf_now = 0, qf_answer = None, qf_author = None, qf_merge_already_landed = False\<rparr>"

definition expire_question :: "i64 \<Rightarrow> question_row \<Rightarrow> db \<Rightarrow> db \<times> (rejection + expired_question list)" where
  "expire_question now question d =
     (case qu_id question of None \<Rightarrow> (d, Inr [])
      | Some question_id \<Rightarrow>
          if \<not> expirable (qu_kind question) (qu_state question) then (d, Inr [])
          else (case apply_question d question_id Expire (default_question_facts\<lparr>qf_now := now\<rparr>) of
                  (d1, Inl e) \<Rightarrow> (d1, Inl e)
                | (d1, Inr outcome) \<Rightarrow>
                    (d1, Inr (case applied outcome of None \<Rightarrow> []
                       | Some transition \<Rightarrow> [\<lparr>eq_question_id = question_id, eq_run_id = qu_run_id question,
                           eq_kind = qu_kind question, eq_transition = transition\<rparr>]))))"

definition void_expired_questions :: "i64 \<Rightarrow> db \<Rightarrow> db \<times> (rejection + expired_question list)" where
  "void_expired_questions now d = try_each (expire_question now) (questions_past_expiry d now) d"

section \<open>Overdue checkpoints\<close>

definition checkpoint_event :: string where "checkpoint_event = ''checkpoint''"
definition checkpoint_overdue_event :: string where "checkpoint_overdue_event = ''checkpoint_overdue''"
definition run_started_event :: string where "run_started_event = ''run_started''"
definition timer_stage_rejected_event :: string where "timer_stage_rejected_event = ''timer_stage_rejected''"
definition promised_at_field :: string where "promised_at_field = ''promised_at''"
definition checkpoint_id_field :: string where "checkpoint_id_field = ''checkpoint_id''"

definition i128_max :: int where "i128_max = 170141183460469231731687303715884105727"

definition try_i128 :: "int \<Rightarrow> int option" where
  "try_i128 x = (if - i128_max - 1 \<le> x \<and> x \<le> i128_max then Some x else None)"

definition deadline :: "timer_settings \<Rightarrow> i64 \<Rightarrow> i64 \<Rightarrow> i64 option" where
  "deadline settings checkpoint_ts promised =
     Option.bind (try_i64 (promised - checkpoint_ts)) (\<lambda>span.
       if span \<le> 0 then None
       else Option.bind (try_i128 (span * ts_grace_percent settings)) (\<lambda>product.
            Option.bind (try_i128 (product sdiv 100)) (\<lambda>granted.
            Option.bind (try_i128 (checkpoint_ts + granted)) try_i64)))"

definition promised_at :: "jtext \<Rightarrow> i64 option" where
  "promised_at payload =
     Option.bind (from_str payload) (\<lambda>v. Option.bind (json_get v promised_at_field) as_i64)"

definition first_checkpoint_deadline :: "timer_settings \<Rightarrow> db \<Rightarrow> i64 \<Rightarrow> (i64 \<times> i64) option" where
  "first_checkpoint_deadline settings d run_id =
     Option.bind (last_opt (events_of_type_for_run d run_id run_started_event)) (\<lambda>latest.
     Option.bind (ev_id latest) (\<lambda>event_id.
     Option.bind (try_i64 (ev_ts latest + ts_first_checkpoint_seconds settings)) (\<lambda>due.
     Some (event_id, due))))"

definition already_signalled :: "db \<Rightarrow> i64 \<Rightarrow> i64 \<Rightarrow> bool" where
  "already_signalled d run_id checkpoint_event_id \<longleftrightarrow>
     checkpoint_event_id \<in> set (List.map_filter (\<lambda>payload. get_i64 payload checkpoint_id_field)
       (List.map_filter (\<lambda>e. from_str (ev_payload e))
         (events_of_type_for_run d run_id checkpoint_overdue_event)))"

text \<open>The entry a run is measured from, what it promised, and when that runs out.\<close>

definition standing_deadline :: "timer_settings \<Rightarrow> db \<Rightarrow> i64 \<Rightarrow> (i64 \<times> i64 option \<times> i64) option" where
  "standing_deadline settings d run_id =
     (case last_opt (events_of_type_for_run d run_id checkpoint_event) of
        Some latest \<Rightarrow>
          Option.bind (ev_id latest) (\<lambda>event_id.
          Option.bind (promised_at (ev_payload latest)) (\<lambda>promised.
          Option.bind (deadline settings (ev_ts latest) promised) (\<lambda>due.
          Some (event_id, Some promised, due))))
      | None \<Rightarrow>
          map_option (\<lambda>(event_id, due). (event_id, None, due)) (first_checkpoint_deadline settings d run_id))"

definition overdue_entry :: "timer_settings \<Rightarrow> i64 \<Rightarrow> i64 \<Rightarrow> i64 \<Rightarrow> i64 option \<Rightarrow> i64 \<Rightarrow> event_row" where
  "overdue_entry settings run_id now checkpoint_event_id promised due =
     \<lparr>ev_id = None, ev_run_id = Some run_id, ev_type = checkpoint_overdue_event, ev_class = Infra,
      ev_payload = JText (JObject
        [(checkpoint_id_field, JInt checkpoint_event_id), (''promised_at'', json_opt JInt promised),
         (''deadline'', JInt due), (''grace_percent'', JInt (ts_grace_percent settings)),
         (''first_checkpoint'', JBool (promised = None))]),
      ev_ts = now\<rparr>"

definition overdue_signal ::
  "timer_settings \<Rightarrow> i64 \<Rightarrow> i64 \<Rightarrow> db \<Rightarrow> db \<times> (rejection + overdue_checkpoint option)" where
  "overdue_signal settings now run_id d =
     (case standing_deadline settings d run_id of
        None \<Rightarrow> (d, Inr None)
      | Some (checkpoint_event_id, promised, due) \<Rightarrow>
          if now < due then (d, Inr None)
          else if already_signalled d run_id checkpoint_event_id then (d, Inr None)
          else (case journal d [overdue_entry settings run_id now checkpoint_event_id promised due] of
                  (d1, Inl e) \<Rightarrow> (d1, Inl e)
                | (d1, Inr []) \<Rightarrow> (d1, Inl (rejection.Storage ''the overdue signal was journaled without an id''))
                | (d1, Inr (signal_event_id # ids)) \<Rightarrow>
                    (d1, Inr (Some \<lparr>oc_run_id = run_id, oc_checkpoint_event_id = checkpoint_event_id,
                       oc_promised_at = promised, oc_deadline = due, oc_signal_event_id = signal_event_id\<rparr>))))"

definition raise_overdue ::
  "timer_settings \<Rightarrow> i64 \<Rightarrow> run_row \<Rightarrow> db \<Rightarrow> db \<times> (rejection + overdue_checkpoint list)" where
  "raise_overdue settings now run d =
     (case rr_id run of None \<Rightarrow> (d, Inr [])
      | Some run_id \<Rightarrow>
          (case overdue_signal settings now run_id d of
             (d1, Inl e) \<Rightarrow> (d1, Inl e)
           | (d1, Inr None) \<Rightarrow> (d1, Inr [])
           | (d1, Inr (Some signal)) \<Rightarrow> (d1, Inr [signal])))"

definition raise_overdue_checkpoints ::
  "timer_settings \<Rightarrow> i64 \<Rightarrow> db \<Rightarrow> db \<times> (rejection + overdue_checkpoint list)" where
  "raise_overdue_checkpoints settings now d =
     try_each (raise_overdue settings now) (runs_in_state d run_state.Running) d"

section \<open>One tick\<close>

definition standing_reason :: "standing \<Rightarrow> timer_stage \<Rightarrow> string \<Rightarrow> standing_rejection option" where
  "standing_reason standing stage reason =
     (case standing stage of None \<Rightarrow> None
      | Some s \<Rightarrow> if st_reason s = reason then Some s else None)"

definition stage_rejected_entry :: "timer_stage \<Rightarrow> string \<Rightarrow> i64 \<Rightarrow> event_row" where
  "stage_rejected_entry stage reason now =
     \<lparr>ev_id = None, ev_run_id = None, ev_type = timer_stage_rejected_event, ev_class = Infra,
      ev_payload = JText (JObject [(''stage'', JString (timer_stage_str stage)), (''reason'', JString reason)]),
      ev_ts = now\<rparr>"

definition record_rejection ::
  "timer_stage \<Rightarrow> rejection \<Rightarrow> i64 \<Rightarrow> standing \<Rightarrow> db \<Rightarrow> standing \<times> db \<times> rejected_stage" where
  "record_rejection stage e now standing d =
     (let reason = rejection_text e
      in case standing_reason standing stage reason of
           Some s \<Rightarrow> (standing, d, \<lparr>rs_stage = stage, rs_rejection = e, rs_event_id = st_event_id s\<rparr>)
         | None \<Rightarrow>
             (case journal d [stage_rejected_entry stage reason now] of
                (d1, journaled) \<Rightarrow>
                  (let event_id = (case journaled of Inr (i # ids) \<Rightarrow> Some i | _ \<Rightarrow> None)
                   in (if event_id = None then standing
                       else standing(stage \<mapsto> \<lparr>st_reason = reason, st_event_id = event_id\<rparr>),
                       d1, \<lparr>rs_stage = stage, rs_rejection = e, rs_event_id = event_id\<rparr>))))"

definition settle_stage ::
  "timer_stage \<Rightarrow> i64 \<Rightarrow> standing \<Rightarrow> db \<times> (rejection + 'a list) \<Rightarrow>
   standing \<times> db \<times> 'a list \<times> rejected_stage list" where
  "settle_stage stage now standing r =
     (case r of
        (d, Inr found) \<Rightarrow> (standing(stage := None), d, found, [])
      | (d, Inl e) \<Rightarrow>
          (case record_rejection stage e now standing d of
             (standing1, d1, rejected) \<Rightarrow> (standing1, d1, [], [rejected])))"

definition wheel_tick :: "timer_settings \<Rightarrow> i64 \<Rightarrow> standing \<Rightarrow> db \<Rightarrow> standing \<times> db \<times> timer_tick" where
  "wheel_tick settings now standing d =
     (case settle_stage QuotaResets now standing (lift_elapsed_quota_caps settings now d) of
        (standing1, d1, resets, r1) \<Rightarrow>
      (case settle_stage ExpiredQuestions now standing1 (void_expired_questions now d1) of
        (standing2, d2, expired, r2) \<Rightarrow>
      (case settle_stage OverdueCheckpoints now standing2 (raise_overdue_checkpoints settings now d2) of
        (standing3, d3, overdue, r3) \<Rightarrow>
          (standing3, d3,
           \<lparr>tk_now = now, tk_quota_resets = resets, tk_expired_questions = expired,
            tk_overdue_checkpoints = overdue, tk_rejections = r1 @ r2 @ r3\<rparr>))))"

end
