(* ===== verification/Passage.thy ===== *)
theory Passage
  imports Progress
begin

text \<open>
  The moves of runs and questions that go through, with the rows they leave: what the
  parts of the daemon that apply transitions in a loop rest on.
\<close>

lemma guarded_run_applies:
  assumes "db_wf d" "load_run d i = Some run" "find_run_transition (rr_state run) tr = Some t"
    and "check_run_guard d t i (rr_provider run) (rr_worktree_status run) f = Inr ()" "references_ok d t f"
  shows "\<exists>d' a b q out. apply_run d i tr f = (d', Inr (Applied \<lparr>ap_from = rr_state run, ap_to = rt_to t,
      ap_effects = rt_effects t, ap_domain_event = rt_domain_event t, ap_state_changed_event_id = a,
      ap_domain_event_id = b, ap_opened_question_id = q\<rparr>)) \<and> db_wf d' \<and>
      transition_tx (run_write d i run tr t f) d = Inr (d', out)"
proof -
  have t: "t \<in> set run_transitions" "rt_from t = rr_state run" "rt_trigger t = tr"
    using assms(3) by (simp_all add: find_run_transition_iff)
  obtain d' out where tx: "transition_tx (run_write d i run tr t f) d = Inr (d', out)"
    using run_write_succeeds [OF assms(1,2) t(1,2) assms(4,5)] by blast
  let ?w = "run_write d i run tr t f"
  have app: "apply_transition d ?w = (d', Inr out)" by (simp add: apply_transition_def tx)
  then obtain a b where ids: "event_pair (to_event_ids out) = Inr (a, b)"
    using store.event_pair_of_two [of d ?w d' out] by (auto simp: run_write_def)
  have "\<not> (tr = Cancel \<and> rr_state run = Cancelled)" using never_from_cancelled [OF t(1)] t(2) by auto
  then have "apply_run d i tr f = settle_write d ?w (rr_state run) (rt_to t) (rt_effects t) (rt_domain_event t)"
    using assms(2-4) by (auto simp: apply_run_def machines_load_run_def)
  also have "\<dots> = (d', Inr (Applied \<lparr>ap_from = rr_state run, ap_to = rt_to t,
      ap_effects = rt_effects t, ap_domain_event = rt_domain_event t, ap_state_changed_event_id = a,
      ap_domain_event_id = b, ap_opened_question_id = to_question_id out\<rparr>))"
    using app ids by (simp add: settle_write_def)
  finally show ?thesis using tx transition_tx_wf [OF assms(1) tx] by blast
qed

text \<open>A question moved on without an answer.\<close>

lemma write_question_succeeds:
  assumes wf: "db_wf d" and q: "load_question d i = Some q" and "question_checks (q\<lparr>qu_state := s\<rparr>)"
  shows "write_question (qu_run_id q) (Some \<lparr>qc_question_id = i, qc_expected = qu_state q, qc_next = s,
      qc_answer = None\<rparr>) d =
    Inr (d\<lparr>db_questions := sql_update (\<lambda>q. qu_id q = Some i) (\<lambda>q. q\<lparr>qu_state := s\<rparr>) (db_questions d)\<rparr>)"
proof -
  have in_d: "q \<in> set (db_questions d)" "qu_id q = Some i" using load_question_iff [OF wf] q by auto
  have only: "\<forall>r \<in> set (db_questions d). qu_id r = Some i \<longrightarrow> r = q"
    using load_question_iff [OF wf] q by (metis option.inject)
  let ?p = "\<lambda>x. qu_id x = Some i \<and> qu_run_id x = qu_run_id q \<and> qu_state x = qu_state q"
  have "sql_count ?p (db_questions d) = 1"
    using questions.count_by_id [of "db_questions d" q i] in_d wf by (simp add: db_wf_def)
  moreover have "sql_update ?p g (db_questions d) = sql_update (\<lambda>q. qu_id q = Some i) g (db_questions d)" for g
    using question_update_by_id [OF wf q, of "\<lambda>x. qu_run_id x = qu_run_id q \<and> qu_state x = qu_state q"] by simp
  moreover have "list_all (\<lambda>x. ?p x \<longrightarrow> question_checks (x\<lparr>qu_state := s\<rparr>)) (db_questions d)"
    using only assms(3) by (auto simp: list_all_iff)
  ultimately show ?thesis
    unfolding write_question_def change_question_def by (simp add: Let_def)
qed

lemma guarded_question_applies:
  assumes wf: "db_wf d" and q: "load_question d i = Some q"
    and row: "find_question_transition (qu_kind q) (qu_state q) tr = Some t"
    and guard: "check_question_guard t q f = Inr ()" and "qt_to t \<noteq> question_state.Answered"
    and "question_checks (q\<lparr>qu_state := qt_to t\<rparr>)"
  shows "\<exists>d' a b x. apply_question d i tr f = (d', Inr (Applied \<lparr>ap_from = qu_state q, ap_to = qt_to t,
      ap_effects = qt_effects t, ap_domain_event = qt_domain_event t, ap_state_changed_event_id = a,
      ap_domain_event_id = b, ap_opened_question_id = x\<rparr>)) \<and> db_wf d' \<and>
      db_questions d' = sql_update (\<lambda>q. qu_id q = Some i) (\<lambda>q. q\<lparr>qu_state := qt_to t\<rparr>) (db_questions d) \<and>
      db_runs d' = db_runs d \<and> db_providers d' = db_providers d"
proof -
  let ?w = "question_write i q t tr f None"
  have t: "t \<in> set question_transitions" using row by (simp add: find_question_transition_iff)
  let ?d1 = "d\<lparr>db_questions := sql_update (\<lambda>q. qu_id q = Some i) (\<lambda>q. q\<lparr>qu_state := qt_to t\<rparr>) (db_questions d)\<rparr>"
  have changes: "transition_changes ?w d = Inr ?d1"
    using write_question_succeeds [OF wf q assms(6)]
    by (simp add: transition_changes_def question_write_def empty_write_def write_run_state_def write_worktree_status_def)
  have "q \<in> set (db_questions d)" using load_question_iff [OF wf] q by auto
  then have run: "run_exists (db_runs d) (qu_run_id q)" using wf by (auto simp: db_wf_def question_fks_def)
  have "qt_domain_event t \<noteq> ''''" using t by (auto simp: question_transitions_def)
  then obtain d9 ids where ev: "write_events None (tw_events ?w) ?d1 = Inr (d9, ids)"
    using write_events_succeeds [of "tw_events ?w" None ?d1] transition_event_ok [of _ _ _ "db_runs d" None] run
    by (auto simp: question_write_def empty_write_def question_events_def)
  have "\<exists>out. transition_rows ?w ?d1 = Inr (d9, out)"
    by (rule transition_rows_succeeds [OF _ _ _ ev])
      (simp_all add: question_write_def empty_write_def write_new_question_def write_attempt_def
        write_close_attempt_def write_provider_def)
  then obtain out where tx: "transition_tx ?w d = Inr (d9, out)"
    using changes by (auto simp: transition_tx_def write_result_def question_write_def empty_write_def)
  have app: "apply_transition d ?w = (d9, Inr out)" by (simp add: apply_transition_def tx)
  then obtain a b where ids: "event_pair (to_event_ids out) = Inr (a, b)"
    using store.event_pair_of_two [of d ?w d9 out] by (auto simp: question_write_def empty_write_def question_events_def)
  have "apply_question d i tr f = (d9, Inr (Applied \<lparr>ap_from = qu_state q, ap_to = qt_to t,
      ap_effects = qt_effects t, ap_domain_event = qt_domain_event t, ap_state_changed_event_id = a,
      ap_domain_event_id = b, ap_opened_question_id = to_question_id out\<rparr>))"
    using q row guard assms(5) app ids
    by (simp add: apply_question_def machines_load_question_def question_answer_of_def settle_write_def)
  moreover have "change_question \<lparr>qc_question_id = i, qc_expected = qu_state q, qc_next = qt_to t, qc_answer = None\<rparr> =
      (\<lambda>q. q\<lparr>qu_state := qt_to t\<rparr>)"
    by (simp add: change_question_def fun_eq_iff)
  ultimately show ?thesis
    using question_tx_tables [OF wf q tx] transition_tx_wf [OF wf tx] by auto
qed

end
