(* ===== verification/Timers_Due.thy ===== *)
theory Timers_Due
  imports Timers Passage
begin

text \<open>
  Every stage of a tick over a well-formed database goes through: the due runs are
  requeued, the expired questions are voided, and an overdue checkpoint is signalled once.
\<close>

section \<open>Rows handled one at a time\<close>

lemma sql_update_more:
  assumes "\<And>r. key (f r) = key r" "\<And>r. f (f r) = f r"
  shows "sql_update (\<lambda>r. key r = k) f (sql_update (\<lambda>r. key r \<in> K) f rows) = sql_update (\<lambda>r. key r \<in> insert k K) f rows"
  using assms by (auto simp: sql_update_def)

context sql_table
begin

lemma selected_once:
  assumes "tbl_ok rid rows" "sql_select p (\<lambda>r. stored_id (rid r)) rows = pre @ r # post"
  shows "rid r \<notin> rid ` set pre" "r \<in> set rows" "p r"
proof -
  have "distinct (map (\<lambda>r. stored_id (rid r)) (filter p rows))"
    using ids_distinct [OF assms(1)] by (simp add: tbl_ids_def distinct_map_filter)
  then have "distinct (map (\<lambda>r. stored_id (rid r)) (pre @ r # post))"
    using assms(2) by (simp add: select_by_id [OF assms(1)])
  then show "rid r \<notin> rid ` set pre" by auto
  have "r \<in> set (sql_select p (\<lambda>r. stored_id (rid r)) rows)" using assms(2) by simp
  then show "r \<in> set rows" "p r" by auto
qed

end

lemma question_stored_id: "db_wf d \<Longrightarrow> q \<in> set (db_questions d) \<Longrightarrow> \<exists>i. qu_id q = Some i"
  by (auto simp: db_wf_def tbl_ok_def)

section \<open>Quota resets\<close>

text \<open>A provider that is due, or is serving again already.\<close>

definition wakes :: "i64 \<Rightarrow> i64 \<Rightarrow> provider_row \<Rightarrow> bool" where
  "wakes now window p \<longleftrightarrow> pr_quota_state p = Ok \<or> provider_due now (Some window) p"

lemma load_provider_upsert:
  "load_provider (d\<lparr>db_providers := sql_upsert pr_provider r (db_providers d)\<rparr>) p =
    (if p = pr_provider r then Some r else load_provider d p)"
proof (cases "p = pr_provider r")
  case True
  then show ?thesis using load_upserted [of pr_provider r "db_providers d"] by (simp add: load_provider_def)
next
  case False
  have "filter (\<lambda>x. pr_provider x = p) (sql_update (\<lambda>r'. pr_provider r' = pr_provider r) (\<lambda>_. r) rows) =
      filter (\<lambda>x. pr_provider x = p) rows" for rows
    using False by (induction rows) (auto simp: sql_update_def)
  then have "filter (\<lambda>x. pr_provider x = p) (sql_upsert pr_provider r rows) = filter (\<lambda>x. pr_provider x = p) rows" for rows
    using False by (simp add: sql_upsert_def)
  then show ?thesis using False by (simp add: load_provider_def)
qed

lemma load_provider_cong: "db_providers d' = db_providers d \<Longrightarrow> load_provider d' p = load_provider d p"
  by (simp add: load_provider_def)

lemma load_provider_stored:
  assumes "db_wf d" "r \<in> set (db_providers d)" shows "load_provider d (pr_provider r) = Some r"
proof -
  let ?rows = "filter (\<lambda>x. pr_provider x = pr_provider r) (db_providers d)"
  have "distinct (map pr_provider (db_providers d))" using assms(1) by (simp add: db_wf_def)
  then have "\<forall>x \<in> set ?rows. x = r" using assms(2) by (auto simp: distinct_map inj_on_def)
  moreover have "?rows \<noteq> []" using assms(2) by (auto simp: filter_empty_conv)
  ultimately show ?thesis unfolding load_provider_def load_optional_def by (metis last_in_set)
qed

lemma reset_guard:
  assumes "fits_i64 now" "load_provider d p = Some row" "wakes now window row"
  shows "check_quota_reset d t p (default_run_facts\<lparr>rf_now := now, rf_quota_window_seconds := Some window\<rparr>) = Inr ()"
proof (cases "pr_quota_state row = Ok")
  case False
  then have due: "provider_due now (Some window) row" using assms(3) by (simp add: wakes_def)
  have "saturating_add_i64 (pr_updated_at row) window \<le> now" if "pr_updated_at row + window \<le> now"
    using that assms(1) by (auto simp: saturating_add_i64_def fits_i64_def)
  then show ?thesis
    using due False assms(2) by (auto simp: check_quota_reset_def provider_due_def Let_def split: option.splits)
qed (simp add: check_quota_reset_def assms(2))

lemma reset_row:
  "\<exists>t. find_run_transition AwaitingQuota QuotaReset = Some t \<and> rt_to t = Queued \<and> rt_guard t = QuotaResetElapsed \<and>
     OpenAttempt \<notin> set (rt_effects t) \<and> OpenQuestion \<notin> set (rt_effects t) \<and> RecordResult \<notin> set (rt_effects t) \<and>
     CapProvider \<notin> set (rt_effects t) \<and> ClearProviderCap \<in> set (rt_effects t)"
  by (simp add: find_run_transition_def run_transitions_def cancellation_def)

lemma reset_applies:
  assumes wf: "db_wf d" and "fits_i64 now" and run: "load_run d i = Some run" "rr_state run = AwaitingQuota"
    and p: "load_provider d (rr_provider run) = Some row" "wakes now window row"
  shows "\<exists>d' tr. apply_run d i QuotaReset (default_run_facts\<lparr>rf_now := now, rf_quota_window_seconds := Some window\<rparr>) =
      (d', Inr (Applied tr)) \<and> db_wf d' \<and>
    db_runs d' = sql_update (\<lambda>r. rr_id r = Some i) (\<lambda>r. r\<lparr>rr_state := Queued\<rparr>) (db_runs d) \<and>
    (\<forall>q. load_provider d' q = (if q = rr_provider run
       then Some \<lparr>pr_provider = q, pr_quota_state = Ok, pr_reset_at = None, pr_updated_at = now\<rparr>
       else load_provider d q)) \<and> db_questions d' = db_questions d"
proof -
  let ?f = "default_run_facts\<lparr>rf_now := now, rf_quota_window_seconds := Some window\<rparr>"
  obtain t where t: "find_run_transition AwaitingQuota QuotaReset = Some t" "rt_to t = Queued" "rt_guard t = QuotaResetElapsed"
      "OpenAttempt \<notin> set (rt_effects t)" "OpenQuestion \<notin> set (rt_effects t)" "RecordResult \<notin> set (rt_effects t)"
      "CapProvider \<notin> set (rt_effects t)" "ClearProviderCap \<in> set (rt_effects t)"
    using reset_row by blast
  have guard: "check_run_guard d t i (rr_provider run) (rr_worktree_status run) ?f = Inr ()"
    using reset_guard [OF assms(2) p, of t] t(3) by (simp add: check_run_guard_def)
  have refs: "references_ok d t ?f" using t(4,5) by (simp add: references_ok_def)
  obtain d' tr out where app: "apply_run d i QuotaReset ?f = (d', Inr (Applied tr))" "db_wf d'"
      and tx: "transition_tx (run_write d i run QuotaReset t ?f) d = Inr (d', out)"
    using guarded_run_applies [OF wf run(1) _ guard refs] t(1) run(2) by metis
  note tables = run_tx_tables [OF wf run(1) tx]
  have "run_moved t ?f = (\<lambda>r. r\<lparr>rr_state := Queued\<rparr>)"
    using t(2,6) by (simp add: run_moved_def fun_eq_iff Let_def)
  moreover have "provider_write t (rr_provider run) ?f =
      Some \<lparr>pr_provider = rr_provider run, pr_quota_state = Ok, pr_reset_at = None, pr_updated_at = now\<rparr>"
    using t(7,8) by (simp add: provider_write_def)
  then have "db_providers d' = sql_upsert pr_provider
      \<lparr>pr_provider = rr_provider run, pr_quota_state = Ok, pr_reset_at = None, pr_updated_at = now\<rparr> (db_providers d)"
    using tables(4) by simp
  then have "load_provider d' q = (if q = rr_provider run
       then Some \<lparr>pr_provider = q, pr_quota_state = Ok, pr_reset_at = None, pr_updated_at = now\<rparr>
       else load_provider d q)" for q
    using load_provider_cong [of d' "d\<lparr>db_providers := db_providers d'\<rparr>" q]
    by (simp add: load_provider_upsert)
  ultimately show ?thesis using app tables(1,2) t(5) by auto
qed

definition requeued :: "db \<Rightarrow> i64 option set \<Rightarrow> run_row list" where
  "requeued d K = sql_update (\<lambda>r. rr_id r \<in> K) (\<lambda>r. r\<lparr>rr_state := Queued\<rparr>) (db_runs d)"

lemma load_unmoved:
  assumes "db_wf s" "db_runs s = requeued d K" "r \<in> set (db_runs d)" "rr_id r = Some i" "Some i \<notin> K"
  shows "load_run s i = Some r"
  using assms by (force simp: load_run_iff requeued_def in_sql_update)

lemma quota_stage:
  assumes wf: "db_wf d" and now: "fits_i64 now"
  shows "\<exists>d' resets. lift_elapsed_quota_caps settings now d = (d', Inr resets) \<and> db_wf d' \<and>
    db_questions d' = db_questions d \<and>
    db_runs d' = requeued d (rr_id ` {r \<in> set (db_runs d). rr_state r = AwaitingQuota \<and> rr_provider r \<in> set (due_providers settings now d)})"
proof (cases "due_providers settings now d = []")
  case True
  then show ?thesis using wf by (simp add: lift_elapsed_quota_caps_def requeued_def)
next
  case False
  define due where "due = due_providers settings now d"
  let ?w = "ts_quota_window_seconds settings" and ?rows = "runs_in_state d AwaitingQuota"
  define K where "K = (\<lambda>pre :: run_row list. rr_id ` {r \<in> set pre. rr_provider r \<in> set due})"
  define I where "I = (\<lambda>pre s (out :: quota_reset list). db_wf s \<and> db_questions s = db_questions d \<and> db_runs s = requeued d (K pre) \<and>
    (\<forall>p \<in> set due. \<exists>row. load_provider s p = Some row \<and> wakes now ?w row))"
  have "\<exists>s' out. try_each (reset_run settings now due) ?rows d = (s', Inr out) \<and> I ?rows s' out"
  proof (rule try_each_goes_through)
    show "I [] d []"
      using wf load_provider_stored [OF wf]
      by (auto simp: I_def K_def requeued_def due_def due_providers_def providers_due_def wakes_def)
  next
    fix pre r post s and out :: "quota_reset list"
    assume rows: "?rows = pre @ r # post" and I: "I pre s out"
    have r: "r \<in> set (db_runs d)" "rr_state r = AwaitingQuota" "rr_id r \<notin> rr_id ` set pre"
      using runs.selected_once [OF _ rows [unfolded runs_in_state_def]] wf by (auto simp: db_wf_def)
    obtain i where i: "rr_id r = Some i" using stored_run_id [OF wf r(1)] by blast
    show "\<exists>s' xs. reset_run settings now due r s = (s', Inr xs) \<and> I (pre @ [r]) s' (out @ xs)"
    proof (cases "rr_provider r \<in> set due")
      case False
      then have "K (pre @ [r]) = K pre" by (auto simp: K_def)
      then show ?thesis using False I by (simp add: reset_run_def i I_def)
    next
      case True
      then have K: "K (pre @ [r]) = insert (Some i) (K pre)" by (auto simp: K_def simp flip: i)
      have wf': "db_wf s" and runs: "db_runs s = requeued d (K pre)"
        and prov: "\<exists>row. load_provider s (rr_provider r) = Some row \<and> wakes now ?w row"
        using I True by (auto simp: I_def)
      have "Some i \<notin> K pre" using r(3) i by (auto simp: K_def)
      note load = load_unmoved [OF wf' runs r(1) i this]
      obtain s' tr where app: "apply_run s i QuotaReset (default_run_facts\<lparr>rf_now := now, rf_quota_window_seconds := Some ?w\<rparr>) =
            (s', Inr (Applied tr))" "db_wf s'"
          and upd: "db_runs s' = sql_update (\<lambda>r. rr_id r = Some i) (\<lambda>r. r\<lparr>rr_state := Queued\<rparr>) (db_runs s)"
          and prov': "\<forall>q. load_provider s' q = (if q = rr_provider r
             then Some \<lparr>pr_provider = q, pr_quota_state = Ok, pr_reset_at = None, pr_updated_at = now\<rparr>
             else load_provider s q)" and qs: "db_questions s' = db_questions s"
        using reset_applies [OF wf' now load r(2)] prov by blast
      have "db_runs s' = requeued d (K (pre @ [r]))"
        unfolding upd runs requeued_def K by (rule sql_update_more) simp_all
      then have "I (pre @ [r]) s' ys" for ys
        using I app(2) prov' qs by (auto simp: I_def wakes_def)
      then show ?thesis using True app(1) by (simp add: reset_run_def i)
    qed
  qed
  then obtain s' out where "try_each (reset_run settings now due) ?rows d = (s', Inr out)" "I ?rows s' out" by blast
  moreover have "K ?rows = rr_id ` {r \<in> set (db_runs d). rr_state r = AwaitingQuota \<and> rr_provider r \<in> set due}"
    by (auto simp: K_def runs_in_state_def)
  ultimately show ?thesis using False by (simp add: lift_elapsed_quota_caps_def Let_def due_def [symmetric] I_def)
qed

section \<open>Expired questions\<close>

lemma expirable_iff: "expirable k s \<longleftrightarrow> (\<exists>t. find_question_transition k s Expire = Some t)"
  by (auto simp: expirable_def list_ex_iff find_question_transition_iff)

lemma expire_row:
  "find_question_transition k s Expire = Some t \<Longrightarrow> qt_guard t = PastExpiry \<and> qt_to t = Expired"
  by (auto simp: find_question_transition_iff question_transitions_def)

definition voided :: "db \<Rightarrow> i64 option set \<Rightarrow> question_row list" where
  "voided d K = sql_update (\<lambda>q. qu_id q \<in> K) (\<lambda>q. q\<lparr>qu_state := Expired\<rparr>) (db_questions d)"

definition past_expiry :: "i64 \<Rightarrow> question_row \<Rightarrow> bool" where
  "past_expiry now q \<longleftrightarrow> (case qu_expires_at q of None \<Rightarrow> False | Some at \<Rightarrow> at \<le> now) \<and> qu_state q \<in> {Open, question_state.Answered}"

lemma expire_applies:
  assumes wf: "db_wf d" and q: "load_question d i = Some q" and "past_expiry now q" "expirable (qu_kind q) (qu_state q)"
  shows "\<exists>d' tr. apply_question d i Expire (default_question_facts\<lparr>qf_now := now\<rparr>) = (d', Inr (Applied tr)) \<and> db_wf d' \<and>
    db_questions d' = sql_update (\<lambda>q. qu_id q = Some i) (\<lambda>q. q\<lparr>qu_state := Expired\<rparr>) (db_questions d) \<and>
    db_runs d' = db_runs d"
proof -
  obtain t where row: "find_question_transition (qu_kind q) (qu_state q) Expire = Some t"
    using assms(4) expirable_iff by blast
  have t: "qt_guard t = PastExpiry" "qt_to t = Expired" using expire_row [OF row] by auto
  have guard: "check_question_guard t q (default_question_facts\<lparr>qf_now := now\<rparr>) = Inr ()"
    using assms(3) t by (auto simp: check_question_guard_def past_expiry_def in_date_def default_question_facts_def Let_def
      split: option.splits)
  have "q \<in> set (db_questions d)" using load_question_iff [OF wf] q by auto
  then have "question_checks q" using wf by (auto simp: db_wf_def)
  then have "question_checks (q\<lparr>qu_state := qt_to t\<rparr>)" using t by (auto simp: question_checks_def)
  from guarded_question_applies [OF wf q row guard _ this] t show ?thesis by auto
qed

lemma question_stage:
  assumes wf: "db_wf d"
  shows "\<exists>d' expired. void_expired_questions now d = (d', Inr expired) \<and> db_wf d' \<and> db_runs d' = db_runs d \<and>
    db_questions d' = voided d (qu_id ` {q \<in> set (db_questions d). past_expiry now q \<and> expirable (qu_kind q) (qu_state q)})"
proof -
  let ?rows = "questions_past_expiry d now"
  define K where "K = (\<lambda>pre :: question_row list. qu_id ` {q \<in> set pre. expirable (qu_kind q) (qu_state q)})"
  define I where "I = (\<lambda>pre s (out :: expired_question list). db_wf s \<and> db_runs s = db_runs d \<and> db_questions s = voided d (K pre))"
  have "\<exists>s' out. try_each (expire_question now) ?rows d = (s', Inr out) \<and> I ?rows s' out"
  proof (rule try_each_goes_through)
    show "I [] d []" using wf by (simp add: I_def K_def voided_def)
  next
    fix pre q post s and out :: "expired_question list"
    assume rows: "?rows = pre @ q # post" and I: "I pre s out"
    have q: "q \<in> set (db_questions d)" "past_expiry now q" "qu_id q \<notin> qu_id ` set pre"
      using questions.selected_once [OF _ rows [unfolded questions_past_expiry_def]] wf
      by (auto simp: db_wf_def past_expiry_def)
    obtain i where i: "qu_id q = Some i" using question_stored_id [OF wf q(1)] by blast
    show "\<exists>s' xs. expire_question now q s = (s', Inr xs) \<and> I (pre @ [q]) s' (out @ xs)"
    proof (cases "expirable (qu_kind q) (qu_state q)")
      case False
      then have "K (pre @ [q]) = K pre" by (auto simp: K_def)
      then show ?thesis using False I by (simp add: expire_question_def i I_def)
    next
      case True
      then have K: "K (pre @ [q]) = insert (Some i) (K pre)" by (auto simp: K_def simp flip: i)
      have wf': "db_wf s" and questions: "db_questions s = voided d (K pre)" using I by (auto simp: I_def)
      have "Some i \<notin> K pre" using q(3) i by (auto simp: K_def)
      then have load: "load_question s i = Some q"
        using q(1) i by (force simp: load_question_iff [OF wf'] questions voided_def in_sql_update)
      obtain s' tr where app: "apply_question s i Expire (default_question_facts\<lparr>qf_now := now\<rparr>) = (s', Inr (Applied tr))"
            "db_wf s'" "db_runs s' = db_runs s"
          and upd: "db_questions s' = sql_update (\<lambda>q. qu_id q = Some i) (\<lambda>q. q\<lparr>qu_state := Expired\<rparr>) (db_questions s)"
        using expire_applies [OF wf' load q(2) True] by blast
      have "db_questions s' = voided d (K (pre @ [q]))"
        unfolding upd questions voided_def K by (rule sql_update_more) simp_all
      then have "I (pre @ [q]) s' ys" for ys using I app(2,3) by (simp add: I_def)
      then show ?thesis using True app(1) by (simp add: expire_question_def i)
    qed
  qed
  then obtain s' out where "try_each (expire_question now) ?rows d = (s', Inr out)" "I ?rows s' out" by blast
  moreover have "K ?rows = qu_id ` {q \<in> set (db_questions d). past_expiry now q \<and> expirable (qu_kind q) (qu_state q)}"
    by (auto simp: K_def questions_past_expiry_def past_expiry_def)
  ultimately show ?thesis by (simp add: void_expired_questions_def I_def)
qed

section \<open>Overdue checkpoints\<close>

lemma journal_one:
  assumes "event_checks e" "event_fks (db_runs d) e"
  shows "journal d [e] = (d\<lparr>db_events := db_events d @ [e\<lparr>ev_id := Some (next_event_id d)\<rparr>]\<rparr>, Inr [next_event_id d])"
proof -
  have "append_event_row d e =
      Inr (d\<lparr>db_events := db_events d @ [e\<lparr>ev_id := Some (next_event_id d)\<rparr>]\<rparr>, next_event_id d)"
    using assms by (simp add: append_event_row_def sql_insert_def next_event_id_def Let_def)
  moreover have "write_events None [e] d = and_then (append_event_row d e) (\<lambda>(d1, i). Inr (d1, [i]))"
    using filled_event_None [of e] by (simp add: filled_event_def Let_def)
  ultimately have "transition_rows (empty_write i [e]) d = Inr (d\<lparr>db_events := db_events d @ [e\<lparr>ev_id := Some (next_event_id d)\<rparr>]\<rparr>,
      \<lparr>to_event_ids = [next_event_id d], to_attempt_id = None, to_closed_attempts = 0, to_question_id = None\<rparr>)" for i
    by (simp add: transition_rows_def empty_write_def write_new_question_def write_close_attempt_def
      write_attempt_def write_provider_def Let_def del: write_events.simps)
  moreover have "transition_changes (empty_write i [e]) d = Inr d" for i
    by (simp add: transition_changes_def empty_write_def write_run_state_def write_worktree_status_def write_question_def)
  ultimately show ?thesis
    by (simp add: journal_def apply_transition_def transition_tx_def write_result_def) (simp add: empty_write_def write_result_def)
qed

text \<open>How looking for a signal ends.\<close>

lemma overdue_signal_cases:
  assumes "db_wf d" "run_exists (db_runs d) i"
  obtains (quiet) "overdue_signal settings now i d = (d, Inr None)"
  | (raised) c promised due where "standing_deadline settings d i = Some (c, promised, due)" "due \<le> now"
      "\<not> already_signalled d i c"
      "overdue_signal settings now i d =
        (d\<lparr>db_events := db_events d @ [(overdue_entry settings i now c promised due)\<lparr>ev_id := Some (next_event_id d)\<rparr>]\<rparr>,
         Inr (Some \<lparr>oc_run_id = i, oc_checkpoint_event_id = c, oc_promised_at = promised, oc_deadline = due,
           oc_signal_event_id = next_event_id d\<rparr>))"
proof (cases "standing_deadline settings d i")
  case None
  then show ?thesis using quiet by (simp add: overdue_signal_def)
next
  case (Some x)
  obtain c promised due where x: "x = (c, promised, due)" by (cases x)
  let ?e = "overdue_entry settings i now c promised due"
  have "event_checks ?e" "event_fks (db_runs d) ?e"
    using assms(2) by (simp_all add: overdue_entry_def event_checks_def event_fks_def json_valid_def checkpoint_overdue_event_def)
  note journaled = journal_one [OF this]
  show ?thesis
  proof (cases "due \<le> now \<and> \<not> already_signalled d i c")
    case True
    then show ?thesis using raised [of c promised due] Some x journaled by (simp add: overdue_signal_def not_less)
  next
    case False
    then show ?thesis using quiet Some x by (auto simp: overdue_signal_def)
  qed
qed

lemma overdue_stage:
  assumes wf: "db_wf d"
  shows "\<exists>d' overdue. raise_overdue_checkpoints settings now d = (d', Inr overdue) \<and> db_wf d' \<and>
    db_runs d' = db_runs d \<and> db_questions d' = db_questions d"
proof -
  let ?rows = "runs_in_state d run_state.Running"
  define I where "I = (\<lambda>(pre :: run_row list) s (out :: overdue_checkpoint list).
    db_wf s \<and> db_runs s = db_runs d \<and> db_questions s = db_questions d)"
  have "\<exists>s' out. try_each (raise_overdue settings now) ?rows d = (s', Inr out) \<and> I ?rows s' out"
  proof (rule try_each_goes_through)
    show "I [] d []" using wf by (simp add: I_def)
  next
    fix pre r post s and out :: "overdue_checkpoint list"
    assume rows: "?rows = pre @ r # post" and I: "I pre s out"
    have "r \<in> set ?rows" using rows by simp
    then have r: "r \<in> set (db_runs d)" by (simp add: runs_in_state_def)
    obtain i where i: "rr_id r = Some i" using stored_run_id [OF wf r] by blast
    have s: "db_wf s" "run_exists (db_runs s) i" using I r i by (auto simp: I_def run_exists_def)
    show "\<exists>s' xs. raise_overdue settings now r s = (s', Inr xs) \<and> I (pre @ [r]) s' (out @ xs)"
    proof (rule overdue_signal_cases [OF s, of settings now])
      assume "overdue_signal settings now i s = (s, Inr None)"
      then show ?thesis using I by (simp add: raise_overdue_def i I_def)
    next
      fix c promised due
      assume raised: "overdue_signal settings now i s =
        (s\<lparr>db_events := db_events s @ [(overdue_entry settings i now c promised due)\<lparr>ev_id := Some (next_event_id s)\<rparr>]\<rparr>,
         Inr (Some \<lparr>oc_run_id = i, oc_checkpoint_event_id = c, oc_promised_at = promised, oc_deadline = due,
           oc_signal_event_id = next_event_id s\<rparr>))"
      let ?e = "overdue_entry settings i now c promised due"
      have "event_checks ?e" "event_fks (db_runs s) ?e"
        using s(2) by (simp_all add: overdue_entry_def event_checks_def event_fks_def json_valid_def checkpoint_overdue_event_def)
      from journal_one [OF this]
      have "db_wf (s\<lparr>db_events := db_events s @ [?e\<lparr>ev_id := Some (next_event_id s)\<rparr>]\<rparr>)"
        using journal_wf [OF s(1), of "[?e]"] by simp
      then show ?thesis using I raised by (simp add: raise_overdue_def i I_def)
    qed
  qed
  then show ?thesis by (auto simp: raise_overdue_checkpoints_def I_def)
qed

text \<open>A signal, once raised, is found whatever is done since.\<close>

lemma map_filter_set: "x \<in> set (List.map_filter f xs) \<longleftrightarrow> (\<exists>y \<in> set xs. f y = Some x)"
  by (induction xs) (auto simp: List.map_filter_simps split: option.splits)

lemma bex_map_filter: "(\<exists>y \<in> set (List.map_filter f xs). P y) \<longleftrightarrow> (\<exists>x \<in> set xs. \<exists>y. f x = Some y \<and> P y)"
  by (metis map_filter_set)

lemma already_signalled_iff:
  "already_signalled d i c \<longleftrightarrow>
    (\<exists>e \<in> set (db_events d). ev_run_id e = Some i \<and> ev_type e = checkpoint_overdue_event \<and>
      Option.bind (from_str (ev_payload e)) (\<lambda>v. get_i64 v checkpoint_id_field) = Some c)"
  by (auto simp: already_signalled_def map_filter_set bex_map_filter events_of_type_for_run_def bind_eq_Some_conv)

lemma signalled_stays: "already_signalled d i c \<Longrightarrow> journal_grows d d' \<Longrightarrow> already_signalled d' i c"
  by (auto simp: already_signalled_iff journal_grows_def)

lemma raised_is_signalled:
  assumes "overdue_signal settings now i d = (d1, Inr (Some o'))" "fits_i64 (oc_checkpoint_event_id o')"
  shows "\<not> already_signalled d i (oc_checkpoint_event_id o')" "already_signalled d1 i (oc_checkpoint_event_id o')"
proof -
  obtain c promised due where std: "standing_deadline settings d i = Some (c, promised, due)"
    using assms(1) by (cases "standing_deadline settings d i") (auto simp: overdue_signal_def)
  let ?e = "overdue_entry settings i now c promised due"
  obtain ids where j: "journal d [?e] = (d1, Inr (oc_signal_event_id o' # ids))"
    and new: "\<not> already_signalled d i c" and c: "oc_checkpoint_event_id o' = c"
    using assms(1) std by (auto simp: overdue_signal_def split: if_splits prod.splits sum.splits list.splits)
  show "\<not> already_signalled d i (oc_checkpoint_event_id o')" using new c by simp
  have "apply_transition d (empty_write i [?e]) = (d1, Inr x) \<Longrightarrow>
      \<exists>es. db_events d1 = db_events d @ es \<and> (\<exists>e \<in> set es. ev_run_id e = Some i \<and>
        ev_type e = checkpoint_overdue_event \<and> ev_payload e = ev_payload ?e)" for x
  proof -
    assume "apply_transition d (empty_write i [?e]) = (d1, Inr x)"
    then have tx: "transition_tx (empty_write i [?e]) d = Inr (d1, x)"
      by (simp add: apply_transition_def commit_Inr_iff)
    have "to_question_id x = None"
      using tx by (auto simp: transition_tx_def and_then_Inr_iff transition_rows_def empty_write_def write_new_question_def Let_def)
    then show ?thesis
      using transition_tx_journal(1) [OF tx] by (auto simp: empty_write_def overdue_entry_def)
  qed
  moreover obtain x where "apply_transition d (empty_write i [?e]) = (d1, Inr x)"
    using j by (auto simp: journal_def overdue_entry_def split: prod.splits sum.splits)
  ultimately obtain e where "e \<in> set (db_events d1)" "ev_run_id e = Some i" "ev_type e = checkpoint_overdue_event"
      "ev_payload e = ev_payload ?e" by fastforce
  moreover have "Option.bind (from_str (ev_payload ?e)) (\<lambda>v. get_i64 v checkpoint_id_field) = Some c"
    using assms(2) c by (simp add: overdue_entry_def)
  ultimately show "already_signalled d1 i (oc_checkpoint_event_id o')"
    unfolding already_signalled_iff c by metis
qed

lemma signalled_once:
  assumes "overdue_signal settings now i d = (d1, Inr (Some o1))" "fits_i64 (oc_checkpoint_event_id o1)"
    and "journal_grows d1 d2" "overdue_signal settings' now' i d2 = (d3, Inr (Some o2))"
  shows "oc_checkpoint_event_id o2 \<noteq> oc_checkpoint_event_id o1"
proof
  assume same: "oc_checkpoint_event_id o2 = oc_checkpoint_event_id o1"
  have "already_signalled d2 i (oc_checkpoint_event_id o1)"
    using raised_is_signalled(2) [OF assms(1,2)] assms(3) signalled_stays by blast
  moreover have "\<not> already_signalled d2 i (oc_checkpoint_event_id o2)"
    using raised_is_signalled(1) [OF assms(4)] assms(2) same by simp
  ultimately show False using same by simp
qed

section \<open>The deadline is the exact one\<close>

lemma sdiv_hundred:
  "\<bar>(x :: int) sdiv 100\<bar> \<le> \<bar>x\<bar>" "0 \<le> x \<Longrightarrow> x sdiv 100 = x div 100"
proof -
  show nonneg: "0 \<le> x \<Longrightarrow> x sdiv 100 = x div 100" for x :: int
    by (cases "x = 0") (simp_all add: signed_divide_int_def)
  show "\<bar>x sdiv 100\<bar> \<le> \<bar>x\<bar>"
  proof (cases "0 \<le> x")
    case True
    then show ?thesis using nonneg by simp
  next
    case False
    then have "x sdiv 100 = - ((- x) div 100)" by (simp add: signed_divide_int_def)
    then show ?thesis using False by linarith
  qed
qed

lemma i64_product:
  assumes "fits_i64 x" "fits_i64 y" shows "\<bar>x * y\<bar> \<le> 85070591730234615865843651857942052864"
proof -
  have "\<bar>x\<bar> \<le> 9223372036854775808" "\<bar>y\<bar> \<le> 9223372036854775808"
    using assms by (auto simp: fits_i64_def i64_min_def i64_max_def)
  then have "\<bar>x\<bar> * \<bar>y\<bar> \<le> 9223372036854775808 * 9223372036854775808"
    by (intro mult_mono) simp_all
  then show ?thesis by (simp add: abs_mult)
qed

text \<open>No intermediate value leaves the 128 bits the code computes in.\<close>

lemma deadline_exact:
  assumes "fits_i64 ts" "fits_i64 promised" "fits_i64 (ts_grace_percent settings)"
  shows "deadline settings ts promised =
    (if promised \<le> ts \<or> i64_max < promised - ts then None
     else try_i64 (ts + (promised - ts) * ts_grace_percent settings sdiv 100))"
proof (cases "promised \<le> ts \<or> i64_max < promised - ts")
  case True
  then show ?thesis by (auto simp: deadline_def try_i64_def fits_i64_def)
next
  case False
  let ?p = "(promised - ts) * ts_grace_percent settings"
  have span: "fits_i64 (promised - ts)" using False by (auto simp: fits_i64_def i64_min_def)
  have p: "\<bar>?p\<bar> \<le> 85070591730234615865843651857942052864" by (rule i64_product [OF span assms(3)])
  have q: "\<bar>?p sdiv 100\<bar> \<le> 85070591730234615865843651857942052864" using p sdiv_hundred(1) [of ?p] by linarith
  have "\<bar>ts\<bar> \<le> 9223372036854775808" using assms(1) by (auto simp: fits_i64_def i64_min_def i64_max_def)
  then have "try_i128 ?p = Some ?p" "try_i128 (?p sdiv 100) = Some (?p sdiv 100)"
      "try_i128 (ts + ?p sdiv 100) = Some (ts + ?p sdiv 100)"
    using p q by (auto simp: try_i128_def i128_max_def)
  then show ?thesis using False span by (auto simp: deadline_def)
qed

lemma deadline_after_promise:
  assumes "fits_i64 ts" "fits_i64 promised" "fits_i64 (ts_grace_percent settings)"
    and "deadline settings ts promised = Some due" "100 \<le> ts_grace_percent settings"
  shows "promised \<le> due"
proof -
  let ?g = "ts_grace_percent settings"
  have span: "ts < promised" and due: "due = ts + (promised - ts) * ?g sdiv 100"
    using assms(4) unfolding deadline_exact [OF assms(1-3)] by (auto split: if_splits)
  have "(promised - ts) * 100 \<le> (promised - ts) * ?g" using span assms(5) by (intro mult_left_mono) simp_all
  then have "(promised - ts) * 100 div 100 \<le> (promised - ts) * ?g div 100" by (rule zdiv_mono1) simp
  then have "promised - ts \<le> (promised - ts) * ?g div 100" by simp
  moreover have "0 \<le> (promised - ts) * ?g" using span assms(5) by simp
  ultimately show ?thesis using due sdiv_hundred(2) by simp
qed

section \<open>A whole tick\<close>

lemma tick_goes_through:
  assumes wf: "db_wf d" and now: "fits_i64 now"
  obtains standing' d' t where "wheel_tick settings now standing d = (standing', d', t)" "db_wf d'" "tk_rejections t = []"
    "\<forall>stage. standing' stage = None"
    "db_runs d' = requeued d (rr_id ` {r \<in> set (db_runs d). rr_state r = AwaitingQuota \<and>
        rr_provider r \<in> set (due_providers settings now d)})"
    "db_questions d' = voided d (qu_id ` {q \<in> set (db_questions d). past_expiry now q \<and> expirable (qu_kind q) (qu_state q)})"
proof -
  obtain d1 resets where 1: "lift_elapsed_quota_caps settings now d = (d1, Inr resets)" "db_wf d1"
      "db_questions d1 = db_questions d" and r1: "db_runs d1 = requeued d (rr_id ` {r \<in> set (db_runs d). rr_state r = AwaitingQuota \<and>
        rr_provider r \<in> set (due_providers settings now d)})"
    using quota_stage [OF wf now, of settings] by blast
  obtain d2 expired where 2: "void_expired_questions now d1 = (d2, Inr expired)" "db_wf d2" "db_runs d2 = db_runs d1"
      and q2: "db_questions d2 = voided d1 (qu_id ` {q \<in> set (db_questions d1). past_expiry now q \<and> expirable (qu_kind q) (qu_state q)})"
    using question_stage [OF 1(2), of now] by blast
  obtain d3 overdue where 3: "raise_overdue_checkpoints settings now d2 = (d3, Inr overdue)" "db_wf d3"
      "db_runs d3 = db_runs d2" "db_questions d3 = db_questions d2"
    using overdue_stage [OF 2(2), of settings now] by blast
  have every: "stage \<in> {QuotaResets, ExpiredQuestions, OverdueCheckpoints}" for stage by (cases stage) auto
  show ?thesis
  proof (rule that)
    show "wheel_tick settings now standing d = (standing(QuotaResets := None, ExpiredQuestions := None, OverdueCheckpoints := None), d3,
        \<lparr>tk_now = now, tk_quota_resets = resets, tk_expired_questions = expired, tk_overdue_checkpoints = overdue, tk_rejections = []\<rparr>)"
      using 1(1) 2(1) 3(1) by (simp add: wheel_tick_def settle_stage_def)
    show "\<forall>stage. (standing(QuotaResets := None, ExpiredQuestions := None, OverdueCheckpoints := None)) stage = None"
      using every by auto
  qed (use 1 2 3 r1 q2 in \<open>simp_all add: voided_def\<close>)
qed

section \<open>The clock and what may expire\<close>

lemma clock_now_fits: "fits_i64 (clock_now elapsed)"
  by (auto simp: clock_now_def try_i64_def fits_i64_def i64_min_def i64_max_def split: option.splits)

lemma expirable_states: "expirable k s \<longleftrightarrow> s = Open \<or> k = Approval \<and> s = question_state.Answered"
  by (cases k; cases s) (simp_all add: expirable_def question_transitions_def)

end
