(* ===== verification/Reconcile.thy ===== *)
theory Reconcile
  imports Timers_Due Fact_Path
begin

text \<open>
  Boot reconciliation (crates/agens-server/src/coordinator/reconcile.rs): what the
  coordinator makes true again before it admits anything. The file system is a record of
  two reads, the entries of a directory and whether a path is one; a path compares by its
  components, as the standard library's does.
\<close>

section \<open>Runs no session executes\<close>

definition move_each :: "run_trigger \<Rightarrow> run_facts \<Rightarrow> run_row \<Rightarrow> db \<Rightarrow> db \<times> (rejection + i64 list)" where
  "move_each trigger f run d =
     (case rr_id run of None \<Rightarrow> (d, Inr [])
      | Some run_id \<Rightarrow>
          (case apply_run d run_id trigger f of
             (d1, Inl e) \<Rightarrow> (d1, Inl e)
           | (d1, Inr outcome) \<Rightarrow> (d1, Inr (if applied outcome \<noteq> None then [run_id] else []))))"

definition interrupt_orphaned_runs :: "i64 \<Rightarrow> db \<Rightarrow> db \<times> (rejection + i64 list)" where
  "interrupt_orphaned_runs now d =
     try_each (move_each Reconcile (default_run_facts\<lparr>rf_now := now, rf_principal := principal.Coordinator,
       rf_boot_reconciliation := True\<rparr>)) (runs_in_state d run_state.Running) d"

definition resume_interrupted :: "i64 \<Rightarrow> db \<Rightarrow> db \<times> (rejection + i64 list)" where
  "resume_interrupted now d =
     try_each (move_each Resume (default_run_facts\<lparr>rf_now := now, rf_principal := principal.Coordinator\<rparr>))
       (runs_in_state d run_state.Interrupted) d"

section \<open>Worktrees on disk\<close>

record file_system =
  fs_read_dir :: "string \<Rightarrow> string list option"
  fs_is_dir :: "string \<Rightarrow> bool"

definition path_join :: "string \<Rightarrow> string \<Rightarrow> string" where
  "path_join dir name =
     (if is_absolute name then name
      else if dir = [] \<or> last dir = separator then dir @ name else dir @ separator # name)"

text \<open>The order of paths: by component, a root before a dot before a parent before a name.\<close>

fun component_key :: "component \<Rightarrow> string" where
  "component_key RootDir = [char_of (0 :: nat)]"
| "component_key CurDir = [char_of (1 :: nat)]"
| "component_key ParentDir = [char_of (2 :: nat)]"
| "component_key (Normal part) = char_of (3 :: nat) # part"

definition path_key :: "string \<Rightarrow> string list" where
  "path_key path = map component_key (components path)"

definition worktrees_on_disk :: "file_system \<Rightarrow> string \<Rightarrow> string list" where
  "worktrees_on_disk fs data_directory =
     (case fs_read_dir fs (path_join data_directory ''worktrees'') of
        None \<Rightarrow> []
      | Some repositories \<Rightarrow>
          sort_key path_key (concat (map (\<lambda>repository.
            if \<not> fs_is_dir fs repository then []
            else (case fs_read_dir fs repository of None \<Rightarrow> []
                  | Some worktrees \<Rightarrow> filter (fs_is_dir fs) worktrees)) repositories)))"

text \<open>The runs whose directory is still claimed, in the order the states are read.\<close>

definition claims :: "db \<Rightarrow> (i64 \<times> string) list" where
  "claims d = concat (map (\<lambda>state. List.map_filter (\<lambda>run.
     case (rr_id run, rr_worktree_path run) of
       (Some run_id, Some path) \<Rightarrow> if rr_worktree_status run = Some Cleaned then None else Some (run_id, path)
     | _ \<Rightarrow> None) (runs_in_state d state)) worktree_holding_run_states)"

definition worktree_orphaned_event :: string where "worktree_orphaned_event = ''worktree_orphaned''"
definition worktree_missing_event :: string where "worktree_missing_event = ''worktree_missing''"

definition worktree_entry :: "string \<Rightarrow> i64 option \<Rightarrow> string \<Rightarrow> i64 \<Rightarrow> event_row" where
  "worktree_entry event_type run_id path now =
     \<lparr>ev_id = None, ev_run_id = run_id, ev_type = event_type, ev_class = Infra,
      ev_payload = JText (JObject [(''worktree_path'', JString path)]), ev_ts = now\<rparr>"

definition journal_entry :: "event_row \<Rightarrow> db \<Rightarrow> db \<times> (rejection + i64)" where
  "journal_entry e d =
     (case journal d [e] of
        (d1, Inl r) \<Rightarrow> (d1, Inl r)
      | (d1, Inr []) \<Rightarrow> (d1, Inl (rejection.Storage (''the '' @ ev_type e @ '' entry was journaled without an id'')))
      | (d1, Inr (i # ids)) \<Rightarrow> (d1, Inr i))"

record orphan_worktree =
  ow_path :: string
  ow_event_id :: i64

record missing_worktree =
  mw_run_id :: i64
  mw_path :: string
  mw_event_id :: i64

definition report_missing :: "i64 \<Rightarrow> i64 \<times> string \<Rightarrow> db \<Rightarrow> db \<times> (rejection + missing_worktree list)" where
  "report_missing now claim d =
     (case claim of (run_id, path) \<Rightarrow>
     (case journal_entry (worktree_entry worktree_missing_event (Some run_id) path now) d of
        (d1, Inl e) \<Rightarrow> (d1, Inl e)
      | (d1, Inr i) \<Rightarrow> (d1, Inr [\<lparr>mw_run_id = run_id, mw_path = path, mw_event_id = i\<rparr>])))"

definition report_orphan :: "i64 \<Rightarrow> string \<Rightarrow> db \<Rightarrow> db \<times> (rejection + orphan_worktree list)" where
  "report_orphan now path d =
     (case journal_entry (worktree_entry worktree_orphaned_event None path now) d of
        (d1, Inl e) \<Rightarrow> (d1, Inl e)
      | (d1, Inr i) \<Rightarrow> (d1, Inr [\<lparr>ow_path = path, ow_event_id = i\<rparr>]))"

definition verify_worktrees ::
  "file_system \<Rightarrow> string \<Rightarrow> i64 \<Rightarrow> db \<Rightarrow> db \<times> (rejection + orphan_worktree list \<times> missing_worktree list)" where
  "verify_worktrees fs data_directory now d =
     (let claimed = map (components \<circ> snd) (claims d);
          missing = filter (\<lambda>(run_id, path). \<not> fs_is_dir fs path) (claims d);
          orphans = filter (\<lambda>path. components path \<notin> set claimed) (worktrees_on_disk fs data_directory)
      in case try_each (report_missing now) missing d of
           (d1, Inl e) \<Rightarrow> (d1, Inl e)
         | (d1, Inr reported_missing) \<Rightarrow>
             (case try_each (report_orphan now) orphans d1 of
                (d2, Inl e) \<Rightarrow> (d2, Inl e)
              | (d2, Inr reported_orphans) \<Rightarrow> (d2, Inr (reported_orphans, reported_missing))))"

section \<open>The pass\<close>

record boot_reconciliation =
  br_interrupted :: "i64 list"
  br_resumed :: "i64 list"
  br_timers :: timer_tick
  br_orphan_worktrees :: "orphan_worktree list"
  br_missing_worktrees :: "missing_worktree list"

text \<open>The wheel reads its own clock, \<open>tick_now\<close>.\<close>

definition reconcile_before_surface ::
  "timer_settings \<Rightarrow> file_system \<Rightarrow> string \<Rightarrow> i64 \<Rightarrow> i64 \<Rightarrow> standing \<Rightarrow> db \<Rightarrow>
   standing \<times> db \<times> (rejection + boot_reconciliation)" where
  "reconcile_before_surface settings fs data_directory now tick_now standing d =
     (case interrupt_orphaned_runs now d of
        (d1, Inl e) \<Rightarrow> (standing, d1, Inl e)
      | (d1, Inr interrupted) \<Rightarrow>
          (case wheel_tick settings tick_now standing d1 of (standing1, d2, timers) \<Rightarrow>
          (case verify_worktrees fs data_directory now d2 of
             (d3, Inl e) \<Rightarrow> (standing1, d3, Inl e)
           | (d3, Inr (orphans, missing)) \<Rightarrow>
               (standing1, d3,
                Inr \<lparr>br_interrupted = interrupted, br_resumed = [], br_timers = timers,
                     br_orphan_worktrees = orphans, br_missing_worktrees = missing\<rparr>))))"

section \<open>Every run of a state moved on\<close>

lemma move_all:
  assumes wf: "db_wf d" and t: "find_run_transition st tr = Some t"
    and guard: "\<And>s i p w. check_run_guard s t i p w f = Inr ()"
    and quiet: "OpenAttempt \<notin> set (rt_effects t)" "OpenQuestion \<notin> set (rt_effects t)" "RecordResult \<notin> set (rt_effects t)"
  shows "\<exists>d' ids. try_each (move_each tr f) (runs_in_state d st) d = (d', Inr ids) \<and> db_wf d' \<and>
    db_questions d' = db_questions d \<and> ids = map (\<lambda>r. stored_id (rr_id r)) (runs_in_state d st) \<and>
    db_runs d' = sql_update (\<lambda>r. rr_state r = st) (\<lambda>r. r\<lparr>rr_state := rt_to t\<rparr>) (db_runs d)"
proof -
  let ?rows = "runs_in_state d st" and ?g = "\<lambda>r. r\<lparr>rr_state := rt_to t\<rparr>"
  define I where "I = (\<lambda>(pre :: run_row list) s (out :: i64 list). db_wf s \<and> db_questions s = db_questions d \<and>
    out = map (\<lambda>r. stored_id (rr_id r)) pre \<and> db_runs s = sql_update (\<lambda>r. rr_id r \<in> rr_id ` set pre) ?g (db_runs d))"
  have refs: "references_ok s t f" for s using quiet by (simp add: references_ok_def)
  have moved: "run_moved t f = ?g" using quiet(3) by (simp add: run_moved_def fun_eq_iff Let_def)
  have "\<exists>s' out. try_each (move_each tr f) ?rows d = (s', Inr out) \<and> I ?rows s' out"
  proof (rule try_each_goes_through)
    show "I [] d []" using wf by (simp add: I_def)
  next
    fix pre r post s and out :: "i64 list"
    assume rows: "?rows = pre @ r # post" and I: "I pre s out"
    have r: "r \<in> set (db_runs d)" "rr_state r = st" "rr_id r \<notin> rr_id ` set pre"
      using runs.selected_once [OF _ rows [unfolded runs_in_state_def]] wf by (auto simp: db_wf_def)
    obtain i where i: "rr_id r = Some i" using stored_run_id [OF wf r(1)] by blast
    have s: "db_wf s" "db_runs s = sql_update (\<lambda>r. rr_id r \<in> rr_id ` set pre) ?g (db_runs d)" using I by (auto simp: I_def)
    have load: "load_run s i = Some r"
      using r i by (force simp: load_run_iff [OF s(1)] s(2) in_sql_update)
    obtain s' ap out' where app: "apply_run s i tr f = (s', Inr (Applied ap))" "db_wf s'"
        and tx: "transition_tx (run_write s i r tr t f) s = Inr (s', out')"
      using guarded_run_applies [OF s(1) load _ guard refs] t r(2) by metis
    note tables = run_tx_tables [OF s(1) load tx]
    have "db_runs s' = sql_update (\<lambda>x. rr_id x \<in> rr_id ` set (pre @ [r])) ?g (db_runs d)"
      using sql_update_more [of rr_id ?g "Some i" "rr_id ` set pre" "db_runs d"]
      by (simp add: tables(1) moved s(2) i)
    moreover have "db_questions s' = db_questions d" using tables(2) quiet(2) I by (simp add: I_def)
    ultimately have "I (pre @ [r]) s' (out @ [i])" using I app(2) by (simp add: I_def i)
    then show "\<exists>s' xs. move_each tr f r s = (s', Inr xs) \<and> I (pre @ [r]) s' (out @ xs)"
      using app(1) by (simp add: move_each_def i)
  qed
  moreover have "sql_update (\<lambda>r. rr_id r \<in> rr_id ` set ?rows) ?g (db_runs d) = sql_update (\<lambda>r. rr_state r = st) ?g (db_runs d)"
    using runs.id_unique [of "db_runs d"] wf by (auto simp: sql_update_def runs_in_state_def db_wf_def)
  ultimately show ?thesis by (auto simp: I_def)
qed

end
