(* ===== verification/Recovery.thy ===== *)
theory Recovery
  imports Reconcile
begin

text \<open>
  The timers and the boot only move the control plane by its own operations, so what
  every history keeps, they keep; and a boot leaves nothing that no session executes.
\<close>

section \<open>Only operations of the control plane\<close>

lemma apply_run_reachable:
  "reachable d \<Longrightarrow> rf_opened_question f = None \<Longrightarrow> apply_run d i tr f = (d1, x) \<Longrightarrow> reachable d1"
  using reachable.step [of d "MoveRun i tr f"] by (simp add: admissible_def)

lemma apply_question_reachable: "reachable d \<Longrightarrow> apply_question d i tr f = (d1, x) \<Longrightarrow> reachable d1"
  using reachable.step [of d "MoveQuestion i tr f"] by (simp add: admissible_def)

lemma journal_reachable: "reachable d \<Longrightarrow> journal d es = (d1, x) \<Longrightarrow> reachable d1"
  using reachable.step [of d "Journal es"] by (simp add: admissible_def)

lemmas steps_reachable = apply_run_reachable apply_question_reachable journal_reachable

lemma no_opened_question [simp]: "rf_opened_question default_run_facts = None"
  by (simp add: default_run_facts_def)

lemma reset_run_reachable: "reachable d \<Longrightarrow> reachable (fst (reset_run settings now due r d))"
  by (auto simp: reset_run_def split: option.split prod.split sum.split intro: steps_reachable [rotated -1])

lemma expire_question_reachable: "reachable d \<Longrightarrow> reachable (fst (expire_question now q d))"
  by (auto simp: expire_question_def split: option.split prod.split sum.split intro: steps_reachable [rotated -1])

lemma overdue_signal_reachable: "reachable d \<Longrightarrow> reachable (fst (overdue_signal settings now i d))"
  by (auto simp: overdue_signal_def split: option.split prod.split sum.split list.split intro: steps_reachable [rotated -1])

lemma raise_overdue_reachable: "reachable d \<Longrightarrow> reachable (fst (raise_overdue settings now r d))"
proof (cases "rr_id r")
  case (Some i)
  moreover assume "reachable d"
  from overdue_signal_reachable [OF this, of settings now i] have "reachable (fst (overdue_signal settings now i d))" .
  ultimately show ?thesis by (auto simp: raise_overdue_def split: prod.split sum.split option.split)
qed (simp add: raise_overdue_def)

lemma record_rejection_reachable: "reachable d \<Longrightarrow> reachable (fst (snd (record_rejection stage e now standing d)))"
  by (auto simp: record_rejection_def Let_def split: option.split prod.split intro: steps_reachable [rotated -1])

lemma settle_stage_reachable:
  "reachable (fst r) \<Longrightarrow> reachable (fst (snd (settle_stage stage now standing r)))"
proof (cases r)
  case (Pair d x)
  assume r: "reachable (fst r)"
  show ?thesis
  proof (cases x)
    case (Inl e)
    then show ?thesis using record_rejection_reachable [of d stage e now standing] Pair r
      by (cases "record_rejection stage e now standing d") (simp add: settle_stage_def)
  qed (use Pair r in \<open>simp add: settle_stage_def\<close>)
qed

lemma wheel_tick_reachable: "reachable d \<Longrightarrow> reachable (fst (snd (wheel_tick settings now standing d)))"
proof -
  assume d: "reachable d"
  have quota: "reachable (fst (lift_elapsed_quota_caps settings now d))"
    unfolding lift_elapsed_quota_caps_def Let_def
    using try_each_keeps [where P = reachable and s = d and f = "reset_run settings now (due_providers settings now d)",
      OF reset_run_reachable] d by simp
  have questions: "reachable d \<Longrightarrow> reachable (fst (void_expired_questions now d))" for d
    unfolding void_expired_questions_def by (rule try_each_keeps [where P = reachable, OF expire_question_reachable])
  have overdue: "reachable d \<Longrightarrow> reachable (fst (raise_overdue_checkpoints settings now d))" for d
    unfolding raise_overdue_checkpoints_def by (rule try_each_keeps [where P = reachable, OF raise_overdue_reachable])
  obtain st1 d1 resets r1 where 1: "settle_stage QuotaResets now standing (lift_elapsed_quota_caps settings now d) = (st1, d1, resets, r1)"
    by (metis prod_cases4)
  obtain st2 d2 expired r2 where 2: "settle_stage ExpiredQuestions now st1 (void_expired_questions now d1) = (st2, d2, expired, r2)"
    by (metis prod_cases4)
  obtain st3 d3 od r3 where 3: "settle_stage OverdueCheckpoints now st2 (raise_overdue_checkpoints settings now d2) = (st3, d3, od, r3)"
    by (metis prod_cases4)
  have "reachable d1" using settle_stage_reachable [OF quota, of QuotaResets now standing] 1 by simp
  then have "reachable d2" using settle_stage_reachable [OF questions, of d1 ExpiredQuestions now st1] 2 by simp
  then have "reachable d3" using settle_stage_reachable [OF overdue, of d2 OverdueCheckpoints now st2] 3 by simp
  then show ?thesis by (simp add: wheel_tick_def 1 2 3)
qed

lemma move_each_reachable:
  "rf_opened_question f = None \<Longrightarrow> reachable d \<Longrightarrow> reachable (fst (move_each tr f r d))"
  by (auto simp: move_each_def split: option.split prod.split sum.split intro: steps_reachable [rotated -1])

section \<open>Reporting the worktrees\<close>

definition untouched_rows :: "db \<Rightarrow> db \<Rightarrow> bool" where
  "untouched_rows d d' \<longleftrightarrow> reachable d' \<and> db_runs d' = db_runs d \<and> db_questions d' = db_questions d"

lemma journal_entry_goes_through:
  assumes "reachable d" "e = worktree_entry t r path now" "t \<noteq> ''''" "null_or (run_exists (db_runs d)) r"
  shows "\<exists>d' i. journal_entry e d = (d', Inr i) \<and> untouched_rows d d'"
proof -
  have "event_checks e" "event_fks (db_runs d) e"
    using assms(2-4) by (simp_all add: worktree_entry_def event_checks_def event_fks_def json_valid_def)
  note one = journal_one [OF this]
  from one journal_reachable [OF assms(1) one] show ?thesis
    by (simp add: journal_entry_def untouched_rows_def)
qed

lemma report_missing_loop:
  assumes "reachable d" "\<forall>(i, path) \<in> set rows. run_exists (db_runs d) i"
  shows "\<exists>d' out. try_each (report_missing now) rows d = (d', Inr out) \<and> untouched_rows d d' \<and>
    map (\<lambda>m. (mw_run_id m, mw_path m)) out = rows"
proof -
  have "\<exists>s' out. try_each (report_missing now) rows d = (s', Inr out) \<and>
      (untouched_rows d s' \<and> map (\<lambda>m. (mw_run_id m, mw_path m)) out = rows)"
  proof (rule try_each_goes_through [where I = "\<lambda>pre s out. untouched_rows d s \<and> map (\<lambda>m. (mw_run_id m, mw_path m)) out = pre"])
    show "untouched_rows d d \<and> map (\<lambda>m. (mw_run_id m, mw_path m)) [] = []" using assms(1) by (simp add: untouched_rows_def)
  next
    fix pre claim post s and out :: "missing_worktree list"
    assume rows: "rows = pre @ claim # post" and I: "untouched_rows d s \<and> map (\<lambda>m. (mw_run_id m, mw_path m)) out = pre"
    obtain i path where claim: "claim = (i, path)" by (cases claim)
    have "run_exists (db_runs s) i" using assms(2) rows I claim by (auto simp: untouched_rows_def)
    then obtain s' j where "journal_entry (worktree_entry worktree_missing_event (Some i) path now) s = (s', Inr j)" "untouched_rows s s'"
      using journal_entry_goes_through [of s _ worktree_missing_event "Some i" path now] I
      by (auto simp: untouched_rows_def worktree_missing_event_def)
    then show "\<exists>s' xs. report_missing now claim s = (s', Inr xs) \<and>
        untouched_rows d s' \<and> map (\<lambda>m. (mw_run_id m, mw_path m)) (out @ xs) = pre @ [claim]"
      using I by (auto simp: report_missing_def claim untouched_rows_def)
  qed
  then show ?thesis by blast
qed

lemma report_orphan_loop:
  assumes "reachable d"
  shows "\<exists>d' out. try_each (report_orphan now) rows d = (d', Inr out) \<and> untouched_rows d d' \<and> map ow_path out = rows"
proof -
  have "\<exists>s' out. try_each (report_orphan now) rows d = (s', Inr out) \<and> (untouched_rows d s' \<and> map ow_path out = rows)"
  proof (rule try_each_goes_through [where I = "\<lambda>pre s out. untouched_rows d s \<and> map ow_path out = pre"])
    show "untouched_rows d d \<and> map ow_path [] = []" using assms by (simp add: untouched_rows_def)
  next
    fix pre path post s and out :: "orphan_worktree list"
    assume I: "untouched_rows d s \<and> map ow_path out = pre"
    then obtain s' j where "journal_entry (worktree_entry worktree_orphaned_event None path now) s = (s', Inr j)" "untouched_rows s s'"
      using journal_entry_goes_through [of s _ worktree_orphaned_event None path now]
      by (auto simp: untouched_rows_def worktree_orphaned_event_def)
    then show "\<exists>s' xs. report_orphan now path s = (s', Inr xs) \<and> untouched_rows d s' \<and> map ow_path (out @ xs) = pre @ [path]"
      using I by (auto simp: report_orphan_def untouched_rows_def)
  qed
  then show ?thesis by blast
qed

lemma claims_exist: "(i, path) \<in> set (claims d) \<Longrightarrow> run_exists (db_runs d) i"
  by (auto simp: claims_def map_filter_set runs_in_state_def run_exists_def split: option.splits if_splits)

lemma verify_goes_through:
  assumes "reachable d"
  shows "\<exists>d' orphans missing. verify_worktrees fs data now d = (d', Inr (orphans, missing)) \<and> untouched_rows d d' \<and>
    map ow_path orphans = filter (\<lambda>path. components path \<notin> components ` snd ` set (claims d)) (worktrees_on_disk fs data) \<and>
    map (\<lambda>m. (mw_run_id m, mw_path m)) missing = filter (\<lambda>(i, path). \<not> fs_is_dir fs path) (claims d)"
proof -
  let ?missing = "filter (\<lambda>(i, path). \<not> fs_is_dir fs path) (claims d)"
  let ?orphans = "filter (\<lambda>path. components path \<notin> set (map (components \<circ> snd) (claims d))) (worktrees_on_disk fs data)"
  have "\<forall>(i, path) \<in> set ?missing. run_exists (db_runs d) i" using claims_exist by auto
  from report_missing_loop [OF assms this] obtain d1 missing where 1: "try_each (report_missing now) ?missing d = (d1, Inr missing)"
      "untouched_rows d d1" "map (\<lambda>m. (mw_run_id m, mw_path m)) missing = ?missing" by blast
  have "reachable d1" using 1(2) by (simp add: untouched_rows_def)
  from report_orphan_loop [OF this] obtain d2 orphans where 2: "try_each (report_orphan now) ?orphans d1 = (d2, Inr orphans)"
      "untouched_rows d1 d2" "map ow_path orphans = ?orphans" by blast
  have same: "?orphans = filter (\<lambda>path. components path \<notin> components ` snd ` set (claims d)) (worktrees_on_disk fs data)"
    by (simp add: image_comp)
  have "verify_worktrees fs data now d = (d2, Inr (orphans, missing))"
    using 1(1) 2(1) by (simp add: verify_worktrees_def Let_def case_prod_beta)
  then show ?thesis using 1(2,3) 2(2,3) same by (auto simp: untouched_rows_def)
qed

section \<open>A boot\<close>

lemma interrupt_goes_through:
  assumes "reachable d"
  shows "\<exists>d'. interrupt_orphaned_runs now d = (d', Inr (map (\<lambda>r. stored_id (rr_id r)) (runs_in_state d run_state.Running))) \<and>
    reachable d' \<and> db_questions d' = db_questions d \<and>
    db_runs d' = sql_update (\<lambda>r. rr_state r = run_state.Running) (\<lambda>r. r\<lparr>rr_state := run_state.Interrupted\<rparr>) (db_runs d)"
proof -
  let ?f = "default_run_facts\<lparr>rf_now := now, rf_principal := principal.Coordinator, rf_boot_reconciliation := True\<rparr>"
  obtain t where t: "find_run_transition run_state.Running Reconcile = Some t" "rt_to t = run_state.Interrupted"
      "rt_guard t = BootReconciliation" "OpenAttempt \<notin> set (rt_effects t)" "OpenQuestion \<notin> set (rt_effects t)"
      "RecordResult \<notin> set (rt_effects t)"
    by (simp add: find_run_transition_def run_transitions_def cancellation_def)
  have guard: "check_run_guard s t i p w ?f = Inr ()" for s i p w using t(3) by (simp add: check_run_guard_def)
  have "reachable (fst (interrupt_orphaned_runs now d))"
    unfolding interrupt_orphaned_runs_def
    by (rule try_each_keeps [where P = reachable, OF move_each_reachable assms]) simp
  then show ?thesis using move_all [OF reachable_db_wf [OF assms] t(1) guard t(4-6)] t(2)
    by (auto simp: interrupt_orphaned_runs_def)
qed

lemma resume_goes_through:
  assumes "reachable d"
  shows "\<exists>d'. resume_interrupted now d = (d', Inr (map (\<lambda>r. stored_id (rr_id r)) (runs_in_state d run_state.Interrupted))) \<and>
    reachable d' \<and> db_questions d' = db_questions d \<and>
    db_runs d' = sql_update (\<lambda>r. rr_state r = run_state.Interrupted) (\<lambda>r. r\<lparr>rr_state := Queued\<rparr>) (db_runs d)"
proof -
  let ?f = "default_run_facts\<lparr>rf_now := now, rf_principal := principal.Coordinator\<rparr>"
  obtain t where t: "find_run_transition run_state.Interrupted Resume = Some t" "rt_to t = Queued"
      "rt_guard t = NoGuard" "OpenAttempt \<notin> set (rt_effects t)" "OpenQuestion \<notin> set (rt_effects t)"
      "RecordResult \<notin> set (rt_effects t)"
    by (simp add: find_run_transition_def run_transitions_def cancellation_def)
  have guard: "check_run_guard s t i p w ?f = Inr ()" for s i p w using t(3) by (simp add: check_run_guard_def)
  have "reachable (fst (resume_interrupted now d))"
    unfolding resume_interrupted_def
    by (rule try_each_keeps [where P = reachable, OF move_each_reachable assms]) simp
  then show ?thesis using move_all [OF reachable_db_wf [OF assms] t(1) guard t(4-6)] t(2)
    by (auto simp: resume_interrupted_def)
qed

lemma boot_goes_through:
  assumes "reachable d" "fits_i64 tick_now"
  obtains standing' d' report K where
    "reconcile_before_surface settings fs data now tick_now standing d = (standing', d', Inr report)" "reachable d'"
    "br_interrupted report = map (\<lambda>r. stored_id (rr_id r)) (runs_in_state d run_state.Running)"
    "tk_rejections (br_timers report) = []"
    "\<And>r. rr_id r \<in> K \<Longrightarrow> r \<in> set (db_runs d) \<Longrightarrow> rr_state r = AwaitingQuota"
    "db_runs d' = sql_update (\<lambda>r. rr_id r \<in> K) (\<lambda>r. r\<lparr>rr_state := Queued\<rparr>)
      (sql_update (\<lambda>r. rr_state r = run_state.Running) (\<lambda>r. r\<lparr>rr_state := run_state.Interrupted\<rparr>) (db_runs d))"
    "map ow_path (br_orphan_worktrees report) =
      filter (\<lambda>path. components path \<notin> components ` snd ` set (claims d')) (worktrees_on_disk fs data)"
    "map (\<lambda>m. (mw_run_id m, mw_path m)) (br_missing_worktrees report) = filter (\<lambda>(i, path). \<not> fs_is_dir fs path) (claims d')"
proof -
  let ?int = "\<lambda>rows. sql_update (\<lambda>r. rr_state r = run_state.Running) (\<lambda>r. r\<lparr>rr_state := run_state.Interrupted\<rparr>) rows"
  obtain d1 where 1: "interrupt_orphaned_runs now d = (d1, Inr (map (\<lambda>r. stored_id (rr_id r)) (runs_in_state d run_state.Running)))"
      "reachable d1" "db_runs d1 = ?int (db_runs d)"
    using interrupt_goes_through [OF assms(1)] by blast
  define K where "K = rr_id ` {r \<in> set (db_runs d1). rr_state r = AwaitingQuota \<and> rr_provider r \<in> set (due_providers settings tick_now d1)}"
  obtain standing' d2 t where 2: "wheel_tick settings tick_now standing d1 = (standing', d2, t)" "tk_rejections t = []"
      "db_runs d2 = requeued d1 K"
    by (rule tick_goes_through [OF reachable_db_wf [OF 1(2)] assms(2), where settings = settings and standing = standing])
      (erule that, simp_all add: K_def)
  have r2: "reachable d2" using wheel_tick_reachable [OF 1(2), of settings tick_now standing] 2(1) by simp
  obtain d3 orphans missing where 3: "verify_worktrees fs data now d2 = (d3, Inr (orphans, missing))" "untouched_rows d2 d3"
      "map ow_path orphans = filter (\<lambda>path. components path \<notin> components ` snd ` set (claims d2)) (worktrees_on_disk fs data)"
      "map (\<lambda>m. (mw_run_id m, mw_path m)) missing = filter (\<lambda>(i, path). \<not> fs_is_dir fs path) (claims d2)"
    using verify_goes_through [OF r2] by blast
  have claims: "claims d3 = claims d2" using 3(2) by (simp add: claims_def runs_in_state_def untouched_rows_def)
  have parked: "rr_state r = AwaitingQuota" if "rr_id r \<in> K" "r \<in> set (db_runs d)" for r
  proof -
    from that(1) obtain x where x: "x \<in> set (db_runs d1)" "rr_state x = AwaitingQuota" "rr_id x = rr_id r"
      by (auto simp: K_def)
    then obtain y where y: "y \<in> set (db_runs d)" "x = (if rr_state y = run_state.Running then y\<lparr>rr_state := run_state.Interrupted\<rparr> else y)"
      using 1(3) by (auto simp: in_sql_update)
    have "rr_id y = rr_id r" using x(3) y(2) by (auto split: if_splits)
    then have "y = r" using runs.id_unique y(1) that(2) reachable_db_wf [OF assms(1)] by (auto simp: db_wf_def)
    then show ?thesis using x(2) y(2) by (auto split: if_splits)
  qed
  show ?thesis
    by (rule that [of standing' d3 "\<lparr>br_interrupted = map (\<lambda>r. stored_id (rr_id r)) (runs_in_state d run_state.Running),
        br_resumed = [], br_timers = t, br_orphan_worktrees = orphans, br_missing_worktrees = missing\<rparr>" K])
      (use 1 2 3 claims parked in \<open>simp_all add: reconcile_before_surface_def untouched_rows_def requeued_def\<close>)
qed

text \<open>Where nothing runs, no attempt is open.\<close>

lemma closed_when_idle:
  assumes "reachable d" "\<forall>r \<in> set (db_runs d). rr_state r \<noteq> run_state.Running" "a \<in> set (db_attempts d)"
  shows "at_outcome a \<noteq> None"
proof -
  from reachable_lives [OF assms(1)] have wf: "db_wf d" and ok: "lives_ok d" by auto
  then obtain r where r: "r \<in> set (db_runs d)" "rr_id r = Some (at_run_id a)"
    using assms(3) by (auto simp: db_wf_def attempt_fks_def run_exists_def)
  then have "life_ok (run_life_of d r)" using ok by (auto simp: lives_ok_def)
  then have life: "None \<notin> set (butlast (map snd (legs d (at_run_id a))))" "leg_fits (rr_state r) (map snd (legs d (at_run_id a)))"
    by (simp_all add: run_life_of_def life_ok_def r(2))
  have "map snd (legs d (at_run_id a)) = [] \<or> last (map snd (legs d (at_run_id a))) \<noteq> None"
    using life(2) assms(2) r(1) by (cases "rr_state r") auto
  with life(1) have "None \<notin> set (map snd (legs d (at_run_id a)))" by (rule closed_legs)
  then show ?thesis using assms(3) by (force simp: legs_def)
qed

end
