(* ===== verification/Landing.thy ===== *)
theory Landing
  imports Passage
begin

text \<open>
  The writes of a landed merge that go through: a directory whose machine lets it move,
  and a whole settlement of an authorization that is answered and in date. Theory Passage
  does the same for runs and questions.
\<close>

lemma loaded_run_exists: "db_wf d \<Longrightarrow> load_run d i = Some run \<Longrightarrow> run_exists (db_runs d) i"
  using load_run_iff by (auto simp: run_exists_def)

lemma write_events_ok:
  assumes "\<And>e. e \<in> set es \<Longrightarrow> event_checks e \<and> event_fks (db_runs d) e"
  shows "\<exists>d' ids. write_events None es d = Inr (d', ids)"
  by (rule write_events_succeeds) (use assms filled_event_None in auto)

lemma write_worktree_status_succeeds:
  assumes "db_wf d" "load_run d i = Some run" "rr_worktree_status run = Some st"
  shows "write_worktree_status i (Some \<lparr>sc_expected = st, sc_next = s\<rparr>) d =
    Inr (d\<lparr>db_runs := sql_update (\<lambda>r. rr_id r = Some i) (\<lambda>r. r\<lparr>rr_worktree_status := Some s\<rparr>) (db_runs d)\<rparr>)"
proof -
  have "run \<in> set (db_runs d)" "rr_id run = Some i" using load_run_iff [OF assms(1)] assms(2) by auto
  then have "sql_count (\<lambda>r. rr_id r = Some i \<and> rr_worktree_status r = Some st) (db_runs d) = 1"
    using runs.count_by_id [of "db_runs d" run i "\<lambda>r. rr_worktree_status r = Some st"] assms(1,3) by (simp add: db_wf_def)
  moreover have "sql_update (\<lambda>r. rr_id r = Some i \<and> rr_worktree_status r = Some st) g (db_runs d) =
      sql_update (\<lambda>r. rr_id r = Some i) g (db_runs d)" for g
    by (rule run_update_by_id [OF assms(1,2)]) (simp add: assms(3))
  ultimately show ?thesis by (simp add: write_worktree_status_def Let_def)
qed

section \<open>A directory that may move\<close>

lemma guarded_worktree_applies:
  assumes wf: "db_wf d" and run: "load_run d i = Some run" "rr_worktree_status run = Some st"
    and row: "find_worktree_transition st tr = Some t" and guard: "check_worktree_guard t f = Inr ()"
  shows "\<exists>d' ap. apply_worktree d i tr f = (d', Inr (Applied ap)) \<and> ap_from ap = st \<and> ap_to ap = wt_to t \<and> db_wf d' \<and>
    db_runs d' = sql_update (\<lambda>r. rr_id r = Some i) (\<lambda>r. r\<lparr>rr_worktree_status := Some (wt_to t)\<rparr>) (db_runs d) \<and>
    db_questions d' = db_questions d \<and> db_attempts d' = db_attempts d"
proof -
  let ?w = "worktree_write i run st t tr f"
  let ?d1 = "d\<lparr>db_runs := sql_update (\<lambda>r. rr_id r = Some i) (\<lambda>r. r\<lparr>rr_worktree_status := Some (wt_to t)\<rparr>) (db_runs d)\<rparr>"
  have changes: "transition_changes ?w d = Inr ?d1"
    using write_worktree_status_succeeds [OF wf run]
    by (simp add: transition_changes_def worktree_write_def empty_write_def write_run_state_def write_question_def)
  have "wt_domain_event t \<noteq> ''''" using row by (auto simp: find_worktree_transition_iff worktree_transitions_def)
  then have "event_checks e \<and> event_fks (db_runs ?d1) e" if "e \<in> set (worktree_events i (wf_now f) run st t tr)" for e
    using transition_event_ok [of e _ _ "db_runs ?d1" None] that loaded_run_exists [OF wf run(1)]
    by (auto simp: worktree_events_def filled_event_None)
  then obtain d9 ids where ev: "write_events None (tw_events ?w) ?d1 = Inr (d9, ids)"
    using write_events_ok [of "tw_events ?w" ?d1] by (auto simp: worktree_write_def empty_write_def)
  have "\<exists>out. transition_rows ?w ?d1 = Inr (d9, out)"
    by (rule transition_rows_succeeds [OF _ _ _ ev])
      (simp_all add: worktree_write_def empty_write_def write_new_question_def write_attempt_def
        write_close_attempt_def write_provider_def)
  then obtain out where tx: "transition_tx ?w d = Inr (d9, out)"
    using changes by (auto simp: transition_tx_def write_result_def worktree_write_def empty_write_def)
  have app: "apply_transition d ?w = (d9, Inr out)" by (simp add: apply_transition_def tx)
  then obtain a b where ids: "event_pair (to_event_ids out) = Inr (a, b)"
    using store.event_pair_of_two [of d ?w d9 out] by (auto simp: worktree_write_def empty_write_def worktree_events_def)
  have "apply_worktree d i tr f = (d9, Inr (Applied \<lparr>ap_from = st, ap_to = wt_to t, ap_effects = wt_effects t,
      ap_domain_event = wt_domain_event t, ap_state_changed_event_id = a, ap_domain_event_id = b,
      ap_opened_question_id = to_question_id out\<rparr>))"
    using run row guard app ids by (simp add: apply_worktree_def machines_load_run_def settle_write_def)
  then show ?thesis using worktree_tx_tables [OF wf run tx] transition_tx_wf [OF wf tx] by auto
qed

section \<open>A settlement the rules allow\<close>

lemma releasable_succeeds:
  assumes "db_wf d" "load_run d i = Some run"
  obtains release where "releasable run now clean = Inr release"
    "write_worktree_status i (map_option pt_change release) d =
      Inr (d\<lparr>db_runs := (if rr_worktree_status run = Some Active
        then sql_update (\<lambda>r. rr_id r = Some i) (\<lambda>r. r\<lparr>rr_worktree_status := Some Reclaimable\<rparr>) (db_runs d)
        else db_runs d)\<rparr>)"
    "\<forall>r. release = Some r \<longrightarrow> (\<forall>e \<in> set (pt_events r). event_checks e \<and> event_fks (db_runs d) e)"
proof (cases "rr_worktree_status run = Some Active")
  case False
  then have "releasable run now clean = Inr None" by (simp add: releasable_none_iff)
  then show ?thesis using that [of None] False by (simp add: write_worktree_status_def)
next
  case True
  obtain t where t: "find_worktree_transition Active MergeDetected = Some t" "wt_guard t = worktree_guard.MergeReDerived"
      "wt_to t = Reclaimable" "wt_domain_event t \<noteq> ''''"
    by (simp add: find_worktree_transition_def worktree_transitions_def)
  have i: "rr_id run = Some i" using load_run_iff [OF assms(1)] assms(2) by auto
  let ?r = "\<lparr>pt_change = \<lparr>sc_expected = Active, sc_next = wt_to t\<rparr>, pt_from = Active,
    pt_to = wt_to t, pt_effects = wt_effects t, pt_domain_event = wt_domain_event t,
    pt_events = worktree_events i now run Active t MergeDetected\<rparr>"
  have rel: "releasable run now clean = Inr (Some ?r)"
    using True t i by (simp add: releasable_def check_worktree_guard_def)
  have "event_checks e \<and> event_fks (db_runs d) e" if "e \<in> set (worktree_events i now run Active t MergeDetected)" for e
    using transition_event_ok [of e _ _ "db_runs d" None] that t(4) loaded_run_exists [OF assms]
    by (auto simp: worktree_events_def filled_event_None)
  moreover have "write_worktree_status i (map_option pt_change (Some ?r)) d =
      Inr (d\<lparr>db_runs := (if rr_worktree_status run = Some Active
        then sql_update (\<lambda>r. rr_id r = Some i) (\<lambda>r. r\<lparr>rr_worktree_status := Some Reclaimable\<rparr>) (db_runs d)
        else db_runs d)\<rparr>)"
    using write_worktree_status_succeeds [OF assms True, of Reclaimable] True t(3) by simp
  ultimately show ?thesis using that [OF rel] by simp
qed

lemma settle_merge_applies:
  assumes wf: "db_wf d" and q: "load_question d (ms_approval_id s) = Some q" and run: "load_run d (ms_run_id s) = Some run"
    and own: "qu_run_id q = ms_run_id s" and answered: "qu_state q = question_state.Answered"
    and date: "in_date q (ms_now s) \<or> ms_landed s"
    and events: "\<And>e. e \<in> {ms_verdict s, ms_merged s} \<Longrightarrow> event_checks e \<and> event_fks (db_runs d) e"
  shows "\<exists>d' m. settle_merge d s = (d', Inr m)"
proof -
  have in_d: "q \<in> set (db_questions d)" "qu_id q = Some (ms_approval_id s)" using load_question_iff [OF wf] q by auto
  obtain t where t: "find_question_transition (qu_kind q) question_state.Answered Deliver = Some t" "qt_to t = Delivered"
      "qt_guard t = NotExpired" "qt_domain_event t \<noteq> ''''"
    by (cases "qu_kind q") (simp_all add: find_question_transition_def question_transitions_def)
  let ?p = "\<lparr>pt_change = \<lparr>qc_question_id = ms_approval_id s, qc_expected = qu_state q, qc_next = qt_to t, qc_answer = None\<rparr>,
    pt_from = qu_state q, pt_to = qt_to t, pt_effects = qt_effects t, pt_domain_event = qt_domain_event t,
    pt_events = question_events (ms_approval_id s) (ms_now s) q t Deliver None\<rparr>"
  have app: "deliverable q (settlement_facts s) = Inr ?p"
    using answered t date in_d(2) by (auto simp: deliverable_def check_question_guard_def settlement_facts_def)
  obtain release where rel: "releasable run (ms_now s) (ms_worktree_clean s) = Inr release"
    and wrote: "write_worktree_status (ms_run_id s) (map_option pt_change release) d =
      Inr (d\<lparr>db_runs := (if rr_worktree_status run = Some Active
        then sql_update (\<lambda>r. rr_id r = Some (ms_run_id s)) (\<lambda>r. r\<lparr>rr_worktree_status := Some Reclaimable\<rparr>) (db_runs d)
        else db_runs d)\<rparr>)" (is "_ = Inr ?d1")
    and rel_events: "\<forall>r. release = Some r \<longrightarrow> (\<forall>e \<in> set (pt_events r). event_checks e \<and> event_fks (db_runs d) e)"
    by (rule releasable_succeeds [OF wf run, of "ms_now s" "ms_worktree_clean s"]) blast
  let ?w = "settlement_write s ?p release"
  have wf1: "db_wf ?d1" using write_worktree_status_wf [OF wf wrote] .
  have q1: "load_question ?d1 (ms_approval_id s) = Some q" using q by (simp add: load_question_def)
  have "question_checks q" using wf in_d by (auto simp: db_wf_def)
  then have "question_checks (q\<lparr>qu_state := Delivered\<rparr>)" using answered by (auto simp: question_checks_def)
  from write_question_succeeds [OF wf1 q1 this] obtain d2 where
    d2: "write_question (ms_run_id s) (Some (pt_change ?p)) ?d1 = Inr d2" "db_runs d2 = db_runs ?d1"
    by (simp add: t(2) own)
  have changes: "transition_changes ?w d = Inr d2"
    using wrote d2(1) by (simp add: transition_changes_def settlement_write_def empty_write_def write_run_state_def)
  have same_ids: "run_exists (db_runs d2) = run_exists (db_runs d)"
    by (simp add: d2(2) fun_eq_iff)
  have "event_checks e \<and> event_fks (db_runs d) e" if "e \<in> set (question_events (ms_approval_id s) (ms_now s) q t Deliver None)" for e
    using transition_event_ok [of e _ _ "db_runs d" None] that t(4) loaded_run_exists [OF wf run] own
    by (auto simp: question_events_def filled_event_None)
  then have "event_checks e \<and> event_fks (db_runs d) e" if "e \<in> set (settlement_events s ?p release)" for e
    using that events rel_events by (auto simp: settlement_events_def split: option.splits)
  moreover have "event_fks (db_runs d2) e = event_fks (db_runs d) e" for e
    by (simp add: event_fks_def same_ids)
  ultimately obtain d9 ids where ev: "write_events None (settlement_events s ?p release) d2 = Inr (d9, ids)"
    using write_events_ok [of "settlement_events s ?p release" d2] by auto
  have "\<exists>out. transition_rows ?w d2 = Inr (d9, out)"
    by (rule transition_rows_succeeds [of _ _ d2 None d2 None d2])
      (use ev in \<open>simp_all add: settlement_write_def empty_write_def write_new_question_def write_attempt_def
        write_close_attempt_def write_provider_def\<close>)
  then obtain out where tx: "transition_tx ?w d = Inr (d9, out)"
    using changes by (auto simp: transition_tx_def write_result_def settlement_write_def empty_write_def)
  have app_tx: "apply_transition d ?w = (d9, Inr out)" by (simp add: apply_transition_def tx)
  have "length (to_event_ids out) = length (settlement_events s ?p release)"
    using store.ids_given [of d ?w d9 out] app_tx by (simp add: settlement_write_def empty_write_def)
  moreover have "length (pt_events r) = 2" if "release = Some r" for r
    using rel unfolding that by (rule releasableE) simp
  ultimately obtain m where "settled_ids (to_event_ids out) ?p release = Inr m"
    using settled_ids_ok [of "to_event_ids out" s ?p release] by (metis prepared_transition.select_convs(6) question_events_length)
  then have "settle_merge d s = (d9, Inr m)"
    using q run app rel app_tx
    by (simp add: settle_merge_def prepare_settlement_def machines_load_question_def machines_load_run_def)
  then show ?thesis by blast
qed

section \<open>What a settlement leaves of its authorization\<close>

lemma settled_delivers:
  assumes wf: "db_wf d" and "settle_merge d s = (d', Inr m)"
  shows "db_wf d' \<and> (\<exists>q. load_question d' (ms_approval_id s) = Some q \<and> qu_state q = Delivered)"
proof (rule settle_merge_cases [of d s])
  fix q run approval release d1 and out :: transition_outcome and m1
  assume q: "load_question d (ms_approval_id s) = Some q" and run: "load_run d (ms_run_id s) = Some run"
    and app: "deliverable q (settlement_facts s) = Inr approval"
    and rel: "releasable run (ms_now s) (ms_worktree_clean s) = Inr release"
    and tx: "transition_tx (settlement_write s approval release) d = Inr (d1, out)"
    and res: "settle_merge d s = (d1, Inr m1)"
  have d1: "d1 = d'" using res assms(2) by simp
  have wf': "db_wf d'" using transition_tx_wf [OF wf tx] d1 by simp
  have in_d: "q \<in> set (db_questions d)" "qu_id q = Some (ms_approval_id s)" using q load_question_iff [OF wf] by auto
  have "q\<lparr>qu_state := Delivered\<rparr> \<in> set (db_questions d')"
    unfolding settlement_tx_tables(2) [OF wf q run app rel tx, unfolded d1] using in_d by (force simp: in_sql_update)
  then have "load_question d' (ms_approval_id s) = Some (q\<lparr>qu_state := Delivered\<rparr>)"
    using in_d(2) load_question_iff [OF wf'] by simp
  then show ?thesis using wf' by simp
qed (use assms(2) in simp)

text \<open>Whatever is done since, it stays delivered.\<close>

lemma delivered_stays:
  assumes "questions_kept d d'" "db_wf d" "db_wf d'" "load_question d i = Some q" "qu_state q = Delivered"
  shows "\<exists>q'. load_question d' i = Some q' \<and> qu_state q' = Delivered"
proof -
  have q: "q \<in> set (db_questions d)" "qu_id q = Some i" using assms(4) load_question_iff [OF assms(2)] by auto
  then obtain q' where q': "q' \<in> set (db_questions d')" "question_kept q q'"
    using question_history.row_still_there [of "db_questions d"] assms(1) by (auto simp: questions_kept_def)
  then have "load_question d' i = Some q'"
    using question_kept_id [OF q'(2)] q(2) load_question_iff [OF assms(3)] by simp
  moreover have "qu_state q' = Delivered"
    using q'(2) assms(5) by (cases "qu_state q'") (auto simp: question_kept_def)
  ultimately show ?thesis by blast
qed

lemma delivered_never_settles:
  assumes "load_question d (ms_approval_id s) = Some q" "qu_state q = Delivered"
  shows "\<exists>e. settle_merge d s = (d, Inl e)"
proof (rule settle_merge_cases [of d s])
  fix q2 approval
  assume "load_question d (ms_approval_id s) = Some q2" "deliverable q2 (settlement_facts s) = Inr approval"
  then show ?thesis using assms by (auto elim!: deliverableE dest: deliver_row)
qed blast

end
