(* ===== verification/Gate_Safety.thy ===== *)
theory Gate_Safety
  imports Gates Recovery Landing
begin

text \<open>
  What the two git gates may do: a merge lands exactly when every rule holds, a refusal
  only journals itself, and a released directory held nothing that had not landed.
\<close>

section \<open>What a gate journals always goes through\<close>

definition logged :: "event_row \<Rightarrow> db \<Rightarrow> db" where
  "logged e d = d\<lparr>db_events := db_events d @ [e\<lparr>ev_id := Some (next_event_id d)\<rparr>]\<rparr>"

lemma logged_tables [simp]:
  "db_runs (logged e d) = db_runs d" "db_questions (logged e d) = db_questions d"
  "db_attempts (logged e d) = db_attempts d" "db_providers (logged e d) = db_providers d"
  "load_run (logged e d) = load_run d" "load_question (logged e d) = load_question d"
  by (simp_all add: logged_def fun_eq_iff load_run_def load_question_def)

lemma infra_entry_valid:
  assumes "run_exists (db_runs d) i" "t \<noteq> ''''"
  shows "event_checks (infra_entry i t payload now)" "event_fks (db_runs d) (infra_entry i t payload now)"
  using assms by (simp_all add: infra_entry_def event_checks_def event_fks_def json_valid_def)

lemma infra_journaled:
  assumes "run_exists (db_runs d) i" "t \<noteq> ''''"
  shows "journal d [infra_entry i t payload now] = (logged (infra_entry i t payload now) d, Inr [next_event_id d])"
  using journal_one [OF infra_entry_valid [OF assms]] by (simp add: logged_def)

lemma gate_result_journaled [simp]:
  "run_exists (db_runs d) i \<Longrightarrow>
     journal_gate_result i now payload d = (logged (infra_entry i gate_result_event payload now) d, Inr ())"
  using infra_journaled [of d i gate_result_event]
  by (simp add: journal_gate_result_def journal_result_def gate_result_event_def)

lemma sub_agent_journaled [simp]:
  "run_exists (db_runs d) (sg_run_id work) \<Longrightarrow>
     \<exists>payload. journal_sub_agent_request work now d = (logged (infra_entry (sg_run_id work) sub_agent_event payload now) d, Inr ())"
  using infra_journaled [of d "sg_run_id work" sub_agent_event]
  by (auto simp: journal_sub_agent_request_def journal_result_def sub_agent_event_def)

lemma logged_wf:
  assumes "db_wf d" "run_exists (db_runs d) i" "t \<noteq> ''''"
  shows "db_wf (logged (infra_entry i t payload now) d)"
  using journal_wf [OF assms(1), of "[infra_entry i t payload now]"] infra_journaled [OF assms(2,3), of payload now] by simp

section \<open>The rules of a merge\<close>

text \<open>
  What has to be so, of the run, of git's answers and of the authorization, for the
  pre-merge gate to let work land.
\<close>

definition authorizes :: "git \<Rightarrow> pre_merge_request \<Rightarrow> gate_derivation \<Rightarrow> question_row \<Rightarrow> bool" where
  "authorizes g request v q \<longleftrightarrow>
     qu_run_id q = pm_run_id request \<and> qu_kind q = Approval \<and>
     qu_state q = question_state.Answered \<and> qu_author q = Some question_author.User \<and>
     (gd_merged v \<or> in_date q (pm_now request)) \<and>
     qu_tree_hash q = Some (gd_head_tree v) \<and>
     (\<exists>digest. qu_paths_digest q = Some digest \<and>
        (gd_merged v \<or> digest = paths_digest g (gd_changed_paths v)))"

definition in_scope :: "run_row \<Rightarrow> gate_derivation \<Rightarrow> bool" where
  "in_scope run v \<longleftrightarrow>
     (\<exists>stored genesis. rr_genesis_paths run = Some stored \<and> parse_genesis_paths stored = Inr genesis \<and>
        (\<forall>path \<in> set (gd_changed_paths v). \<exists>allowed \<in> set genesis. covers allowed path))"

definition rules_hold ::
  "git \<Rightarrow> pre_merge_request \<Rightarrow> db \<Rightarrow> run_row \<Rightarrow> gate_derivation \<Rightarrow> question_row \<Rightarrow> bool" where
  "rules_hold g request d run v q \<longleftrightarrow>
     load_run d (pm_run_id request) = Some run \<and>
     (\<exists>worktree. worktree_path run = Some worktree \<and> gi_derive g worktree (pm_main_ref request) = Inr v) \<and>
     gd_branch v \<noteq> None \<and> gd_merge_base v \<noteq> None \<and> \<not> gd_dirty v \<and>
     load_question d (pm_approval_id request) = Some q \<and> authorizes g request v q \<and>
     charged_attempts (attempts_for_run d (pm_run_id request)) \<le> pm_attempt_cap request \<and> in_scope run v"

definition lands :: "git \<Rightarrow> pre_merge_request \<Rightarrow> run_row \<Rightarrow> gate_derivation \<Rightarrow> string option \<Rightarrow> bool" where
  "lands g request run v sha \<longleftrightarrow>
     (if gd_merged v then sha = None
      else pm_path request = Integrate \<and>
           (\<exists>made. sha = Some made \<and>
              gi_merge g (rr_repo_root run) (case_option [] id (gd_branch v)) = Inr (merge_outcome.Merged made)))"

lemma in_date_expiry:
  "(case qu_expires_at q of None \<Rightarrow> None | Some at \<Rightarrow> if at \<le> now then Some at else None) = None \<longleftrightarrow> in_date q now"
  by (auto simp: in_date_def split: option.splits)

lemma granted_iff:
  "(\<exists>x. authorization_refusal g d request v = Granted x) \<longleftrightarrow>
     (\<exists>q. load_question d (pm_approval_id request) = Some q \<and> authorizes g request v q)"
proof (cases "load_question d (pm_approval_id request)")
  case None
  then show ?thesis by (simp add: authorization_refusal_def)
next
  case (Some q)
  let ?late = "case qu_expires_at q of None \<Rightarrow> None | Some at \<Rightarrow> if at \<le> pm_now request then Some at else None"
  have late: "(if gd_merged v then None else ?late) = None \<longleftrightarrow> gd_merged v \<or> in_date q (pm_now request)"
    using in_date_expiry [where q = q and now = "pm_now request"] by auto
  show ?thesis
  proof (cases "if gd_merged v then None else ?late")
    case None
    moreover from this have "gd_merged v \<or> in_date q (pm_now request)" using late by simp
    ultimately show ?thesis unfolding authorization_refusal_def Some
      by (auto simp: authorizes_def receipt_holds_def receipt_of_def Let_def split: option.splits)
  next
    case late': (Some at)
    then have "\<not> (gd_merged v \<or> in_date q (pm_now request))" using late by simp
    moreover from late' have "\<not> gd_merged v" "?late = Some at" by (simp_all split: if_splits)
    ultimately show ?thesis by (auto simp: authorization_refusal_def Some authorizes_def Let_def)
  qed
qed

lemma in_scope_iff:
  "transaction_refusal d request run v = Inr None \<longleftrightarrow>
     charged_attempts (attempts_for_run d (pm_run_id request)) \<le> pm_attempt_cap request \<and> in_scope run v"
  by (auto simp: transaction_refusal_def in_scope_def Let_def and_then_Inr_iff paths_outside_def
      filter_empty_conv list_ex_iff not_less split: option.splits)

section \<open>How the pre-merge gate ends\<close>

lemma refuse_pre_merge_logs:
  "run_exists (db_runs d) (pm_run_id request) \<Longrightarrow>
     \<exists>payload. refuse_pre_merge request v r d =
       (logged (infra_entry (pm_run_id request) gate_result_event payload (pm_now request)) d, Inr (Refused r))"
  by (auto simp: refuse_pre_merge_def)

lemma settle_applies:
  assumes "db_wf d" "rules_hold g request d run v q"
  shows "\<exists>d' m. settle request v branch sha expired_at d = (d', Inr m)"
proof -
  let ?s = "gate_settlement request v branch sha expired_at"
  have run: "load_run d (ms_run_id ?s) = Some run" and q: "load_question d (ms_approval_id ?s) = Some q"
      and "authorizes g request v q"
    using assms(2) by (simp_all add: rules_hold_def gate_settlement_def)
  then have "qu_run_id q = ms_run_id ?s" "qu_state q = question_state.Answered" "in_date q (ms_now ?s) \<or> ms_landed ?s"
    by (auto simp: authorizes_def gate_settlement_def)
  moreover have "event_checks e \<and> event_fks (db_runs d) e" if "e \<in> {ms_verdict ?s, ms_merged ?s}" for e
    using infra_entry_valid [OF loaded_run_exists [OF assms(1) run]] that
    by (auto simp: gate_settlement_def gate_result_event_def merged_event_def)
  ultimately obtain d' m where "settle_merge d ?s = (d', Inr m)"
    using settle_merge_applies [OF assms(1) q run] by blast
  then show ?thesis by (auto simp: settle_def)
qed

lemma topology_none_iff:
  "topology_refusal v = None \<longleftrightarrow> gd_branch v \<noteq> None \<and> gd_merge_base v \<noteq> None \<and> \<not> gd_dirty v"
  by (simp add: topology_refusal_def)

text \<open>The gate once every rule holds, and what it is when one does not.\<close>

lemma pre_merge_rules:
  assumes "rules_hold g request d run v q"
  obtains x where "pre_merge g request d =
     on_ok (integrate g request run v (case_option [] id (gd_branch v)) d) (\<lambda>outcome d1.
       case outcome of
         Stopped verdict \<Rightarrow> (d1, Inr verdict)
       | Landed sha \<Rightarrow> on_ok (settle request v (case_option [] id (gd_branch v)) sha x d1) (\<lambda>settled d2.
           (d2, Inr (Merged sha (sm_worktree settled)))))"
proof -
  have "topology_refusal v = None" "transaction_refusal d request run v = Inr None"
    using assms by (simp_all add: rules_hold_def topology_none_iff in_scope_iff)
  moreover obtain x where "authorization_refusal g d request v = Granted x"
    using assms granted_iff by (fastforce simp: rules_hold_def)
  moreover from assms obtain worktree where "load_run d (pm_run_id request) = Some run" "worktree_path run = Some worktree"
      "gi_derive g worktree (pm_main_ref request) = Inr v"
    by (auto simp: rules_hold_def)
  ultimately show ?thesis by (intro that [of x]) (simp add: pre_merge_def Let_def)
qed

lemma pre_merge_stopped:
  assumes wf: "db_wf d" and none: "\<nexists>run v q. rules_hold g request d run v q"
  shows "(\<exists>payload r. pre_merge g request d =
      (logged (infra_entry (pm_run_id request) gate_result_event payload (pm_now request)) d, Inr (Refused r))) \<or>
    (\<exists>payload e. pre_merge g request d =
      (logged (infra_entry (pm_run_id request) gate_result_event payload (pm_now request)) d, Inl (Derivation e))) \<or>
    (\<exists>e. e \<in> {NoSuchRun (pm_run_id request), MalformedRow ''genesis_paths is not a path array''} \<and>
      pre_merge g request d = (d, Inl e))"
proof (cases "load_run d (pm_run_id request)")
  case None
  then show ?thesis by (simp add: pre_merge_def)
next
  case run: (Some run)
  note exists = loaded_run_exists [OF wf run]
  note refused = refuse_pre_merge_logs [OF exists]
  show ?thesis
  proof (cases "worktree_path run")
    case None
    then show ?thesis using run refused [of None NoWorktree] by (simp add: pre_merge_def) blast
  next
    case wt: (Some worktree)
    show ?thesis
    proof (cases "gi_derive g worktree (pm_main_ref request)")
      case (Inl e)
      then show ?thesis using run wt exists by (auto simp: pre_merge_def journal_derivation_failure_def)
    next
      case v: (Inr v)
      show ?thesis
      proof (cases "topology_refusal v")
        case (Some r)
        then show ?thesis using run wt v refused [of "Some v" r] by (simp add: pre_merge_def) blast
      next
        case topology: None
        show ?thesis
        proof (cases "authorization_refusal g d request v")
          case (AuthorizationRefused r)
          then show ?thesis using run wt v topology refused [of "Some v" r] by (simp add: pre_merge_def) blast
        next
          case (Granted x)
          then obtain q where q: "load_question d (pm_approval_id request) = Some q" "authorizes g request v q"
            using granted_iff by blast
          have "transaction_refusal d request run v \<noteq> Inr None"
            using none run wt v topology q by (auto simp: rules_hold_def topology_none_iff in_scope_iff)
          moreover have "e = MalformedRow ''genesis_paths is not a path array''"
            if "transaction_refusal d request run v = Inl e" for e
            using that by (auto simp: transaction_refusal_def parse_genesis_paths_def Let_def and_then_def ok_or_def
                split: if_splits option.splits sum.splits json.splits)
          ultimately consider (malformed) "transaction_refusal d request run v =
              Inl (MalformedRow ''genesis_paths is not a path array'')"
            | (refusal) r where "transaction_refusal d request run v = Inr (Some r)"
            by (cases "transaction_refusal d request run v") auto
          then show ?thesis
          proof cases
            case malformed
            then show ?thesis using run wt v topology Granted by (simp add: pre_merge_def)
          next
            case (refusal r)
            then show ?thesis using run wt v topology Granted refused [of "Some v" r] by (simp add: pre_merge_def) blast
          qed
        qed
      qed
    qed
  qed
qed

lemma rules_unique:
  "rules_hold g request d run v q \<Longrightarrow> rules_hold g request d run' v' q' \<Longrightarrow> run' = run \<and> v' = v \<and> q' = q"
  by (auto simp: rules_hold_def)

lemma pre_merge_lands:
  assumes wf: "db_wf d" and ok: "rules_hold g request d run v q" "lands g request run v sha"
  obtains x d' m where "settle request v (case_option [] id (gd_branch v)) sha x d = (d', Inr m)"
    "pre_merge g request d = (d', Inr (Merged sha (sm_worktree m)))"
proof -
  let ?b = "case_option [] id (gd_branch v)"
  obtain x where shape: "pre_merge g request d =
     on_ok (integrate g request run v ?b d) (\<lambda>outcome d1.
       case outcome of
         Stopped verdict \<Rightarrow> (d1, Inr verdict)
       | Landed sha \<Rightarrow> on_ok (settle request v ?b sha x d1) (\<lambda>settled d2. (d2, Inr (Merged sha (sm_worktree settled)))))"
    by (rule pre_merge_rules [OF ok(1)])
  have "integrate g request run v ?b d = (d, Inr (Landed sha))"
    using ok(2) by (auto simp: lands_def integrate_def split: if_splits)
  moreover obtain d' m where "settle request v ?b sha x d = (d', Inr m)" using settle_applies [OF wf ok(1)] by blast
  ultimately show ?thesis using that shape by simp
qed

text \<open>Every other end of a gate whose rules hold: the attestation was wrong, or the merge did not apply.\<close>

lemma pre_merge_not_landed:
  assumes wf: "db_wf d" and ok: "rules_hold g request d run v q" and no: "\<nexists>sha. lands g request run v sha"
  shows "(\<exists>payload. pre_merge g request d =
      (logged (infra_entry (pm_run_id request) gate_result_event payload (pm_now request)) d, Inr (Refused NotMerged))) \<or>
    (\<exists>e. pre_merge g request d = (d, Inl (Derivation e))) \<or>
    (\<exists>payload payload' work. pre_merge g request d =
      (logged (infra_entry (pm_run_id request) sub_agent_event payload' (pm_now request))
        (logged (infra_entry (pm_run_id request) gate_result_event payload (pm_now request)) d),
       Inr (IntegrationRequired work)))"
proof -
  have run: "load_run d (pm_run_id request) = Some run" using ok by (simp add: rules_hold_def)
  note exists = loaded_run_exists [OF wf run]
  let ?b = "case_option [] id (gd_branch v)"
  obtain x where shape: "pre_merge g request d =
     on_ok (integrate g request run v ?b d) (\<lambda>outcome d1.
       case outcome of
         Stopped verdict \<Rightarrow> (d1, Inr verdict)
       | Landed sha \<Rightarrow> on_ok (settle request v ?b sha x d1) (\<lambda>settled d2. (d2, Inr (Merged sha (sm_worktree settled)))))"
    by (rule pre_merge_rules [OF ok])
  have unmerged: "\<not> gd_merged v" using no by (auto simp: lands_def)
  show ?thesis
  proof (cases "pm_path request")
    case Attested
    obtain payload where "refuse_pre_merge request (Some v) NotMerged d =
        (logged (infra_entry (pm_run_id request) gate_result_event payload (pm_now request)) d, Inr (Refused NotMerged))"
      using refuse_pre_merge_logs [OF exists] by blast
    then show ?thesis using Attested unmerged by (simp add: shape integrate_def) blast
  next
    case Integrate
    show ?thesis
    proof (cases "gi_merge g (rr_repo_root run) ?b")
      case (Inl e)
      then show ?thesis using Integrate unmerged by (simp add: shape integrate_def)
    next
      case (Inr outcome)
      then obtain det where det: "outcome = Conflicted det"
        using no Integrate unmerged by (cases outcome) (auto simp: lands_def)
      let ?work = "\<lparr>sg_kind = Integration, sg_run_id = pm_run_id request,
        sg_worktree_path = case_option [] id (worktree_path run), sg_branch = Some ?b, sg_detail = det\<rparr>"
      let ?d1 = "logged (infra_entry (pm_run_id request) gate_result_event
        (gate_payload request (Some v) (Some ''integration_required'')) (pm_now request)) d"
      obtain payload where "journal_sub_agent_request ?work (pm_now request) ?d1 =
          (logged (infra_entry (pm_run_id request) sub_agent_event payload (pm_now request)) ?d1, Inr ())"
        using sub_agent_journaled [of ?d1 ?work "pm_now request"] exists by auto
      then have "pre_merge g request d =
          (logged (infra_entry (pm_run_id request) sub_agent_event payload (pm_now request)) ?d1, Inr (IntegrationRequired ?work))"
        using Integrate unmerged Inr det exists by (simp add: shape integrate_def)
      then show ?thesis by blast
    qed
  qed
qed

text \<open>A merge is one settlement, which spends its authorization.\<close>

lemma pre_merge_settles:
  assumes wf: "db_wf d" and merged: "pre_merge g request d = (d', Inr (Merged sha released))"
  obtains run v q s m where "rules_hold g request d run v q" "lands g request run v sha" "settle_merge d s = (d', Inr m)"
    "ms_approval_id s = pm_approval_id request" "ms_run_id s = pm_run_id request"
proof -
  obtain run v q where rules: "rules_hold g request d run v q"
    using pre_merge_stopped [OF wf, of g request] merged by fastforce
  then obtain made where lands: "lands g request run v made"
    using pre_merge_not_landed [OF wf rules] merged by fastforce
  show ?thesis
  proof (rule pre_merge_lands [OF wf rules lands])
    fix x d2 m
    let ?s = "gate_settlement request v (case_option [] id (gd_branch v)) made x"
    assume settled: "settle request v (case_option [] id (gd_branch v)) made x d = (d2, Inr m)"
      and "pre_merge g request d = (d2, Inr (Merged made (sm_worktree m)))"
    then have same: "d2 = d'" "made = sha" using merged by simp_all
    from settled have "settle_merge d ?s = (d', Inr m)"
      unfolding settle_def same by (rule map_err_InrE)
    then show ?thesis using that rules lands same by (simp add: gate_settlement_def)
  qed
qed

section \<open>How the sweep ends\<close>

text \<open>What has to be so for the sweep to release a directory, and when it is then gone.\<close>

definition releasable_now :: "git \<Rightarrow> reclaim_request \<Rightarrow> db \<Rightarrow> run_row \<Rightarrow> string \<Rightarrow> gate_derivation \<Rightarrow> bool" where
  "releasable_now g request d run worktree v \<longleftrightarrow>
     load_run d (rq_run_id request) = Some run \<and> rr_worktree_status run = Some Active \<and>
     worktree_path run = Some worktree \<and> gi_derive g worktree (rq_main_ref request) = Inr v \<and>
     gd_branch v \<noteq> None \<and> gd_merged v \<and> \<not> gd_dirty v"

definition directory_gone :: "git \<Rightarrow> run_row \<Rightarrow> string \<Rightarrow> bool" where
  "directory_gone g run worktree \<longleftrightarrow> \<not> gi_is_dir g worktree \<or> remove_directory g run worktree = None"

definition with_status :: "worktree_status \<Rightarrow> i64 \<Rightarrow> run_row list \<Rightarrow> run_row list" where
  "with_status st i = sql_update (\<lambda>r. rr_id r = Some i) (\<lambda>r. r\<lparr>rr_worktree_status := Some st\<rparr>)"

lemma with_status_twice: "with_status b i (with_status a i rs) = with_status b i rs"
  by (auto simp: with_status_def sql_update_def)

lemma load_with_status:
  assumes "db_wf d" "load_run d i = Some run" "db_wf d'" "db_runs d' = with_status st i (db_runs d)"
  shows "load_run d' i = Some (run\<lparr>rr_worktree_status := Some st\<rparr>)"
proof -
  have "run \<in> set (db_runs d)" "rr_id run = Some i" using load_run_iff [OF assms(1)] assms(2) by auto
  then have "run\<lparr>rr_worktree_status := Some st\<rparr> \<in> set (db_runs d')"
    by (force simp: assms(4) with_status_def sql_update_def)
  then show ?thesis using load_run_iff [OF assms(3)] \<open>rr_id run = Some i\<close> by simp
qed

lemma dispose_released:
  assumes wf: "db_wf d" and run: "load_run d (rq_run_id request) = Some run" "rr_worktree_status run = Some Reclaimable"
    and wt: "worktree_path run = Some worktree"
  shows "\<exists>d' v. dispose g request d = (d', Inr v) \<and> db_questions d' = db_questions d \<and>
    (if directory_gone g run worktree
     then (\<exists>ap. v = DisposedTo ap) \<and> db_runs d' = with_status Cleaned (rq_run_id request) (db_runs d)
     else v = Retained \<and> db_runs d' = db_runs d)"
proof (cases "directory_gone g run worktree")
  case False
  then obtain refusal where "gi_is_dir g worktree" "remove_directory g run worktree = Some refusal"
    by (auto simp: directory_gone_def)
  then show ?thesis using run wt loaded_run_exists [OF wf run(1)] False
    by (auto simp: dispose_def journal_dispose_result_def)
next
  case True
  then have gone: "(if gi_is_dir g worktree then remove_directory g run worktree else None) = None"
    by (auto simp: directory_gone_def)
  let ?f = "\<lparr>wf_now = rq_now request, wf_merge_re_derived = False, wf_worktree_clean = True,
    wf_manual_disposition_confirmed = False\<rparr>"
  obtain t where t: "find_worktree_transition Reclaimable Reclaim = Some t" "wt_to t = Cleaned" "check_worktree_guard t ?f = Inr ()"
    by (simp add: find_worktree_transition_def worktree_transitions_def check_worktree_guard_def)
  obtain d1 ap where moved: "apply_worktree d (rq_run_id request) Reclaim ?f = (d1, Inr (Applied ap))" "db_wf d1"
      "db_runs d1 = with_status Cleaned (rq_run_id request) (db_runs d)" "db_questions d1 = db_questions d"
    using guarded_worktree_applies [OF wf run t(1,3)] t(2) by (auto simp: with_status_def)
  have "run_exists (db_runs d1) (rq_run_id request)"
    using loaded_run_exists [OF wf run(1)] moved(3) by (simp add: with_status_def)
  then show ?thesis using run wt gone moved True
    by (auto simp: dispose_def journal_dispose_result_def)
qed

lemma release_worktree_active:
  assumes wf: "db_wf d" and run: "load_run d i = Some run" "rr_worktree_status run = Some Active"
  obtains d' ap where "release_worktree i now v d = (d', Inr (Some ap))" "db_wf d'"
    "db_runs d' = with_status Reclaimable i (db_runs d)" "db_questions d' = db_questions d"
proof -
  let ?f = "\<lparr>wf_now = now, wf_merge_re_derived = True, wf_worktree_clean = \<not> gd_dirty v, wf_manual_disposition_confirmed = False\<rparr>"
  obtain t where t: "find_worktree_transition Active MergeDetected = Some t" "wt_to t = Reclaimable" "check_worktree_guard t ?f = Inr ()"
    by (simp add: find_worktree_transition_def worktree_transitions_def check_worktree_guard_def)
  show ?thesis using guarded_worktree_applies [OF wf run t(1,3)] t(2) that
    by (auto simp: release_worktree_def with_status_def)
qed

lemma release_worktree_inactive:
  assumes run: "load_run d i = Some run" "rr_worktree_status run \<noteq> Some Active"
  shows "release_worktree i now v d = (d, Inr None)"
proof (cases "rr_worktree_status run")
  case None
  then show ?thesis using run by (simp add: release_worktree_def apply_worktree_def machines_load_run_def)
next
  case (Some st)
  then have "find_worktree_transition st MergeDetected = None" using run(2) find_merge_detected_none by simp
  then show ?thesis using run Some by (simp add: release_worktree_def apply_worktree_def machines_load_run_def)
qed

lemma reclaim_releases:
  assumes wf: "db_wf d" and ok: "releasable_now g request d run worktree v"
  shows "\<exists>d' ap cleaned. reclaim g request d = (d', Inr (Released ap cleaned)) \<and> db_questions d' = db_questions d \<and>
    db_runs d' = with_status (if directory_gone g run worktree then Cleaned else Reclaimable) (rq_run_id request) (db_runs d) \<and>
    (cleaned \<noteq> None \<longleftrightarrow> directory_gone g run worktree)"
proof -
  let ?i = "rq_run_id request"
  have run: "load_run d ?i = Some run" "rr_worktree_status run = Some Active" and wt: "worktree_path run = Some worktree"
    using ok by (simp_all add: releasable_now_def)
  obtain payload where "journal_reclaim_result request (Some v) None d =
      (logged (infra_entry ?i gate_result_event payload (rq_now request)) d, Inr ())" (is "_ = (?d1, _)")
    using loaded_run_exists [OF wf run(1)] by (simp add: journal_reclaim_result_def)
  note journaled = this
  have wf1: "db_wf ?d1" by (rule logged_wf [OF wf loaded_run_exists [OF wf run(1)]]) (simp add: gate_result_event_def)
  have run1: "load_run ?d1 ?i = Some run" using run(1) by simp
  from release_worktree_active [OF wf1 run1 run(2)] obtain d2 ap where
    rel: "release_worktree ?i (rq_now request) v ?d1 = (d2, Inr (Some ap))" "db_wf d2"
      "db_runs d2 = with_status Reclaimable ?i (db_runs ?d1)" "db_questions d2 = db_questions ?d1"
    by blast
  let ?run2 = "run\<lparr>rr_worktree_status := Some Reclaimable\<rparr>"
  have run2: "load_run d2 ?i = Some ?run2" by (rule load_with_status [OF wf1 run1 rel(2,3)])
  have root: "rr_repo_root ?run2 = rr_repo_root run" by simp
  have "remove_directory g ?run2 worktree = remove_directory g run worktree"
    unfolding remove_directory_def root ..
  then have "worktree_path ?run2 = Some worktree" "directory_gone g ?run2 worktree = directory_gone g run worktree"
    using wt by (simp_all add: worktree_path_def directory_gone_def)
  with dispose_released [OF rel(2) run2, of worktree g] obtain d3 w where
    disposed: "dispose g request d2 = (d3, Inr w)" "db_questions d3 = db_questions d2"
      "if directory_gone g run worktree
       then (\<exists>ap. w = DisposedTo ap) \<and> db_runs d3 = with_status Cleaned ?i (db_runs d2)
       else w = Retained \<and> db_runs d3 = db_runs d2"
    by auto
  have "reclaim g request d = (d3, Inr (Released ap (case w of DisposedTo cleaned \<Rightarrow> Some cleaned | _ \<Rightarrow> None)))"
    using ok journaled rel(1) disposed(1) by (auto simp: reclaim_def releasable_now_def)
  then show ?thesis using rel(3,4) disposed(2,3) with_status_twice
    by (auto split: if_splits)
qed

lemma reclaim_spares:
  assumes wf: "db_wf d" and no: "\<nexists>run worktree v. releasable_now g request d run worktree v"
    and res: "reclaim g request d = (d', r)"
  shows "db_runs d' = db_runs d \<and> db_questions d' = db_questions d \<and> (\<forall>ap cleaned. r \<noteq> Inr (Released ap cleaned))"
proof (cases "load_run d (rq_run_id request)")
  case None
  then show ?thesis using res by (auto simp: reclaim_def)
next
  case run: (Some run)
  note exists [simp] = loaded_run_exists [OF wf run]
  have one: "\<exists>payload. journal_reclaim_result request v x d =
      (logged (infra_entry (rq_run_id request) gate_result_event payload (rq_now request)) d, Inr ())" for v x
    by (auto simp: journal_reclaim_result_def)
  have refused: "\<exists>payload. refuse_reclaim request v x d =
      (logged (infra_entry (rq_run_id request) gate_result_event payload (rq_now request)) d, Inr (ReclaimRefused x))" for v x
    using one [of v "Some x"] by (auto simp: refuse_reclaim_def)
  show ?thesis
  proof (cases "worktree_path run")
    case None
    then show ?thesis using run refused [of None NoWorktree] res by (auto simp: reclaim_def)
  next
    case wt: (Some worktree)
    show ?thesis
    proof (cases "gi_derive g worktree (rq_main_ref request)")
      case (Inl e)
      then show ?thesis using run wt one [of None "Some DerivationFailed"] res by (auto simp: reclaim_def)
    next
      case v: (Inr v)
      obtain payload where dirty: "journal_reclaim_result request (Some v) (Some WorktreeDirty) d =
          (logged (infra_entry (rq_run_id request) gate_result_event payload (rq_now request)) d, Inr ())" (is "_ = (?d1, _)")
        using one [of "Some v" "Some WorktreeDirty"] by blast
      obtain payload' where passed: "journal_reclaim_result request (Some v) None d =
          (logged (infra_entry (rq_run_id request) gate_result_event payload' (rq_now request)) d, Inr ())" (is "_ = (?d2, _)")
        using one [of "Some v" None] by blast
      show ?thesis
      proof (cases "gd_branch v = None \<or> \<not> gd_merged v \<or> gd_dirty v")
        case True
        then show ?thesis
          using run wt v refused [of "Some v" DetachedHead] refused [of "Some v" NotMerged] dirty res
            sub_agent_journaled [of ?d1 "\<lparr>sg_kind = Cleanup, sg_run_id = rq_run_id request, sg_worktree_path = worktree,
              sg_branch = gd_branch v, sg_detail = ''the worktree holds uncommitted changes''\<rparr>" "rq_now request"]
          by (auto simp: reclaim_def Let_def split: if_splits)
      next
        case False
        then have "rr_worktree_status run \<noteq> Some Active" using no run wt v by (auto simp: releasable_now_def)
        then have "release_worktree (rq_run_id request) (rq_now request) v ?d2 = (?d2, Inr None)"
          using release_worktree_inactive [of ?d2 "rq_run_id request" run] run by simp
        then show ?thesis using run wt v False passed res by (auto simp: reclaim_def)
      qed
    qed
  qed
qed

end
