(* ===== verification/Scenario_Gates.thy ===== *)
theory Scenario_Gates
  imports Scenario Gate_Safety
begin

text \<open>
  Databases and git answers on which the timers, a boot and the gates are exercised: a
  provider capped until second 60, a run that has gone quiet, and a finished run with
  frozen paths whose user has approved exactly the tree git derives.
\<close>

section \<open>Time passing\<close>

definition capped :: run_facts where
  "capped = default_run_facts\<lparr>rf_now := 20, rf_quota_reset_at := Some 60\<rparr>"

definition capped_db :: db where
  "capped_db = perform (MoveRun 1 QuotaReached capped) working_db"

lemma capped_reachable: "reachable capped_db"
  unfolding capped_db_def by (rule reachable.step [OF demo_reachable(2)]) (simp add: admissible_def capped_def)

lemma capped_states: "map rr_state (db_runs capped_db) = [AwaitingQuota, Queued]"
  by code_simp

lemma capped_due:
  "due_providers default_timer_settings (clock_now (Some 60)) capped_db = [''p'']"
  "due_providers default_timer_settings (clock_now (Some 59)) capped_db = []"
  by code_simp+

text \<open>A checkpoint that promises the next for second 5000, and what its silence raises.\<close>

definition promise_ops :: "cp_op list" where
  "promise_ops = [Journal [\<lparr>ev_id = None, ev_run_id = Some 1, ev_type = ''checkpoint'', ev_class = Infra,
     ev_payload = JText (JObject [(''promised_at'', JInt 5000)]), ev_ts = 4100\<rparr>]]"

lemma second_signal:
  "\<exists>d1 o1 d2 o2. overdue_signal default_timer_settings 4000 1 working_db = (d1, Inr (Some o1)) \<and>
    oc_checkpoint_event_id o1 = 6 \<and>
    overdue_signal default_timer_settings 9000 1 (perform_all promise_ops d1) = (d2, Inr (Some o2))"
proof -
  have "(case overdue_signal default_timer_settings 4000 1 working_db of
      (d1, Inr (Some o1)) \<Rightarrow> oc_checkpoint_event_id o1 = 6 \<and>
        (case overdue_signal default_timer_settings 9000 1 (perform_all promise_ops d1) of
           (d2, Inr (Some o2)) \<Rightarrow> True | _ \<Rightarrow> False) | _ \<Rightarrow> False)"
    by code_simp
  then show ?thesis by (auto split: prod.splits sum.splits option.splits)
qed

text \<open>A disk that holds no worktree.\<close>

definition empty_disk :: file_system where
  "empty_disk = \<lparr>fs_read_dir = (\<lambda>path. None), fs_is_dir = (\<lambda>path. False)\<rparr>"

section \<open>Work ready to land\<close>

definition scoped_run :: run_row where
  "scoped_run = (demo_run 0 None)\<lparr>rr_genesis_paths := Some (JText (JArray [JString ''src'']))\<rparr>"

definition landing_ops :: "cp_op list" where
  "landing_ops = [OpenRun scoped_run, MoveRun 1 Approve by_user, MoveRun 1 Admit ready, MoveRun 1 Finished finished,
     OpenAsk (demo_question Approval) [], MoveQuestion 1 Answer said_yes]"

definition landing_db :: db where
  "landing_db = perform_all landing_ops empty_db"

lemma landing_reachable: "reachable landing_db"
proof -
  have "list_all admissible landing_ops" by code_simp
  then show ?thesis unfolding landing_db_def by (rule reachable_perform_all [OF reachable.start])
qed

definition derived :: "bool \<Rightarrow> string list \<Rightarrow> gate_derivation" where
  "derived merged paths = \<lparr>gd_branch = Some ''work'', gd_merge_base = Some ''base'', gd_head_tree = ''tree'',
     gd_merged = merged, gd_dirty = False, gd_changed_paths = paths\<rparr>"

definition demo_git :: "bool \<Rightarrow> string list \<Rightarrow> git" where
  "demo_git merged paths = \<lparr>gi_derive = (\<lambda>worktree target. Inr (derived merged paths)),
     gi_merge = (\<lambda>repository branch. Inr (merge_outcome.Merged ''c0ffee'')),
     gi_remove = (\<lambda>repository repository_id name. Inr ()), gi_is_dir = (\<lambda>path. True),
     gi_sha256 = (\<lambda>bytes. ''digest'')\<rparr>"

definition demo_request :: pre_merge_request where
  "demo_request = \<lparr>pm_run_id = 1, pm_approval_id = 1, pm_path = Integrate, pm_main_ref = ''main'',
     pm_attempt_cap = 3, pm_now = 40\<rparr>"

definition demo_sweep :: reclaim_request where
  "demo_sweep = \<lparr>rq_run_id = 1, rq_main_ref = ''main'', rq_now = 50\<rparr>"

definition is_merged :: "gate_error + pre_merge_verdict \<Rightarrow> bool" where
  "is_merged r = (case r of Inr (Merged sha released) \<Rightarrow> True | _ \<Rightarrow> False)"

lemma demo_gate_lands: "is_merged (snd (pre_merge (demo_git False [''src/a.rs'']) demo_request landing_db))"
  by code_simp

lemma demo_gate_refuses: "\<not> is_merged (snd (pre_merge (demo_git False [''src/a.rs'', ''srcs/b.rs'']) demo_request landing_db))"
  by code_simp

lemma is_merged_iff: "is_merged r \<longleftrightarrow> (\<exists>sha released. r = Inr (Merged sha released))"
  by (auto simp: is_merged_def split: sum.splits pre_merge_verdict.splits)

lemma landing_rows:
  "\<exists>run q stored. load_run landing_db 1 = Some run \<and> worktree_path run = Some ''/wt'' \<and>
     rr_genesis_paths run = Some stored \<and> parse_genesis_paths stored = Inr [''src''] \<and>
     load_question landing_db 1 = Some q \<and> qu_run_id q = 1 \<and> qu_kind q = Approval \<and>
     qu_state q = question_state.Answered \<and> qu_author q = Some question_author.User \<and> in_date q 40 \<and>
     qu_tree_hash q = Some ''tree'' \<and> qu_paths_digest q = Some ''digest''"
proof -
  have "(case (load_run landing_db 1, load_question landing_db 1) of
      (Some run, Some q) \<Rightarrow> worktree_path run = Some ''/wt'' \<and>
        (case rr_genesis_paths run of None \<Rightarrow> False | Some stored \<Rightarrow> parse_genesis_paths stored = Inr [''src'']) \<and>
        qu_run_id q = 1 \<and> qu_kind q = Approval \<and>
        qu_state q = question_state.Answered \<and> qu_author q = Some question_author.User \<and> in_date q 40 \<and>
        qu_tree_hash q = Some ''tree'' \<and> qu_paths_digest q = Some ''digest''
    | _ \<Rightarrow> False)"
    by code_simp
  then show ?thesis by (auto split: option.splits)
qed

lemma landing_active: "load_run landing_db 1 = Some run \<Longrightarrow> rr_worktree_status run = Some Active"
proof -
  have "map_option rr_worktree_status (load_run landing_db 1) = Some (Some Active)" by code_simp
  then show "load_run landing_db 1 = Some run \<Longrightarrow> rr_worktree_status run = Some Active" by simp
qed

end
