(* ===== verification/Shell_Reader.thy ===== *)
theory Shell_Reader
  imports Text_Ops
begin

text \<open>
  Reading a permission target (crates/agens-core/src/permission_target.rs): the spellings
  of a path, and the invocations of a shell command line. \<open>scan\<close> walks a command line byte
  by byte and cuts it at its separators; \<open>tokenize\<close> cuts one invocation into words; both are
  total, and the decomposition through \<open>sh -c\<close> goes at most \<open>max_shell_depth\<close> deep.
\<close>

section \<open>Paths\<close>

definition split_uri_prefix :: "string \<Rightarrow> string \<times> string" where
  "split_uri_prefix value =
     (case find_text ''://'' value of
        None \<Rightarrow> ([], value)
      | Some scheme_end \<Rightarrow>
          let scheme = take scheme_end value
          in if scheme \<noteq> [] \<and> is_ascii_alphabetic (hd scheme) \<and>
                list_all (\<lambda>c. is_ascii_alphanumeric c \<or> c \<in> set ''+-.'') scheme
             then (take (scheme_end + 3) value, drop (scheme_end + 3) value)
             else ([], value))"

definition normalized_path_target :: "string \<Rightarrow> string" where
  "normalized_path_target value =
     (let (uri, remainder) = split_uri_prefix value;
          absolute = is_absolute remainder;
          parts = path_parts remainder
      in if parts = []
         then uri @ (if absolute then ''/'' else if remainder = [] then [] else ''.'')
         else uri @ (if absolute then ''/'' else []) @ join_with separator parts)"

definition names_a_directory :: "string \<Rightarrow> bool" where
  "names_a_directory value \<longleftrightarrow> ends_with value ''/'' \<or> ends_with value ''/.'' \<or> value = ''.''"

definition path_target_forms :: "string \<Rightarrow> string list" where
  "path_target_forms value =
     (let normalized = normalized_path_target value
      in if \<not> names_a_directory value \<or> ends_with normalized ''/'' then [normalized]
         else [normalized, normalized @ ''/''])"

section \<open>Splitting a command line\<close>

definition single_quote :: char where "single_quote = CHR 0x27"
definition double_quote :: char where "double_quote = CHR 0x22"
definition backslash :: char where "backslash = CHR 0x5C"
definition backtick :: char where "backtick = CHR 0x60"
definition newline :: char where "newline = CHR 0x0A"

record scanner =
  sc_segments :: "string list"
  sc_substitutions :: "string list"
  sc_segment_start :: nat
  sc_substitution_start :: nat
  sc_substitution_depth :: nat
  sc_inside_backtick :: bool
  sc_quote :: "char option"
  sc_index :: nat

definition scan_start :: scanner where
  "scan_start =
     \<lparr>sc_segments = [], sc_substitutions = [], sc_segment_start = 0, sc_substitution_start = 0,
      sc_substitution_depth = 0, sc_inside_backtick = False, sc_quote = None, sc_index = 0\<rparr>"

definition slice :: "string \<Rightarrow> nat \<Rightarrow> nat \<Rightarrow> string" where
  "slice s a b = take (b - a) (drop a s)"

definition opens_substitution :: "string \<Rightarrow> nat \<Rightarrow> bool" where
  "opens_substitution command i \<longleftrightarrow>
     command ! i = CHR ''$'' \<and> i + 1 < length command \<and> command ! (i + 1) = CHR ''(''"

definition step_substitution :: "string \<Rightarrow> scanner \<Rightarrow> scanner" where
  "step_substitution command s =
     (let i = sc_index s; byte = command ! i; next = s\<lparr>sc_index := i + 1\<rparr>
      in if byte = CHR ''('' then next\<lparr>sc_substitution_depth := sc_substitution_depth s + 1\<rparr>
         else if byte = CHR '')''
         then let depth = sc_substitution_depth s - 1
              in next\<lparr>sc_substitution_depth := depth,
                      sc_substitutions :=
                        (if depth = 0
                         then sc_substitutions s @ [slice command (sc_substitution_start s) i]
                         else sc_substitutions s)\<rparr>
         else next)"

definition step_backtick :: "string \<Rightarrow> scanner \<Rightarrow> scanner" where
  "step_backtick command s =
     (let i = sc_index s; next = s\<lparr>sc_index := i + 1\<rparr>
      in if command ! i = backtick
         then next\<lparr>sc_inside_backtick := False,
                   sc_substitutions := sc_substitutions s @ [slice command (sc_substitution_start s) i]\<rparr>
         else next)"

definition step_quoted :: "string \<Rightarrow> char \<Rightarrow> scanner \<Rightarrow> scanner" where
  "step_quoted command opened s =
     (let i = sc_index s; byte = command ! i
      in if byte = opened then s\<lparr>sc_quote := None, sc_index := i + 1\<rparr>
         else if opened = double_quote \<and> opens_substitution command i
         then s\<lparr>sc_substitution_depth := 1, sc_substitution_start := i + 2, sc_index := i + 2\<rparr>
         else s\<lparr>sc_index := i + 1\<rparr>)"

definition is_separator :: "char \<Rightarrow> bool" where
  "is_separator byte \<longleftrightarrow> byte \<in> {CHR '';'', newline, CHR ''|'', CHR ''&''}"

definition operator_end :: "string \<Rightarrow> nat \<Rightarrow> nat" where
  "operator_end command i =
     i + 1 + length (takeWhile (\<lambda>c. c = CHR ''|'' \<or> c = CHR ''&'') (drop (i + 1) command))"

definition step_plain :: "string \<Rightarrow> scanner \<Rightarrow> scanner" where
  "step_plain command s =
     (let i = sc_index s; byte = command ! i
      in if byte = single_quote \<or> byte = double_quote then s\<lparr>sc_quote := Some byte, sc_index := i + 1\<rparr>
         else if byte = backslash then s\<lparr>sc_index := i + 2\<rparr>
         else if byte = backtick
         then s\<lparr>sc_inside_backtick := True, sc_substitution_start := i + 1, sc_index := i + 1\<rparr>
         else if opens_substitution command i
         then s\<lparr>sc_substitution_depth := 1, sc_substitution_start := i + 2, sc_index := i + 2\<rparr>
         else if is_separator byte
         then s\<lparr>sc_segments := sc_segments s @ [slice command (sc_segment_start s) i],
                sc_segment_start := operator_end command i, sc_index := operator_end command i\<rparr>
         else s\<lparr>sc_index := i + 1\<rparr>)"

definition scan_step :: "string \<Rightarrow> scanner \<Rightarrow> scanner" where
  "scan_step command s =
     (if 0 < sc_substitution_depth s then step_substitution command s
      else if sc_inside_backtick s then step_backtick command s
      else case sc_quote s of
             Some opened \<Rightarrow> step_quoted command opened s
           | None \<Rightarrow> step_plain command s)"

lemmas scan_step_defs = scan_step_def step_substitution_def step_backtick_def step_quoted_def
  step_plain_def Let_def

lemma scan_step_advances: "sc_index s < sc_index (scan_step command s)"
  by (simp add: scan_step_defs operator_end_def split: option.split)

function scan_loop :: "string \<Rightarrow> scanner \<Rightarrow> scanner" where
  "scan_loop command s =
     (if sc_index s < length command then scan_loop command (scan_step command s) else s)"
  by pat_completeness auto
termination
  by (relation "measure (\<lambda>(command, s). length command - sc_index s)")
    (use scan_step_advances in \<open>auto intro!: diff_less_mono2\<close>)

declare scan_loop.simps [simp del]

definition scan :: "string \<Rightarrow> string list \<times> string list" where
  "scan command =
     (let s = scan_loop command scan_start
      in (sc_segments s @ [drop (sc_segment_start s) command], sc_substitutions s))"

section \<open>Words\<close>

record reader =
  rd_tokens :: "string list"
  rd_current :: string
  rd_quote :: "string option"
  rd_escaped :: bool
  rd_started :: bool

definition read_start :: reader where
  "read_start = \<lparr>rd_tokens = [], rd_current = [], rd_quote = None, rd_escaped = False, rd_started = False\<rparr>"

definition read_char :: "reader \<Rightarrow> string \<Rightarrow> reader" where
  "read_char r ch =
     (if rd_escaped r
      then r\<lparr>rd_escaped := False, rd_current := rd_current r @ ch, rd_started := True\<rparr>
      else case rd_quote r of
        Some opened \<Rightarrow>
          (if ch = opened then r\<lparr>rd_quote := None\<rparr> else r\<lparr>rd_current := rd_current r @ ch\<rparr>)
      | None \<Rightarrow>
          if ch = [backslash] then r\<lparr>rd_escaped := True, rd_started := True\<rparr>
          else if ch = [single_quote] \<or> ch = [double_quote]
          then r\<lparr>rd_quote := Some ch, rd_started := True\<rparr>
          else if is_whitespace ch
          then (if rd_started r
                then r\<lparr>rd_tokens := rd_tokens r @ [rd_current r], rd_current := [], rd_started := False\<rparr>
                else r)
          else r\<lparr>rd_current := rd_current r @ ch, rd_started := True\<rparr>)"

definition tokenize :: "string \<Rightarrow> string list" where
  "tokenize segment =
     (let r = foldl read_char read_start (chars segment)
      in if rd_started r then rd_tokens r @ [rd_current r] else rd_tokens r)"

section \<open>Commands\<close>

definition command_name :: "string \<Rightarrow> string" where
  "command_name token = last (split_on separator token)"

definition is_environment_name :: "string \<Rightarrow> bool" where
  "is_environment_name name \<longleftrightarrow> list_all (\<lambda>c. is_ascii_alphanumeric c \<or> c = CHR ''_'') name"

definition is_environment_assignment :: "string \<Rightarrow> bool" where
  "is_environment_assignment token \<longleftrightarrow>
     (case split_once (CHR ''='') token of
        Some (name, assigned) \<Rightarrow> name \<noteq> [] \<and> is_environment_name name
      | None \<Rightarrow> False)"

definition wrapper_commands :: "string list" where
  "wrapper_commands =
     [''sudo'', ''doas'', ''env'', ''command'', ''nohup'', ''time'', ''xargs'', ''builtin'']"

definition shell_commands :: "string list" where
  "shell_commands = [''bash'', ''sh'', ''zsh'', ''dash'', ''ksh'', ''busybox'']"

definition value_taking_flags :: "string list" where
  "value_taking_flags =
     [''-u'', ''-g'', ''-p'', ''-C'', ''-t'', ''-r'', ''-n'', ''-I'', ''-d'', ''-P'', ''-a'', ''-o'']"

fun strip_flags :: "string list \<Rightarrow> string list" where
  "strip_flags [] = []"
| "strip_flags (flag # rest) =
     (if starts_with flag ''-''
      then strip_flags (if flag \<in> set value_taking_flags then drop 1 rest else rest)
      else flag # rest)"

lemma length_strip_flags: "length (strip_flags tokens) \<le> length tokens"
  by (induction tokens rule: strip_flags.induct) (auto split: if_splits)

function strip_prefixes :: "string list \<Rightarrow> string list" where
  "strip_prefixes [] = []"
| "strip_prefixes (first # rest) =
     (let is_wrapper = command_name first \<in> set wrapper_commands
      in if \<not> is_environment_assignment first \<and> \<not> is_wrapper then first # rest
         else strip_prefixes (if is_wrapper then strip_flags rest else rest))"
  by pat_completeness auto
termination
  by (relation "measure length") (use length_strip_flags in \<open>auto simp: less_Suc_eq_le\<close>)

definition words :: "string list \<Rightarrow> string" where
  "words tokens = join_with (CHR '' '') tokens"

definition shell_script :: "string list \<Rightarrow> string option" where
  "shell_script tokens =
     (case tokens of
        [] \<Rightarrow> None
      | first # rest \<Rightarrow>
          let program = command_name first
          in if program = ''eval'' then (if rest \<noteq> [] then Some (words rest) else None)
             else if program \<notin> set shell_commands then None
             else case dropWhile (\<lambda>token. token \<noteq> ''-c'') rest of
                    flag # script # others \<Rightarrow> Some script
                  | _ \<Rightarrow> None)"

definition normalized_form :: "string list \<Rightarrow> string" where
  "normalized_form tokens =
     (case tokens of [] \<Rightarrow> [] | first # rest \<Rightarrow> words (command_name first # rest))"

section \<open>Invocations\<close>

definition max_invocations :: nat where "max_invocations = 64"
definition max_shell_depth :: nat where "max_shell_depth = 4"

definition invocation_forms :: "string \<Rightarrow> string \<Rightarrow> string list" where
  "invocation_forms written normalized =
     written # (if normalized \<noteq> written then [normalized] else [])"

definition depth_measure :: "nat \<Rightarrow> nat" where
  "depth_measure depth = 2 * (max_shell_depth + 2 - depth)"

function collect_invocations :: "string \<Rightarrow> nat \<Rightarrow> string list list \<Rightarrow> string list list"
  and collect_segments :: "string list \<Rightarrow> nat \<Rightarrow> string list list \<Rightarrow> string list list" where
  "collect_invocations command depth invocations =
     (if max_shell_depth < depth then invocations
      else case scan command of
             (segments, substitutions) \<Rightarrow> collect_segments (segments @ substitutions) depth invocations)"
| "collect_segments [] depth invocations = invocations"
| "collect_segments (segment # rest) depth invocations =
     (if max_invocations \<le> length invocations then invocations
      else
        let written = trim segment
        in if written = [] then collect_segments rest depth invocations
           else
             let stripped = strip_prefixes (tokenize written);
                 nested = (case shell_script stripped of
                             Some script \<Rightarrow> collect_invocations script (depth + 1) invocations
                           | None \<Rightarrow> invocations);
                 normalized = normalized_form stripped
             in if normalized = [] then collect_segments rest depth nested
                else collect_segments rest depth (nested @ [invocation_forms written normalized]))"
  by pat_completeness auto

termination
  by (relation "measures
       [\<lambda>x. case x of Inl (command, depth, invs) \<Rightarrow> if max_shell_depth < depth then 0 else depth_measure depth + 1
                    | Inr (segments, depth, invs) \<Rightarrow> if max_shell_depth < depth then 1 else depth_measure depth,
        \<lambda>x. case x of Inl y \<Rightarrow> 0 | Inr (segments, depth, invs) \<Rightarrow> length segments]")
    (auto simp: depth_measure_def max_shell_depth_def)

declare collect_invocations.simps [simp del] collect_segments.simps(2) [simp del]

definition command_invocations :: "string \<Rightarrow> string list list" where
  "command_invocations command = collect_invocations command 0 []"

function collect_invocation_tokens :: "string \<Rightarrow> nat \<Rightarrow> string list list \<Rightarrow> string list list"
  and collect_segment_tokens :: "string list \<Rightarrow> nat \<Rightarrow> string list list \<Rightarrow> string list list" where
  "collect_invocation_tokens command depth invocations =
     (if max_shell_depth < depth then invocations
      else case scan command of
             (segments, substitutions) \<Rightarrow> collect_segment_tokens (segments @ substitutions) depth invocations)"
| "collect_segment_tokens [] depth invocations = invocations"
| "collect_segment_tokens (segment # rest) depth invocations =
     (if max_invocations \<le> length invocations then invocations
      else
        let written = trim segment
        in if written = [] then collect_segment_tokens rest depth invocations
           else
             let tokens = tokenize written
             in if tokens = [] then collect_segment_tokens rest depth invocations
                else
                  let nested = (case shell_script (strip_prefixes tokens) of
                                  Some script \<Rightarrow> collect_invocation_tokens script (depth + 1) invocations
                                | None \<Rightarrow> invocations)
                  in collect_segment_tokens rest depth (nested @ [tokens]))"
  by pat_completeness auto

termination
  by (relation "measures
       [\<lambda>x. case x of Inl (command, depth, invs) \<Rightarrow> if max_shell_depth < depth then 0 else depth_measure depth + 1
                    | Inr (segments, depth, invs) \<Rightarrow> if max_shell_depth < depth then 1 else depth_measure depth,
        \<lambda>x. case x of Inl y \<Rightarrow> 0 | Inr (segments, depth, invs) \<Rightarrow> length segments]")
    (auto simp: depth_measure_def max_shell_depth_def)

declare collect_invocation_tokens.simps [simp del] collect_segment_tokens.simps(2) [simp del]

definition command_invocation_tokens :: "string \<Rightarrow> string list list" where
  "command_invocation_tokens command = collect_invocation_tokens command 0 []"

end
