(* ===== verification/Shell_Facts.thy ===== *)
theory Shell_Facts
  imports Shell_Reader
begin

text \<open>
  What the reading of a target gives: a path and each of its spellings have one normal
  form, a chain of plain commands is cut exactly at its separators, plain words come
  back out of the text they were joined into, and the number of invocations is bounded.
\<close>

section \<open>One file, one spelling\<close>

lemma split_on_sep: "split_on c (xs @ c # ys) = split_on c xs @ split_on c ys"
proof (induction xs)
  case (Cons x xs)
  show ?case
  proof (cases "x = c")
    case False
    obtain p ps where "split_on c xs = p # ps" by (cases "split_on c xs") auto
    then show ?thesis using Cons.IH False by simp
  qed (simp add: Cons.IH)
qed simp

lemma find_text_least: "find_text p s = Some n \<Longrightarrow> \<exists>after. s = take n s @ p @ after"
proof (induction s arbitrary: n)
  case (Cons x xs)
  then show ?case by (fastforce simp: starts_with_iff split: if_splits)
qed (auto split: if_splits)

lemma find_text_length: "find_text p s = Some n \<Longrightarrow> n + length p \<le> length s"
proof -
  assume "find_text p s = Some n"
  then obtain after where a: "s = take n s @ p @ after" using find_text_least by blast
  have n: "n \<le> length s"
    using \<open>find_text p s = Some n\<close> by (induction s arbitrary: n) (auto split: if_splits)
  have "length s = length (take n s @ p @ after)" using a by (rule arg_cong)
  then show ?thesis using n by simp
qed

lemma find_text_take:
  "find_text p s = Some n \<Longrightarrow> find_text p (take (n + length p) s @ r) = Some n"
proof (induction s arbitrary: n)
  case (Cons x xs)
  show ?case
  proof (cases "starts_with (x # xs) p")
    case True
    then obtain after where "x # xs = p @ after" by (auto simp: starts_with_iff)
    then have "take (length p) (x # xs) @ r = p @ r" by simp
    moreover have "starts_with (p @ r) p" by (auto simp: starts_with_iff)
    then have "find_text p (p @ r) = Some 0" by (cases "p @ r") auto
    moreover have "n = 0" using Cons.prems True by simp
    ultimately show ?thesis by simp
  next
    case False
    then obtain m where m: "n = Suc m" "find_text p xs = Some m" using Cons.prems by (auto split: if_splits)
    have len: "Suc m + length p \<le> length (x # xs)" using find_text_length [of p xs m] m(2) by simp
    have "\<not> starts_with (x # take (m + length p) xs @ r) p"
    proof
      assume "starts_with (x # take (m + length p) xs @ r) p"
      then obtain after where eq: "x # take (m + length p) xs @ r = p @ after" by (auto simp: starts_with_iff)
      have "take (length p) (x # take (m + length p) xs @ r) = p" using eq by simp
      moreover have "take (length p) (x # take (m + length p) xs @ r) = take (length p) (x # xs)"
        using len by (cases "length p") (auto simp: min_def)
      ultimately have "take (length p) (x # xs) = p" by simp
      then have "x # xs = p @ drop (length p) (x # xs)" by (metis append_take_drop_id)
      then show False using False by (auto simp: starts_with_iff)
    qed
    moreover have "find_text p (take (m + length p) xs @ r) = Some m" by (rule Cons.IH [OF m(2)])
    ultimately show ?thesis using m(1) by simp
  qed
next
  case Nil
  then have "p = []" "n = 0" by (auto split: if_splits)
  then show ?case by (cases r) (auto simp: starts_with_def)
qed

lemma no_double_separator:
  assumes "\<forall>part \<in> set (tl (split_on separator r)). part \<noteq> []"
  shows "find_text ''://'' r = None"
proof (rule ccontr)
  assume "find_text ''://'' r \<noteq> None"
  then obtain n where "find_text ''://'' r = Some n" by auto
  then obtain after where r: "r = take n r @ ''://'' @ after" using find_text_least by blast
  define before where "before = take n r @ '':''"
  have "r = before @ separator # separator # after" using r by (simp add: before_def separator_def)
  then have "split_on separator r = split_on separator before @ split_on separator (separator # after)"
    using split_on_sep [of separator before "separator # after"] by simp
  then have "split_on separator r = split_on separator before @ [] # split_on separator after" by simp
  moreover obtain q qs where "split_on separator before = q # qs" by (cases "split_on separator before") auto
  ultimately have "[] \<in> set (tl (split_on separator r))" by simp
  then show False using assms by blast
qed

definition rooted :: "bool \<Rightarrow> string list \<Rightarrow> string" where
  "rooted absolute parts =
     (if parts = [] then (if absolute then ''/'' else ''.'')
      else (if absolute then ''/'' else []) @ join_with separator parts)"

lemma normalized_uri:
  assumes "split_uri_prefix value = (uri, remainder)"
  shows "normalized_path_target value =
           uri @ (if remainder = [] then [] else rooted (is_absolute remainder) (path_parts remainder))"
  using assms by (auto simp: normalized_path_target_def rooted_def path_parts_def is_absolute_def)

lemma split_rooted:
  assumes "parts \<noteq> []" "\<forall>p \<in> set parts. separator \<notin> set p \<and> p \<noteq> [] \<and> p \<noteq> ''.''"
  shows "split_on separator (rooted absolute parts) = (if absolute then [] # parts else parts)"
proof -
  have "split_on separator (join_with separator parts) = parts"
    by (rule split_join) (use assms in auto)
  moreover have "''/'' = [separator]" by (simp add: separator_def)
  ultimately show ?thesis using assms(1) by (simp add: rooted_def)
qed

lemma rooted_reads_back:
  assumes "\<forall>p \<in> set parts. separator \<notin> set p \<and> p \<noteq> [] \<and> p \<noteq> ''.''"
  shows "rooted absolute parts \<noteq> []" "is_absolute (rooted absolute parts) = absolute"
    "path_parts (rooted absolute parts) = parts" "find_text ''://'' (rooted absolute parts) = None"
proof -
  have sep: "''/'' = [separator]" by (simp add: separator_def)
  have "rooted absolute parts \<noteq> [] \<and> is_absolute (rooted absolute parts) = absolute \<and>
    path_parts (rooted absolute parts) = parts \<and> find_text ''://'' (rooted absolute parts) = None"
  proof (cases "parts = []")
    case True
    then show ?thesis
      by (auto simp: rooted_def is_absolute_def separator_def path_parts_def starts_with_def)
  next
    case False
    have split: "split_on separator (rooted absolute parts) = (if absolute then [] # parts else parts)"
      by (rule split_rooted [OF False assms])
    then have "find_text ''://'' (rooted absolute parts) = None"
      by (intro no_double_separator) (use assms in \<open>auto dest: list.set_sel(2) [rotated]\<close>)
    moreover have "path_parts (rooted absolute parts) = parts"
      using assms by (auto simp: path_parts_def split filter_id_conv)
    moreover obtain q qs where q: "parts = q # qs" "q \<noteq> []" "separator \<notin> set q"
      using False assms by (cases parts) auto
    then have "rooted absolute parts \<noteq> [] \<and> is_absolute (rooted absolute parts) = absolute"
      by (cases q; cases qs) (auto simp: rooted_def is_absolute_def sep)
    ultimately show ?thesis by blast
  qed
  then show "rooted absolute parts \<noteq> []" "is_absolute (rooted absolute parts) = absolute"
    "path_parts (rooted absolute parts) = parts" "find_text ''://'' (rooted absolute parts) = None" by auto
qed

lemma rooted_eq:
  assumes "\<forall>p \<in> set ps. separator \<notin> set p \<and> p \<noteq> [] \<and> p \<noteq> ''.''"
    and "\<forall>p \<in> set qs. separator \<notin> set p \<and> p \<noteq> [] \<and> p \<noteq> ''.''"
  shows "rooted a ps = rooted b qs \<longleftrightarrow> a = b \<and> ps = qs"
proof
  assume eq: "rooted a ps = rooted b qs"
  show "a = b \<and> ps = qs"
    using arg_cong [OF eq, of is_absolute] arg_cong [OF eq, of path_parts]
    unfolding rooted_reads_back(2,3) [OF assms(1)] rooted_reads_back(2,3) [OF assms(2)] by blast
qed simp

lemma split_uri_again:
  assumes "split_uri_prefix value = (uri, remainder)" "uri \<noteq> []"
  shows "split_uri_prefix (uri @ r) = (uri, r)"
proof -
  obtain n where n: "find_text ''://'' value = Some n" using assms
    by (auto simp: split_uri_prefix_def split: option.splits)
  let ?scheme = "take n value"
  have uri: "uri = take (n + 3) value" and good: "?scheme \<noteq> [] \<and> is_ascii_alphabetic (hd ?scheme) \<and>
      list_all (\<lambda>c. is_ascii_alphanumeric c \<or> c \<in> set ''+-.'') ?scheme"
    using assms n by (auto simp: split_uri_prefix_def Let_def split: if_splits)
  have len: "n + 3 \<le> length value" using find_text_length [OF n] by simp
  have "find_text ''://'' (uri @ r) = Some n"
    using find_text_take [OF n, of r] unfolding uri by (simp add: eval_nat_numeral)
  moreover have "take n (uri @ r) = ?scheme" "take (n + 3) (uri @ r) = uri" "drop (n + 3) (uri @ r) = r"
    using len uri by (auto simp: min_def)
  ultimately show ?thesis using good
    by (simp add: split_uri_prefix_def Let_def del: take_append drop_append hd_take take_eq_Nil)
qed

lemma split_uri_none: "find_text ''://'' value = None \<Longrightarrow> split_uri_prefix value = ([], value)"
  by (simp add: split_uri_prefix_def)

lemma normalized_idem: "normalized_path_target (normalized_path_target value) = normalized_path_target value"
proof -
  obtain uri remainder where split: "split_uri_prefix value = (uri, remainder)" by (cases "split_uri_prefix value")
  let ?r = "if remainder = [] then [] else rooted (is_absolute remainder) (path_parts remainder)"
  have plain: "\<forall>p \<in> set (path_parts remainder). separator \<notin> set p \<and> p \<noteq> [] \<and> p \<noteq> ''.''"
    using path_parts_plain by blast
  note reads = rooted_reads_back [OF plain, of "is_absolute remainder"]
  have "split_uri_prefix (uri @ ?r) = (uri, ?r)"
  proof (cases "uri = []")
    case True
    have "find_text ''://'' ?r = None" using reads(4) by simp
    then show ?thesis using True by (simp add: split_uri_none)
  qed (rule split_uri_again [OF split])
  from normalized_uri [OF this] show ?thesis
    unfolding normalized_uri [OF split] using reads by simp
qed

text \<open>Two spellings with no scheme name one file when they walk through the same parts.\<close>

lemma normalized_same_parts:
  assumes "find_text ''://'' v = None" "find_text ''://'' w = None" "v \<noteq> []" "w \<noteq> []"
  shows "normalized_path_target v = normalized_path_target w \<longleftrightarrow>
           is_absolute v = is_absolute w \<and> path_parts v = path_parts w"
proof -
  have parts: "\<forall>p \<in> set (path_parts x). separator \<notin> set p \<and> p \<noteq> [] \<and> p \<noteq> ''.''" for x
    using path_parts_plain by blast
  have form: "normalized_path_target x = rooted (is_absolute x) (path_parts x)"
    if "find_text ''://'' x = None" "x \<noteq> []" for x
    using normalized_uri [OF split_uri_none [OF that(1)]] that(2) by simp
  show ?thesis unfolding form [OF assms(1,3)] form [OF assms(2,4)] by (rule rooted_eq [OF parts parts])
qed

lemma path_forms_head: "\<exists>others. path_target_forms value = normalized_path_target value # others"
  by (simp add: path_target_forms_def Let_def)

section \<open>A chain is cut at its separators\<close>

definition plain_byte :: "char \<Rightarrow> bool" where
  "plain_byte c \<longleftrightarrow>
     c \<notin> {single_quote, double_quote, backslash, backtick, CHR ''$''} \<and> \<not> is_separator c"

definition operator_text :: "string \<Rightarrow> bool" where
  "operator_text op \<longleftrightarrow>
     op \<noteq> [] \<and> is_separator (hd op) \<and> list_all (\<lambda>c. c = CHR ''|'' \<or> c = CHR ''&'') (tl op)"

fun chain :: "(string \<times> string) list \<Rightarrow> string \<Rightarrow> string" where
  "chain [] final = final"
| "chain ((segment, op) # rest) final = segment @ op @ chain rest final"

definition plain_chain :: "(string \<times> string) list \<Rightarrow> string \<Rightarrow> bool" where
  "plain_chain ps final \<longleftrightarrow>
     list_all (\<lambda>(segment, op). segment \<noteq> [] \<and> list_all plain_byte segment \<and> operator_text op) ps \<and> list_all plain_byte final"

definition outside :: "scanner \<Rightarrow> bool" where
  "outside s \<longleftrightarrow> sc_substitution_depth s = 0 \<and> \<not> sc_inside_backtick s \<and> sc_quote s = None"

lemma scan_plain_step:
  assumes "outside s" "drop (sc_index s) command = c # rest" "plain_byte c"
  shows "scan_loop command s = scan_loop command (s\<lparr>sc_index := sc_index s + 1\<rparr>)"
proof -
  have "sc_index s < length command" using assms(2) by (metis drop_eq_Nil leI list.distinct(1))
  moreover have "command ! sc_index s = c" using assms(2) calculation by (simp add: Cons_nth_drop_Suc [symmetric])
  ultimately show ?thesis using assms(1,3)
    by (subst scan_loop.simps)
      (auto simp: scan_step_def step_plain_def outside_def plain_byte_def opens_substitution_def)
qed

lemma scan_plain_run:
  assumes "outside s" "drop (sc_index s) command = p @ rest" "list_all plain_byte p"
  shows "scan_loop command s = scan_loop command (s\<lparr>sc_index := sc_index s + length p\<rparr>)"
  using assms
proof (induction p arbitrary: s)
  case (Cons c p)
  let ?t = "s\<lparr>sc_index := sc_index s + 1\<rparr>"
  have "scan_loop command s = scan_loop command ?t"
    by (rule scan_plain_step) (use Cons.prems in auto)
  moreover have "drop (sc_index ?t) command = p @ rest"
    using Cons.prems(2) by (metis (no_types, lifting) append_Cons drop_Suc list.sel(3) scanner.select_convs(8)
        scanner.surjective scanner.update_convs(8) Suc_eq_plus1 tl_drop)
  then have "scan_loop command ?t = scan_loop command (?t\<lparr>sc_index := sc_index ?t + length p\<rparr>)"
    using Cons.prems by (intro Cons.IH) (auto simp: outside_def)
  ultimately show ?case by simp
qed simp

lemma operator_skipped:
  assumes "drop i command = op @ rest" "operator_text op" "rest = [] \<or> hd rest \<notin> {CHR ''|'', CHR ''&''}"
  shows "operator_end command i = i + length op"
proof -
  obtain c op' where op: "op = c # op'" using assms(2) by (cases op) (auto simp: operator_text_def)
  have "drop (i + 1) command = op' @ rest" using assms(1) op by (metis Suc_eq_plus1 append_Cons drop_Suc list.sel(3) tl_drop)
  moreover have "takeWhile (\<lambda>c. c = CHR ''|'' \<or> c = CHR ''&'') (op' @ rest) = op'"
    using assms(2,3) op by (cases rest) (auto simp: operator_text_def takeWhile_append list_all_iff)
  ultimately show ?thesis by (simp add: operator_end_def op)
qed

lemma scan_operator_step:
  assumes "outside s" "drop (sc_index s) command = op @ rest" "operator_text op"
    "rest = [] \<or> hd rest \<notin> {CHR ''|'', CHR ''&''}"
  shows "scan_loop command s = scan_loop command
           (s\<lparr>sc_segments := sc_segments s @ [slice command (sc_segment_start s) (sc_index s)],
              sc_segment_start := sc_index s + length op, sc_index := sc_index s + length op\<rparr>)"
proof -
  have op: "op \<noteq> []" "is_separator (hd op)" using assms(3) by (auto simp: operator_text_def)
  then have "sc_index s < length command" using assms(2) by (metis append_is_Nil_conv drop_eq_Nil leI)
  moreover have "command ! sc_index s = hd op" using assms(2) op(1) calculation
    by (metis hd_append hd_drop_conv_nth)
  moreover have "hd op \<notin> {single_quote, double_quote, backslash, backtick, CHR ''$''}"
    using op(2) by (auto simp: is_separator_def single_quote_def double_quote_def backslash_def backtick_def newline_def)
  ultimately show ?thesis
    using assms(1) op(2) operator_skipped [OF assms(2,3,4)]
    by (subst scan_loop.simps)
      (auto simp: scan_step_def step_plain_def outside_def opens_substitution_def Let_def)
qed

lemma chain_starts_plain:
  "plain_chain ps final \<Longrightarrow> chain ps final = [] \<or> hd (chain ps final) \<notin> {CHR ''|'', CHR ''&''}"
  by (cases "(ps, final)" rule: chain.cases; cases final)
    (auto simp: plain_chain_def plain_byte_def is_separator_def neq_Nil_conv)

lemma slice_prefix: "drop a s = p @ rest \<Longrightarrow> slice s a (a + length p) = p"
  by (simp add: slice_def)

lemma drop_further: "drop a s = p @ rest \<Longrightarrow> drop (a + length p) s = rest"
  by (metis add.commute append_eq_conv_conj drop_drop)

lemma scan_chain:
  assumes "plain_chain ps final" "outside s" "drop (sc_index s) command = chain ps final"
    "sc_segment_start s = sc_index s"
  shows "sc_segments (scan_loop command s) = sc_segments s @ map fst ps \<and>
         drop (sc_segment_start (scan_loop command s)) command = final \<and>
         sc_substitutions (scan_loop command s) = sc_substitutions s"
  using assms
proof (induction ps arbitrary: s)
  case Nil
  have run: "scan_loop command s = scan_loop command (s\<lparr>sc_index := sc_index s + length final\<rparr>)"
    by (rule scan_plain_run [of s command final "[]"]) (use Nil.prems in \<open>auto simp: plain_chain_def\<close>)
  have "length command \<le> sc_index s + length final" using arg_cong [OF Nil.prems(3), of length] by simp
  then have "scan_loop command s = s\<lparr>sc_index := sc_index s + length final\<rparr>"
    unfolding run by (subst scan_loop.simps) simp
  then show ?case using Nil.prems by simp
next
  case (Cons p ps)
  obtain segment op where p: "p = (segment, op)" by (cases p)
  have rest: "plain_chain ps final" and seg: "list_all plain_byte segment" and op: "operator_text op"
    using Cons.prems(1) by (auto simp: plain_chain_def p)
  let ?i = "sc_index s" and ?j = "sc_index s + length segment"
  let ?t = "s\<lparr>sc_index := ?j\<rparr>"
  let ?u = "?t\<lparr>sc_segments := sc_segments s @ [slice command (sc_segment_start s) ?j],
               sc_segment_start := ?j + length op, sc_index := ?j + length op\<rparr>"
  have whole: "drop ?i command = segment @ op @ chain ps final" using Cons.prems(3) by (simp add: p)
  have later: "drop ?j command = op @ chain ps final" using drop_further [OF whole] .
  have "scan_loop command s = scan_loop command ?t"
    by (rule scan_plain_run [OF Cons.prems(2) whole seg])
  also have "\<dots> = scan_loop command ?u"
    using scan_operator_step [of ?t command op "chain ps final"] Cons.prems(2) later op chain_starts_plain [OF rest]
    by (simp add: outside_def)
  finally have eq: "scan_loop command s = scan_loop command ?u" .
  have "slice command (sc_segment_start s) ?j = segment"
    using slice_prefix [OF whole] Cons.prems(4) by simp
  moreover have "drop (sc_index ?u) command = chain ps final" using drop_further [OF later] by simp
  then have "sc_segments (scan_loop command ?u) = sc_segments ?u @ map fst ps \<and>
         drop (sc_segment_start (scan_loop command ?u)) command = final \<and>
         sc_substitutions (scan_loop command ?u) = sc_substitutions ?u"
    using Cons.prems(2) by (intro Cons.IH [OF rest]) (auto simp: outside_def)
  ultimately show ?case unfolding eq by (simp add: p)
qed

lemma scan_of_chain: "plain_chain ps final \<Longrightarrow> scan (chain ps final) = (map fst ps @ [final], [])"
  using scan_chain [of ps final scan_start "chain ps final"] by (simp add: scan_def scan_start_def outside_def Let_def)

section \<open>Words come back out of the text they were joined into\<close>

definition plain_word :: "string \<Rightarrow> bool" where
  "plain_word w \<longleftrightarrow> w \<noteq> [] \<and> ascii w \<and>
     list_all (\<lambda>c. \<not> is_whitespace [c] \<and> c \<notin> {single_quote, double_quote, backslash}) w"

lemma read_plain:
  assumes "list_all (\<lambda>c. \<not> is_whitespace [c] \<and> c \<notin> {single_quote, double_quote, backslash}) w" "w \<noteq> []"
    "\<not> rd_escaped r" "rd_quote r = None"
  shows "foldl read_char r (map (\<lambda>c. [c]) w) = r\<lparr>rd_current := rd_current r @ w, rd_started := True\<rparr>"
  using assms
proof (induction w arbitrary: r)
  case (Cons c w)
  have step: "read_char r [c] = r\<lparr>rd_current := rd_current r @ [c], rd_started := True\<rparr>"
    using Cons.prems by (simp add: read_char_def)
  show ?case
  proof (cases "w = []")
    case False
    then show ?thesis using Cons.prems Cons.IH [of "read_char r [c]"] by (simp add: step)
  qed (simp add: step)
qed simp

lemma space_is_whitespace: "is_whitespace '' ''"
  by (simp add: is_whitespace_def)

lemma words_ascii: "\<forall>w \<in> set ws. ascii w \<Longrightarrow> ascii (words ws)"
  unfolding words_def by (induction "CHR '' ''" ws rule: join_with.induct) (auto simp: ascii_def)

lemma read_words:
  assumes "\<forall>w \<in> set ws. plain_word w" "ws \<noteq> []" "\<not> rd_escaped r" "rd_quote r = None" "\<not> rd_started r"
    "rd_current r = []"
  shows "foldl read_char r (map (\<lambda>c. [c]) (words ws)) =
           r\<lparr>rd_tokens := rd_tokens r @ butlast ws, rd_current := last ws, rd_started := True\<rparr>"
  using assms
proof (induction ws arbitrary: r)
  case (Cons w ws)
  have w: "w \<noteq> []" "list_all (\<lambda>c. \<not> is_whitespace [c] \<and> c \<notin> {single_quote, double_quote, backslash}) w"
    using Cons.prems(1) by (auto simp: plain_word_def)
  have first: "foldl read_char r (map (\<lambda>c. [c]) w) = r\<lparr>rd_current := w, rd_started := True\<rparr>"
    using read_plain [OF w(2,1)] Cons.prems by simp
  show ?case
  proof (cases "ws = []")
    case True
    then show ?thesis using first by (simp add: words_def)
  next
    case False
    then have "words (w # ws) = w @ CHR '' '' # words ws" by (cases ws) (simp_all add: words_def)
    moreover have "read_char (r\<lparr>rd_current := w, rd_started := True\<rparr>) '' '' =
        r\<lparr>rd_tokens := rd_tokens r @ [w], rd_current := [], rd_started := False\<rparr>"
      using Cons.prems by (simp add: read_char_def space_is_whitespace backslash_def single_quote_def double_quote_def)
    ultimately show ?thesis
      using Cons.IH [of "r\<lparr>rd_tokens := rd_tokens r @ [w], rd_current := [], rd_started := False\<rparr>"]
        Cons.prems False by (simp add: first)
  qed
qed simp

lemma tokenize_words: "\<forall>w \<in> set ws. plain_word w \<Longrightarrow> tokenize (words ws) = ws"
proof -
  assume ok: "\<forall>w \<in> set ws. plain_word w"
  show "tokenize (words ws) = ws"
  proof (cases "ws = []")
    case True
    then show ?thesis by (simp add: tokenize_def words_def read_start_def)
  next
    case False
    have "ascii (words ws)" using ok by (intro words_ascii) (auto simp: plain_word_def)
    then show ?thesis
      using read_words [OF ok False, of read_start] False
      by (simp add: tokenize_def chars_ascii read_start_def)
  qed
qed

section \<open>The number of invocations\<close>

text \<open>
  The bound is tested before an invocation is read, and a script it turns out to run is read
  before it is counted: one invocation more for each level of scripts.
\<close>

abbreviation invocation_bound :: "nat \<Rightarrow> nat" where
  "invocation_bound depth \<equiv> max_invocations + (max_shell_depth - depth)"

lemma nested_bounded:
  assumes "length invs < max_invocations"
    "depth < max_shell_depth \<Longrightarrow> length nested \<le> max (length invs) (invocation_bound (depth + 1))"
    "max_shell_depth \<le> depth \<Longrightarrow> nested = invs"
  shows "length nested < invocation_bound depth"
  using assms by (cases "depth < max_shell_depth") auto

lemma invocations_bounded:
  "length (collect_invocations command depth invs) \<le> max (length invs) (invocation_bound depth)"
  "length (collect_segments segments depth invs) \<le> max (length invs) (invocation_bound depth)"
proof (induction command depth invs and segments depth invs rule: collect_invocations_collect_segments.induct)
  case (1 command depth invs)
  then show ?case
    by (subst collect_invocations.simps) (auto split: prod.split)
next
  case (3 segment rest depth invs)
  let ?written = "trim segment" let ?stripped = "strip_prefixes (tokenize ?written)"
  let ?nested = "case shell_script ?stripped of
      Some script \<Rightarrow> collect_invocations script (depth + 1) invs | None \<Rightarrow> invs"
  let ?normalized = "normalized_form ?stripped"
  show ?case
  proof (cases "max_invocations \<le> length invs")
    case True
    then show ?thesis by (simp add: collect_segments.simps)
  next
    case room: False
    show ?thesis
    proof (cases "?written = []")
      case True
      then show ?thesis using 3(1) [OF room refl True] room by (simp add: collect_segments.simps)
    next
      case False
      have nested: "length ?nested < invocation_bound depth"
      proof (rule nested_bounded [of invs])
        show "length invs < max_invocations" using room by simp
        show "length ?nested \<le> max (length invs) (invocation_bound (depth + 1))"
          using 3(2) [OF room refl False refl] by (auto split: option.split)
        show "max_shell_depth \<le> depth \<Longrightarrow> ?nested = invs"
          by (auto simp: collect_invocations.simps split: option.split)
      qed
      show ?thesis
      proof (cases "?normalized = []")
        case True
        then show ?thesis using 3(3) [OF room refl False refl refl refl True] nested room False
          by (simp add: collect_segments.simps Let_def)
      next
        case unempty: False
        then show ?thesis using 3(4) [OF room refl False refl refl refl unempty] nested room False
          by (simp add: collect_segments.simps Let_def)
      qed
    qed
  qed
qed simp

lemma command_invocations_bounded:
  "length (command_invocations command) \<le> max_invocations + max_shell_depth"
  using invocations_bounded(1) [of command 0 "[]"] by (simp add: command_invocations_def)

section \<open>No segment is lost while the bound is not reached\<close>

lemma collected_before:
  "\<exists>found. collect_invocations command depth invs = invs @ found"
  "\<exists>found. collect_segments segments depth invs = invs @ found"
proof (induction command depth invs and segments depth invs rule: collect_invocations_collect_segments.induct)
  case (1 command depth invs)
  then show ?case by (subst collect_invocations.simps) (auto split: prod.split)
next
  case (3 segment rest depth invs)
  let ?written = "trim segment" let ?stripped = "strip_prefixes (tokenize ?written)"
  let ?nested = "case shell_script ?stripped of
      Some script \<Rightarrow> collect_invocations script (depth + 1) invs | None \<Rightarrow> invs"
  show ?case
  proof (cases "max_invocations \<le> length invs \<or> ?written = []")
    case True
    then show ?thesis using 3(1) by (auto simp: collect_segments.simps)
  next
    case False
    then have room: "\<not> max_invocations \<le> length invs" and written: "?written \<noteq> []" by auto
    obtain found where nested: "?nested = invs @ found"
      using 3(2) [OF room refl written refl] by (cases "shell_script ?stripped") auto
    show ?thesis
    proof (cases "normalized_form ?stripped = []")
      case True
      then show ?thesis using 3(3) [OF room refl written refl refl refl True] room written nested
        by (auto simp: collect_segments.simps Let_def)
    next
      case unempty: False
      then show ?thesis using 3(4) [OF room refl written refl refl refl unempty] room written nested
        by (auto simp: collect_segments.simps Let_def)
    qed
  qed
qed simp

lemma collected_kept: "set invs \<subseteq> set (collect_segments segments depth invs)"
  using collected_before(2) [of segments depth invs] by auto

lemma collected_grows: "length invs \<le> length (collect_segments segments depth invs)"
  using collected_before(2) [of segments depth invs] by auto

definition segment_forms :: "string \<Rightarrow> string list option" where
  "segment_forms segment =
     (let written = trim segment; normalized = normalized_form (strip_prefixes (tokenize written))
      in if written = [] \<or> normalized = [] then None else Some (invocation_forms written normalized))"

lemma segment_collected:
  assumes "length (collect_segments segments depth invs) < max_invocations"
    "segment \<in> set segments" "segment_forms segment = Some forms"
  shows "forms \<in> set (collect_segments segments depth invs)"
  using assms(1,2)
proof (induction segments arbitrary: invs)
  case (Cons s rest)
  let ?stripped = "strip_prefixes (tokenize (trim s))"
  let ?nested = "case shell_script ?stripped of
      Some script \<Rightarrow> collect_invocations script (depth + 1) invs | None \<Rightarrow> invs"
  let ?next = "if trim s = [] then invs else
      if normalized_form ?stripped = [] then ?nested
      else ?nested @ [invocation_forms (trim s) (normalized_form ?stripped)]"
  have "\<not> max_invocations \<le> length invs"
    using Cons.prems(1) collected_grows [of invs "s # rest" depth] by simp
  then have eq: "collect_segments (s # rest) depth invs = collect_segments rest depth ?next"
    by (simp add: collect_segments.simps Let_def)
  show ?case
  proof (cases "segment = s")
    case True
    then have "forms \<in> set ?next" using assms(3) by (auto simp: segment_forms_def Let_def split: if_splits)
    then show ?thesis unfolding eq using collected_kept by blast
  next
    case False
    then show ?thesis unfolding eq using Cons.prems unfolding eq by (intro Cons.IH) auto
  qed
qed simp

lemma command_segment_found:
  assumes "length (command_invocations command) < max_invocations"
    "segment \<in> set (fst (scan command)) \<union> set (snd (scan command))" "segment_forms segment = Some forms"
  shows "forms \<in> set (command_invocations command)"
proof -
  have "command_invocations command = collect_segments (fst (scan command) @ snd (scan command)) 0 []"
    by (simp add: command_invocations_def collect_invocations.simps split: prod.split)
  then show ?thesis
    using segment_collected [of "fst (scan command) @ snd (scan command)" 0 "[]" segment forms] assms by simp
qed

end
