(* ===== verification/Permission_Rules.thy ===== *)
theory Permission_Rules
  imports Shell_Facts Json_Text
begin

text \<open>
  Permission rules and the requests they select (crates/agens-core/src/lib.rs): patterns,
  the containment \<open>covers\<close> reads off two patterns, tool names, and a request as the values a
  rule could be written against. The glob matcher is the crate globset, which is not part
  of this repository: it is the argument \<open>m\<close> (whether the separator is literal, the
  pattern, the value), and whether it accepts a pattern is the argument \<open>compiles\<close>.
\<close>

section \<open>Decisions and patterns\<close>

datatype permission_decision = Allow | Ask | Deny

datatype permission_authority = Decided | DangerousFallback

datatype permission_scope = Global | Project

datatype permission_mode = Edit | Chat

datatype tool_access = ReadOnly | Write

datatype permission_target_kind = PathKind | FreeFormText

record permission_glob =
  pg_pattern :: string
  pg_literal_separator :: bool

datatype permission_pattern = Any | Exact string | Glob permission_glob

datatype pattern_error = InvalidGlob string | GlobTooLarge nat nat

type_synonym globset = "bool \<Rightarrow> string \<Rightarrow> string \<Rightarrow> bool"

definition max_glob_pattern_bytes :: nat where "max_glob_pattern_bytes = 16 * 1024"
definition max_glob_segments :: nat where "max_glob_segments = 256"
definition max_target_bytes :: nat where "max_target_bytes = 16 * 1024"

definition new_glob :: "(bool \<Rightarrow> string \<Rightarrow> bool) \<Rightarrow> string \<Rightarrow> bool \<Rightarrow> pattern_error + permission_glob" where
  "new_glob compiles pattern literal_separator =
     (if trim pattern = [] then Inl (InvalidGlob pattern)
      else if max_glob_pattern_bytes < length pattern
      then Inl (GlobTooLarge (length pattern) max_glob_pattern_bytes)
      else let segments = length (split_on separator pattern)
           in if max_glob_segments < segments then Inl (GlobTooLarge segments max_glob_segments)
              else if \<not> compiles literal_separator pattern then Inl (InvalidGlob pattern)
              else Inr \<lparr>pg_pattern = pattern, pg_literal_separator = literal_separator\<rparr>)"

definition glob_for_target_kind ::
  "(bool \<Rightarrow> string \<Rightarrow> bool) \<Rightarrow> string \<Rightarrow> permission_target_kind \<Rightarrow> pattern_error + permission_pattern" where
  "glob_for_target_kind compiles pattern kind =
     (let literal_separator = (kind = PathKind);
          pattern = (if literal_separator then normalized_path_target pattern else pattern)
      in map_sum id Glob (new_glob compiles pattern literal_separator))"

definition glob_matches :: "globset \<Rightarrow> permission_glob \<Rightarrow> string \<Rightarrow> bool" where
  "glob_matches m g v \<longleftrightarrow>
     length v \<le> max_target_bytes \<and> m (pg_literal_separator g) (pg_pattern g) v"

definition glob_denotes_everything :: "permission_glob \<Rightarrow> bool" where
  "glob_denotes_everything g \<longleftrightarrow>
     pg_pattern g = ''**'' \<or> (pg_pattern g = ''*'' \<and> \<not> pg_literal_separator g)"

definition has_glob_wildcard :: "string \<Rightarrow> bool" where
  "has_glob_wildcard pattern \<longleftrightarrow> list_ex (\<lambda>c. c \<in> set ''*?[]{}'' \<or> c = backslash) pattern"

definition trailing_wildcard_prefix :: "permission_glob \<Rightarrow> (string \<times> bool) option" where
  "trailing_wildcard_prefix g =
     (case (case strip_suffix ''**'' (pg_pattern g) of
              Some prefix \<Rightarrow> Some (prefix, True)
            | None \<Rightarrow> map_option (\<lambda>prefix. (prefix, \<not> pg_literal_separator g)) (strip_suffix ''*'' (pg_pattern g))) of
        Some (prefix, crosses_separator) \<Rightarrow>
          if has_glob_wildcard prefix then None else Some (prefix, crosses_separator)
      | None \<Rightarrow> None)"

definition glob_covers :: "globset \<Rightarrow> permission_glob \<Rightarrow> permission_glob \<Rightarrow> bool" where
  "glob_covers m broader narrower \<longleftrightarrow>
     (if pg_pattern broader = pg_pattern narrower \<and>
         pg_literal_separator broader = pg_literal_separator narrower then True
      else if \<not> has_glob_wildcard (pg_pattern narrower) then glob_matches m broader (pg_pattern narrower)
      else case (trailing_wildcard_prefix broader, trailing_wildcard_prefix narrower) of
        (Some (prefix, crosses), Some (other_prefix, other_crosses)) \<Rightarrow>
          (case strip_prefix prefix other_prefix of
             Some remainder \<Rightarrow> crosses \<or> (\<not> other_crosses \<and> separator \<notin> set remainder)
           | None \<Rightarrow> False)
      | _ \<Rightarrow> False)"

fun pattern_matches :: "globset \<Rightarrow> permission_pattern \<Rightarrow> string \<Rightarrow> bool" where
  "pattern_matches m Any v = True"
| "pattern_matches m (Exact expected) v = (expected = v)"
| "pattern_matches m (Glob g) v = glob_matches m g v"

fun denotes_everything :: "permission_pattern \<Rightarrow> bool" where
  "denotes_everything Any = True"
| "denotes_everything (Exact v) = False"
| "denotes_everything (Glob g) = glob_denotes_everything g"

definition pattern_covers :: "globset \<Rightarrow> permission_pattern \<Rightarrow> permission_pattern \<Rightarrow> bool" where
  "pattern_covers m self other \<longleftrightarrow>
     (if denotes_everything self then True
      else if denotes_everything other then False
      else case (self, other) of
             (Exact broader, Exact narrower) \<Rightarrow> broader = narrower
           | (Exact _, _) \<Rightarrow> False
           | (_, Exact v) \<Rightarrow> pattern_matches m self v
           | (Glob broader, Glob narrower) \<Rightarrow> glob_covers m broader narrower
           | _ \<Rightarrow> False)"

section \<open>Tool names\<close>

definition usize_limit :: nat where "usize_limit = 2 ^ 64"

definition parse_usize :: "string \<Rightarrow> nat option" where
  "parse_usize digits =
     (let n = foldl (\<lambda>acc c. acc * 10 + (of_char c - 48)) 0 digits
      in if digits \<noteq> [] \<and> n < usize_limit then Some n else None)"

definition length_headed_field :: "string \<Rightarrow> (string \<times> string) option" where
  "length_headed_field value =
     (case split_once (CHR '':'') value of
        None \<Rightarrow> None
      | Some (len, rest) \<Rightarrow>
          if \<not> list_all is_ascii_digit len then None
          else case parse_usize len of
                 None \<Rightarrow> None
               | Some n \<Rightarrow>
                   if n \<le> length rest \<and> is_char_boundary rest n
                   then Some (take n rest,
                              (case strip_prefix '':'' (drop n rest) of Some r \<Rightarrow> r | None \<Rightarrow> drop n rest))
                   else None)"

definition mcp_identity_parts :: "string \<Rightarrow> (string \<times> string) option" where
  "mcp_identity_parts tool =
     (case strip_prefix ''mcp:'' tool of
        None \<Rightarrow> None
      | Some body \<Rightarrow>
          case length_headed_field body of
            None \<Rightarrow> None
          | Some (server, rest) \<Rightarrow>
              case length_headed_field rest of
                None \<Rightarrow> None
              | Some (name, rest) \<Rightarrow> if rest = [] then Some (server, name) else None)"

definition native_qualified :: "string \<Rightarrow> string" where
  "native_qualified tool =
     (case strip_prefix ''native:'' tool of
        None \<Rightarrow> tool
      | Some rest \<Rightarrow>
          case split_once (CHR '':'') rest of
            Some (len, name) \<Rightarrow> if len \<noteq> [] \<and> list_all is_ascii_digit len then name else tool
          | None \<Rightarrow> tool)"

definition bare_tool_name :: "string \<Rightarrow> string" where
  "bare_tool_name tool =
     (case mcp_identity_parts tool of
        Some (server, name) \<Rightarrow> server @ ''::'' @ name
      | None \<Rightarrow>
          let qualified = native_qualified tool
          in case strip_prefix ''native::'' qualified of Some name \<Rightarrow> name | None \<Rightarrow> qualified)"

definition permission_target_kind_for_tool :: "string \<Rightarrow> permission_target_kind" where
  "permission_target_kind_for_tool tool =
     (if bare_tool_name tool = ''bash'' then FreeFormText else PathKind)"

text \<open>The identities the tool registry builds (crates/agens-tools/src/lib.rs).\<close>

definition native_identity :: "string \<Rightarrow> string" where
  "native_identity name = ''native:'' @ show_nat (length name) @ '':'' @ name"

definition mcp_identity :: "string \<Rightarrow> string \<Rightarrow> string" where
  "mcp_identity server tool =
     ''mcp:'' @ show_nat (length server) @ '':'' @ server @ '':'' @ show_nat (length tool) @ '':'' @ tool"

section \<open>Requests\<close>

datatype permission_target =
  Path string | Command string | Url string | Native string | Mcp string

fun target_value :: "permission_target \<Rightarrow> string" where
  "target_value (Path v) = v"
| "target_value (Command v) = v"
| "target_value (Url v) = v"
| "target_value (Native v) = v"
| "target_value (Mcp v) = v"

definition project_target :: "permission_target \<Rightarrow> string" where
  "project_target target =
     (let v = target_value target in take (cut_point v (min (length v) max_target_bytes)) v)"

datatype permission_reach = ReachPath string

type_synonym subject = "string list"

fun reach_spellings :: "permission_reach \<Rightarrow> string list" where
  "reach_spellings (ReachPath path) =
     (let spellings = path_target_forms path
      in if spellings \<noteq> [] \<and> hd spellings = ''.'' then [] else spellings)"

definition subject_reaching :: "string list \<Rightarrow> permission_reach list \<Rightarrow> subject" where
  "subject_reaching forms reach = forms @ concat (map reach_spellings reach)"

definition subject_selected_by :: "globset \<Rightarrow> permission_pattern \<Rightarrow> subject \<Rightarrow> bool" where
  "subject_selected_by m pattern subject \<longleftrightarrow> list_ex (pattern_matches m pattern) subject"

record permission_request =
  rq_project :: string
  rq_tool :: string
  rq_target :: string
  rq_access :: tool_access
  rq_outside_worktree :: bool
  rq_subjects :: "subject list"

definition build_request ::
  "string \<Rightarrow> string \<Rightarrow> string \<Rightarrow> tool_access \<Rightarrow> permission_reach list \<Rightarrow> permission_request" where
  "build_request project tool target access reach =
     (let (target, subjects) =
        (case permission_target_kind_for_tool tool of
           PathKind \<Rightarrow>
             let spellings = path_target_forms target;
                 normalized = (case spellings of [] \<Rightarrow> target | form # others \<Rightarrow> form)
             in (normalized,
                 if reach \<noteq> [] then [subject_reaching spellings reach]
                 else if 1 < length spellings then [spellings]
                 else [])
         | FreeFormText \<Rightarrow>
             if bare_tool_name tool = ''bash'' then (target, command_invocations target) else (target, []))
      in \<lparr>rq_project = project, rq_tool = tool, rq_target = target, rq_access = access,
          rq_outside_worktree = False, rq_subjects = subjects\<rparr>)"

definition new_request :: "string \<Rightarrow> string \<Rightarrow> string \<Rightarrow> tool_access \<Rightarrow> permission_request" where
  "new_request project tool target access =
     build_request project tool (project_target (Native target)) access []"

definition request_with_target ::
  "string \<Rightarrow> string \<Rightarrow> permission_target \<Rightarrow> tool_access \<Rightarrow> permission_request" where
  "request_with_target project tool target access =
     build_request project tool (project_target target) access []"

definition reaching_request ::
  "string \<Rightarrow> string \<Rightarrow> string \<Rightarrow> tool_access \<Rightarrow> permission_reach list \<Rightarrow> permission_request" where
  "reaching_request project tool target access reach =
     build_request project tool (project_target (Native target)) access reach"

definition outside_worktree :: "permission_request \<Rightarrow> permission_request" where
  "outside_worktree request = request\<lparr>rq_outside_worktree := True\<rparr>"

fun is_exact :: "permission_pattern \<Rightarrow> bool" where
  "is_exact (Exact expected) = True"
| "is_exact pattern = False"

definition target_selected_by ::
  "globset \<Rightarrow> permission_request \<Rightarrow> permission_pattern \<Rightarrow> permission_decision \<Rightarrow> bool" where
  "target_selected_by m request pattern decision \<longleftrightarrow>
     (if rq_subjects request = [] then pattern_matches m pattern (rq_target request)
      else case decision of
        Allow \<Rightarrow>
          is_exact pattern \<and> pattern_matches m pattern (rq_target request) \<or>
          list_all (subject_selected_by m pattern) (rq_subjects request)
      | _ \<Rightarrow>
          pattern_matches m pattern (rq_target request) \<or>
          list_ex (subject_selected_by m pattern) (rq_subjects request))"

record permission_rule =
  rule_scope :: permission_scope
  rule_project :: "string option"
  rule_decision :: permission_decision
  rule_tool :: permission_pattern
  rule_target :: permission_pattern

definition global_rule :: "permission_decision \<Rightarrow> permission_pattern \<Rightarrow> permission_pattern \<Rightarrow> permission_rule" where
  "global_rule decision tool target =
     \<lparr>rule_scope = Global, rule_project = None, rule_decision = decision, rule_tool = tool, rule_target = target\<rparr>"

definition project_rule ::
  "string \<Rightarrow> permission_decision \<Rightarrow> permission_pattern \<Rightarrow> permission_pattern \<Rightarrow> permission_rule" where
  "project_rule project decision tool target =
     \<lparr>rule_scope = Project, rule_project = Some project, rule_decision = decision,
      rule_tool = tool, rule_target = target\<rparr>"

definition rule_matches :: "globset \<Rightarrow> permission_request \<Rightarrow> permission_rule \<Rightarrow> bool" where
  "rule_matches m request r \<longleftrightarrow>
     (case rule_scope r of Global \<Rightarrow> True | Project \<Rightarrow> rule_project r = Some (rq_project request)) \<and>
     pattern_matches m (rule_tool r) (rq_tool request) \<and>
     target_selected_by m request (rule_target r) (rule_decision r)"

record project_grant =
  grant_project :: string
  grant_decision :: permission_decision
  grant_tool :: permission_pattern
  grant_target :: permission_pattern

definition grant_matches :: "globset \<Rightarrow> permission_request \<Rightarrow> project_grant \<Rightarrow> bool" where
  "grant_matches m request g \<longleftrightarrow>
     grant_project g = rq_project request \<and> pattern_matches m (grant_tool g) (rq_tool request) \<and>
     target_selected_by m request (grant_target g) (grant_decision g)"

end
