(* ===== verification/Permission_Policy.thy ===== *)
theory Permission_Policy
  imports Permission_Rules
begin

text \<open>
  Which rule prevails (crates/agens-core/src/permission_precedence.rs), and the decision a
  policy gives a call (\<open>PermissionPolicy\<close>, \<open>ConfiguredFloor\<close>, \<open>PermissionReadFilter\<close> of
  crates/agens-core/src/lib.rs): hard safety first, then the declared rules and the
  grants, held under the operator's configured rules, then the fallback.
\<close>

section \<open>Precedence\<close>

fun restrictiveness :: "permission_decision \<Rightarrow> nat" where
  "restrictiveness Allow = 0"
| "restrictiveness Ask = 1"
| "restrictiveness Deny = 2"

definition prevailing_decision :: "permission_decision \<Rightarrow> permission_decision \<Rightarrow> permission_decision" where
  "prevailing_decision first second =
     (if restrictiveness first \<le> restrictiveness second then second else first)"

definition scope_covers :: "permission_rule \<Rightarrow> permission_rule \<Rightarrow> bool" where
  "scope_covers broader narrower \<longleftrightarrow>
     (case (rule_scope broader, rule_scope narrower) of
        (Global, _) \<Rightarrow> True
      | (Project, Global) \<Rightarrow> False
      | (Project, Project) \<Rightarrow> rule_project broader = rule_project narrower)"

definition rule_covers :: "globset \<Rightarrow> permission_rule \<Rightarrow> permission_rule \<Rightarrow> bool" where
  "rule_covers m broader narrower \<longleftrightarrow>
     scope_covers broader narrower \<and> pattern_covers m (rule_tool broader) (rule_tool narrower) \<and>
     pattern_covers m (rule_target broader) (rule_target narrower)"

fun reduce :: "('a \<Rightarrow> 'a \<Rightarrow> 'a) \<Rightarrow> 'a list \<Rightarrow> 'a option" where
  "reduce f [] = None"
| "reduce f (x # xs) = Some (foldl f x xs)"

definition narrowest_rules :: "globset \<Rightarrow> permission_rule list \<Rightarrow> permission_rule list" where
  "narrowest_rules m matching =
     filter (\<lambda>r. \<not> list_ex (\<lambda>other. rule_covers m r other \<and> \<not> rule_covers m other r) matching) matching"

definition narrowest_decision :: "globset \<Rightarrow> permission_rule list \<Rightarrow> permission_decision option" where
  "narrowest_decision m matching = reduce prevailing_decision (map rule_decision (narrowest_rules m matching))"

definition prevailing_rule_decision ::
  "globset \<Rightarrow> permission_rule list \<Rightarrow> permission_request \<Rightarrow> permission_decision option" where
  "prevailing_rule_decision m rules request = narrowest_decision m (filter (rule_matches m request) rules)"

definition declarations_deny_every_target :: "globset \<Rightarrow> permission_rule list \<Rightarrow> string \<Rightarrow> bool" where
  "declarations_deny_every_target m rules tool \<longleftrightarrow>
     (let matching = filter (\<lambda>r. pattern_matches m (rule_tool r) tool) rules
      in list_ex (\<lambda>r. denotes_everything (rule_target r)) matching \<and>
         list_all (\<lambda>region.
           narrowest_decision m (filter (\<lambda>r. rule_covers m r region) matching) = Some Deny) matching)"

section \<open>Policies\<close>

datatype safety_predicate =
  WorktreeEscape | ChatWrite | GlobalDeny permission_pattern permission_pattern

datatype configured_role = Governing | Restricting

record configured_floor =
  floor_rules :: "permission_rule list"
  floor_role :: configured_role

definition floor_decision :: "globset \<Rightarrow> configured_floor \<Rightarrow> permission_request \<Rightarrow> permission_decision option" where
  "floor_decision m f request = prevailing_rule_decision m (floor_rules f) request"

definition floor_denies :: "globset \<Rightarrow> configured_floor \<Rightarrow> permission_request \<Rightarrow> bool" where
  "floor_denies m f request \<longleftrightarrow> floor_decision m f request = Some Deny"

definition floor_constraint :: "globset \<Rightarrow> configured_floor \<Rightarrow> permission_request \<Rightarrow> permission_decision option" where
  "floor_constraint m f request =
     (case floor_decision m f request of
        Some decision \<Rightarrow> if floor_role f = Governing \<or> decision \<noteq> Allow then Some decision else None
      | None \<Rightarrow> None)"

record permission_policy =
  pol_mode :: permission_mode
  pol_static_rules :: "permission_rule list"
  pol_safety_predicates :: "safety_predicate list"
  pol_configured_floor :: "configured_floor option"

definition new_policy :: "permission_mode \<Rightarrow> permission_rule list \<Rightarrow> permission_policy" where
  "new_policy mode static_rules =
     \<lparr>pol_mode = mode, pol_static_rules = static_rules,
      pol_safety_predicates = [WorktreeEscape, ChatWrite], pol_configured_floor = None\<rparr>"

definition with_configured_floor :: "permission_policy \<Rightarrow> configured_floor \<Rightarrow> permission_policy" where
  "with_configured_floor policy f = policy\<lparr>pol_configured_floor := Some f\<rparr>"

fun predicate_forbids :: "globset \<Rightarrow> permission_mode \<Rightarrow> permission_request \<Rightarrow> safety_predicate \<Rightarrow> bool" where
  "predicate_forbids m mode request WorktreeEscape \<longleftrightarrow> rq_outside_worktree request"
| "predicate_forbids m mode request ChatWrite \<longleftrightarrow> mode = Chat \<and> rq_access request = Write"
| "predicate_forbids m mode request (GlobalDeny tool target) \<longleftrightarrow>
     pattern_matches m tool (rq_tool request) \<and> pattern_matches m target (rq_target request)"

definition hard_safety_allows :: "globset \<Rightarrow> permission_policy \<Rightarrow> permission_request \<Rightarrow> bool" where
  "hard_safety_allows m policy request \<longleftrightarrow>
     \<not> (case pol_configured_floor policy of Some f \<Rightarrow> floor_denies m f request | None \<Rightarrow> False) \<and>
     \<not> list_ex (predicate_forbids m (pol_mode policy) request) (pol_safety_predicates policy)"

definition or_else :: "'a option \<Rightarrow> 'a option \<Rightarrow> 'a option" where
  "or_else x y = (case x of Some v \<Rightarrow> Some v | None \<Rightarrow> y)"

definition stated_decision ::
  "globset \<Rightarrow> permission_policy \<Rightarrow> permission_request \<Rightarrow> project_grant list \<Rightarrow> project_grant list \<Rightarrow>
   permission_decision option" where
  "stated_decision m policy request project_grants session_grants =
     (if \<not> hard_safety_allows m policy request then Some Deny
      else
        let static_decision = prevailing_rule_decision m (pol_static_rules policy) request;
            matching = filter (grant_matches m request) project_grants @ filter (grant_matches m request) session_grants;
            grant_decision = last_opt (map grant_decision matching);
            matched = (if static_decision = Some Deny then static_decision
                       else or_else grant_decision static_decision);
            configured = (case pol_configured_floor policy of
                            Some f \<Rightarrow> floor_constraint m f request | None \<Rightarrow> None)
        in case (matched, configured) of
             (Some decision, Some constraint) \<Rightarrow> Some (prevailing_decision decision constraint)
           | (Some decision, None) \<Rightarrow> Some decision
           | (None, Some constraint) \<Rightarrow> Some constraint
           | (None, None) \<Rightarrow> None)"

definition resolve_ask :: "permission_decision \<Rightarrow> bool \<Rightarrow> permission_decision" where
  "resolve_ask decision temporary_bypass = (if decision = Ask \<and> temporary_bypass then Allow else decision)"

definition evaluate_with_unmatched_authority ::
  "globset \<Rightarrow> permission_policy \<Rightarrow> permission_request \<Rightarrow> project_grant list \<Rightarrow> project_grant list \<Rightarrow>
   bool \<Rightarrow> bool \<Rightarrow> permission_decision \<times> permission_authority" where
  "evaluate_with_unmatched_authority m policy request project_grants session_grants temporary_bypass unmatched_allow =
     (case stated_decision m policy request project_grants session_grants of
        Some stated \<Rightarrow> (stated, Decided)
      | None \<Rightarrow>
          (resolve_ask (if unmatched_allow then Allow else Ask) temporary_bypass,
           if unmatched_allow \<and> \<not> temporary_bypass then DangerousFallback else Decided))"

definition evaluate_with_unmatched_override ::
  "globset \<Rightarrow> permission_policy \<Rightarrow> permission_request \<Rightarrow> project_grant list \<Rightarrow> project_grant list \<Rightarrow>
   bool \<Rightarrow> bool \<Rightarrow> permission_decision" where
  "evaluate_with_unmatched_override m policy request project_grants session_grants bypass unmatched_allow =
     fst (evaluate_with_unmatched_authority m policy request project_grants session_grants bypass unmatched_allow)"

definition evaluate_with_session_grants ::
  "globset \<Rightarrow> permission_policy \<Rightarrow> permission_request \<Rightarrow> project_grant list \<Rightarrow> project_grant list \<Rightarrow>
   bool \<Rightarrow> permission_decision" where
  "evaluate_with_session_grants m policy request project_grants session_grants bypass =
     evaluate_with_unmatched_override m policy request project_grants session_grants bypass False"

definition evaluate ::
  "globset \<Rightarrow> permission_policy \<Rightarrow> permission_request \<Rightarrow> project_grant list \<Rightarrow> bool \<Rightarrow> permission_decision" where
  "evaluate m policy request project_grants bypass =
     evaluate_with_session_grants m policy request project_grants [] bypass"

section \<open>Tool aliases\<close>

fun normalize_tool_pattern :: "(string \<Rightarrow> string option) \<Rightarrow> permission_pattern \<Rightarrow> permission_pattern" where
  "normalize_tool_pattern aliases (Exact v) = (case aliases v of Some canonical \<Rightarrow> Exact canonical | None \<Rightarrow> Exact v)"
| "normalize_tool_pattern aliases pattern = pattern"

definition normalize_rule :: "(string \<Rightarrow> string option) \<Rightarrow> permission_rule \<Rightarrow> permission_rule" where
  "normalize_rule aliases r = r\<lparr>rule_tool := normalize_tool_pattern aliases (rule_tool r)\<rparr>"

fun normalize_predicate :: "(string \<Rightarrow> string option) \<Rightarrow> safety_predicate \<Rightarrow> safety_predicate" where
  "normalize_predicate aliases (GlobalDeny tool target) = GlobalDeny (normalize_tool_pattern aliases tool) target"
| "normalize_predicate aliases p = p"

definition normalized_tool_aliases :: "(string \<Rightarrow> string option) \<Rightarrow> permission_policy \<Rightarrow> permission_policy" where
  "normalized_tool_aliases aliases policy = policy
     \<lparr>pol_static_rules := map (normalize_rule aliases) (pol_static_rules policy),
      pol_safety_predicates := map (normalize_predicate aliases) (pol_safety_predicates policy),
      pol_configured_floor := map_option (\<lambda>f. f\<lparr>floor_rules := map (normalize_rule aliases) (floor_rules f)\<rparr>)
                                (pol_configured_floor policy)\<rparr>"

definition normalize_project_grants :: "(string \<Rightarrow> string option) \<Rightarrow> project_grant list \<Rightarrow> project_grant list" where
  "normalize_project_grants aliases grants =
     map (\<lambda>g. g\<lparr>grant_tool := normalize_tool_pattern aliases (grant_tool g)\<rparr>) grants"

section \<open>What an authorized search may report\<close>

record read_filter =
  reader_policy :: permission_policy
  reader_grants :: "project_grant list"
  reader_project :: string
  reader_tool :: string
  reader_access :: tool_access

definition permits :: "globset \<Rightarrow> read_filter \<Rightarrow> string \<Rightarrow> bool" where
  "permits m reader path \<longleftrightarrow>
     stated_decision m (reader_policy reader)
       (new_request (reader_project reader) (reader_tool reader) path (reader_access reader)) (reader_grants reader) []
     \<notin> {Some Deny, Some Ask}"

end
