(* ===== verification/Permission_Order.thy ===== *)
theory Permission_Order
  imports Permission_Policy
begin

text \<open>
  The precedence of permission rules. The decision is the most restrictive one among the
  rules no other selecting rule strictly narrows; strict narrowing decreases a rank, so
  such a rule exists whenever any rule selects the call. \<open>documented_globset\<close> states what
  globset documents of the patterns the containment is read off: a pattern without
  wildcards matches itself, a trailing star matches what has its prefix and, when the
  separator is literal, no further separator, and a trailing double star crosses
  separators exactly when it is a whole segment.
\<close>

section \<open>The most restrictive decision\<close>

lemma restrictiveness_inj: "restrictiveness d = restrictiveness e \<longleftrightarrow> d = e"
  by (cases d; cases e) simp_all

lemma reduce_prevailing:
  "reduce prevailing_decision ds = Some d \<longleftrightarrow>
     d \<in> set ds \<and> (\<forall>e \<in> set ds. restrictiveness e \<le> restrictiveness d)"
proof -
  have fold: "foldl prevailing_decision x xs \<in> set (x # xs) \<and>
      (\<forall>e \<in> set (x # xs). restrictiveness e \<le> restrictiveness (foldl prevailing_decision x xs))" for x xs
  proof (induction xs arbitrary: x)
    case (Cons y ys)
    let ?p = "prevailing_decision x y"
    have "?p \<in> {x, y} \<and> restrictiveness x \<le> restrictiveness ?p \<and> restrictiveness y \<le> restrictiveness ?p"
      by (auto simp: prevailing_decision_def)
    then show ?case using Cons.IH [of ?p] by (auto intro: order_trans)
  qed simp
  show ?thesis
  proof (cases ds)
    case (Cons x xs)
    let ?w = "foldl prevailing_decision x xs"
    have w: "?w \<in> set ds" "\<forall>e \<in> set ds. restrictiveness e \<le> restrictiveness ?w"
      using fold [of x xs] Cons by auto
    have "d = ?w" if "d \<in> set ds" "\<forall>e \<in> set ds. restrictiveness e \<le> restrictiveness d"
      using that w restrictiveness_inj [of d ?w] by (simp add: order_antisym)
    then show ?thesis using w Cons by auto
  qed simp
qed

definition narrowest :: "globset \<Rightarrow> permission_rule set \<Rightarrow> permission_rule set" where
  "narrowest m rules = {r \<in> rules. \<not> (\<exists>other \<in> rules. rule_covers m r other \<and> \<not> rule_covers m other r)}"

definition prevails :: "globset \<Rightarrow> permission_rule set \<Rightarrow> permission_decision \<Rightarrow> bool" where
  "prevails m rules d \<longleftrightarrow>
     (\<exists>r \<in> narrowest m rules. rule_decision r = d) \<and>
     (\<forall>r \<in> narrowest m rules. restrictiveness (rule_decision r) \<le> restrictiveness d)"

lemma set_narrowest_rules: "set (narrowest_rules m rules) = narrowest m (set rules)"
  by (auto simp: narrowest_rules_def narrowest_def list_ex_iff)

lemma narrowest_decision_iff: "narrowest_decision m rules = Some d \<longleftrightarrow> prevails m (set rules) d"
  unfolding narrowest_decision_def reduce_prevailing prevails_def
  by (auto simp: set_narrowest_rules)

lemma prevailing_iff:
  "prevailing_rule_decision m rules request = Some d \<longleftrightarrow>
     prevails m {r \<in> set rules. rule_matches m request r} d"
  by (simp add: prevailing_rule_decision_def narrowest_decision_iff)

lemma prevailing_of_set:
  assumes "set rules = set rules'"
  shows "prevailing_rule_decision m rules request = prevailing_rule_decision m rules' request"
  using prevailing_iff [of m rules request] prevailing_iff [of m rules' request] assms
  by (metis option.exhaust)

section \<open>Strict narrowing decreases a rank\<close>

definition documented_globset :: "globset \<Rightarrow> bool" where
  "documented_globset m \<longleftrightarrow>
     (\<forall>sep p v. p \<noteq> [] \<and> \<not> has_glob_wildcard p \<longrightarrow> m sep p v = (v = p)) \<and>
     (\<forall>sep p v. \<not> has_glob_wildcard p \<longrightarrow>
        m sep (p @ ''*'') v = (\<exists>rest. v = p @ rest \<and> (sep \<longrightarrow> separator \<notin> set rest))) \<and>
     (\<forall>sep p v. \<not> has_glob_wildcard p \<longrightarrow>
        m sep (p @ ''**'') v =
          (\<exists>rest. v = p @ rest \<and> (sep \<and> p \<noteq> [] \<and> last p \<noteq> separator \<longrightarrow> separator \<notin> set rest)))"

lemma glob_literal:
  "documented_globset m \<Longrightarrow> p \<noteq> [] \<Longrightarrow> \<not> has_glob_wildcard p \<Longrightarrow> m sep p v = (v = p)"
  by (simp add: documented_globset_def)

lemma glob_star:
  "documented_globset m \<Longrightarrow> \<not> has_glob_wildcard p \<Longrightarrow>
     m sep (p @ ''*'') v = (\<exists>rest. v = p @ rest \<and> (sep \<longrightarrow> separator \<notin> set rest))"
  by (simp add: documented_globset_def)

lemma glob_double_star:
  "documented_globset m \<Longrightarrow> \<not> has_glob_wildcard p \<Longrightarrow>
     m sep (p @ ''**'') v =
       (\<exists>rest. v = p @ rest \<and> (sep \<and> p \<noteq> [] \<and> last p \<noteq> separator \<longrightarrow> separator \<notin> set rest))"
  by (simp add: documented_globset_def)

lemma wild_append: "has_glob_wildcard (a @ b) \<longleftrightarrow> has_glob_wildcard a \<or> has_glob_wildcard b"
  by (simp add: has_glob_wildcard_def)

lemma star_wild: "has_glob_wildcard ''*''" "has_glob_wildcard ''**''"
  by (simp_all add: has_glob_wildcard_def)

lemma trailing_cases:
  assumes t: "trailing_wildcard_prefix g = Some (p, crosses)"
  shows "\<not> has_glob_wildcard p"
    "pg_pattern g = p @ ''**'' \<and> crosses \<or>
     pg_pattern g = p @ ''*'' \<and> crosses = (\<not> pg_literal_separator g)"
proof -
  have "\<not> has_glob_wildcard p \<and> (strip_suffix ''**'' (pg_pattern g) = Some p \<and> crosses \<or>
      strip_suffix ''*'' (pg_pattern g) = Some p \<and> crosses = (\<not> pg_literal_separator g))"
    using t by (cases "strip_suffix ''**'' (pg_pattern g)"; cases "strip_suffix ''*'' (pg_pattern g)")
      (simp_all add: trailing_wildcard_prefix_def split: if_splits)
  then show "\<not> has_glob_wildcard p"
    "pg_pattern g = p @ ''**'' \<and> crosses \<or>
     pg_pattern g = p @ ''*'' \<and> crosses = (\<not> pg_literal_separator g)"
    unfolding strip_suffix_iff by blast+
qed

lemma trailing_prefix_matched:
  assumes "documented_globset m" "trailing_wildcard_prefix g = Some (p, crosses)" "glob_matches m g v"
  shows "\<exists>rest. v = p @ rest"
proof -
  note t = trailing_cases [OF assms(2)]
  show ?thesis
    using t(2) assms(3) glob_star [OF assms(1) t(1)] glob_double_star [OF assms(1) t(1)]
    by (auto simp: glob_matches_def)
qed

lemma wildcard_free_no_trailing: "\<not> has_glob_wildcard (pg_pattern g) \<Longrightarrow> trailing_wildcard_prefix g = None"
proof (rule ccontr)
  assume plain: "\<not> has_glob_wildcard (pg_pattern g)" and "trailing_wildcard_prefix g \<noteq> None"
  then obtain p c where "trailing_wildcard_prefix g = Some (p, c)" by auto
  from trailing_cases(2) [OF this] plain show False by (elim disjE) (simp_all add: wild_append star_wild)
qed

fun pattern_rank :: "permission_pattern \<Rightarrow> int" where
  "pattern_rank Any = 1"
| "pattern_rank (Exact v) = - 2 * int (length v) - 3"
| "pattern_rank (Glob g) =
     (if glob_denotes_everything g then 1
      else if \<not> has_glob_wildcard (pg_pattern g) then - 2 * int (length (pg_pattern g)) - 2
      else case trailing_wildcard_prefix g of
             Some (p, crosses) \<Rightarrow> - 2 * int (length p) - (if crosses then 0 else 1)
           | None \<Rightarrow> 0)"

definition pattern_ok :: "permission_pattern \<Rightarrow> bool" where
  "pattern_ok p \<longleftrightarrow> (case p of Glob g \<Rightarrow> pg_pattern g \<noteq> [] | _ \<Rightarrow> True)"

lemma rank_everything: "denotes_everything p \<Longrightarrow> pattern_rank p = 1"
  by (cases p) auto

lemma rank_not_everything: "\<not> denotes_everything p \<Longrightarrow> pattern_rank p \<le> 0"
  by (cases p) (auto split: option.split prod.split)

lemma glob_covers_wild:
  assumes cov: "glob_covers m a b"
    and differ: "\<not> (pg_pattern a = pg_pattern b \<and> pg_literal_separator a = pg_literal_separator b)"
    and wild: "has_glob_wildcard (pg_pattern b)"
  shows "\<exists>p c q d rest. trailing_wildcard_prefix a = Some (p, c) \<and> trailing_wildcard_prefix b = Some (q, d) \<and>
           strip_prefix p q = Some rest \<and> (c \<or> (\<not> d \<and> separator \<notin> set rest))"
proof -
  have body: "case (trailing_wildcard_prefix a, trailing_wildcard_prefix b) of
      (Some (p, c), Some (q, d)) \<Rightarrow>
        (case strip_prefix p q of Some rest \<Rightarrow> c \<or> (\<not> d \<and> separator \<notin> set rest) | None \<Rightarrow> False)
    | _ \<Rightarrow> False"
    using cov differ wild unfolding glob_covers_def by (simp only: if_False HOL.simp_thms if_cancel split: if_splits)
  obtain s where a: "trailing_wildcard_prefix a = Some s" using body by (cases "trailing_wildcard_prefix a") auto
  obtain t where b: "trailing_wildcard_prefix b = Some t"
    using body by (cases "trailing_wildcard_prefix b") (auto simp: a split: prod.splits)
  obtain p c q d where "s = (p, c)" "t = (q, d)" by (cases s; cases t)
  then show ?thesis using body a b by (cases "strip_prefix p q") auto
qed

lemma glob_covers_rank:
  assumes doc: "documented_globset m" and ok: "pg_pattern a \<noteq> []" "pg_pattern b \<noteq> []"
    and not_all: "\<not> glob_denotes_everything a" "\<not> glob_denotes_everything b"
    and cov: "glob_covers m a b"
  shows "pattern_rank (Glob b) < pattern_rank (Glob a) \<or>
         pattern_rank (Glob b) = pattern_rank (Glob a) \<and> glob_covers m b a"
proof (cases "pg_pattern a = pg_pattern b \<and> pg_literal_separator a = pg_literal_separator b")
  case True
  then have "a = b" by simp
  then show ?thesis using cov by simp
next
  case False
  show ?thesis
  proof (cases "has_glob_wildcard (pg_pattern b)")
    case literal: False
    then have hit: "glob_matches m a (pg_pattern b)" using cov False by (simp add: glob_covers_def)
    show ?thesis
    proof (cases "has_glob_wildcard (pg_pattern a)")
      case True
      show ?thesis
      proof (cases "trailing_wildcard_prefix a")
        case None
        then show ?thesis using literal True not_all by simp
      next
        case (Some t)
        obtain p crosses where t: "trailing_wildcard_prefix a = Some (p, crosses)" using Some by (cases t) auto
        obtain rest where "pg_pattern b = p @ rest" using trailing_prefix_matched [OF doc t hit] by blast
        then show ?thesis using literal True not_all t by simp
      qed
    next
      case free: False
      have "pg_pattern b = pg_pattern a"
        using hit glob_literal [OF doc ok(1) free] by (simp add: glob_matches_def)
      then show ?thesis using hit free not_all glob_literal [OF doc ok(1) free]
        by (simp add: glob_covers_def glob_matches_def)
    qed
  next
    case wild: True
    obtain p c q d rem where t: "trailing_wildcard_prefix a = Some (p, c)" "trailing_wildcard_prefix b = Some (q, d)"
      and rem: "strip_prefix p q = Some rem" and reach: "c \<or> (\<not> d \<and> separator \<notin> set rem)"
      using glob_covers_wild [OF cov False wild] by blast
    have q: "q = p @ rem" using rem by (simp add: strip_prefix_iff)
    have wa: "has_glob_wildcard (pg_pattern a)" using t(1) wildcard_free_no_trailing by fastforce
    show ?thesis
    proof (cases "rem = [] \<and> c = d")
      case True
      then have "glob_covers m b a" using reach wa t q by (auto simp: glob_covers_def)
      then show ?thesis using True wild wa not_all t q by simp
    next
      case other: False
      then have "pattern_rank (Glob b) < pattern_rank (Glob a)"
        using wild wa not_all t q reach by (cases rem) auto
      then show ?thesis by blast
    qed
  qed
qed

lemma pattern_covers_rank:
  assumes doc: "documented_globset m" and ok: "pattern_ok a" "pattern_ok b" and cov: "pattern_covers m a b"
  shows "pattern_rank b < pattern_rank a \<or> pattern_rank b = pattern_rank a \<and> pattern_covers m b a"
proof (cases "denotes_everything a \<or> denotes_everything b")
  case True
  then have a: "denotes_everything a" using cov by (auto simp: pattern_covers_def split: if_splits)
  show ?thesis
  proof (cases "denotes_everything b")
    case True
    then show ?thesis using a rank_everything [of a] rank_everything [of b] by (simp add: pattern_covers_def)
  next
    case False
    then show ?thesis using rank_everything [OF a] rank_not_everything [of b] by simp
  qed
next
  case False
  show ?thesis
  proof (cases b)
    case Any then show ?thesis using False by simp
  next
    case b: (Exact v)
    show ?thesis
    proof (cases a)
      case Any then show ?thesis using False by simp
    next
      case (Exact w) then show ?thesis using cov b by (simp add: pattern_covers_def)
    next
      case a: (Glob g)
      then have hit: "glob_matches m g v" using cov b False by (simp add: pattern_covers_def)
      show ?thesis
      proof (cases "has_glob_wildcard (pg_pattern g)")
        case True
        show ?thesis
        proof (cases "trailing_wildcard_prefix g")
          case None then show ?thesis using a b True False by simp
        next
          case (Some t)
          obtain p c where t: "trailing_wildcard_prefix g = Some (p, c)" using Some by (cases t) auto
          obtain rest where "v = p @ rest" using trailing_prefix_matched [OF doc t hit] by blast
          then show ?thesis using a b True False t by simp
        qed
      next
        case free: False
        have "v = pg_pattern g" using hit ok(1) a glob_literal [OF doc _ free]
          by (simp add: glob_matches_def pattern_ok_def)
        then show ?thesis using a b free False by simp
      qed
    qed
  next
    case b: (Glob h)
    show ?thesis
    proof (cases a)
      case Any then show ?thesis using False by simp
    next
      case (Exact w) then show ?thesis using cov b False by (simp add: pattern_covers_def)
    next
      case a: (Glob g)
      then show ?thesis using glob_covers_rank [OF doc, of g h] ok cov b False
        by (simp add: pattern_covers_def pattern_ok_def)
    qed
  qed
qed

definition rule_ok :: "permission_rule \<Rightarrow> bool" where
  "rule_ok r \<longleftrightarrow> pattern_ok (rule_tool r) \<and> pattern_ok (rule_target r)"

definition rule_rank :: "permission_rule \<Rightarrow> int" where
  "rule_rank r = (case rule_scope r of Global \<Rightarrow> 1 | Project \<Rightarrow> 0) +
     pattern_rank (rule_tool r) + pattern_rank (rule_target r)"

lemma rule_covers_rank:
  assumes "documented_globset m" "rule_ok a" "rule_ok b" "rule_covers m a b"
  shows "rule_rank b < rule_rank a \<or> rule_rank b = rule_rank a \<and> rule_covers m b a"
proof -
  have ok: "pattern_ok (rule_tool a)" "pattern_ok (rule_tool b)" "pattern_ok (rule_target a)" "pattern_ok (rule_target b)"
    using assms(2,3) by (auto simp: rule_ok_def)
  have cov: "scope_covers a b" "pattern_covers m (rule_tool a) (rule_tool b)"
    "pattern_covers m (rule_target a) (rule_target b)" using assms(4) by (auto simp: rule_covers_def)
  have "scope_covers b a \<or> rule_scope a = Global \<and> rule_scope b = Project"
    using cov(1) by (auto simp: scope_covers_def split: permission_scope.splits)
  then show ?thesis
    using pattern_covers_rank [OF assms(1) ok(1,2) cov(2)] pattern_covers_rank [OF assms(1) ok(3,4) cov(3)] cov(1)
    by (cases "rule_scope a"; cases "rule_scope b") (auto simp: rule_rank_def rule_covers_def scope_covers_def)
qed

lemma narrowest_exists:
  assumes "documented_globset m" "finite rules" "rules \<noteq> {}" "\<forall>r \<in> rules. rule_ok r"
  shows "narrowest m rules \<noteq> {}"
proof -
  obtain r where r: "r \<in> rules" "\<forall>other \<in> rules. rule_rank r \<le> rule_rank other"
  proof -
    have fin: "finite (rule_rank ` rules)" using assms(2) by simp
    then have "Min (rule_rank ` rules) \<in> rule_rank ` rules" using assms(3) by (intro Min_in) auto
    then obtain r where "r \<in> rules" "rule_rank r = Min (rule_rank ` rules)" by auto
    then show ?thesis using that [of r] Min_le [OF fin] by auto
  qed
  have "\<not> (rule_covers m r other \<and> \<not> rule_covers m other r)" if "other \<in> rules" for other
    using rule_covers_rank [OF assms(1), of r other] r that assms(4) by fastforce
  then show ?thesis using r(1) by (auto simp: narrowest_def)
qed

lemma prevails_exists:
  assumes "finite S" "narrowest m S \<noteq> {}" shows "\<exists>d. prevails m S d"
proof -
  let ?N = "restrictiveness ` rule_decision ` narrowest m S"
  have fin: "finite ?N" using assms(1) by (simp add: narrowest_def)
  then have "Max ?N \<in> ?N" using assms(2) by (intro Max_in) auto
  then obtain r where "r \<in> narrowest m S" "Max ?N = restrictiveness (rule_decision r)" by auto
  then have "prevails m S (rule_decision r)"
    using Max_ge [OF fin] by (fastforce simp: prevails_def)
  then show ?thesis by blast
qed

lemma decided_iff_selected:
  assumes "documented_globset m" "\<forall>r \<in> set rules. rule_ok r"
  shows "prevailing_rule_decision m rules request \<noteq> None \<longleftrightarrow> (\<exists>r \<in> set rules. rule_matches m request r)"
proof
  assume "prevailing_rule_decision m rules request \<noteq> None"
  then obtain d where "prevails m {r \<in> set rules. rule_matches m request r} d" using prevailing_iff by fastforce
  then show "\<exists>r \<in> set rules. rule_matches m request r" by (auto simp: prevails_def narrowest_def)
next
  assume "\<exists>r \<in> set rules. rule_matches m request r"
  then have "narrowest m {r \<in> set rules. rule_matches m request r} \<noteq> {}"
    by (intro narrowest_exists [OF assms(1)]) (use assms(2) in auto)
  then obtain d where "prevails m {r \<in> set rules. rule_matches m request r} d"
    using prevails_exists [of "{r \<in> set rules. rule_matches m request r}"] by auto
  then show "prevailing_rule_decision m rules request \<noteq> None" using prevailing_iff by fastforce
qed

end
