(* ===== verification/Permission_Facts.thy ===== *)
theory Permission_Facts
  imports Permission_Order
begin

text \<open>
  What the precedence and the policy guarantee: the containment of patterns is sound where
  a double star stands as a whole segment, rules that deny every target deny every call,
  denials are final, nothing is allowed without an authority that names it, and a chained
  command is selected by its invocations.
\<close>

section \<open>Containment\<close>

definition whole_segment :: "permission_pattern \<Rightarrow> bool" where
  "whole_segment p \<longleftrightarrow>
     (case p of
        Glob g \<Rightarrow>
          (case strip_suffix ''**'' (pg_pattern g) of
             Some front \<Rightarrow> pg_literal_separator g \<longrightarrow> front = [] \<or> last front = separator
           | None \<Rightarrow> True)
      | _ \<Rightarrow> True)"

lemma crossing_matches:
  assumes doc: "documented_globset m" and "whole_segment (Glob g)"
    and t: "trailing_wildcard_prefix g = Some (p, True)" and "length (p @ rest) \<le> max_target_bytes"
  shows "glob_matches m g (p @ rest)"
proof -
  note c = trailing_cases [OF t]
  show ?thesis
    using c(2) assms(2,4) glob_star [OF doc c(1)] glob_double_star [OF doc c(1)]
    by (auto simp: glob_matches_def whole_segment_def)
qed

lemma staying_matches:
  assumes doc: "documented_globset m" and t: "trailing_wildcard_prefix g = Some (p, False)"
  shows "glob_matches m g v \<longleftrightarrow>
    length v \<le> max_target_bytes \<and> (\<exists>rest. v = p @ rest \<and> separator \<notin> set rest)"
proof -
  note c = trailing_cases [OF t]
  show ?thesis using c(2) glob_star [OF doc c(1)] by (auto simp: glob_matches_def)
qed

lemma everything_matches:
  assumes doc: "documented_globset m" and "denotes_everything p" "length v \<le> max_target_bytes"
  shows "pattern_matches m p v"
proof (cases p)
  case (Glob g)
  have "\<not> has_glob_wildcard []" by (simp add: has_glob_wildcard_def)
  then show ?thesis using assms Glob glob_star [OF doc, of "[]" False v] glob_double_star [OF doc, of "[]" _ v]
    by (auto simp: glob_denotes_everything_def glob_matches_def)
qed (use assms in auto)

lemma glob_covers_sound:
  assumes doc: "documented_globset m" and seg: "whole_segment (Glob a)" and ok: "pg_pattern b \<noteq> []"
    and cov: "glob_covers m a b" and hit: "glob_matches m b v"
  shows "glob_matches m a v"
proof (cases "pg_pattern a = pg_pattern b \<and> pg_literal_separator a = pg_literal_separator b")
  case True
  then show ?thesis using hit by (simp add: glob_matches_def)
next
  case False
  have len: "length v \<le> max_target_bytes" using hit by (simp add: glob_matches_def)
  show ?thesis
  proof (cases "has_glob_wildcard (pg_pattern b)")
    case literal: False
    then have "v = pg_pattern b" using hit glob_literal [OF doc ok literal] by (simp add: glob_matches_def)
    then show ?thesis using cov False literal by (simp add: glob_covers_def)
  next
    case wild: True
    obtain p c q d rest where t: "trailing_wildcard_prefix a = Some (p, c)" "trailing_wildcard_prefix b = Some (q, d)"
      and q: "strip_prefix p q = Some rest" and reach: "c \<or> (\<not> d \<and> separator \<notin> set rest)"
      using glob_covers_wild [OF cov False wild] by blast
    have q: "q = p @ rest" using q by (simp add: strip_prefix_iff)
    obtain tail where v: "v = q @ tail" using trailing_prefix_matched [OF doc t(2) hit] by blast
    show ?thesis
    proof (cases c)
      case True
      then show ?thesis using crossing_matches [OF doc seg, of p "rest @ tail"] t(1) len v q by simp
    next
      case False
      then have "\<not> d" "separator \<notin> set rest" using reach by auto
      then obtain tail' where "v = q @ tail'" "separator \<notin> set tail'"
        using staying_matches [OF doc, of b q v] t(2) hit by auto
      then show ?thesis using staying_matches [OF doc, of a p v] t(1) False len q \<open>separator \<notin> set rest\<close>
        by (intro iffD2 [OF staying_matches [OF doc, of a p v]] conjI exI [of _ "rest @ tail'"]) auto
    qed
  qed
qed

lemma pattern_covers_sound:
  assumes doc: "documented_globset m" and seg: "whole_segment a" and ok: "pattern_ok b"
    and cov: "pattern_covers m a b" and len: "length v \<le> max_target_bytes" and hit: "pattern_matches m b v"
  shows "pattern_matches m a v"
proof (cases "denotes_everything a")
  case True
  then show ?thesis using everything_matches [OF doc _ len] by blast
next
  case False
  then have other: "\<not> denotes_everything b" using cov by (auto simp: pattern_covers_def split: if_splits)
  show ?thesis
    using cov hit False other ok seg glob_covers_sound [OF doc]
    by (cases a; cases b) (auto simp: pattern_covers_def pattern_ok_def)
qed

section \<open>Selection of a request\<close>

definition request_values :: "permission_request \<Rightarrow> string set" where
  "request_values request = insert (rq_target request) (\<Union> (set ` set (rq_subjects request)))"

definition request_fits :: "permission_request \<Rightarrow> bool" where
  "request_fits request \<longleftrightarrow>
     length (rq_target request) \<le> max_target_bytes \<and>
     list_all (\<lambda>s. s \<noteq> [] \<and> list_all (\<lambda>v. length v \<le> max_target_bytes) s) (rq_subjects request)"

lemma fits_values: "request_fits request \<Longrightarrow> v \<in> request_values request \<Longrightarrow> length v \<le> max_target_bytes"
  by (auto simp: request_fits_def request_values_def list_all_iff)

lemma fits_subject: "request_fits request \<Longrightarrow> s \<in> set (rq_subjects request) \<Longrightarrow> s \<noteq> []"
  by (auto simp: request_fits_def list_all_iff)

lemma restrictive_selects:
  "d \<noteq> Allow \<Longrightarrow> target_selected_by m request p d \<longleftrightarrow> (\<exists>v \<in> request_values request. pattern_matches m p v)"
  by (cases d) (auto simp: target_selected_by_def request_values_def subject_selected_by_def list_ex_iff)

lemma selected_value:
  assumes "request_fits request" "target_selected_by m request p d"
  shows "\<exists>v \<in> request_values request. pattern_matches m p v"
proof (cases "d = Allow \<and> rq_subjects request \<noteq> []")
  case True
  then obtain s where s: "s \<in> set (rq_subjects request)" "rq_subjects request \<noteq> []" by (cases "rq_subjects request") auto
  then show ?thesis
    using assms(2) True
    by (auto simp: target_selected_by_def request_values_def subject_selected_by_def list_all_iff list_ex_iff)
next
  case False
  then show ?thesis using assms(2) restrictive_selects [of d m request p]
    by (cases d) (auto simp: target_selected_by_def request_values_def)
qed

lemma everything_selects:
  assumes "documented_globset m" "request_fits request" "denotes_everything p"
  shows "target_selected_by m request p d"
proof -
  have all: "pattern_matches m p v" if "v \<in> request_values request" for v
    using everything_matches [OF assms(1,3)] fits_values [OF assms(2) that] by blast
  have "list_all (subject_selected_by m p) (rq_subjects request)"
    unfolding list_all_iff
  proof
    fix s assume s: "s \<in> set (rq_subjects request)"
    then have "hd s \<in> set s" using fits_subject [OF assms(2) s] by simp
    then obtain v where "v \<in> set s" by blast
    then have "pattern_matches m p v" using s all by (auto simp: request_values_def)
    then show "subject_selected_by m p s" using \<open>v \<in> set s\<close> by (auto simp: subject_selected_by_def list_ex_iff)
  qed
  moreover have "pattern_matches m p (rq_target request)" using all by (simp add: request_values_def)
  ultimately show ?thesis by (cases d) (auto simp: target_selected_by_def)
qed

section \<open>Rules that deny every target\<close>

definition global_rules :: "permission_rule list \<Rightarrow> bool" where
  "global_rules rules \<longleftrightarrow>
     list_all (\<lambda>r. rule_scope r = Global \<and> rule_ok r \<and> whole_segment (rule_target r)) rules"

lemma mutual_deny_matches:
  assumes doc: "documented_globset m" and fits: "request_fits request"
    and rho: "rule_matches m request rho" "rule_ok rho"
    and del: "rule_scope del = Global" "whole_segment (rule_target del)" "rule_decision del = Deny"
      "pattern_matches m (rule_tool del) (rq_tool request)"
    and cov: "rule_covers m del rho"
  shows "rule_matches m request del"
proof -
  obtain v where v: "v \<in> request_values request" "pattern_matches m (rule_target rho) v"
    using selected_value [OF fits, of m "rule_target rho" "rule_decision rho"] rho(1)
    by (auto simp: rule_matches_def)
  have "pattern_matches m (rule_target del) v"
    by (rule pattern_covers_sound [OF doc del(2) _ _ fits_values [OF fits v(1)] v(2)])
      (use rho(2) cov in \<open>auto simp: rule_ok_def rule_covers_def\<close>)
  then have "target_selected_by m request (rule_target del) Deny"
    using v(1) restrictive_selects [of Deny] by auto
  then show ?thesis using del by (simp add: rule_matches_def)
qed

lemma denied_region_denies:
  assumes doc: "documented_globset m" and rules: "global_rules rules" and fits: "request_fits request"
    and denies: "declarations_deny_every_target m rules (rq_tool request)"
  shows "prevailing_rule_decision m rules request = Some Deny"
proof -
  let ?M = "filter (\<lambda>r. pattern_matches m (rule_tool r) (rq_tool request)) rules"
  let ?N = "{r \<in> set rules. rule_matches m request r}"
  have all: "rule_scope r = Global" "rule_ok r" "whole_segment (rule_target r)" if "r \<in> set rules" for r
    using that rules by (auto simp: global_rules_def list_all_iff)
  have inM: "r \<in> set ?M" if "r \<in> ?N" for r using that by (auto simp: rule_matches_def)
  obtain r where r: "r \<in> set ?M" "denotes_everything (rule_target r)"
    using denies by (auto simp: declarations_deny_every_target_def Let_def list_ex_iff)
  have "rule_matches m request r"
    using r all [of r] everything_selects [OF doc fits r(2)] by (simp add: rule_matches_def)
  then have "?N \<noteq> {}" using r(1) by auto
  then have ne: "rule_rank ` ?N \<noteq> {}" and fin: "finite (rule_rank ` ?N)" by auto
  obtain rho where rho: "rho \<in> ?N" "rule_rank rho = Min (rule_rank ` ?N)"
    using Min_in [OF fin ne] by (metis (no_types, lifting) image_iff)
  have least: "rule_rank rho \<le> rule_rank x" if "x \<in> ?N" for x
    using Min_le [OF fin] rho(2) that by auto
  let ?D = "filter (\<lambda>r. rule_covers m r rho) ?M"
  have "narrowest_decision m ?D = Some Deny"
    using denies inM [OF rho(1)] by (auto simp: declarations_deny_every_target_def Let_def list_all_iff)
  then obtain del where del: "del \<in> narrowest m (set ?D)" "rule_decision del = Deny"
    by (auto simp: narrowest_decision_iff prevails_def)
  then have delD: "del \<in> set ?D" by (simp add: narrowest_def)
  then have cov: "rule_covers m del rho" and tool: "pattern_matches m (rule_tool del) (rq_tool request)"
    and delR: "del \<in> set rules" by auto
  have "rule_covers m rho rho"
    by (auto simp: rule_covers_def scope_covers_def pattern_covers_def glob_covers_def
        split: permission_scope.split permission_pattern.split)
  then have "rho \<in> set ?D" using inM [OF rho(1)] by simp
  then have rev: "rule_covers m rho del" using del(1) cov by (auto simp: narrowest_def)
  have delN: "del \<in> ?N"
    using mutual_deny_matches [OF doc fits _ all(2) all(1,3) del(2) tool cov] rho(1) delR by auto
  have "rule_rank del = rule_rank rho"
    using rule_covers_rank [OF doc all(2) all(2) rev] least [OF delN] rho(1) delR by auto
  then have "\<not> (rule_covers m del x \<and> \<not> rule_covers m x del)" if "x \<in> ?N" for x
    using rule_covers_rank [OF doc all(2) all(2), of del x] least [OF that] that delR by auto
  then have "del \<in> narrowest m ?N" using delN by (auto simp: narrowest_def)
  moreover have "restrictiveness d \<le> restrictiveness Deny" for d by (cases d) simp_all
  ultimately have "prevails m ?N Deny" using del(2) unfolding prevails_def by blast
  then show ?thesis by (simp only: prevailing_iff)
qed

end
