(* ===== verification/Permission_Safety.thy ===== *)
theory Permission_Safety
  imports Permission_Facts
begin

text \<open>
  What a policy never does: reopen a denial, answer less restrictively than the operator's
  configured rules, or allow a call no rule, grant, configured rule or fallback names. The
  names tools are registered under read back, and a chained command is selected by the
  invocations it would run.
\<close>

section \<open>Denials are final\<close>

lemma least_restrictive: "restrictiveness d \<le> restrictiveness Deny"
  by (cases d) simp_all

lemma prevailing_Deny: "prevailing_decision Deny d = Deny" "prevailing_decision d Deny = Deny"
  by (cases d; simp add: prevailing_decision_def)+

lemma prevailing_upper:
  "restrictiveness d \<le> restrictiveness (prevailing_decision d e)"
  "restrictiveness e \<le> restrictiveness (prevailing_decision d e)"
  by (auto simp: prevailing_decision_def)

lemma prevailing_Allow: "prevailing_decision d e = Allow \<longleftrightarrow> d = Allow \<and> e = Allow"
  by (cases d; cases e) (auto simp: prevailing_decision_def)

lemma denial_stated:
  assumes "\<not> hard_safety_allows m policy request \<or>
    prevailing_rule_decision m (pol_static_rules policy) request = Some Deny"
  shows "stated_decision m policy request pg sg = Some Deny"
  using assms by (auto simp: stated_decision_def Let_def prevailing_Deny split: option.split)

lemma denial_final:
  assumes "\<not> hard_safety_allows m policy request \<or>
    prevailing_rule_decision m (pol_static_rules policy) request = Some Deny"
  shows "evaluate_with_unmatched_authority m policy request pg sg bypass unmatched = (Deny, Decided)"
  by (simp add: evaluate_with_unmatched_authority_def denial_stated [OF assms])

section \<open>The configured rules are a floor\<close>

lemma floor_stated:
  assumes "pol_configured_floor policy = Some f" "floor_constraint m f request = Some c"
  shows "\<exists>d. stated_decision m policy request pg sg = Some d \<and> restrictiveness c \<le> restrictiveness d"
proof (cases "hard_safety_allows m policy request")
  case True
  then show ?thesis using assms prevailing_upper(2)
    by (auto simp: stated_decision_def Let_def split: option.split)
qed (use least_restrictive [of c] in \<open>simp add: stated_decision_def\<close>)

lemma floor_bounds_answer:
  assumes "pol_configured_floor policy = Some f" "floor_constraint m f request = Some c"
  shows "restrictiveness c \<le>
    restrictiveness (fst (evaluate_with_unmatched_authority m policy request pg sg bypass unmatched))"
proof -
  obtain d where "stated_decision m policy request pg sg = Some d" "restrictiveness c \<le> restrictiveness d"
    using floor_stated [OF assms] by blast
  then show ?thesis by (simp add: evaluate_with_unmatched_authority_def)
qed

section \<open>Nothing is allowed without an authority\<close>

definition granted :: "globset \<Rightarrow> permission_request \<Rightarrow> project_grant list \<Rightarrow> bool" where
  "granted m request grants \<longleftrightarrow>
     (\<exists>g \<in> set grants. grant_matches m request g \<and> grant_decision g = Allow)"

definition ruled_in :: "globset \<Rightarrow> permission_request \<Rightarrow> permission_rule list \<Rightarrow> bool" where
  "ruled_in m request rules \<longleftrightarrow>
     (\<exists>r \<in> set rules. rule_matches m request r \<and> rule_decision r = Allow)"

lemma prevailing_from_rule:
  "prevailing_rule_decision m rules request = Some d \<Longrightarrow>
     \<exists>r \<in> set rules. rule_matches m request r \<and> rule_decision r = d"
  by (auto simp: prevailing_iff prevails_def narrowest_def)

lemma last_grant:
  assumes "last_opt (map grant_decision (filter (grant_matches m request) pg @ filter (grant_matches m request) sg)) = Some Allow"
  shows "granted m request (pg @ sg)"
proof -
  let ?ds = "map grant_decision (filter (grant_matches m request) (pg @ sg))"
  have "Allow \<in> set ?ds" using assms last_in_set [of ?ds] by (auto simp: last_opt_def split: if_splits)
  then show ?thesis by (auto simp: granted_def)
qed

lemma allowed_has_authority:
  assumes "fst (evaluate_with_unmatched_authority m policy request pg sg bypass unmatched) = Allow"
  shows "hard_safety_allows m policy request"
    "prevailing_rule_decision m (pol_static_rules policy) request \<noteq> Some Deny"
    "granted m request (pg @ sg) \<or> ruled_in m request (pol_static_rules policy) \<or>
     (\<exists>f. pol_configured_floor policy = Some f \<and> floor_role f = Governing \<and> ruled_in m request (floor_rules f)) \<or>
     stated_decision m policy request pg sg = None \<and> (unmatched \<or> bypass)"
proof -
  have safe: "\<not> (\<not> hard_safety_allows m policy request \<or>
      prevailing_rule_decision m (pol_static_rules policy) request = Some Deny)"
    using assms denial_final [of m policy request pg sg bypass unmatched] by (metis fst_conv permission_decision.distinct(3))
  then show "hard_safety_allows m policy request"
    "prevailing_rule_decision m (pol_static_rules policy) request \<noteq> Some Deny" by auto
  show "granted m request (pg @ sg) \<or> ruled_in m request (pol_static_rules policy) \<or>
     (\<exists>f. pol_configured_floor policy = Some f \<and> floor_role f = Governing \<and> ruled_in m request (floor_rules f)) \<or>
     stated_decision m policy request pg sg = None \<and> (unmatched \<or> bypass)"
  proof (cases "stated_decision m policy request pg sg")
    case None
    then show ?thesis using assms
      by (auto simp: evaluate_with_unmatched_authority_def resolve_ask_def split: if_splits)
  next
    case (Some d)
    then have stated: "stated_decision m policy request pg sg = Some Allow"
      using assms by (simp add: evaluate_with_unmatched_authority_def)
    let ?static = "prevailing_rule_decision m (pol_static_rules policy) request"
    let ?grant = "last_opt (map grant_decision (filter (grant_matches m request) pg @ filter (grant_matches m request) sg))"
    let ?conf = "case pol_configured_floor policy of Some f \<Rightarrow> floor_constraint m f request | None \<Rightarrow> None"
    consider "?grant = Some Allow" | "?grant = None" "?static = Some Allow"
      | "?grant = None" "?static = None" "?conf = Some Allow"
      using stated safe
      by (cases ?grant; cases ?static; cases ?conf)
        (auto simp: stated_decision_def Let_def or_else_def prevailing_Allow split: if_splits)
    then show ?thesis
    proof cases
      case 1
      then show ?thesis using last_grant by blast
    next
      case 2
      then show ?thesis using prevailing_from_rule by (fastforce simp: ruled_in_def)
    next
      case 3
      then obtain f where f: "pol_configured_floor policy = Some f" "floor_constraint m f request = Some Allow"
        by (auto split: option.splits)
      then have "floor_role f = Governing" "floor_decision m f request = Some Allow"
        by (auto simp: floor_constraint_def split: option.splits if_splits)
      then show ?thesis using f(1) prevailing_from_rule by (fastforce simp: ruled_in_def floor_decision_def)
    qed
  qed
qed

lemma fallback_is_unmatched:
  assumes "evaluate_with_unmatched_authority m policy request pg sg bypass unmatched = (d, DangerousFallback)"
  shows "stated_decision m policy request pg sg = None \<and> unmatched \<and> \<not> bypass \<and> d = Allow"
  using assms by (auto simp: evaluate_with_unmatched_authority_def resolve_ask_def split: option.splits if_splits)

lemma withheld_file:
  assumes "prevailing_rule_decision m (pol_static_rules (reader_policy reader))
      (new_request (reader_project reader) (reader_tool reader) path (reader_access reader)) = Some Deny"
  shows "\<not> permits m reader path"
  using denial_stated [OF disjI2 [OF assms]] by (simp add: permits_def)

section \<open>Names read back\<close>

lemma show_nat_digits: "show_nat n \<noteq> [] \<and> list_all is_ascii_digit (show_nat n)"
proof (induction n rule: show_nat.induct)
  case (1 n)
  have "is_ascii_digit (char_of (48 + k :: nat))" if "k < 10" for k
    using that by (simp add: is_ascii_digit_def)
  then show ?case using 1 by (subst (1 2) show_nat.simps) auto
qed

lemma parse_show_nat: "foldl (\<lambda>acc c. acc * 10 + (of_char c - 48)) 0 (show_nat n) = n"
proof (induction n rule: show_nat.induct)
  case (1 n)
  then show ?case by (subst show_nat.simps) auto
qed

lemma parse_usize_show: "n < usize_limit \<Longrightarrow> parse_usize (show_nat n) = Some n"
  using show_nat_digits [of n] by (simp add: parse_usize_def parse_show_nat)

lemma digits_no_colon: "list_all is_ascii_digit ds \<Longrightarrow> CHR '':'' \<notin> set ds"
  by (auto simp: is_ascii_digit_def list_all_iff)

lemma headed_field:
  assumes "length s < usize_limit" "rest = [] \<or> (\<exists>others. rest = CHR '':'' # others)"
  shows "length_headed_field (show_nat (length s) @ CHR '':'' # s @ rest) =
           Some (s, (case rest of [] \<Rightarrow> [] | c # others \<Rightarrow> others))"
proof -
  have "split_once (CHR '':'') (show_nat (length s) @ CHR '':'' # s @ rest) = Some (show_nat (length s), s @ rest)"
    using show_nat_digits [of "length s"] digits_no_colon by simp
  moreover have "is_char_boundary (s @ rest) (length s)"
    using assms(2) by (auto simp: is_char_boundary_def continuation_byte_def nth_append)
  ultimately show ?thesis
    using assms show_nat_digits [of "length s"] by (auto simp: length_headed_field_def parse_usize_show)
qed

lemma bare_mcp_identity:
  assumes "length server < usize_limit" "length tool < usize_limit"
  shows "mcp_identity_parts (mcp_identity server tool) = Some (server, tool)"
    "bare_tool_name (mcp_identity server tool) = server @ ''::'' @ tool"
proof -
  have "length_headed_field (show_nat (length server) @ CHR '':'' # server @ CHR '':'' # show_nat (length tool) @ CHR '':'' # tool)
    = Some (server, show_nat (length tool) @ CHR '':'' # tool)"
    using headed_field [OF assms(1), of "CHR '':'' # show_nat (length tool) @ CHR '':'' # tool"] by simp
  moreover have "length_headed_field (show_nat (length tool) @ CHR '':'' # tool) = Some (tool, [])"
    using headed_field [OF assms(2), of "[]"] by simp
  ultimately show parts: "mcp_identity_parts (mcp_identity server tool) = Some (server, tool)"
    by (simp add: mcp_identity_parts_def mcp_identity_def)
  show "bare_tool_name (mcp_identity server tool) = server @ ''::'' @ tool"
    by (simp add: bare_tool_name_def parts)
qed

lemma bare_native_identity:
  assumes "strip_prefix ''native::'' name = None"
  shows "bare_tool_name (native_identity name) = name"
proof -
  have "split_once (CHR '':'') (show_nat (length name) @ CHR '':'' # name) = Some (show_nat (length name), name)"
    using show_nat_digits [of "length name"] digits_no_colon by simp
  moreover have "mcp_identity_parts (native_identity name) = None"
    by (simp add: mcp_identity_parts_def native_identity_def)
  ultimately show ?thesis
    using assms show_nat_digits [of "length name"]
    by (simp add: bare_tool_name_def native_qualified_def native_identity_def)
qed

section \<open>A chained command\<close>

lemma project_short: "length (target_value t) \<le> max_target_bytes \<Longrightarrow> project_target t = target_value t"
proof -
  assume "length (target_value t) \<le> max_target_bytes"
  moreover have "cut_point v (length v) = length v" for v :: string
    by (cases "length v") (auto simp: is_char_boundary_def)
  ultimately show ?thesis by (simp add: project_target_def Let_def min_absorb1)
qed

lemma bash_request:
  assumes "bare_tool_name tool = ''bash''" "length command \<le> max_target_bytes"
  shows "new_request project tool command access =
    \<lparr>rq_project = project, rq_tool = tool, rq_target = command, rq_access = access,
     rq_outside_worktree = False, rq_subjects = command_invocations command\<rparr>"
  using assms project_short [of "Native command"]
  by (simp add: new_request_def build_request_def permission_target_kind_for_tool_def)

lemma invocation_restricts:
  assumes "bare_tool_name tool = ''bash''" "length command \<le> max_target_bytes"
    and "forms \<in> set (command_invocations command)" "form \<in> set forms" "pattern_matches m target form"
    and "d \<noteq> Allow"
  shows "target_selected_by m (new_request project tool command access) target d"
  unfolding restrictive_selects [OF assms(6)] bash_request [OF assms(1,2)] request_values_def
  using assms(3,4,5) by auto

lemma invocation_permits:
  assumes "bare_tool_name tool = ''bash''" "length command \<le> max_target_bytes"
    and "forms \<in> set (command_invocations command)" "\<not> is_exact target"
    and "target_selected_by m (new_request project tool command access) target Allow"
  shows "\<exists>form \<in> set forms. pattern_matches m target form"
  using assms(3-5) unfolding bash_request [OF assms(1,2)]
  by (auto simp: target_selected_by_def subject_selected_by_def list_all_iff list_ex_iff split: if_splits)

section \<open>A double star that is not a whole segment\<close>

text \<open>
  On a path, \<open>src**\<close> selects exactly what \<open>src*\<close> selects; the containment still takes it to
  reach across separators, and the rule written with one star counts as narrower.
\<close>

definition star_glob :: permission_pattern where
  "star_glob = Glob \<lparr>pg_pattern = ''src*'', pg_literal_separator = True\<rparr>"

definition double_star_glob :: permission_pattern where
  "double_star_glob = Glob \<lparr>pg_pattern = ''src**'', pg_literal_separator = True\<rparr>"

lemma double_star_same_calls:
  assumes "documented_globset m"
  shows "pattern_matches m double_star_glob v = pattern_matches m star_glob v"
proof -
  have "\<not> has_glob_wildcard ''src''" by (simp add: has_glob_wildcard_def backslash_def)
  from glob_star [OF assms this, of True v] glob_double_star [OF assms this, of True v]
  show ?thesis by (simp add: star_glob_def double_star_glob_def glob_matches_def separator_def)
qed

lemma double_star_counts_broader:
  "pattern_covers m double_star_glob star_glob \<and> \<not> pattern_covers m star_glob double_star_glob"
  by (simp add: pattern_covers_def star_glob_def double_star_glob_def glob_denotes_everything_def
      glob_covers_def has_glob_wildcard_def trailing_wildcard_prefix_def strip_suffix_def backslash_def)

end
