(* ===== verification/Denylist.thy ===== *)
theory Denylist
  imports Permission_Rules
begin

text \<open>
  The hard denylist (crates/agens-core/src/denylist.rs): which class of act a call is, read
  off a path or off the invocations of a command line with the working directory carried
  forward across it. Paths are texts, read into components as the standard library reads
  a Unix path; nothing here touches a file system.
\<close>

section \<open>Paths\<close>

definition path_join :: "string \<Rightarrow> string \<Rightarrow> string" where
  "path_join directory v =
     (if is_absolute v then v
      else if directory = [] \<or> last directory = separator then directory @ v
      else directory @ separator # v)"

fun resolve_component :: "component list \<Rightarrow> component \<Rightarrow> component list" where
  "resolve_component resolved CurDir = resolved"
| "resolve_component resolved ParentDir =
     (case rev resolved of Normal part # others \<Rightarrow> rev others | _ \<Rightarrow> resolved)"
| "resolve_component resolved RootDir = [RootDir]"
| "resolve_component resolved (Normal part) = resolved @ [Normal part]"

definition lexically_resolved :: "string \<Rightarrow> component list" where
  "lexically_resolved path = foldl resolve_component [] (components path)"

fun component_text :: "component \<Rightarrow> string" where
  "component_text RootDir = []"
| "component_text CurDir = ''.''"
| "component_text ParentDir = ''..''"
| "component_text (Normal part) = part"

definition path_text :: "component list \<Rightarrow> string" where
  "path_text cs = (if cs = [RootDir] then [separator] else join_with separator (map component_text cs))"

definition path_starts_with :: "component list \<Rightarrow> component list \<Rightarrow> bool" where
  "path_starts_with path base \<longleftrightarrow> take (length base) path = base"

definition file_name :: "string \<Rightarrow> string option" where
  "file_name path =
     (case rev (components path) of Normal name # others \<Rightarrow> Some name | _ \<Rightarrow> None)"

definition file_extension :: "string \<Rightarrow> string option" where
  "file_extension name =
     (case rev (split_on (CHR ''.'') name) of
        after # before # others \<Rightarrow>
          if others = [] \<and> before = [] then None else Some after
      | _ \<Rightarrow> None)"

definition extension :: "string \<Rightarrow> string option" where
  "extension path = (case file_name path of Some name \<Rightarrow> file_extension name | None \<Rightarrow> None)"

definition names_the_home_directory :: "string \<Rightarrow> bool" where
  "names_the_home_directory v \<longleftrightarrow> v = ''~'' \<or> starts_with v ''~/''"

section \<open>What a path names\<close>

datatype denylist_class =
  GitPush | DeletionOutsideWorktree | PrivilegeEscalation | SecretsAccess | IrreversibleOperation
| ServerLifecycle | OutOfScope

definition secret_directories :: "string list" where
  "secret_directories = [''.ssh'', ''.aws'', ''.gnupg'', ''.docker'']"

definition secret_names :: "string list" where
  "secret_names =
     [''.env'', ''.netrc'', ''.pgpass'', ''.npmrc'', ''id_rsa'', ''id_dsa'', ''id_ecdsa'', ''id_ed25519'',
      ''credentials'', ''secrets.json'', ''secrets.yaml'', ''secrets.yml'']"

definition secret_extensions :: "string list" where
  "secret_extensions =
     [''pem'', ''key'', ''p12'', ''pfx'', ''jks'', ''keystore'', ''tfstate'', ''tfvars'']"

fun walks_through :: "string list \<Rightarrow> component \<Rightarrow> bool" where
  "walks_through names (Normal name) = (name \<in> set names)"
| "walks_through names c = False"

definition names_a_secret :: "string \<Rightarrow> bool" where
  "names_a_secret v \<longleftrightarrow>
     list_ex (walks_through secret_directories) (components v) \<or>
     (case file_name v of
        None \<Rightarrow> False
      | Some name \<Rightarrow>
          let name = map ascii_lower name
          in name \<in> set secret_names \<or> starts_with name ''.env.'' \<or>
             (case extension v of
                Some e \<Rightarrow> map ascii_lower e \<in> set secret_extensions
              | None \<Rightarrow> False))"

definition names_a_service_unit :: "string \<Rightarrow> bool" where
  "names_a_service_unit v \<longleftrightarrow>
     (case file_name v of
        None \<Rightarrow> False
      | Some name \<Rightarrow>
          list_ex (walks_through [''systemd'', ''LaunchAgents'', ''LaunchDaemons'', ''init.d'']) (components v) \<and>
          (ends_with name ''.service'' \<or> ends_with name ''.plist'' \<or> ends_with name ''.timer''))"

section \<open>What an argument names\<close>

definition is_not_path_syntax :: "string \<Rightarrow> bool" where
  "is_not_path_syntax ch \<longleftrightarrow> is_whitespace ch \<or>
     ch \<in> set (map (\<lambda>c. [c]) ([single_quote, double_quote, backtick] @ ''()[]{};,=<>|&$*?!''))"

definition is_path_shaped :: "string \<Rightarrow> bool" where
  "is_path_shaped v \<longleftrightarrow>
     starts_with v ''/'' \<or> starts_with v ''~'' \<or> starts_with v ''./'' \<or> starts_with v ''../'' \<or> contains_text v ''/''"

definition looks_like_a_path :: "string \<Rightarrow> bool" where
  "looks_like_a_path argument \<longleftrightarrow>
     \<not> starts_with argument ''-'' \<and> \<not> list_ex is_not_path_syntax (chars argument) \<and> is_path_shaped argument"

fun split_chars :: "(string \<Rightarrow> bool) \<Rightarrow> string list \<Rightarrow> string list" where
  "split_chars P [] = [[]]"
| "split_chars P (ch # cs) =
     (if P ch then [] # split_chars P cs
      else (case split_chars P cs of [] \<Rightarrow> [ch] | p # ps \<Rightarrow> (ch @ p) # ps))"

definition trim_punctuation :: "string \<Rightarrow> string" where
  "trim_punctuation fragment = rev (dropWhile (\<lambda>c. c \<in> set ''.:,'') (rev fragment))"

definition embedded_paths :: "string \<Rightarrow> string list" where
  "embedded_paths argument =
     filter (\<lambda>fragment. 1 < length fragment \<and> is_path_shaped fragment)
       (map trim_punctuation (split_chars is_not_path_syntax (chars argument)))"

section \<open>Programs\<close>

definition privilege_escalation :: "string list" where
  "privilege_escalation = [''sudo'', ''doas'', ''su'', ''pkexec'', ''runas'']"

definition directory_programs :: "string list" where
  "directory_programs = [''cd'', ''pushd'', ''popd'']"

definition deletion_programs :: "string list" where
  "deletion_programs = [''rm'', ''rmdir'', ''unlink'', ''shred'', ''srm'']"

definition destructive_programs :: "string list" where
  "destructive_programs = [''dd'', ''mkfs'', ''wipefs'', ''fdisk'', ''parted'', ''shred'', ''srm'']"

definition service_managers :: "string list" where
  "service_managers = [''systemctl'', ''launchctl'', ''service'', ''rc-service'', ''sv'']"

definition service_lifecycle_verbs :: "string list" where
  "service_lifecycle_verbs =
     [''stop'', ''restart'', ''kill'', ''disable'', ''mask'', ''unload'', ''daemon-reload'', ''reload'']"

definition signal_programs :: "string list" where
  "signal_programs = [''kill'', ''pkill'', ''killall'', ''skill'']"

definition server_executable :: string where "server_executable = ''agens''"

definition server_lifecycle_verbs :: "string list" where
  "server_lifecycle_verbs = [''stop'', ''restart'', ''shutdown'', ''kill'']"

definition restore_programs :: "string list" where
  "restore_programs = [''pg_restore'', ''mysqlimport'', ''mongorestore'']"

definition names_a_migration :: "string \<Rightarrow> bool" where
  "names_a_migration argument \<longleftrightarrow>
     (let bare = dropWhile (\<lambda>c. c = CHR ''-'') argument
      in bare = ''migrate'' \<or> bare = ''migration'' \<or> starts_with bare ''migrate:'' \<or> starts_with bare ''db:migrate'')"

definition classify_program :: "string \<Rightarrow> string list \<Rightarrow> denylist_class option" where
  "classify_program program arguments =
     (let names = (\<lambda>v. v \<in> set arguments);
          any_of = (\<lambda>vs. list_ex (\<lambda>entry. entry \<in> set vs) arguments);
          any_contains = (\<lambda>v. list_ex (\<lambda>entry. contains_text entry v) arguments)
      in if program = ''git'' \<and> names ''push'' then Some GitPush
         else if program = server_executable \<and> any_of server_lifecycle_verbs then Some ServerLifecycle
         else if program \<in> set service_managers \<and> any_of service_lifecycle_verbs then Some ServerLifecycle
         else if program \<in> set signal_programs \<and> any_contains server_executable then Some ServerLifecycle
         else if program \<in> set destructive_programs \<or> program \<in> set restore_programs then Some IrreversibleOperation
         else if program = ''git'' \<and> (names ''reset'' \<and> names ''--hard'' \<or> names ''filter-branch'')
         then Some IrreversibleOperation
         else if program = ''terraform'' \<and> (names ''apply'' \<or> names ''destroy'') then Some IrreversibleOperation
         else if program = ''kubectl'' \<and> names ''delete'' then Some IrreversibleOperation
         else if program = ''aws'' \<and> (any_contains ''delete'' \<or> any_contains ''restore'' \<or> names ''rb'')
         then Some IrreversibleOperation
         else if names ''restore'' \<or> names ''wipe'' \<or> list_ex names_a_migration arguments
         then Some IrreversibleOperation
         else None)"

definition program_of :: "string list \<Rightarrow> string option" where
  "program_of tokens =
     map_option command_name (List.find (\<lambda>token. \<not> is_environment_assignment token) tokens)"

definition classify_embedded_statement :: "string \<Rightarrow> denylist_class option" where
  "classify_embedded_statement command =
     (let upper = map ascii_upper command;
          destroys = contains_text upper ''DROP TABLE'' \<or> contains_text upper ''DROP DATABASE'' \<or>
            contains_text upper ''DROP SCHEMA'' \<or> contains_text upper ''TRUNCATE '' \<or>
            (contains_text upper ''DELETE FROM'' \<and> \<not> contains_text upper ''WHERE'')
      in if destroys then Some IrreversibleOperation else None)"

section \<open>Directories\<close>

datatype directory_change = To string | Away

fun applied_to :: "directory_change \<Rightarrow> string \<Rightarrow> string" where
  "applied_to (To target) directory = (if is_absolute target then target else path_join directory target)"
| "applied_to Away directory = ''~''"

definition resolves_outside_the_line :: "string \<Rightarrow> bool" where
  "resolves_outside_the_line operand \<longleftrightarrow>
     starts_with operand ''~'' \<or> contains_text operand ''$'' \<or> contains_text operand [backtick]"

definition directory_change :: "string list \<Rightarrow> directory_change option" where
  "directory_change written =
     (let tokens = strip_prefixes written
      in case program_of tokens of
           None \<Rightarrow> None
         | Some program \<Rightarrow>
             if program \<notin> set directory_programs then None
             else if program = ''popd'' then Some Away
             else case List.find (\<lambda>argument. \<not> starts_with argument ''-'') (drop 1 tokens) of
                    Some operand \<Rightarrow> Some (if resolves_outside_the_line operand then Away else To operand)
                  | None \<Rightarrow> Some Away)"

section \<open>Classification\<close>

definition escapes_from :: "string \<Rightarrow> string \<Rightarrow> string \<Rightarrow> bool" where
  "escapes_from worktree directory v \<longleftrightarrow>
     (if v = [] then False
      else if names_the_home_directory v then True
      else let joined = (if is_absolute v then v else path_join directory v)
           in \<not> path_starts_with (lexically_resolved joined) (lexically_resolved worktree))"

definition escapes :: "string \<Rightarrow> string \<Rightarrow> bool" where
  "escapes worktree v = escapes_from worktree worktree v"

definition classify_path :: "string \<Rightarrow> string \<Rightarrow> denylist_class option" where
  "classify_path worktree target =
     (if names_a_secret target then Some SecretsAccess
      else if names_a_service_unit target then Some ServerLifecycle
      else if escapes worktree target then Some OutOfScope
      else None)"

definition classify_operand :: "string \<Rightarrow> string \<Rightarrow> string \<Rightarrow> string \<Rightarrow> denylist_class option" where
  "classify_operand worktree directory program operand =
     (if names_a_secret operand then Some SecretsAccess
      else if names_a_service_unit operand then Some ServerLifecycle
      else if \<not> escapes_from worktree directory operand then None
      else Some (if program \<in> set deletion_programs then DeletionOutsideWorktree else OutOfScope))"

fun find_map :: "('a \<Rightarrow> 'b option) \<Rightarrow> 'a list \<Rightarrow> 'b option" where
  "find_map f [] = None"
| "find_map f (x # xs) = (case f x of Some y \<Rightarrow> Some y | None \<Rightarrow> find_map f xs)"

definition classify_argument :: "string \<Rightarrow> string \<Rightarrow> string \<Rightarrow> string \<Rightarrow> denylist_class option" where
  "classify_argument worktree directory program argument =
     (if looks_like_a_path argument then classify_operand worktree directory program argument
      else find_map (classify_operand worktree directory program) (embedded_paths argument))"

definition classify_operands :: "string \<Rightarrow> string \<Rightarrow> string \<Rightarrow> string list \<Rightarrow> denylist_class option" where
  "classify_operands worktree directory program arguments =
     find_map (classify_argument worktree directory program)
       (filter (\<lambda>argument. \<not> starts_with argument ''-'') arguments)"

definition classify_invocation :: "string \<Rightarrow> string \<Rightarrow> string list \<Rightarrow> denylist_class option" where
  "classify_invocation worktree directory written =
     (if (case program_of written of Some program \<Rightarrow> program \<in> set privilege_escalation | None \<Rightarrow> False)
      then Some PrivilegeEscalation
      else
        let tokens = strip_prefixes written
        in case program_of tokens of
             None \<Rightarrow> None
           | Some program \<Rightarrow>
               let arguments = drop 1 tokens
               in case classify_program program arguments of
                    Some c \<Rightarrow> Some c
                  | None \<Rightarrow> classify_operands worktree directory program arguments)"

fun classify_line :: "string \<Rightarrow> string \<Rightarrow> string list list \<Rightarrow> denylist_class option" where
  "classify_line worktree directory [] = None"
| "classify_line worktree directory (tokens # rest) =
     (case classify_invocation worktree directory tokens of
        Some c \<Rightarrow> Some c
      | None \<Rightarrow>
          (case directory_change tokens of
             None \<Rightarrow> classify_line worktree directory rest
           | Some change \<Rightarrow>
               let moved = applied_to change directory
               in if escapes_from worktree directory moved then Some OutOfScope
                  else classify_line worktree (path_text (lexically_resolved moved)) rest))"

definition classify_command :: "string \<Rightarrow> string \<Rightarrow> denylist_class option" where
  "classify_command worktree command =
     (case classify_line worktree worktree (command_invocation_tokens command) of
        Some c \<Rightarrow> Some c
      | None \<Rightarrow> classify_embedded_statement command)"

definition classify :: "string \<Rightarrow> permission_request \<Rightarrow> denylist_class option" where
  "classify worktree request =
     (let tool = bare_tool_name (rq_tool request)
      in if tool = ''bash'' then classify_command worktree (rq_target request)
         else case permission_target_kind_for_tool tool of
                PathKind \<Rightarrow> classify_path worktree (rq_target request)
              | FreeFormText \<Rightarrow> None)"

definition escapes_worktree :: "string \<Rightarrow> permission_request \<Rightarrow> bool" where
  "escapes_worktree worktree request =
     (let tool = bare_tool_name (rq_tool request)
      in if tool = ''bash'' then False
         else permission_target_kind_for_tool tool = PathKind \<and> escapes worktree (rq_target request))"

end
