(* ===== verification/Denylist_Facts.thy ===== *)
theory Denylist_Facts
  imports Denylist
begin

text \<open>
  A command line the denylist lets through stays inside the worktree: the directory carried
  across its invocations never leaves it, whatever the line changes it to, and neither does
  a path an invocation names. An invocation the denylist classifies is found wherever it
  stands in a chain.
\<close>

section \<open>Resolved paths read back\<close>

definition plain_part :: "string \<Rightarrow> bool" where
  "plain_part p \<longleftrightarrow> p \<noteq> [] \<and> p \<noteq> ''.'' \<and> p \<noteq> ''..'' \<and> separator \<notin> set p"

definition rooted_path :: "component list \<Rightarrow> bool" where
  "rooted_path cs \<longleftrightarrow> (\<exists>ps. cs = RootDir # map Normal ps \<and> list_all plain_part ps)"

lemma resolve_step:
  assumes "rooted_path cs" "c = ParentDir \<or> c = CurDir \<or> (\<exists>p. c = Normal p \<and> plain_part p)"
  shows "rooted_path (resolve_component cs c)"
proof -
  obtain ps where cs: "cs = RootDir # map Normal ps" "list_all plain_part ps"
    using assms(1) by (auto simp: rooted_path_def)
  consider "c = CurDir" | "c = ParentDir" | p where "c = Normal p" "plain_part p" using assms(2) by blast
  then show ?thesis
  proof cases
    case 1
    then show ?thesis using assms(1) by simp
  next
    case 2
    then show ?thesis
    proof (cases ps rule: rev_cases)
      case (snoc qs q)
      then have "resolve_component cs c = RootDir # map Normal qs" using 2 cs(1) by simp
      moreover have "list_all plain_part qs" using cs(2) snoc by simp
      ultimately show ?thesis unfolding rooted_path_def by blast
    qed (use assms(1) cs in simp)
  next
    case (3 p)
    then have "resolve_component cs c = RootDir # map Normal (ps @ [p])" "list_all plain_part (ps @ [p])"
      using cs by simp_all
    then show ?thesis unfolding rooted_path_def by blast
  qed
qed

lemma resolve_steps:
  "rooted_path cs \<Longrightarrow> \<forall>c \<in> set ds. c = ParentDir \<or> c = CurDir \<or> (\<exists>p. c = Normal p \<and> plain_part p) \<Longrightarrow>
     rooted_path (foldl resolve_component cs ds)"
  by (induction ds arbitrary: cs) (simp_all add: resolve_step)

lemma absolute_components:
  assumes "is_absolute path"
  shows "components path = RootDir # map component_of (path_parts path)"
  using assms by (simp add: components_def path_parts_def Let_def)

lemma resolved_rooted:
  assumes "is_absolute path" shows "rooted_path (lexically_resolved path)"
proof -
  have "rooted_path [RootDir]" by (auto simp: rooted_path_def intro!: exI [of _ "[]"])
  moreover have "\<forall>c \<in> set (map component_of (path_parts path)).
      c = ParentDir \<or> c = CurDir \<or> (\<exists>p. c = Normal p \<and> plain_part p)"
    using path_parts_plain by (fastforce simp: component_of_def plain_part_def)
  ultimately show ?thesis
    using resolve_steps [of "[RootDir]" "map component_of (path_parts path)"]
    by (simp add: lexically_resolved_def absolute_components [OF assms])
qed

lemma foldl_resolve_normal: "foldl resolve_component cs (map Normal ps) = cs @ map Normal ps"
  by (induction ps arbitrary: cs) simp_all

lemma resolved_text:
  assumes "rooted_path cs"
  shows "is_absolute (path_text cs)" "lexically_resolved (path_text cs) = cs"
proof -
  obtain ps where cs: "cs = RootDir # map Normal ps" "list_all plain_part ps"
    using assms by (auto simp: rooted_path_def)
  have texts: "map (component_text \<circ> Normal) ps = ps" by (induction ps) simp_all
  have path: "path_text cs = separator # join_with separator ps"
    by (cases ps) (use texts in \<open>simp_all add: path_text_def cs(1)\<close>)
  then show abs: "is_absolute (path_text cs)" by (simp add: is_absolute_def)
  have parts: "path_parts (path_text cs) = ps"
  proof (cases "ps = []")
    case True
    then show ?thesis by (simp add: path path_parts_def)
  next
    case False
    have "split_on separator (join_with separator ps) = ps"
      by (rule split_join [OF False]) (use cs(2) in \<open>auto simp: list_all_iff plain_part_def\<close>)
    then show ?thesis
      using cs(2) by (auto simp: path path_parts_def list_all_iff plain_part_def filter_id_conv)
  qed
  have comps: "map component_of ps = map Normal ps"
    using cs(2) by (auto simp: component_of_def list_all_iff plain_part_def)
  show "lexically_resolved (path_text cs) = cs"
    unfolding lexically_resolved_def absolute_components [OF abs] parts comps
    by (simp add: foldl_resolve_normal cs(1))
qed

lemma absolute_join: "is_absolute directory \<Longrightarrow> is_absolute (path_join directory v)"
  by (cases directory) (auto simp: path_join_def is_absolute_def)

section \<open>The directory carried across a line\<close>

definition inside :: "string \<Rightarrow> string \<Rightarrow> bool" where
  "inside worktree path \<longleftrightarrow> path_starts_with (lexically_resolved path) (lexically_resolved worktree)"

fun directories :: "string \<Rightarrow> string list list \<Rightarrow> (string \<times> string list) list" where
  "directories directory [] = []"
| "directories directory (tokens # rest) =
     (directory, tokens) #
     directories (case directory_change tokens of
                    None \<Rightarrow> directory
                  | Some change \<Rightarrow> path_text (lexically_resolved (applied_to change directory))) rest"

lemma inside_self: "inside worktree worktree"
  by (simp add: inside_def path_starts_with_def)

lemma stays_inside:
  assumes "is_absolute directory" "\<not> escapes_from worktree directory v" "v \<noteq> []"
  shows "inside worktree (path_join directory v) \<and> \<not> names_the_home_directory v"
  using assms by (auto simp: escapes_from_def inside_def path_join_def Let_def split: if_splits)

lemma moved_absolute:
  assumes "is_absolute directory" "\<not> escapes_from worktree directory (applied_to change directory)"
  shows "is_absolute (applied_to change directory)"
proof (cases change)
  case (To target)
  then show ?thesis using absolute_join [OF assms(1)] by simp
next
  case Away
  then show ?thesis using assms(2) by (simp add: escapes_from_def names_the_home_directory_def)
qed

lemma line_stays_inside:
  assumes "classify_line worktree directory line = None" "is_absolute directory" "inside worktree directory"
  shows "\<forall>(d, tokens) \<in> set (directories directory line).
           is_absolute d \<and> inside worktree d \<and> classify_invocation worktree d tokens = None"
  using assms
proof (induction line arbitrary: directory)
  case (Cons tokens line)
  have here: "classify_invocation worktree directory tokens = None"
    using Cons.prems(1) by (auto split: option.splits)
  show ?case
  proof (cases "directory_change tokens")
    case None
    then show ?thesis using Cons.prems here Cons.IH [of directory] by simp
  next
    case (Some change)
    let ?moved = "applied_to change directory"
    let ?next = "path_text (lexically_resolved ?moved)"
    have stays: "\<not> escapes_from worktree directory ?moved" and rest: "classify_line worktree ?next line = None"
      using Cons.prems(1) here Some by (auto simp: Let_def split: if_splits)
    have abs: "is_absolute ?moved" using moved_absolute [OF Cons.prems(2) stays] .
    then have "?moved \<noteq> []" by (auto simp: is_absolute_def)
    then have "inside worktree ?moved"
      using stays_inside [OF Cons.prems(2) stays] abs by (simp add: path_join_def)
    moreover note reads = resolved_text [OF resolved_rooted [OF abs]]
    ultimately have "inside worktree ?next" by (simp add: inside_def)
    then show ?thesis
      using Cons.IH [OF rest reads(1)] Cons.prems here Some by simp
  qed
qed simp

section \<open>What an invocation names\<close>

definition named_paths :: "string list \<Rightarrow> string list" where
  "named_paths written =
     concat (map (\<lambda>argument. if looks_like_a_path argument then [argument] else embedded_paths argument)
       (filter (\<lambda>argument. \<not> starts_with argument ''-'') (drop 1 (strip_prefixes written))))"

lemma strip_prefixes_head:
  "strip_prefixes tokens = first # rest \<Longrightarrow> \<not> is_environment_assignment first"
  by (induction tokens rule: strip_prefixes.induct) (auto simp: Let_def split: if_splits)

lemma find_map_None: "find_map f xs = None \<longleftrightarrow> (\<forall>x \<in> set xs. f x = None)"
  by (induction xs) (auto split: option.splits)

lemma unclassified_operand:
  assumes "classify_operand worktree directory program operand = None"
  shows "\<not> names_a_secret operand \<and> \<not> names_a_service_unit operand \<and> \<not> escapes_from worktree directory operand"
  using assms by (auto simp: classify_operand_def split: if_splits)

lemma unclassified_invocation:
  assumes "classify_invocation worktree directory written = None" "operand \<in> set (named_paths written)"
  shows "\<not> names_a_secret operand \<and> \<not> names_a_service_unit operand \<and> \<not> escapes_from worktree directory operand"
proof (cases "strip_prefixes written")
  case Nil
  then show ?thesis using assms(2) by (simp add: named_paths_def)
next
  case (Cons first rest)
  have program: "program_of (first # rest) = Some (command_name first)"
    using strip_prefixes_head [OF Cons] by (simp add: program_of_def)
  have none: "classify_operands worktree directory (command_name first) rest = None"
    using assms(1) by (auto simp: classify_invocation_def program Let_def Cons split: if_splits option.splits)
  obtain argument where arg: "argument \<in> set rest" "\<not> starts_with argument ''-''"
      "operand \<in> set (if looks_like_a_path argument then [argument] else embedded_paths argument)"
    using assms(2) by (auto simp: named_paths_def Cons)
  have "classify_argument worktree directory (command_name first) argument = None"
    using none arg(1,2) by (simp add: classify_operands_def find_map_None)
  then have "classify_operand worktree directory (command_name first) operand = None"
    using arg(3) by (auto simp: classify_argument_def find_map_None split: if_splits)
  then show ?thesis by (rule unclassified_operand)
qed

lemma unclassified_command_confined:
  assumes "is_absolute worktree" "classify_command worktree command = None"
    and "(directory, written) \<in> set (directories worktree (command_invocation_tokens command))"
  shows "inside worktree directory"
    "operand \<in> set (named_paths written) \<Longrightarrow> operand \<noteq> [] \<Longrightarrow>
       inside worktree (path_join directory operand) \<and> \<not> names_the_home_directory operand \<and> \<not> names_a_secret operand"
proof -
  have "classify_line worktree worktree (command_invocation_tokens command) = None"
    using assms(2) by (auto simp: classify_command_def split: option.splits)
  from line_stays_inside [OF this assms(1) inside_self] assms(3)
  have here: "is_absolute directory" "inside worktree directory" "classify_invocation worktree directory written = None"
    by auto
  show "inside worktree directory" by (rule here(2))
  assume "operand \<in> set (named_paths written)" "operand \<noteq> []"
  then show "inside worktree (path_join directory operand) \<and> \<not> names_the_home_directory operand \<and> \<not> names_a_secret operand"
    using unclassified_invocation [OF here(3)] stays_inside [OF here(1)] by blast
qed

section \<open>An act is found wherever it stands in a chain\<close>

lemma segment_tokens_step:
  assumes "\<not> max_invocations \<le> length invs"
  shows "collect_segment_tokens (segment # rest) depth invs =
    collect_segment_tokens rest depth
      (if tokenize (trim segment) = [] then invs
       else (case shell_script (strip_prefixes (tokenize (trim segment))) of
               Some script \<Rightarrow> collect_invocation_tokens script (depth + 1) invs
             | None \<Rightarrow> invs) @ [tokenize (trim segment)])"
proof -
  have "tokenize [] = []" by (simp add: tokenize_def read_start_def)
  then show ?thesis using assms by (cases "trim segment = []") (simp_all add: collect_segment_tokens.simps Let_def)
qed

lemma tokens_collected_before:
  "\<exists>found. collect_invocation_tokens command depth invs = invs @ found"
  "\<exists>found. collect_segment_tokens segments depth invs = invs @ found"
proof (induction command depth invs and segments depth invs
    rule: collect_invocation_tokens_collect_segment_tokens.induct)
  case (1 command depth invs)
  then show ?case by (subst collect_invocation_tokens.simps) (auto split: prod.split)
next
  case (3 segment rest depth invs)
  let ?tokens = "tokenize (trim segment)"
  let ?nested = "case shell_script (strip_prefixes ?tokens) of
      Some script \<Rightarrow> collect_invocation_tokens script (depth + 1) invs | None \<Rightarrow> invs"
  show ?case
  proof (cases "max_invocations \<le> length invs")
    case True
    then show ?thesis by (simp add: collect_segment_tokens.simps)
  next
    case room: False
    show ?thesis
    proof (cases "?tokens = []")
      case True
      then show ?thesis using 3(1) [OF room refl] 3(2) [OF room refl _ refl True] segment_tokens_step [OF room]
        by (cases "trim segment = []") simp_all
    next
      case tokens: False
      then have written: "trim segment \<noteq> []" by (auto simp: tokenize_def read_start_def)
      obtain found where nested: "?nested = invs @ found"
        using 3(3) [OF room refl written refl tokens] by (cases "shell_script (strip_prefixes ?tokens)") auto
      then show ?thesis
        using 3(4) [OF room refl written refl tokens refl] tokens segment_tokens_step [OF room, of segment rest depth]
        by auto
    qed
  qed
qed simp

lemma tokens_kept: "set invs \<subseteq> set (collect_segment_tokens segments depth invs)"
  using tokens_collected_before(2) [of segments depth invs] by auto

lemma tokens_grow: "length invs \<le> length (collect_segment_tokens segments depth invs)"
  using tokens_collected_before(2) [of segments depth invs] by auto

lemma tokens_collected:
  assumes "length (collect_segment_tokens segments depth invs) < max_invocations"
    "segment \<in> set segments" "tokenize (trim segment) = written" "written \<noteq> []"
  shows "written \<in> set (collect_segment_tokens segments depth invs)"
  using assms(1,2)
proof (induction segments arbitrary: invs)
  case (Cons s rest)
  let ?tokens = "tokenize (trim s)"
  let ?nested = "case shell_script (strip_prefixes ?tokens) of
      Some script \<Rightarrow> collect_invocation_tokens script (depth + 1) invs | None \<Rightarrow> invs"
  let ?next = "if ?tokens = [] then invs else ?nested @ [?tokens]"
  have "\<not> max_invocations \<le> length invs"
    using Cons.prems(1) tokens_grow [of invs "s # rest" depth] by simp
  then have eq: "collect_segment_tokens (s # rest) depth invs = collect_segment_tokens rest depth ?next"
    by (rule segment_tokens_step)
  show ?case
  proof (cases "segment = s")
    case True
    then have "written \<in> set ?next" using assms(3,4) by simp
    then show ?thesis unfolding eq using tokens_kept by blast
  next
    case False
    then show ?thesis unfolding eq using Cons.prems unfolding eq by (intro Cons.IH) auto
  qed
qed simp

lemma classified_in_line:
  assumes "written \<in> set line" "\<And>directory. classify_invocation worktree directory written \<noteq> None"
  shows "classify_line worktree directory line \<noteq> None"
  using assms(1)
proof (induction line arbitrary: directory)
  case (Cons tokens line)
  show ?case
  proof (cases "classify_invocation worktree directory tokens")
    case None
    then have "written \<noteq> tokens" using assms(2) by metis
    then have "written \<in> set line" using Cons.prems by simp
    then show ?thesis using None Cons.IH by (auto simp: Let_def split: option.split)
  qed simp
qed simp

definition denied_program :: "string list \<Rightarrow> bool" where
  "denied_program written \<longleftrightarrow>
     (case program_of written of Some program \<Rightarrow> program \<in> set privilege_escalation | None \<Rightarrow> False) \<or>
     (case strip_prefixes written of
        first # rest \<Rightarrow> classify_program (command_name first) rest \<noteq> None
      | [] \<Rightarrow> False)"

lemma denied_program_classified:
  assumes "denied_program written" shows "classify_invocation worktree directory written \<noteq> None"
proof (cases "strip_prefixes written")
  case Nil
  then show ?thesis using assms by (auto simp: denied_program_def classify_invocation_def)
next
  case (Cons first rest)
  then have "program_of (first # rest) = Some (command_name first)"
    using strip_prefixes_head [OF Cons] by (simp add: program_of_def)
  then show ?thesis using assms Cons
    by (auto simp: denied_program_def classify_invocation_def Let_def split: option.split)
qed

lemma denied_segment_classified:
  assumes "segment \<in> set (fst (scan command)) \<union> set (snd (scan command))"
    and "denied_program (tokenize (trim segment))"
    and "length (command_invocation_tokens command) < max_invocations"
  shows "classify_command worktree command \<noteq> None"
proof -
  let ?segments = "fst (scan command) @ snd (scan command)"
  have eq: "command_invocation_tokens command = collect_segment_tokens ?segments 0 []"
    by (simp add: command_invocation_tokens_def collect_invocation_tokens.simps split: prod.split)
  have "tokenize (trim segment) \<noteq> []"
    using assms(2) by (auto simp: denied_program_def program_of_def)
  then have "tokenize (trim segment) \<in> set (command_invocation_tokens command)"
    using assms(1,3) unfolding eq by (intro tokens_collected [of _ _ _ segment]) auto
  then have "classify_line worktree worktree (command_invocation_tokens command) \<noteq> None"
    using denied_program_classified [OF assms(2)] by (rule classified_in_line)
  then show ?thesis by (auto simp: classify_command_def split: option.split)
qed

section \<open>The bound hides what follows it\<close>

lemma full_line: "max_invocations \<le> length invs \<Longrightarrow> collect_segment_tokens segments depth invs = invs"
  by (cases segments) (simp_all add: collect_segment_tokens.simps)

lemma word_read: "trim ''a'' = ''a''" "tokenize ''a'' = [''a'']" "shell_script (strip_prefixes [''a'']) = None"
  by code_simp+

lemma words_fill:
  "length invs + n \<le> max_invocations \<Longrightarrow>
     collect_segment_tokens (replicate n ''a'' @ rest) depth invs =
     collect_segment_tokens rest depth (invs @ replicate n [''a''])"
proof (induction n arbitrary: invs)
  case (Suc n)
  have "collect_segment_tokens (''a'' # replicate n ''a'' @ rest) depth invs =
      collect_segment_tokens (replicate n ''a'' @ rest) depth (invs @ [[''a'']])"
    using Suc.prems segment_tokens_step [of invs "''a''" "replicate n ''a'' @ rest" depth]
    unfolding word_read by simp
  then show ?case using Suc.prems Suc.IH [of "invs @ [[''a'']]"] by simp
qed simp

definition long_line :: string where
  "long_line = chain (replicate 64 (''a'', '';'')) ''git push''"

lemma long_line_tokens: "command_invocation_tokens long_line = replicate 64 [''a'']"
proof -
  have "plain_chain (replicate 64 (''a'', '';'')) ''git push''"
    by (simp add: plain_chain_def list_all_iff plain_byte_def operator_text_def is_separator_def single_quote_def
        double_quote_def backslash_def backtick_def newline_def)
  from scan_of_chain [OF this]
  have "scan long_line = (replicate 64 ''a'' @ [''git push''], [])"
    by (simp add: long_line_def)
  moreover have "collect_segment_tokens (replicate 64 ''a'' @ [''git push'']) 0 [] = replicate 64 [''a'']"
    using words_fill [of "[]" 64 "[''git push'']" 0] full_line [of "replicate 64 [''a'']" "[''git push'']" 0]
    by (simp add: max_invocations_def)
  ultimately show ?thesis
    by (simp add: command_invocation_tokens_def collect_invocation_tokens.simps)
qed

end
