(* ===== verification/Retained_Result.thy ===== *)
theory Retained_Result
  imports Text_Ops Json_Text
begin

text \<open>
  The result of a tool as a conversation keeps it (\<open>bound_retained_tool_result\<close> of
  crates/agens-core/src/lib.rs). The loop looks for a place to cut where the kept text and
  the marker naming what was left out fit the bound together. Not returning is the value
  \<open>None\<close>: the step back from offset 0, which the code would not survive, has no other.
\<close>

definition max_retained_bytes :: nat where "max_retained_bytes = 64 * 1024"

definition truncation_marker :: "nat \<Rightarrow> string" where
  "truncation_marker omitted_bytes =
     CHR 0x0A # CHR 0xE2 # CHR 0x80 # CHR 0xA6 #
     '' [runtime truncated; '' @ show_nat omitted_bytes @ '' bytes omitted]''"

partial_function (option) retain :: "string \<Rightarrow> nat \<Rightarrow> string option" where
  "retain content retained_end =
     (let k = cut_point content retained_end;
          marker = truncation_marker (length content - k)
      in if k + length marker \<le> max_retained_bytes then Some (take k content @ marker)
         else if k = 0 then None
         else retain content (k - 1))"

definition bound_retained_tool_result :: "string \<Rightarrow> string option" where
  "bound_retained_tool_result content =
     (if length content \<le> max_retained_bytes then Some content else retain content max_retained_bytes)"

declare retain.simps [code]

lemma length_marker: "n < 10 ^ 20 \<Longrightarrow> length (truncation_marker n) \<le> 64"
  using length_show_nat [of n 20] by (simp add: truncation_marker_def)

lemma cut_point_le: "cut_point s n \<le> n"
  using cut_point_boundary by blast

text \<open>Every place the loop passes over is one where the text and its marker do not fit.\<close>

definition fits_at :: "string \<Rightarrow> nat \<Rightarrow> bool" where
  "fits_at content k \<longleftrightarrow>
     is_char_boundary content k \<and> k + length (truncation_marker (length content - k)) \<le> max_retained_bytes"

lemma retain_returns:
  assumes "length content < 10 ^ 20"
  shows "\<exists>k. retain content e = Some (take k content @ truncation_marker (length content - k)) \<and>
           k \<le> e \<and> fits_at content k \<and> (\<forall>j. k < j \<and> j \<le> e \<longrightarrow> \<not> fits_at content j)"
proof (induction e rule: less_induct)
  case (less e)
  let ?k = "cut_point content e"
  let ?marker = "truncation_marker (length content - ?k)"
  have k: "?k \<le> e" "is_char_boundary content ?k" using cut_point_boundary by auto
  have skipped: "\<not> fits_at content j" if "?k < j" "j \<le> e" for j
    using cut_point_greatest [of content j e] that by (auto simp: fits_at_def)
  show ?case
  proof (cases "?k + length ?marker \<le> max_retained_bytes")
    case True
    then have "retain content e = Some (take ?k content @ ?marker)" by (subst retain.simps) (simp add: Let_def)
    moreover have "fits_at content ?k" using True k by (simp add: fits_at_def)
    ultimately show ?thesis using k skipped by blast
  next
    case False
    have "length ?marker \<le> 64" by (rule length_marker) (use assms in simp)
    then have pos: "?k \<noteq> 0" using False by (auto simp: max_retained_bytes_def)
    then have eq: "retain content e = retain content (?k - 1)"
      using False by (subst retain.simps) (simp add: Let_def)
    have "?k - 1 < e" using pos k(1) by simp
    then obtain k' where k': "retain content (?k - 1) = Some (take k' content @ truncation_marker (length content - k'))"
      "k' \<le> ?k - 1" "fits_at content k'" "\<forall>j. k' < j \<and> j \<le> ?k - 1 \<longrightarrow> \<not> fits_at content j"
      using less.IH by blast
    have "\<not> fits_at content j" if "k' < j" "j \<le> e" for j
    proof (cases "j \<le> ?k - 1")
      case True
      then show ?thesis using k'(4) that by blast
    next
      case False
      then have "j = ?k \<or> ?k < j" using pos by auto
      then show ?thesis using skipped that \<open>\<not> ?k + length ?marker \<le> max_retained_bytes\<close>
        by (auto simp: fits_at_def)
    qed
    then show ?thesis using k' eq k(1) by (metis diff_le_self order_trans)
  qed
qed

lemma length_kept: "fits_at content k \<Longrightarrow> length (take k content @ truncation_marker (length content - k)) \<le> max_retained_bytes"
  by (auto simp: fits_at_def)

end
