(* ===== verification/Authorization.thy ===== *)
theory Authorization
  imports Fsm Json_Text
begin

text \<open>
  Who may ask for what (crates/agens-server/src/api/authorization.rs): the table of
  operations and the principals each admits, read with refusal as its default, and the
  policy that limits which questions Praetor answers.
\<close>

datatype operation =
  CreateRun | ApprovePlan | AnswerQuestion | AuthorizeMerge | CancelRun | RetryRun | Escalate | Direct
| RequestMerge | ReclaimWorktree | Cleaning | Takeover | PauseAdmissions | Stop
| Tree | RunDetail | Inbox | Subscribe

fun operation_str :: "operation \<Rightarrow> string" where
  "operation_str CreateRun = ''create_run''"
| "operation_str ApprovePlan = ''approve_plan''"
| "operation_str AnswerQuestion = ''answer_question''"
| "operation_str AuthorizeMerge = ''authorize_merge''"
| "operation_str CancelRun = ''cancel_run''"
| "operation_str RetryRun = ''retry''"
| "operation_str Escalate = ''escalate''"
| "operation_str Direct = ''direct''"
| "operation_str RequestMerge = ''request_merge''"
| "operation_str ReclaimWorktree = ''reclaim''"
| "operation_str Cleaning = ''cleaning''"
| "operation_str Takeover = ''takeover''"
| "operation_str PauseAdmissions = ''pause_admissions''"
| "operation_str Stop = ''stop''"
| "operation_str Tree = ''tree''"
| "operation_str RunDetail = ''run_detail''"
| "operation_str Inbox = ''inbox''"
| "operation_str Subscribe = ''subscribe''"

definition user_only :: "principal list" where
  "user_only = [principal.User]"

definition user_and_praetor :: "principal list" where
  "user_and_praetor = [principal.User, principal.Praetor]"

definition operation_authorization :: "(operation \<times> principal list) list" where
  "operation_authorization =
     [(CreateRun, user_and_praetor), (ApprovePlan, user_only), (AnswerQuestion, user_and_praetor),
      (AuthorizeMerge, user_only), (CancelRun, user_and_praetor), (RetryRun, user_and_praetor),
      (Escalate, user_and_praetor), (Direct, user_and_praetor), (RequestMerge, user_and_praetor),
      (ReclaimWorktree, user_and_praetor), (Cleaning, user_only), (Takeover, user_only),
      (PauseAdmissions, user_only), (Stop, user_only), (Tree, user_and_praetor),
      (RunDetail, user_and_praetor), (Inbox, user_and_praetor), (Subscribe, user_and_praetor)]"

definition principals :: "operation \<Rightarrow> principal list" where
  "principals operation =
     (case List.find (\<lambda>entry. fst entry = operation) operation_authorization of
        Some entry \<Rightarrow> snd entry
      | None \<Rightarrow> [])"

definition admits :: "operation \<Rightarrow> principal \<Rightarrow> bool" where
  "admits operation who \<longleftrightarrow> who \<in> set (principals operation)"

definition principals_of :: "operation \<Rightarrow> string list" where
  "principals_of operation = map principal_str (principals operation)"

section \<open>Detail questions\<close>

datatype detail_refusal = IsAuthorization | OpenEnded | OutsideOptions | UnreadableOptions

fun refusal_detail :: "detail_refusal \<Rightarrow> string" where
  "refusal_detail IsAuthorization = ''an authorization is the user'' @ [CHR 0x27] @ ''s alone''"
| "refusal_detail OpenEnded =
     ''the question offered no options, so it is a decision rather than a detail''"
| "refusal_detail OutsideOptions =
     ''praetor answers within the options the question offered, and this answer is not one of them''"
| "refusal_detail UnreadableOptions =
     ''the question'' @ [CHR 0x27] @ ''s options could not be read, and an unreadable question is not a detail question''"

fun offers :: "json \<Rightarrow> string \<Rightarrow> bool" where
  "offers (JString i) answer = (i = answer)"
| "offers (JObject fs) answer = (get_str (JObject fs) ''id'' = Some answer)"
| "offers v answer = False"

definition praetor_may_answer :: "question_row \<Rightarrow> string \<Rightarrow> detail_refusal + unit" where
  "praetor_may_answer q answer =
     (if qu_kind q = Approval then Inl IsAuthorization
      else case from_str (qu_options q) of
             Some (JArray options) \<Rightarrow>
               if options = [] then Inl OpenEnded
               else if list_ex (\<lambda>v. offers v answer) options then Inr ()
               else Inl OutsideOptions
           | _ \<Rightarrow> Inl UnreadableOptions)"

section \<open>What the table says\<close>

lemmas admits_table = admits_def principals_def operation_authorization_def user_only_def user_and_praetor_def

lemma user_reaches_everything: "admits operation principal.User"
  by (cases operation) (simp_all add: admits_table)

lemma coordinator_reaches_nothing: "\<not> admits operation principal.Coordinator"
  by (cases operation) (simp_all add: admits_table)

lemma praetor_reaches:
  "admits operation principal.Praetor \<longleftrightarrow>
     operation \<notin> {ApprovePlan, AuthorizeMerge, Cleaning, Takeover, PauseAdmissions, Stop}"
  by (cases operation) (simp_all add: admits_table)

lemma praetor_answers_detail:
  "praetor_may_answer q answer = Inr () \<longleftrightarrow>
     qu_kind q \<noteq> Approval \<and>
     (\<exists>options. from_str (qu_options q) = Some (JArray options) \<and> (\<exists>v \<in> set options. offers v answer))"
  by (auto simp: praetor_may_answer_def list_ex_iff split: option.split json.split)

end
