(* ===== verification/Api_Core.thy ===== *)
theory Api_Core
  imports Authorization Run_Machine Question_Machine Worktree_Machine Effects Text_Ops
begin

text \<open>
  The service core (crates/agens-server/src/api/mod.rs and ports.rs): the control plane and
  the calls it has made through its ports, in order. A port is code the core is given at
  composition time; what it answers is an argument, which may depend on every call made
  before. An operation leaves the core it was given, changed, and an error or a result.
\<close>

section \<open>Ports\<close>

record port_error =
  pe_port :: string
  pe_detail :: string

record worktree_derivation =
  wd_branch_merged :: bool
  wd_worktree_clean :: bool
  wd_tree_hash :: string
  wd_paths_digest :: string

record repository_identity =
  ri_repo_id :: string
  ri_remote_url :: "string option"

datatype hook_policy = AllowHooks | AskHooks | DenyHooks

record worktree_request =
  wr_repository :: string
  wr_repo_id :: string
  wr_name :: string
  wr_branch :: string
  wr_start_point :: string
  wr_hooks :: hook_policy

record provisioned_worktree =
  pw_path :: string
  pw_hook_failures :: "string list"
  pw_declared_hooks :: "string list"
  pw_hooks_ran :: bool

datatype delivery_grain = ToolCall | Turn

datatype delivery_payload = AnswerPayload i64 string | Directive string | Continue

fun grain :: "delivery_payload \<Rightarrow> delivery_grain" where
  "grain (AnswerPayload question_id answer) = ToolCall"
| "grain (Directive directive) = Turn"
| "grain Continue = Turn"

record delivery =
  de_run_id :: i64
  de_payload :: delivery_payload
  de_grain :: delivery_grain

definition new_delivery :: "i64 \<Rightarrow> delivery_payload \<Rightarrow> delivery" where
  "new_delivery run_id payload = \<lparr>de_run_id = run_id, de_payload = payload, de_grain = grain payload\<rparr>"

record takeover_handle =
  th_run_id :: i64
  th_session_id :: i64

datatype stop_scope = StopRun i64 | StopRepo string | StopMachine

record event_filter =
  ef_repo_id :: "string option"
  ef_run_id :: "i64 option"
  ef_classes :: "event_class list"

record pending_hook_trust =
  ph_question_id :: i64
  ph_repo_id :: string
  ph_repository :: string
  ph_asked_at :: i64

datatype hook_trust = TrustGranted | TrustRefused | TrustUnknown | TrustUnreadable string

datatype port_call =
    SetAdmissionsPaused bool
  | QueueChanged i64
  | Derive run_row
  | Remove run_row
  | Identify string
  | Provision worktree_request
  | Enqueue delivery
  | CancelSession i64
  | TakeOver i64
  | StopSessions stop_scope
  | SubscribeFeed event_filter
  | RecordPending pending_hook_trust
  | ResolvePending i64 bool

type_synonym 'a answer = "port_call list \<Rightarrow> port_error + 'a"

record 'feed ports =
  po_set_admissions_paused :: "bool \<Rightarrow> bool answer"
  po_derive :: "run_row \<Rightarrow> worktree_derivation answer"
  po_remove :: "run_row \<Rightarrow> unit answer"
  po_identify :: "string \<Rightarrow> repository_identity answer"
  po_provision :: "worktree_request \<Rightarrow> provisioned_worktree answer"
  po_enqueue :: "delivery \<Rightarrow> unit answer"
  po_cancel :: "i64 \<Rightarrow> unit answer"
  po_take_over :: "i64 \<Rightarrow> takeover_handle answer"
  po_stop :: "stop_scope \<Rightarrow> unit answer"
  po_subscribe :: "event_filter \<Rightarrow> 'feed answer"
  po_is_pending :: "i64 \<Rightarrow> port_call list \<Rightarrow> bool"
  po_hook_trust :: "string \<Rightarrow> port_call list \<Rightarrow> hook_trust"
  po_record_pending :: "pending_hook_trust \<Rightarrow> unit answer"
  po_resolve_pending :: "i64 \<Rightarrow> bool \<Rightarrow> bool answer"

section \<open>The core and its errors\<close>

record core =
  co_db :: db
  co_calls :: "port_call list"

datatype api_error =
    Unauthorized operation principal string bool
  | Rejected rejection
  | PortFailed port_error
  | NotFound string i64
  | ApiStorage store_error

definition call :: "port_call \<Rightarrow> 'a answer \<Rightarrow> core \<Rightarrow> core \<times> (api_error + 'a)" where
  "call c answer s =
     (s\<lparr>co_calls := co_calls s @ [c]\<rparr>,
      case answer (co_calls s) of Inl e \<Rightarrow> Inl (PortFailed e) | Inr a \<Rightarrow> Inr a)"

definition notify :: "port_call \<Rightarrow> core \<Rightarrow> core" where
  "notify c s = s\<lparr>co_calls := co_calls s @ [c]\<rparr>"

definition on_machines :: "(db \<Rightarrow> db \<times> (rejection + 'a)) \<Rightarrow> core \<Rightarrow> core \<times> (api_error + 'a)" where
  "on_machines act s =
     (case act (co_db s) of
        (d, Inl e) \<Rightarrow> (s\<lparr>co_db := d\<rparr>, Inl (Rejected e))
      | (d, Inr a) \<Rightarrow> (s\<lparr>co_db := d\<rparr>, Inr a))"

definition core_load_run :: "i64 \<Rightarrow> core \<Rightarrow> core \<times> (api_error + run_row)" where
  "core_load_run run_id s = (s, ok_or (load_run (co_db s) run_id) (NotFound ''run'' run_id))"

definition core_load_question :: "i64 \<Rightarrow> core \<Rightarrow> core \<times> (api_error + question_row)" where
  "core_load_question question_id s =
     (s, ok_or (load_question (co_db s) question_id) (NotFound ''question'' question_id))"

section \<open>Authorization\<close>

fun join_texts :: "string \<Rightarrow> string list \<Rightarrow> string" where
  "join_texts sep [] = []"
| "join_texts sep [t] = t"
| "join_texts sep (t # ts) = t @ sep @ join_texts sep ts"

definition denied_entry :: "operation \<Rightarrow> principal \<Rightarrow> i64 option \<Rightarrow> i64 \<Rightarrow> string \<Rightarrow> event_row" where
  "denied_entry op who run_id now reason =
     \<lparr>ev_id = None, ev_run_id = run_id, ev_type = ''authorization_denied'', ev_class = Infra,
      ev_payload = JText (JObject
        [(''operation'', JString (operation_str op)), (''principal'', JString (principal_str who)),
         (''reason'', JString reason)]),
      ev_ts = now\<rparr>"

definition refuse ::
  "operation \<Rightarrow> principal \<Rightarrow> i64 option \<Rightarrow> i64 \<Rightarrow> string \<Rightarrow> core \<Rightarrow> core \<times> (api_error + 'a)" where
  "refuse op who run_id now reason s =
     (case journal (co_db s) [denied_entry op who run_id now reason] of
        (d, outcome) \<Rightarrow>
          (s\<lparr>co_db := d\<rparr>, Inl (Unauthorized op who reason (case outcome of Inr ids \<Rightarrow> True | Inl e \<Rightarrow> False))))"

definition authorize :: "operation \<Rightarrow> principal \<Rightarrow> i64 option \<Rightarrow> i64 \<Rightarrow> core \<Rightarrow> core \<times> (api_error + unit)" where
  "authorize op who run_id now s =
     (if admits op who then (s, Inr ())
      else refuse op who run_id now
             (''the operation admits '' @ join_texts '' and '' (principals_of op)) s)"

section \<open>What the daemon's own components report through the core\<close>

definition report_run_lifecycle ::
  "i64 \<Rightarrow> run_trigger \<Rightarrow> run_facts \<Rightarrow> db \<Rightarrow> db \<times> (rejection + (run_state, run_effect) transition_result)" where
  "report_run_lifecycle run_id trigger f d =
     apply_run d run_id trigger (f\<lparr>rf_principal := principal.Coordinator\<rparr>)"

record turn_failure =
  tf_category :: string
  tf_detail :: string
  tf_state :: "run_state option"
  tf_now :: i64

definition turn_failure_detail_max_chars :: nat where "turn_failure_detail_max_chars = 512"

definition turn_failed_entry :: "i64 \<Rightarrow> turn_failure \<Rightarrow> event_row" where
  "turn_failed_entry run_id failure =
     \<lparr>ev_id = None, ev_run_id = Some run_id, ev_type = ''turn_failed'', ev_class = Infra,
      ev_payload = JText (JObject
        [(''category'', JString (tf_category failure)),
         (''detail'', JString (concat (take turn_failure_detail_max_chars (chars (tf_detail failure))))),
         (''state'', json_opt (\<lambda>st. JString (run_state_str st)) (tf_state failure))]),
      ev_ts = tf_now failure\<rparr>"

definition journal_turn_failure :: "i64 \<Rightarrow> turn_failure \<Rightarrow> db \<Rightarrow> db \<times> (rejection + unit)" where
  "journal_turn_failure run_id failure d =
     (case journal d [turn_failed_entry run_id failure] of
        (d', Inl e) \<Rightarrow> (d', Inl e) | (d', Inr ids) \<Rightarrow> (d', Inr ()))"

end
