(* ===== verification/Team.thy ===== *)
theory Team
  imports Api_Core
begin

text \<open>
  The Team plane (crates/agens-server/src/api/team.rs): the operations that move the control
  plane, each checking the table, loading what the check on its subject needs, asking the
  state machine to move, and performing the declared effects through the ports.
\<close>

section \<open>Requests\<close>

datatype merge_authorization = Existing i64 | ForRun i64 "i64 option"

datatype cleaning_disposition = ReclaimMerged | Dispose

record answered_question =
  aq_run_id :: i64
  aq_question :: "(question_state, question_effect) transition_result"
  aq_run :: "(run_state, run_effect) transition_result option"

record merge_authorized =
  ma_question_id :: i64
  ma_run_id :: i64
  ma_grant :: "(question_state, question_effect) transition_result"

record opened_approval =
  oa_question_id :: i64
  oa_run_id :: i64
  oa_tree_hash :: string
  oa_paths_digest :: string

record admission_state =
  as_paused :: bool
  as_previously_paused :: bool

definition approval_options :: jtext where
  "approval_options = JText (JArray
     [JObject [(''id'', JString ''merge''), (''label'', JString ''merge the branch''),
        (''consequence'', JString ''the branch lands and the worktree is released'')],
      JObject [(''id'', JString ''hold''), (''label'', JString ''hold the merge''),
        (''consequence'', JString ''nothing lands and the worktree stays active'')]])"

definition hook_trust_grant :: string where "hook_trust_grant = ''trust''"

section \<open>Effects\<close>

definition announce_queued :: "(run_state, run_effect) transition_result \<Rightarrow> i64 \<Rightarrow> core \<Rightarrow> core" where
  "announce_queued outcome run_id s =
     (case applied outcome of
        Some t \<Rightarrow> if ap_to t = Queued then notify (QueueChanged run_id) s else s
      | None \<Rightarrow> s)"

definition perform_question_effects ::
  "'feed ports \<Rightarrow> (question_state, question_effect) transition_result \<Rightarrow> question_row \<Rightarrow> string \<Rightarrow> core \<Rightarrow>
   core \<times> (api_error + unit)" where
  "perform_question_effects p outcome q answer s =
     (case applied outcome of
        None \<Rightarrow> (s, Inr ())
      | Some t \<Rightarrow>
          if EnqueueForDelivery \<notin> set (ap_effects t) then (s, Inr ())
          else case qu_id q of
                 None \<Rightarrow> (s, Inl (ApiStorage (store_error.Storage ''an answered question has no id'')))
               | Some question_id \<Rightarrow>
                   let d = new_delivery (qu_run_id q) (AnswerPayload question_id answer)
                   in call (Enqueue d) (po_enqueue p d) s)"

definition apply_hook_trust :: "'feed ports \<Rightarrow> i64 \<Rightarrow> string \<Rightarrow> core \<Rightarrow> core \<times> (api_error + bool)" where
  "apply_hook_trust p question_id answer s =
     (let granted = (trim answer = hook_trust_grant)
      in call (ResolvePending question_id granted) (po_resolve_pending p question_id granted) s)"

definition resume_run_waiting_on ::
  "question_row \<Rightarrow> i64 \<Rightarrow> i64 \<Rightarrow> core \<Rightarrow> core \<times> (api_error + (run_state, run_effect) transition_result option)" where
  "resume_run_waiting_on q question_id now s =
     on_ok (core_load_run (qu_run_id q) s) (\<lambda>run s.
       if rr_state run \<noteq> AwaitingInput then (s, Inr None)
       else on_ok (on_machines (\<lambda>d. apply_run d (qu_run_id q) run_trigger.Answered
                     (default_run_facts\<lparr>rf_now := now, rf_principal := principal.Coordinator,
                        rf_answered_question_id := Some question_id\<rparr>)) s) (\<lambda>outcome s.
              (announce_queued outcome (qu_run_id q) s, Inr (Some outcome))))"

definition author_for ::
  "operation \<Rightarrow> principal \<Rightarrow> i64 option \<Rightarrow> i64 \<Rightarrow> core \<Rightarrow> core \<times> (api_error + question_author)" where
  "author_for op who run_id now s =
     (case who of
        principal.User \<Rightarrow> (s, Inr question_author.User)
      | principal.Praetor \<Rightarrow> (s, Inr question_author.Praetor)
      | principal.Coordinator \<Rightarrow>
          refuse op who run_id now ''nothing is answered anonymously, and the coordinator is not an author'' s)"

section \<open>Plans and answers\<close>

definition approve_plan ::
  "principal \<Rightarrow> i64 \<Rightarrow> i64 \<Rightarrow> core \<Rightarrow> core \<times> (api_error + (run_state, run_effect) transition_result)" where
  "approve_plan who run_id now s =
     on_ok (authorize ApprovePlan who (Some run_id) now s) (\<lambda>_ s.
     on_ok (on_machines (\<lambda>d. apply_run d run_id Approve
              (default_run_facts\<lparr>rf_now := now, rf_principal := who\<rparr>)) s) (\<lambda>outcome s.
     (announce_queued outcome run_id s, Inr outcome)))"

definition question_answer_facts :: "i64 \<Rightarrow> string \<Rightarrow> question_author \<Rightarrow> question_facts" where
  "question_answer_facts now answer author =
     \<lparr>qf_now = now, qf_answer = Some answer, qf_author = Some author, qf_merge_already_landed = False\<rparr>"

definition answer_refusal :: "'feed ports \<Rightarrow> principal \<Rightarrow> i64 \<Rightarrow> question_row \<Rightarrow> string \<Rightarrow> core \<Rightarrow> string option" where
  "answer_refusal p who question_id q answer s =
     (if qu_kind q = Approval
      then Some ''an authorization is granted through authorize_merge, not answered''
      else if who = principal.Praetor \<and> po_is_pending p question_id (co_calls s)
      then Some (''authorizing a repository'' @ [CHR 0x27] @ ''s provisioning hooks is the user'' @
                 [CHR 0x27] @ ''s alone'')
      else if who = principal.Praetor
      then (case praetor_may_answer q answer of Inl refusal \<Rightarrow> Some (refusal_detail refusal) | Inr _ \<Rightarrow> None)
      else None)"

definition answer_question ::
  "'feed ports \<Rightarrow> principal \<Rightarrow> i64 \<Rightarrow> string \<Rightarrow> i64 \<Rightarrow> core \<Rightarrow> core \<times> (api_error + answered_question)" where
  "answer_question p who question_id answer now s =
     on_ok (core_load_question question_id s) (\<lambda>q s.
     on_ok (authorize AnswerQuestion who (Some (qu_run_id q)) now s) (\<lambda>_ s.
     case answer_refusal p who question_id q answer s of
       Some reason \<Rightarrow> refuse AnswerQuestion who (Some (qu_run_id q)) now reason s
     | None \<Rightarrow>
         on_ok (author_for AnswerQuestion who (Some (qu_run_id q)) now s) (\<lambda>author s.
         on_ok (on_machines (\<lambda>d. apply_question d question_id Answer (question_answer_facts now answer author)) s)
           (\<lambda>moved s.
         on_ok (perform_question_effects p moved q answer s) (\<lambda>_ s.
         on_ok (apply_hook_trust p question_id answer s) (\<lambda>_ s.
         on_ok (resume_run_waiting_on q question_id now s) (\<lambda>run s.
         (s, Inr \<lparr>aq_run_id = qu_run_id q, aq_question = moved, aq_run = run\<rparr>))))))))"

section \<open>Merge authorizations\<close>

definition approval_row :: "i64 \<Rightarrow> worktree_derivation \<Rightarrow> i64 option \<Rightarrow> i64 \<Rightarrow> question_row" where
  "approval_row run_id v expires_at now =
     \<lparr>qu_id = None, qu_run_id = run_id, qu_kind = Approval,
      qu_blocked_decision = ''merge this run'' @ [CHR 0x27] @ ''s branch'', qu_options = approval_options,
      qu_recommendation = None, qu_answer = None, qu_author = None, qu_expires_at = expires_at,
      qu_tree_hash = Some (wd_tree_hash v), qu_paths_digest = Some (wd_paths_digest v),
      qu_state = Open, qu_created_at = now\<rparr>"

definition approval_entry ::
  "i64 \<Rightarrow> worktree_derivation \<Rightarrow> i64 option \<Rightarrow> principal \<Rightarrow> string option \<Rightarrow> i64 \<Rightarrow> event_row" where
  "approval_entry run_id v expires_at who reason now =
     \<lparr>ev_id = None, ev_run_id = Some run_id, ev_type = ''approval_requested'', ev_class = Infra,
      ev_payload = JText (JObject
        [(''tree_hash'', JString (wd_tree_hash v)), (''paths_digest'', JString (wd_paths_digest v)),
         (''expires_at'', json_opt JInt expires_at), (''requested_by'', JString (principal_str who)),
         (''reason'', json_opt JString reason)]),
      ev_ts = now\<rparr>"

definition open_approval ::
  "'feed ports \<Rightarrow> operation \<Rightarrow> principal \<Rightarrow> i64 \<Rightarrow> string option \<Rightarrow> i64 option \<Rightarrow> i64 \<Rightarrow> core \<Rightarrow>
   core \<times> (api_error + opened_approval)" where
  "open_approval p op who run_id reason expires_at now s =
     on_ok (core_load_run run_id s) (\<lambda>run s.
     on_ok (call (Derive run) (po_derive p run) s) (\<lambda>v s.
     if \<not> wd_worktree_clean v
     then refuse op who (Some run_id) now
            ''the worktree holds uncommitted work, so a receipt frozen over it would authorize a tree that does not carry it'' s
     else on_ok (on_machines (\<lambda>d. open_question d (approval_row run_id v expires_at now)
                   [approval_entry run_id v expires_at who reason now]) s) (\<lambda>question_id s.
     (s, Inr \<lparr>oa_question_id = question_id, oa_run_id = run_id, oa_tree_hash = wd_tree_hash v,
              oa_paths_digest = wd_paths_digest v\<rparr>))))"

definition request_merge ::
  "'feed ports \<Rightarrow> principal \<Rightarrow> i64 \<Rightarrow> string option \<Rightarrow> i64 option \<Rightarrow> i64 \<Rightarrow> core \<Rightarrow>
   core \<times> (api_error + opened_approval)" where
  "request_merge p who run_id reason expires_at now s =
     on_ok (authorize RequestMerge who (Some run_id) now s) (\<lambda>_ s.
     open_approval p RequestMerge who run_id reason expires_at now s)"

definition approval_to_grant ::
  "'feed ports \<Rightarrow> principal \<Rightarrow> merge_authorization \<Rightarrow> i64 \<Rightarrow> core \<Rightarrow> core \<times> (api_error + i64)" where
  "approval_to_grant p who subject now s =
     (case subject of
        Existing question_id \<Rightarrow> (s, Inr question_id)
      | ForRun run_id expires_at \<Rightarrow>
          on_ok (authorize AuthorizeMerge who (Some run_id) now s) (\<lambda>_ s.
          on_ok (open_approval p AuthorizeMerge who run_id None expires_at now s) (\<lambda>approval s.
          (s, Inr (oa_question_id approval)))))"

definition grant_refusal :: "question_row \<Rightarrow> string option" where
  "grant_refusal q =
     (if qu_kind q \<noteq> Approval then Some ''only an approval authorizes a merge''
      else if qu_tree_hash q = None \<or> qu_paths_digest q = None
      then Some ''an approval without a receipt authorizes no bytes, and the gate would compare against nothing''
      else None)"

definition authorize_merge ::
  "'feed ports \<Rightarrow> principal \<Rightarrow> merge_authorization \<Rightarrow> string \<Rightarrow> i64 \<Rightarrow> core \<Rightarrow>
   core \<times> (api_error + merge_authorized)" where
  "authorize_merge p who subject answer now s =
     on_ok (approval_to_grant p who subject now s) (\<lambda>question_id s.
     on_ok (core_load_question question_id s) (\<lambda>q s.
     on_ok (authorize AuthorizeMerge who (Some (qu_run_id q)) now s) (\<lambda>_ s.
     case grant_refusal q of
       Some reason \<Rightarrow> refuse AuthorizeMerge who (Some (qu_run_id q)) now reason s
     | None \<Rightarrow>
         on_ok (author_for AuthorizeMerge who (Some (qu_run_id q)) now s) (\<lambda>author s.
         on_ok (on_machines (\<lambda>d. apply_question d question_id Answer (question_answer_facts now answer author)) s)
           (\<lambda>granted s.
         on_ok (perform_question_effects p granted q answer s) (\<lambda>_ s.
         (s, Inr \<lparr>ma_question_id = question_id, ma_run_id = qu_run_id q, ma_grant = granted\<rparr>)))))))"

section \<open>Managing a run\<close>

definition escalation_row :: "i64 \<Rightarrow> string \<Rightarrow> jtext \<Rightarrow> string option \<Rightarrow> i64 \<Rightarrow> question_row" where
  "escalation_row run_id blocked_decision options recommendation now =
     \<lparr>qu_id = None, qu_run_id = run_id, qu_kind = Question, qu_blocked_decision = blocked_decision,
      qu_options = options, qu_recommendation = recommendation, qu_answer = None, qu_author = None,
      qu_expires_at = None, qu_tree_hash = None, qu_paths_digest = None, qu_state = Open,
      qu_created_at = now\<rparr>"

definition escalated_entry :: "i64 \<Rightarrow> principal \<Rightarrow> string \<Rightarrow> i64 \<Rightarrow> event_row" where
  "escalated_entry run_id who blocked_decision now =
     \<lparr>ev_id = None, ev_run_id = Some run_id, ev_type = ''escalated'', ev_class = Infra,
      ev_payload = JText (JObject
        [(''escalated_by'', JString (principal_str who)), (''blocked_decision'', JString blocked_decision)]),
      ev_ts = now\<rparr>"

definition escalate ::
  "principal \<Rightarrow> i64 \<Rightarrow> string \<Rightarrow> jtext \<Rightarrow> string option \<Rightarrow> i64 \<Rightarrow> core \<Rightarrow> core \<times> (api_error + i64)" where
  "escalate who run_id blocked_decision options recommendation now s =
     on_ok (authorize Escalate who (Some run_id) now s) (\<lambda>_ s.
     on_ok (core_load_run run_id s) (\<lambda>run s.
     on_machines (\<lambda>d. open_question d (escalation_row run_id blocked_decision options recommendation now)
       [escalated_entry run_id who blocked_decision now]) s))"

definition reads_directives :: "run_state \<Rightarrow> bool" where
  "reads_directives st \<longleftrightarrow> st \<in> {Queued, Running, AwaitingInput, AwaitingQuota, run_state.Interrupted}"

definition directive_entry :: "i64 \<Rightarrow> principal \<Rightarrow> string \<Rightarrow> i64 \<Rightarrow> event_row" where
  "directive_entry run_id who directive now =
     \<lparr>ev_id = None, ev_run_id = Some run_id, ev_type = ''directive_queued'', ev_class = Infra,
      ev_payload = JText (JObject
        [(''directed_by'', JString (principal_str who)), (''directive'', JString directive)]),
      ev_ts = now\<rparr>"

definition direct ::
  "'feed ports \<Rightarrow> principal \<Rightarrow> i64 \<Rightarrow> string \<Rightarrow> i64 \<Rightarrow> core \<Rightarrow> core \<times> (api_error + unit)" where
  "direct p who run_id directive now s =
     on_ok (authorize Direct who (Some run_id) now s) (\<lambda>_ s.
     on_ok (core_load_run run_id s) (\<lambda>run s.
     if \<not> reads_directives (rr_state run)
     then (s, Inl (Rejected (GuardFailed ''direct'' ''run_can_still_read'' (NeverReads (rr_state run)))))
     else
       let d = new_delivery run_id (Directive directive)
       in on_ok (call (Enqueue d) (po_enqueue p d) s) (\<lambda>_ s.
          on_ok (on_machines (\<lambda>d. journal d [directive_entry run_id who directive now]) s) (\<lambda>_ s.
          (s, Inr ())))))"

definition cancel_run ::
  "'feed ports \<Rightarrow> principal \<Rightarrow> i64 \<Rightarrow> i64 \<Rightarrow> core \<Rightarrow> core \<times> (api_error + (run_state, run_effect) transition_result)" where
  "cancel_run p who run_id now s =
     on_ok (authorize CancelRun who (Some run_id) now s) (\<lambda>_ s.
     on_ok (on_machines (\<lambda>d. apply_run d run_id Cancel
              (default_run_facts\<lparr>rf_now := now, rf_principal := who\<rparr>)) s) (\<lambda>outcome s.
     case applied outcome of
       Some t \<Rightarrow>
         if CancelImmediately \<in> set (ap_effects t)
         then on_ok (call (CancelSession run_id) (po_cancel p run_id) s) (\<lambda>_ s. (s, Inr outcome))
         else (s, Inr outcome)
     | None \<Rightarrow> (s, Inr outcome)))"

fun retry_trigger_of :: "principal \<Rightarrow> retry_trigger" where
  "retry_trigger_of principal.User = retry_trigger.User"
| "retry_trigger_of principal.Praetor = retry_trigger.Praetor"
| "retry_trigger_of principal.Coordinator = retry_trigger.Coordinator"

definition retry_run ::
  "principal \<Rightarrow> i64 \<Rightarrow> string \<Rightarrow> i64 \<Rightarrow> i64 \<Rightarrow> core \<Rightarrow>
   core \<times> (api_error + (run_state, run_effect) transition_result)" where
  "retry_run who run_id guidance budget now s =
     on_ok (authorize RetryRun who (Some run_id) now s) (\<lambda>_ s.
     on_ok (on_machines (\<lambda>d. apply_run d run_id Retry
              (default_run_facts\<lparr>rf_now := now, rf_principal := who, rf_guidance := Some guidance,
                 rf_retry_trigger := Some (retry_trigger_of who), rf_retry_budget := budget\<rparr>)) s) (\<lambda>outcome s.
     (announce_queued outcome run_id s, Inr outcome)))"

section \<open>Worktrees, sessions and admission\<close>

fun cleaning_operation :: "cleaning_disposition \<Rightarrow> operation" where
  "cleaning_operation ReclaimMerged = ReclaimWorktree"
| "cleaning_operation Dispose = Cleaning"

fun cleaning_move ::
  "cleaning_disposition \<Rightarrow> worktree_derivation \<Rightarrow> bool \<Rightarrow> i64 \<Rightarrow> worktree_trigger \<times> worktree_facts" where
  "cleaning_move ReclaimMerged v confirmed now =
     (Reclaim, \<lparr>wf_now = now, wf_merge_re_derived = wd_branch_merged v,
        wf_worktree_clean = wd_worktree_clean v, wf_manual_disposition_confirmed = False\<rparr>)"
| "cleaning_move Dispose v confirmed now =
     (ManualDisposition, \<lparr>wf_now = now, wf_merge_re_derived = wd_branch_merged v,
        wf_worktree_clean = wd_worktree_clean v, wf_manual_disposition_confirmed = confirmed\<rparr>)"

definition cleaning ::
  "'feed ports \<Rightarrow> principal \<Rightarrow> i64 \<Rightarrow> cleaning_disposition \<Rightarrow> bool \<Rightarrow> i64 \<Rightarrow> core \<Rightarrow>
   core \<times> (api_error + (worktree_status, worktree_effect) transition_result)" where
  "cleaning p who run_id disposition confirmed now s =
     on_ok (authorize (cleaning_operation disposition) who (Some run_id) now s) (\<lambda>_ s.
     on_ok (core_load_run run_id s) (\<lambda>run s.
     on_ok (call (Derive run) (po_derive p run) s) (\<lambda>v s.
     case cleaning_move disposition v confirmed now of
       (trigger, facts) \<Rightarrow>
         on_ok (on_machines (\<lambda>d. apply_worktree d run_id trigger facts) s) (\<lambda>outcome s.
         case applied outcome of
           Some t \<Rightarrow>
             if RemoveWorktreeDirectory \<in> set (ap_effects t)
             then on_ok (call (Remove run) (po_remove p run) s) (\<lambda>_ s. (s, Inr outcome))
             else (s, Inr outcome)
         | None \<Rightarrow> (s, Inr outcome)))))"

definition takeover :: "'feed ports \<Rightarrow> principal \<Rightarrow> i64 \<Rightarrow> i64 \<Rightarrow> core \<Rightarrow> core \<times> (api_error + takeover_handle)" where
  "takeover p who run_id now s =
     on_ok (authorize Takeover who (Some run_id) now s) (\<lambda>_ s.
     call (TakeOver run_id) (po_take_over p run_id) s)"

definition pause_admissions :: "'feed ports \<Rightarrow> principal \<Rightarrow> bool \<Rightarrow> i64 \<Rightarrow> core \<Rightarrow> core \<times> (api_error + admission_state)" where
  "pause_admissions p who paused now s =
     on_ok (authorize PauseAdmissions who None now s) (\<lambda>_ s.
     on_ok (call (SetAdmissionsPaused paused) (po_set_admissions_paused p paused) s) (\<lambda>previously s.
     (s, Inr \<lparr>as_paused = paused, as_previously_paused = previously\<rparr>)))"

definition stop :: "'feed ports \<Rightarrow> principal \<Rightarrow> stop_scope \<Rightarrow> i64 \<Rightarrow> core \<Rightarrow> core \<times> (api_error + admission_state)" where
  "stop p who reach now s =
     on_ok (authorize Stop who None now s) (\<lambda>_ s.
     on_ok (call (SetAdmissionsPaused True) (po_set_admissions_paused p True) s) (\<lambda>previously s.
     on_ok (call (StopSessions reach) (po_stop p reach) s) (\<lambda>_ s.
     (s, Inr \<lparr>as_paused = True, as_previously_paused = previously\<rparr>))))"

end
