(* ===== verification/Run_Creation.thy ===== *)
theory Run_Creation
  imports Team
begin

text \<open>
  Creating a run (crates/agens-server/src/api/runs.rs): what is decided before any disk is
  touched, the worktree, the draft, the question about the repository's hooks, and the
  roll-back of a creation that failed half way. Resolving a path on disk and the SHA-256
  digest are parameters.
\<close>

section \<open>Names\<close>

definition slug_chars :: nat where "slug_chars = 32"

fun slug_from :: "string \<Rightarrow> string list \<Rightarrow> string" where
  "slug_from s [] = s"
| "slug_from s (ch # cs) =
     (if slug_chars \<le> length s then s
      else case ch of
             [c] \<Rightarrow>
               if is_ascii_alphanumeric c then slug_from (s @ [ascii_lower c]) cs
               else if \<not> ends_with s ''-'' \<and> s \<noteq> [] then slug_from (s @ ''-'') cs
               else slug_from s cs
           | _ \<Rightarrow>
               if \<not> ends_with s ''-'' \<and> s \<noteq> [] then slug_from (s @ ''-'') cs else slug_from s cs)"

definition trim_dashes :: "string \<Rightarrow> string" where
  "trim_dashes s = rev (dropWhile (\<lambda>c. c = CHR ''-'') (rev (dropWhile (\<lambda>c. c = CHR ''-'') s)))"

definition slug :: "string \<Rightarrow> string" where
  "slug task = trim_dashes (slug_from [] (chars task))"

definition hex_digit :: "nat \<Rightarrow> char" where
  "hex_digit n = (if n < 10 then char_of (48 + n) else char_of (87 + n))"

definition hex_byte :: "char \<Rightarrow> string" where
  "hex_byte c = (let b = (of_char c :: nat) in [hex_digit (b div 16), hex_digit (b mod 16)])"

definition worktree_name :: "(string \<Rightarrow> string) \<Rightarrow> string \<Rightarrow> string \<Rightarrow> i64 \<Rightarrow> string" where
  "worktree_name sha256 task repo_id now =
     (let digest = sha256 (repo_id @ [CHR 0x1F] @ task @ [CHR 0x1F] @ show_i64 now);
          suffix = concat (map hex_byte (take 4 digest));
          words = slug task
      in if words = [] then ''run-'' @ suffix else words @ ''-'' @ suffix)"

section \<open>What is decided first\<close>

record create_request =
  cr_repo_root :: string
  cr_task :: string
  cr_scope :: string
  cr_dod :: string
  cr_external_ref :: "string option"
  cr_parent_run_id :: "i64 option"
  cr_dep_run_id :: "i64 option"
  cr_provider :: string
  cr_priority :: i64
  cr_budget_tokens :: "i64 option"
  cr_start_point :: string
  cr_now :: i64

record prepared_run =
  pr_repository :: string
  pr_repo_id :: string
  pr_remote_url :: "string option"
  pr_name :: string
  pr_branch :: string
  pr_hooks :: hook_policy

record created_run =
  cd_run_id :: i64
  cd_repo_id :: string
  cd_worktree_path :: string
  cd_hook_failures :: "string list"
  cd_hooks_ran :: bool
  cd_question :: "i64 option"

definition missing_fields :: "create_request \<Rightarrow> string list" where
  "missing_fields r =
     map fst (filter (\<lambda>(field, value). trim value = [])
       [(''a task'', cr_task r), (''a scope'', cr_scope r), (''a definition of done'', cr_dod r),
        (''a provider'', cr_provider r)])"

definition check_describable :: "principal \<Rightarrow> create_request \<Rightarrow> core \<Rightarrow> core \<times> (api_error + unit)" where
  "check_describable who r s =
     (if missing_fields r = [] then (s, Inr ())
      else refuse CreateRun who None (cr_now r)
             (''a run needs '' @ join_texts '', '' (missing_fields r)) s)"

definition admitted_repository ::
  "'feed ports \<Rightarrow> (string \<Rightarrow> string option) \<Rightarrow> principal \<Rightarrow> create_request \<Rightarrow> core \<Rightarrow>
   core \<times> (api_error + string \<times> repository_identity)" where
  "admitted_repository p canonicalize who r s =
     (case canonicalize (cr_repo_root r) of
        None \<Rightarrow> refuse CreateRun who None (cr_now r)
                  (''the checkout '' @ cr_repo_root r @ '' does not exist'') s
      | Some repository \<Rightarrow>
          (case call (Identify repository) (po_identify p repository) s of
             (s, Inr identity) \<Rightarrow> (s, Inr (repository, identity))
           | (s, Inl (PortFailed e)) \<Rightarrow>
               refuse CreateRun who None (cr_now r)
                 (''the checkout '' @ repository @ '' is not a git worktree: '' @ pe_detail e) s
           | (s, Inl e) \<Rightarrow> (s, Inl e)))"

definition unreadable_trust_entry :: "string \<Rightarrow> string \<Rightarrow> i64 \<Rightarrow> event_row" where
  "unreadable_trust_entry repo_id reason now =
     \<lparr>ev_id = None, ev_run_id = None, ev_type = ''hook_trust_unreadable'', ev_class = Infra,
      ev_payload = JText (JObject [(''repo_id'', JString repo_id), (''reason'', JString reason)]),
      ev_ts = now\<rparr>"

definition choose_hooks :: "'feed ports \<Rightarrow> principal \<Rightarrow> string \<Rightarrow> i64 \<Rightarrow> core \<Rightarrow> core \<times> hook_policy" where
  "choose_hooks p who repo_id now s =
     (if who = principal.Praetor then (s, DenyHooks)
      else case po_hook_trust p repo_id (co_calls s) of
             TrustGranted \<Rightarrow> (s, AllowHooks)
           | TrustRefused \<Rightarrow> (s, DenyHooks)
           | TrustUnknown \<Rightarrow> (s, AskHooks)
           | TrustUnreadable failure \<Rightarrow>
               (s\<lparr>co_db := fst (journal (co_db s) [unreadable_trust_entry repo_id failure now])\<rparr>, DenyHooks))"

definition prepare_run ::
  "'feed ports \<Rightarrow> (string \<Rightarrow> string option) \<Rightarrow> (string \<Rightarrow> string) \<Rightarrow> principal \<Rightarrow> create_request \<Rightarrow> core \<Rightarrow>
   core \<times> (api_error + prepared_run)" where
  "prepare_run p canonicalize sha256 who r s =
     on_ok (authorize CreateRun who None (cr_now r) s) (\<lambda>_ s.
     on_ok (check_describable who r s) (\<lambda>_ s.
     on_ok (admitted_repository p canonicalize who r s) (\<lambda>(repository, identity) s.
     let name = worktree_name sha256 (cr_task r) (ri_repo_id identity) (cr_now r)
     in case choose_hooks p who (ri_repo_id identity) (cr_now r) s of
          (s, hooks) \<Rightarrow>
            (s, Inr \<lparr>pr_repository = repository, pr_repo_id = ri_repo_id identity,
                     pr_remote_url = ri_remote_url identity, pr_name = name,
                     pr_branch = ''agens/'' @ name, pr_hooks = hooks\<rparr>))))"

definition worktree_request_of :: "prepared_run \<Rightarrow> string \<Rightarrow> worktree_request" where
  "worktree_request_of prepared start_point =
     \<lparr>wr_repository = pr_repository prepared, wr_repo_id = pr_repo_id prepared, wr_name = pr_name prepared,
      wr_branch = pr_branch prepared, wr_start_point = start_point, wr_hooks = pr_hooks prepared\<rparr>"

section \<open>The row, the question and the journal\<close>

definition plural_hooks :: "nat \<Rightarrow> string" where
  "plural_hooks n =
     (if n = 1 then ''one provisioning hook'' else show_nat n @ '' provisioning hooks'')"

definition hook_recommendation :: "prepared_run \<Rightarrow> provisioned_worktree \<Rightarrow> string" where
  "hook_recommendation prepared provisioned =
     pr_repository prepared @ '' declares '' @ plural_hooks (length (pw_declared_hooks provisioned)) @
     '', which run with the daemon'' @ [CHR 0x27] @
     ''s whole environment, provider credentials included: '' @
     join_texts '', '' (pw_declared_hooks provisioned)"

definition hook_question :: "i64 \<Rightarrow> prepared_run \<Rightarrow> provisioned_worktree \<Rightarrow> i64 \<Rightarrow> question_row" where
  "hook_question run_id prepared provisioned now =
     \<lparr>qu_id = None, qu_run_id = run_id, qu_kind = Question,
      qu_blocked_decision = ''whether this repository'' @ [CHR 0x27] @
        ''s provisioning hooks may run with the daemon'' @ [CHR 0x27] @ ''s environment'',
      qu_options = JText (JArray [JString hook_trust_grant, JString ''refuse'']),
      qu_recommendation = Some (hook_recommendation prepared provisioned), qu_answer = None,
      qu_author = None, qu_expires_at = None, qu_tree_hash = None, qu_paths_digest = None,
      qu_state = Open, qu_created_at = now\<rparr>"

definition void_facts :: "i64 \<Rightarrow> question_facts" where
  "void_facts now =
     \<lparr>qf_now = now, qf_answer = None, qf_author = None, qf_merge_already_landed = False\<rparr>"

definition ask_about_hooks ::
  "'feed ports \<Rightarrow> i64 \<Rightarrow> prepared_run \<Rightarrow> provisioned_worktree \<Rightarrow> i64 \<Rightarrow> core \<Rightarrow> core \<times> (api_error + i64 option)" where
  "ask_about_hooks p run_id prepared provisioned now s =
     (if pr_hooks prepared \<noteq> AskHooks \<or> pw_declared_hooks provisioned = [] then (s, Inr None)
      else
        on_ok (on_machines (\<lambda>d. open_question d (hook_question run_id prepared provisioned now) []) s)
          (\<lambda>question_id s.
            let pending = \<lparr>ph_question_id = question_id, ph_repo_id = pr_repo_id prepared,
                           ph_repository = pr_repository prepared, ph_asked_at = now\<rparr>
            in case call (RecordPending pending) (po_record_pending p pending) s of
                 (s, Inr _) \<Rightarrow> (s, Inr (Some question_id))
               | (s, Inl e) \<Rightarrow>
                   (s\<lparr>co_db := fst (apply_question (co_db s) question_id Void (void_facts now))\<rparr>, Inl e)))"

definition draft_row :: "create_request \<Rightarrow> prepared_run \<Rightarrow> provisioned_worktree \<Rightarrow> run_row" where
  "draft_row r prepared provisioned =
     \<lparr>rr_id = None, rr_repo_id = pr_repo_id prepared, rr_repo_root = pr_repository prepared,
      rr_remote_url = pr_remote_url prepared, rr_external_ref = cr_external_ref r,
      rr_parent_run_id = cr_parent_run_id r, rr_task = cr_task r, rr_scope = cr_scope r, rr_dod = cr_dod r,
      rr_genesis_paths = None, rr_state = Draft, rr_priority = cr_priority r,
      rr_dep_run_id = cr_dep_run_id r, rr_provider = cr_provider r, rr_budget_tokens = cr_budget_tokens r,
      rr_worktree_path = Some (pw_path provisioned), rr_worktree_status = Some Active,
      rr_created_at = cr_now r, rr_result = None\<rparr>"

definition discard_facts :: "i64 \<Rightarrow> run_facts" where
  "discard_facts now = default_run_facts\<lparr>rf_now := now, rf_principal := principal.Coordinator\<rparr>"

definition disposal_facts :: "i64 \<Rightarrow> worktree_facts" where
  "disposal_facts now =
     \<lparr>wf_now = now, wf_merge_re_derived = False, wf_worktree_clean = False,
      wf_manual_disposition_confirmed = True\<rparr>"

definition discard_created_run :: "'feed ports \<Rightarrow> i64 \<Rightarrow> run_row \<Rightarrow> i64 \<Rightarrow> core \<Rightarrow> core" where
  "discard_created_run p run_id row now s =
     (let s1 = fst (call (Remove row) (po_remove p row) s);
          d1 = fst (apply_worktree (co_db s1) run_id ManualDisposition (disposal_facts now));
          d2 = fst (apply_run d1 run_id Discard (discard_facts now))
      in s1\<lparr>co_db := d2\<rparr>)"

definition created_entry :: "i64 \<Rightarrow> prepared_run \<Rightarrow> provisioned_worktree \<Rightarrow> i64 option \<Rightarrow> i64 \<Rightarrow> event_row" where
  "created_entry run_id prepared provisioned question now =
     \<lparr>ev_id = None, ev_run_id = Some run_id, ev_type = ''run_created'', ev_class = Infra,
      ev_payload = JText (JObject
        [(''branch'', JString (pr_branch prepared)),
         (''hook_failures'', JArray (map JString (pw_hook_failures provisioned))),
         (''hooks_ran'', JBool (pw_hooks_ran provisioned)),
         (''declared_hooks'', JArray (map JString (pw_declared_hooks provisioned))),
         (''hook_authorization_question'', json_opt JInt question)]),
      ev_ts = now\<rparr>"

definition open_created_run ::
  "'feed ports \<Rightarrow> create_request \<Rightarrow> prepared_run \<Rightarrow> provisioned_worktree \<Rightarrow> core \<Rightarrow>
   core \<times> (api_error + created_run)" where
  "open_created_run p r prepared provisioned s =
     (let row = draft_row r prepared provisioned
      in case open_run (co_db s) row of
           (d, Inl e) \<Rightarrow>
             (fst (call (Remove row) (po_remove p row) (s\<lparr>co_db := d\<rparr>)), Inl (ApiStorage e))
         | (d, Inr run_id) \<Rightarrow>
             (case ask_about_hooks p run_id prepared provisioned (cr_now r) (s\<lparr>co_db := d\<rparr>) of
                (s, Inl e) \<Rightarrow>
                  (discard_created_run p run_id (row\<lparr>rr_id := Some run_id\<rparr>) (cr_now r) s, Inl e)
              | (s, Inr question) \<Rightarrow>
                  (s\<lparr>co_db := fst (journal (co_db s)
                       [created_entry run_id prepared provisioned question (cr_now r)])\<rparr>,
                   Inr \<lparr>cd_run_id = run_id, cd_repo_id = pr_repo_id prepared,
                        cd_worktree_path = pw_path provisioned,
                        cd_hook_failures = pw_hook_failures provisioned,
                        cd_hooks_ran = pw_hooks_ran provisioned, cd_question = question\<rparr>)))"

definition create_run ::
  "'feed ports \<Rightarrow> (string \<Rightarrow> string option) \<Rightarrow> (string \<Rightarrow> string) \<Rightarrow> principal \<Rightarrow> create_request \<Rightarrow> core \<Rightarrow>
   core \<times> (api_error + created_run)" where
  "create_run p canonicalize sha256 who r s =
     on_ok (prepare_run p canonicalize sha256 who r s) (\<lambda>prepared s.
     let request = worktree_request_of prepared (cr_start_point r)
     in on_ok (call (Provision request) (po_provision p request) s) (\<lambda>provisioned s.
        open_created_run p r prepared provisioned s))"

section \<open>A name is one path component\<close>

definition name_char :: "char \<Rightarrow> bool" where
  "name_char c \<longleftrightarrow> (let b = (of_char c :: nat) in (48 \<le> b \<and> b \<le> 57) \<or> (97 \<le> b \<and> b \<le> 122) \<or> b = 45)"

lemma name_char_lower: "is_ascii_alphanumeric c \<Longrightarrow> name_char (ascii_lower c) \<and> ascii_lower c \<noteq> CHR ''-''"
proof -
  assume "is_ascii_alphanumeric c"
  then have "name_char (ascii_lower c) \<and> (of_char (ascii_lower c) :: nat) \<noteq> 45"
    by (auto simp: is_ascii_alphanumeric_def is_ascii_alphabetic_def is_ascii_digit_def ascii_lower_def
        name_char_def Let_def)
  then show ?thesis by auto
qed

lemma name_char_dash: "name_char CHR ''-''"
  by (simp add: name_char_def)

lemma hex_digit_name: "n < 16 \<Longrightarrow> name_char (hex_digit n)"
  by (auto simp: hex_digit_def name_char_def Let_def)

lemma hex_byte_name: "list_all name_char (hex_byte c)" "length (hex_byte c) = 2"
proof -
  have "(of_char c :: nat) < 256" using mod_less_divisor [of 256 "of_char c :: nat"] by simp
  then have "(of_char c :: nat) div 16 < 16" by (simp only: less_mult_imp_div_less)
  then show "list_all name_char (hex_byte c)" by (simp add: hex_byte_def Let_def hex_digit_name)
qed (simp add: hex_byte_def Let_def)

lemma slug_from_shape:
  "list_all name_char s \<Longrightarrow> list_all name_char (slug_from s cs)"
  "length s \<le> slug_chars \<Longrightarrow> length (slug_from s cs) \<le> slug_chars"
  by (induction s cs rule: slug_from.induct)
    (auto simp: name_char_lower name_char_dash split: list.split)

lemma dropWhile_all: "list_all P s \<Longrightarrow> list_all P (dropWhile Q s)"
  by (induction s) auto

lemma slug_shape:
  "list_all name_char (slug task)" "length (slug task) \<le> slug_chars"
  "slug task \<noteq> [] \<Longrightarrow> hd (slug task) \<noteq> CHR ''-''"
proof -
  let ?t = "slug_from [] (chars task)"
  have "list_all name_char ?t" "length ?t \<le> slug_chars" using slug_from_shape [of "[]"] by auto
  moreover have "length (dropWhile Q (rev (dropWhile Q t))) \<le> length t" for Q and t :: string
    using length_dropWhile_le [of Q "rev (dropWhile Q t)"] length_dropWhile_le [of Q t] by simp
  ultimately show "list_all name_char (slug task)" "length (slug task) \<le> slug_chars"
    by (auto simp: slug_def trim_dashes_def dropWhile_all intro: order_trans)
  obtain rest where "slug task @ rest = dropWhile (\<lambda>c. c = CHR ''-'') ?t"
    using takeWhile_dropWhile_id [of "\<lambda>c. c = CHR ''-''" "rev (dropWhile (\<lambda>c. c = CHR ''-'') ?t)"]
    unfolding slug_def trim_dashes_def by (metis rev_append rev_rev_ident)
  then show "slug task \<noteq> [] \<Longrightarrow> hd (slug task) \<noteq> CHR ''-''"
    using hd_dropWhile [of "\<lambda>c. c = CHR ''-''" ?t] by (metis append_is_Nil_conv hd_append)
qed

lemma worktree_name_shape:
  "list_all name_char (worktree_name sha256 task repo_id now)"
  "length (worktree_name sha256 task repo_id now) \<le> slug_chars + 9"
  "worktree_name sha256 task repo_id now \<noteq> []" "hd (worktree_name sha256 task repo_id now) \<noteq> CHR ''-''"
proof -
  let ?suffix = "concat (map hex_byte (take 4 (sha256 (repo_id @ [CHR 0x1F] @ task @ [CHR 0x1F] @ show_i64 now))))"
  have all: "list_all name_char (concat (map hex_byte cs))" "length (concat (map hex_byte cs)) = 2 * length cs" for cs
    by (induction cs) (simp_all add: hex_byte_name)
  have name: "worktree_name sha256 task repo_id now =
      (if slug task = [] then ''run-'' @ ?suffix else slug task @ ''-'' @ ?suffix)"
    by (simp add: worktree_name_def Let_def)
  have run: "list_all name_char ''run-''" by (simp add: name_char_def)
  show "list_all name_char (worktree_name sha256 task repo_id now)"
    unfolding name using all(1) slug_shape(1) run by (simp add: name_char_dash)
  show "length (worktree_name sha256 task repo_id now) \<le> slug_chars + 9"
    unfolding name using all(2) slug_shape(2) [of task] by (simp add: slug_chars_def min_def)
  show "worktree_name sha256 task repo_id now \<noteq> []" unfolding name by simp
  show "hd (worktree_name sha256 task repo_id now) \<noteq> CHR ''-''"
    unfolding name using slug_shape(3) [of task] by simp
qed

end
