(* ===== verification/Feed.thy ===== *)
theory Feed
  imports Api_Core
begin

text \<open>
  The Feed plane (crates/agens-server/src/api/feed.rs): what the control plane looks like
  from outside. No operation here writes anything but the refusal of a principal the table
  does not admit.
\<close>

record run_summary =
  su_run_id :: i64
  su_task :: string
  su_state :: run_state
  su_priority :: i64
  su_provider :: string
  su_worktree_status :: "worktree_status option"
  su_parent_run_id :: "i64 option"
  su_external_ref :: "string option"
  su_created_at :: i64

definition summary_of :: "run_row \<Rightarrow> api_error + run_summary" where
  "summary_of run =
     (case rr_id run of
        None \<Rightarrow> Inl (ApiStorage (store_error.Storage ''a stored run has no id''))
      | Some run_id \<Rightarrow>
          Inr \<lparr>su_run_id = run_id, su_task = rr_task run, su_state = rr_state run,
               su_priority = rr_priority run, su_provider = rr_provider run,
               su_worktree_status = rr_worktree_status run, su_parent_run_id = rr_parent_run_id run,
               su_external_ref = rr_external_ref run, su_created_at = rr_created_at run\<rparr>)"

fun collect_results :: "('a \<Rightarrow> 'e + 'b) \<Rightarrow> 'a list \<Rightarrow> 'e + 'b list" where
  "collect_results f [] = Inr []"
| "collect_results f (x # xs) =
     and_then (f x) (\<lambda>y. and_then (collect_results f xs) (\<lambda>ys. Inr (y # ys)))"

record tree_snapshot =
  ts_repo_id :: string
  ts_runs :: "run_summary list"

record run_view =
  rv_run :: run_row
  rv_attempts :: "attempt_row list"
  rv_questions :: "question_row list"
  rv_findings :: "finding_row list"
  rv_events :: "event_row list"
  rv_health :: "run_health_row option"

record inbox_item =
  ii_run_id :: i64
  ii_question_id :: i64
  ii_kind :: question_kind
  ii_blocked_decision :: string
  ii_options :: jtext
  ii_recommendation :: "string option"
  ii_expires_at :: "i64 option"
  ii_created_at :: i64

record inbox_view =
  iv_repo_id :: string
  iv_items :: "inbox_item list"

definition repos :: "principal \<Rightarrow> i64 \<Rightarrow> core \<Rightarrow> core \<times> (api_error + string list)" where
  "repos who now s =
     on_ok (authorize Tree who None now s) (\<lambda>_ s. (s, Inr (run_repo_ids (co_db s))))"

definition tree :: "principal \<Rightarrow> string \<Rightarrow> i64 \<Rightarrow> core \<Rightarrow> core \<times> (api_error + tree_snapshot)" where
  "tree who repo_id now s =
     on_ok (authorize Tree who None now s) (\<lambda>_ s.
     (s, and_then (collect_results summary_of (runs_for_repo (co_db s) repo_id)) (\<lambda>runs.
           Inr \<lparr>ts_repo_id = repo_id, ts_runs = runs\<rparr>)))"

definition run_detail :: "principal \<Rightarrow> i64 \<Rightarrow> i64 \<Rightarrow> core \<Rightarrow> core \<times> (api_error + run_view)" where
  "run_detail who run_id now s =
     on_ok (authorize RunDetail who (Some run_id) now s) (\<lambda>_ s.
     on_ok (core_load_run run_id s) (\<lambda>run s.
     (s, Inr \<lparr>rv_run = run, rv_attempts = attempts_for_run (co_db s) run_id,
              rv_questions = questions_for_run (co_db s) run_id,
              rv_findings = findings_for_run (co_db s) run_id,
              rv_events = events_for_run (co_db s) run_id,
              rv_health = load_run_health (co_db s) run_id\<rparr>)))"

definition inbox_items :: "i64 \<Rightarrow> question_row \<Rightarrow> inbox_item list" where
  "inbox_items run_id q =
     (if qu_state q \<noteq> Open then []
      else case qu_id q of
             None \<Rightarrow> []
           | Some question_id \<Rightarrow>
               [\<lparr>ii_run_id = run_id, ii_question_id = question_id, ii_kind = qu_kind q,
                 ii_blocked_decision = qu_blocked_decision q, ii_options = qu_options q,
                 ii_recommendation = qu_recommendation q, ii_expires_at = qu_expires_at q,
                 ii_created_at = qu_created_at q\<rparr>])"

definition run_inbox :: "db \<Rightarrow> run_row \<Rightarrow> inbox_item list" where
  "run_inbox d run =
     (case rr_id run of
        None \<Rightarrow> []
      | Some run_id \<Rightarrow> concat (map (inbox_items run_id) (questions_for_run d run_id)))"

definition inbox :: "principal \<Rightarrow> string \<Rightarrow> i64 \<Rightarrow> core \<Rightarrow> core \<times> (api_error + inbox_view)" where
  "inbox who repo_id now s =
     on_ok (authorize Inbox who None now s) (\<lambda>_ s.
     (s, Inr \<lparr>iv_repo_id = repo_id, iv_items = concat (map (run_inbox (co_db s)) (runs_for_repo (co_db s) repo_id))\<rparr>))"

definition subscribe :: "'feed ports \<Rightarrow> principal \<Rightarrow> event_filter \<Rightarrow> i64 \<Rightarrow> core \<Rightarrow> core \<times> (api_error + 'feed)" where
  "subscribe p who wanted now s =
     on_ok (authorize Subscribe who (ef_run_id wanted) now s) (\<lambda>_ s.
     call (SubscribeFeed wanted) (po_subscribe p wanted) s)"

end
