(* ===== verification/Api_Safety.thy ===== *)
theory Api_Safety
  imports Run_Creation Feed History
begin

text \<open>
  What the in-process API guarantees, whatever the ports answer: every request writes only
  through the state machines, a principal the table does not admit moves nothing and reaches
  no port, and only the user approves a plan or a merge.
\<close>

section \<open>Requests\<close>

datatype api_request =
    CreateRequest create_request
  | ApproveRequest i64 i64
  | AnswerRequest i64 string i64
  | AuthorizeRequest merge_authorization string i64
  | CancelRequest i64 i64
  | RetryRequest i64 string i64 i64
  | EscalateRequest i64 string jtext "string option" i64
  | DirectRequest i64 string i64
  | MergeRequest i64 "string option" "i64 option" i64
  | CleanRequest i64 cleaning_disposition bool i64
  | TakeoverRequest i64 i64
  | PauseRequest bool i64
  | StopRequest stop_scope i64
  | ReposRequest i64
  | TreeRequest string i64
  | DetailRequest i64 i64
  | InboxRequest string i64
  | SubscribeRequest event_filter i64

record 'feed host =
  ho_ports :: "'feed ports"
  ho_canonicalize :: "string \<Rightarrow> string option"
  ho_sha256 :: "string \<Rightarrow> string"

definition done_with :: "core \<times> (api_error + 'a) \<Rightarrow> core \<times> (api_error + unit)" where
  "done_with m = (case m of (s, Inl e) \<Rightarrow> (s, Inl e) | (s, Inr a) \<Rightarrow> (s, Inr ()))"

fun serve :: "'feed host \<Rightarrow> principal \<Rightarrow> api_request \<Rightarrow> core \<Rightarrow> core \<times> (api_error + unit)" where
  "serve h who (CreateRequest r) s = done_with (create_run (ho_ports h) (ho_canonicalize h) (ho_sha256 h) who r s)"
| "serve h who (ApproveRequest i now) s = done_with (approve_plan who i now s)"
| "serve h who (AnswerRequest i answer now) s = done_with (answer_question (ho_ports h) who i answer now s)"
| "serve h who (AuthorizeRequest subject answer now) s = done_with (authorize_merge (ho_ports h) who subject answer now s)"
| "serve h who (CancelRequest i now) s = done_with (cancel_run (ho_ports h) who i now s)"
| "serve h who (RetryRequest i guidance budget now) s = done_with (retry_run who i guidance budget now s)"
| "serve h who (EscalateRequest i decision options advice now) s = done_with (escalate who i decision options advice now s)"
| "serve h who (DirectRequest i directive now) s = done_with (direct (ho_ports h) who i directive now s)"
| "serve h who (MergeRequest i reason expires now) s = done_with (request_merge (ho_ports h) who i reason expires now s)"
| "serve h who (CleanRequest i disposition confirmed now) s = done_with (cleaning (ho_ports h) who i disposition confirmed now s)"
| "serve h who (TakeoverRequest i now) s = done_with (takeover (ho_ports h) who i now s)"
| "serve h who (PauseRequest paused now) s = done_with (pause_admissions (ho_ports h) who paused now s)"
| "serve h who (StopRequest reach now) s = done_with (stop (ho_ports h) who reach now s)"
| "serve h who (ReposRequest now) s = done_with (repos who now s)"
| "serve h who (TreeRequest repo now) s = done_with (tree who repo now s)"
| "serve h who (DetailRequest i now) s = done_with (run_detail who i now s)"
| "serve h who (InboxRequest repo now) s = done_with (inbox who repo now s)"
| "serve h who (SubscribeRequest wanted now) s = done_with (subscribe (ho_ports h) who wanted now s)"

fun operation_of :: "api_request \<Rightarrow> operation" where
  "operation_of (CreateRequest r) = CreateRun"
| "operation_of (ApproveRequest i now) = ApprovePlan"
| "operation_of (AnswerRequest i answer now) = AnswerQuestion"
| "operation_of (AuthorizeRequest subject answer now) = AuthorizeMerge"
| "operation_of (CancelRequest i now) = CancelRun"
| "operation_of (RetryRequest i guidance budget now) = RetryRun"
| "operation_of (EscalateRequest i decision options advice now) = Escalate"
| "operation_of (DirectRequest i directive now) = Direct"
| "operation_of (MergeRequest i reason expires now) = RequestMerge"
| "operation_of (CleanRequest i disposition confirmed now) = cleaning_operation disposition"
| "operation_of (TakeoverRequest i now) = Takeover"
| "operation_of (PauseRequest paused now) = PauseAdmissions"
| "operation_of (StopRequest reach now) = Stop"
| "operation_of (ReposRequest now) = Tree"
| "operation_of (TreeRequest repo now) = Tree"
| "operation_of (DetailRequest i now) = RunDetail"
| "operation_of (InboxRequest repo now) = Inbox"
| "operation_of (SubscribeRequest wanted now) = Subscribe"

lemma fst_done_with [simp]: "fst (done_with m) = fst m"
  by (cases m; cases "snd m") (auto simp: done_with_def)

lemma done_with_simps [simp]: "done_with (s, Inl e) = (s, Inl e)" "done_with (s, Inr a) = (s, Inr ())"
  by (simp_all add: done_with_def)

section \<open>Who is not admitted moves nothing\<close>

text \<open>The question a request names, which is looked up before its principal is.\<close>

fun named_question :: "api_request \<Rightarrow> i64 option" where
  "named_question (AnswerRequest i answer now) = Some i"
| "named_question (AuthorizeRequest (Existing i) answer now) = Some i"
| "named_question request = None"

definition denied :: "operation \<Rightarrow> principal \<Rightarrow> i64 option \<Rightarrow> core \<Rightarrow> core \<times> (api_error + 'a) \<Rightarrow> bool" where
  "denied op who named s m \<longleftrightarrow>
     (\<exists>run_id now reason journaled.
        co_calls (fst m) = co_calls s \<and>
        co_db (fst m) = fst (journal (co_db s) [denied_entry op who run_id now reason]) \<and>
        snd m = Inl (Unauthorized op who reason journaled)) \<or>
     (\<exists>i. named = Some i \<and> load_question (co_db s) i = None \<and> m = (s, Inl (NotFound ''question'' i)))"

lemma refuse_denied: "denied op who named s (refuse op who run_id now reason s)"
proof -
  obtain d x where j: "journal (co_db s) [denied_entry op who run_id now reason] = (d, x)"
    by (cases "journal (co_db s) [denied_entry op who run_id now reason]")
  show ?thesis unfolding denied_def refuse_def j
    by (intro disjI1 exI [of _ run_id] exI [of _ now] exI [of _ reason]
        exI [of _ "case x of Inr ids \<Rightarrow> True | Inl e \<Rightarrow> False"]) (simp add: j)
qed

lemma on_ok_refuse: "on_ok (refuse op who run_id now reason s) k = refuse op who run_id now reason s"
  by (simp add: refuse_def split: prod.split)

lemma on_ok_assoc: "on_ok (on_ok m k) l = on_ok m (\<lambda>a s. on_ok (k a s) l)"
  by (cases m; cases "snd m") auto

lemma authorize_denied:
  assumes "\<not> admits op who" shows "denied op who named s (on_ok (authorize op who run_id now s) k)"
proof -
  have "\<exists>reason. on_ok (authorize op who run_id now s) k = refuse op who run_id now reason s"
    unfolding authorize_def by (simp only: assms if_False) (rule exI, rule on_ok_refuse)
  then show ?thesis using refuse_denied by auto
qed

lemma denied_calls: "\<not> admits op who \<Longrightarrow> co_calls (fst (on_ok (authorize op who run_id now s) k)) = co_calls s"
  using authorize_denied [of op who None s run_id now k] by (auto simp: denied_def)

lemma denied_done: "denied op who named s m \<Longrightarrow> denied op who named s (done_with m)"
  by (cases m; cases "snd m") (auto simp: denied_def)

lemma question_first_denied:
  assumes "\<And>q. denied op who (Some i) s (k q s)"
  shows "denied op who (Some i) s (on_ok (core_load_question i s) k)"
  using assms by (cases "load_question (co_db s) i") (auto simp: core_load_question_def ok_or_def denied_def)

lemma unauthorized_denied:
  assumes "\<not> admits (operation_of request) who"
  shows "denied (operation_of request) who (named_question request) s (serve h who request s)"
proof (cases request)
  case (AnswerRequest i answer now)
  then show ?thesis using assms
    by (auto simp: answer_question_def intro!: denied_done question_first_denied authorize_denied)
next
  case (AuthorizeRequest subject answer now)
  then show ?thesis using assms
  proof (cases subject)
    case (Existing i)
    then show ?thesis using assms AuthorizeRequest
      by (auto simp: authorize_merge_def approval_to_grant_def intro!: denied_done question_first_denied authorize_denied)
  next
    case (ForRun i expires)
    then show ?thesis using assms AuthorizeRequest
      by (auto simp: authorize_merge_def approval_to_grant_def on_ok_assoc intro!: denied_done authorize_denied)
  qed
qed (use assms in \<open>auto simp: create_run_def prepare_run_def approve_plan_def cancel_run_def retry_run_def escalate_def
    direct_def request_merge_def cleaning_def takeover_def pause_admissions_def stop_def repos_def tree_def
    run_detail_def inbox_def subscribe_def on_ok_assoc intro!: denied_done authorize_denied\<close>)

section \<open>What a request writes\<close>

text \<open>The operations of the control plane a principal's requests are made of.\<close>

definition permitted :: "principal \<Rightarrow> cp_op \<Rightarrow> bool" where
  "permitted who op \<longleftrightarrow>
     (case op of
        OpenRun r \<Rightarrow> rr_state r = Draft \<and> rr_result r = None
      | OpenAsk q es \<Rightarrow> fresh_question q
      | MoveRun i tr f \<Rightarrow> rf_opened_question f = None \<and>
          (tr \<in> {Cancel, Retry, run_trigger.Answered, Discard} \<or> tr = Approve \<and> who = principal.User)
      | MoveWorktree i tr f \<Rightarrow> tr \<in> {Reclaim, ManualDisposition}
      | MoveQuestion i tr f \<Rightarrow> tr = Void \<or> tr = Answer \<and> (qf_author f = Some question_author.User \<longrightarrow> who = principal.User)
      | Journal es \<Rightarrow> True
      | _ \<Rightarrow> False)"

definition acts :: "principal \<Rightarrow> core \<Rightarrow> core \<Rightarrow> bool" where
  "acts who s s' \<longleftrightarrow> (\<exists>ops. list_all (permitted who) ops \<and> co_db s' = perform_all ops (co_db s))"

lemma perform_all_append [simp]: "perform_all (ops @ more_ops) d = perform_all more_ops (perform_all ops d)"
  by (simp add: perform_all_def)

lemma acts_idle [intro]: "co_db s' = co_db s \<Longrightarrow> acts who s s'"
  unfolding acts_def by (rule exI [of _ "[]"]) simp

lemma acts_one: "permitted who op \<Longrightarrow> co_db s' = perform op (co_db s) \<Longrightarrow> acts who s s'"
  unfolding acts_def by (rule exI [of _ "[op]"]) simp

lemma acts_trans [trans]: "acts who a b \<Longrightarrow> acts who b c \<Longrightarrow> acts who a c"
  unfolding acts_def by (metis list_all_append perform_all_append)

lemma acts_on_ok:
  assumes "acts who s (fst m)" "\<And>a s1. m = (s1, Inr a) \<Longrightarrow> acts who s1 (fst (k a s1))"
  shows "acts who s (fst (on_ok m k))"
  by (rule on_ok_keeps [where P = "acts who s"]) (use assms in \<open>auto intro: acts_trans\<close>)

lemma acts_call [intro, simp]: "acts who s (fst (call c answer s))"
  by (rule acts_idle) (simp add: call_def)

lemma acts_loads [simp]:
  "acts who s (fst (core_load_run i s))" "acts who s (fst (core_load_question i s))" "acts who s s"
  by (rule acts_idle, simp add: core_load_run_def core_load_question_def)+

lemma acts_refuse [simp]: "acts who s (fst (refuse op w run_id now reason s))"
  by (rule acts_one [of _ "Journal [denied_entry op w run_id now reason]"])
    (simp_all add: permitted_def refuse_def split: prod.split)

lemma acts_authorize [simp]: "acts who s (fst (authorize op w run_id now s))"
  by (simp add: authorize_def acts_idle)

lemma acts_on_machines:
  assumes "permitted who op" "fst (act (co_db s)) = perform op (co_db s)"
  shows "acts who s (fst (on_machines act s))"
  by (rule acts_one [OF assms(1)])
    (use assms(2) in \<open>auto simp: on_machines_def split: prod.split sum.split\<close>)

lemma acts_announce [simp]: "acts who s (announce_queued outcome i s)"
  by (rule acts_idle) (simp add: announce_queued_def notify_def split: option.split)

lemma acts_effects [simp]: "acts who s (fst (perform_question_effects p outcome q answer s))"
  by (simp add: perform_question_effects_def Let_def split: option.split)

lemma acts_trust [simp]: "acts who s (fst (apply_hook_trust p i answer s))"
  by (simp add: apply_hook_trust_def Let_def)

lemma acts_author [simp]: "acts who s (fst (author_for op w run_id now s))"
  by (simp add: author_for_def split: principal.split)

lemma author_is_who:
  "author_for op who run_id now s = (s1, Inr author) \<Longrightarrow> author = question_author.User \<Longrightarrow> who = principal.User"
  by (auto simp: author_for_def refuse_def split: principal.splits prod.splits)

lemma acts_resume: "acts who s (fst (resume_run_waiting_on q i now s))"
  unfolding resume_run_waiting_on_def
  by (rule acts_on_ok, simp)
    (auto intro!: acts_on_ok acts_on_machines [where op = "MoveRun (qu_run_id q) run_trigger.Answered
        (default_run_facts\<lparr>rf_now := now, rf_principal := principal.Coordinator,
           rf_answered_question_id := Some i\<rparr>)"] simp: permitted_def default_run_facts_def)

lemma acts_answer:
  assumes "author_for op who run_id now s0 = (s1, Inr author)"
  shows "acts who s (fst (on_machines (\<lambda>d. apply_question d i Answer (question_answer_facts now answer author)) s))"
  by (rule acts_on_machines [where op = "MoveQuestion i Answer (question_answer_facts now answer author)"])
    (use author_is_who [OF assms] in \<open>auto simp: permitted_def question_answer_facts_def\<close>)

lemma acts_open_approval: "acts who s (fst (open_approval p op w run_id reason expires now s))"
  unfolding open_approval_def
  by (intro acts_on_ok; (simp; fail)?)
    (auto intro!: acts_on_ok acts_on_machines [where op = "OpenAsk (approval_row run_id v expires now)
        [approval_entry run_id v expires w reason now]" for v] simp: permitted_def approval_row_def fresh_question_def)

text \<open>One operation at a time.\<close>

lemma acts_approve: "acts who s (fst (approve_plan who i now s))"
  unfolding approve_plan_def
proof (rule acts_on_ok)
  fix a s1 assume "authorize ApprovePlan who (Some i) now s = (s1, Inr a)"
  then have "admits ApprovePlan who" by (auto simp: authorize_def refuse_def split: if_splits prod.splits)
  then have "who = principal.User" by (cases who) (simp_all add: praetor_reaches coordinator_reaches_nothing)
  then show "acts who s1 (fst (on_ok (on_machines (\<lambda>d. apply_run d i Approve
        (default_run_facts\<lparr>rf_now := now, rf_principal := who\<rparr>)) s1) (\<lambda>outcome s.
        (announce_queued outcome i s, Inr outcome))))"
    by (intro acts_on_ok acts_on_machines [where op = "MoveRun i Approve
        (default_run_facts\<lparr>rf_now := now, rf_principal := who\<rparr>)"])
      (simp_all add: permitted_def default_run_facts_def)
qed simp

lemma acts_answer_question: "acts who s (fst (answer_question p who i answer now s))"
  unfolding answer_question_def
  by (intro acts_on_ok; (simp; fail)?)
    (auto intro!: acts_on_ok acts_answer acts_resume split: option.split)

lemma acts_authorize_merge: "acts who s (fst (authorize_merge p who subject answer now s))"
proof -
  have "acts who s (fst (approval_to_grant p who subject now s))"
    by (auto simp: approval_to_grant_def intro!: acts_on_ok acts_open_approval split: merge_authorization.split)
  then show ?thesis unfolding authorize_merge_def
    by (intro acts_on_ok; (simp; fail)?) (auto intro!: acts_on_ok acts_answer split: option.split)
qed

lemma acts_cancel: "acts who s (fst (cancel_run p who i now s))"
  unfolding cancel_run_def
  by (intro acts_on_ok acts_on_machines [where op = "MoveRun i Cancel
        (default_run_facts\<lparr>rf_now := now, rf_principal := who\<rparr>)"])
    (auto simp: permitted_def default_run_facts_def intro!: acts_on_ok split: option.split)

lemma acts_retry: "acts who s (fst (retry_run who i guidance budget now s))"
  unfolding retry_run_def
  by (intro acts_on_ok acts_on_machines [where op = "MoveRun i Retry
        (default_run_facts\<lparr>rf_now := now, rf_principal := who, rf_guidance := Some guidance,
           rf_retry_trigger := Some (retry_trigger_of who), rf_retry_budget := budget\<rparr>)"])
    (auto simp: permitted_def default_run_facts_def)

lemma acts_escalate: "acts who s (fst (escalate who i decision options advice now s))"
  unfolding escalate_def
  by (intro acts_on_ok acts_on_machines [where op = "OpenAsk (escalation_row i decision options advice now)
        [escalated_entry i who decision now]"])
    (auto simp: permitted_def escalation_row_def fresh_question_def)

lemma acts_direct: "acts who s (fst (direct p who i directive now s))"
  unfolding direct_def Let_def
  by (intro acts_on_ok; (simp; fail)?)
    (auto intro!: acts_on_ok acts_on_machines [where op = "Journal [directive_entry i who directive now]"]
       simp: permitted_def)

lemma acts_request_merge: "acts who s (fst (request_merge p who i reason expires now s))"
  unfolding request_merge_def by (intro acts_on_ok acts_open_approval) simp

lemma acts_cleaning: "acts who s (fst (cleaning p who i disposition confirmed now s))"
  unfolding cleaning_def
proof (intro acts_on_ok; (simp; fail)?)
  fix s1 run s2 v s3
  obtain trigger facts where move: "cleaning_move disposition v confirmed now = (trigger, facts)" by fastforce
  then have "trigger \<in> {Reclaim, ManualDisposition}" by (cases disposition) auto
  then show "acts who s3 (fst (case cleaning_move disposition v confirmed now of (trigger, facts) \<Rightarrow>
      on_ok (on_machines (\<lambda>d. apply_worktree d i trigger facts) s3) (\<lambda>outcome s. case applied outcome of
        Some t \<Rightarrow> if RemoveWorktreeDirectory \<in> set (ap_effects t)
          then on_ok (call (Remove run) (po_remove p run) s) (\<lambda>_ s. (s, Inr outcome)) else (s, Inr outcome)
      | None \<Rightarrow> (s, Inr outcome))))"
    by (auto simp: move permitted_def split: option.split
        intro!: acts_on_ok acts_on_machines [where op = "MoveWorktree i trigger facts"])
qed

lemma acts_reads:
  "acts who s (fst (takeover p who i now s))" "acts who s (fst (pause_admissions p who paused now s))"
  "acts who s (fst (stop p who reach now s))" "acts who s (fst (repos who now s))"
  "acts who s (fst (tree who repo now s))" "acts who s (fst (run_detail who i now s))"
  "acts who s (fst (inbox who repo now s))" "acts who s (fst (subscribe p who wanted now s))"
  unfolding takeover_def pause_admissions_def stop_def repos_def tree_def run_detail_def inbox_def subscribe_def
  by (auto intro!: acts_on_ok)

lemma acts_hooks: "acts who s (fst (ask_about_hooks p i prepared provisioned now s))"
proof -
  have voided: "acts who s1 (s1\<lparr>co_db := fst (apply_question (co_db s1) q Void (void_facts now))\<rparr>)" for s1 q
    by (rule acts_one [of _ "MoveQuestion q Void (void_facts now)"]) (simp_all add: permitted_def)
  have "acts who s1 (fst (case call c answer s1 of (s, Inr _) \<Rightarrow> (s, Inr (Some q))
      | (s, Inl e) \<Rightarrow> (s\<lparr>co_db := fst (apply_question (co_db s) q Void (void_facts now))\<rparr>, Inl e)))"
    for s1 c q and answer :: "unit answer"
  proof -
    obtain s2 x where called: "call c answer s1 = (s2, x)" by fastforce
    then have "acts who s1 s2" using acts_call [of who s1 c answer] by simp
    then show ?thesis using acts_trans [OF _ voided] by (cases x) (simp_all add: called)
  qed
  then show ?thesis unfolding ask_about_hooks_def Let_def
    by (auto intro!: acts_on_ok acts_on_machines [where op = "OpenAsk (hook_question i prepared provisioned now) []"]
       simp: permitted_def hook_question_def fresh_question_def)
qed

lemma acts_discard: "acts who s (discard_created_run p i row now s)"
proof -
  let ?s1 = "fst (call (Remove row) (po_remove p row) s)"
  let ?s2 = "?s1\<lparr>co_db := fst (apply_worktree (co_db ?s1) i ManualDisposition (disposal_facts now))\<rparr>"
  have "acts who s ?s1" by simp
  also have "acts who ?s1 ?s2"
    by (rule acts_one [of _ "MoveWorktree i ManualDisposition (disposal_facts now)"]) (simp_all add: permitted_def)
  also have "acts who ?s2 (discard_created_run p i row now s)"
    by (rule acts_one [of _ "MoveRun i Discard (discard_facts now)"])
      (simp_all add: permitted_def discard_created_run_def Let_def discard_facts_def default_run_facts_def)
  finally show ?thesis .
qed

lemma acts_open_created: "acts who s (fst (open_created_run p r prepared provisioned s))"
proof -
  let ?row = "draft_row r prepared provisioned"
  obtain d x where opened: "open_run (co_db s) ?row = (d, x)" by fastforce
  have db: "acts who s (s\<lparr>co_db := d\<rparr>)"
    by (rule acts_one [of _ "OpenRun ?row"]) (simp add: permitted_def draft_row_def, simp add: opened)
  show ?thesis
  proof (cases x)
    case (Inl e)
    then show ?thesis using db acts_call acts_trans by (simp add: open_created_run_def Let_def opened)
  next
    case (Inr i)
    obtain s2 y where asked: "ask_about_hooks p i prepared provisioned (cr_now r) (s\<lparr>co_db := d\<rparr>) = (s2, y)"
      by fastforce
    have s2: "acts who s s2" using acts_trans [OF db acts_hooks] by (metis asked fst_conv)
    show ?thesis
    proof (cases y)
      case (Inl e)
      then show ?thesis using acts_trans [OF s2 acts_discard]
        by (simp add: open_created_run_def Let_def opened Inr asked)
    next
      case question: (Inr question)
      have "acts who s2 (s2\<lparr>co_db := fst (journal (co_db s2)
          [created_entry i prepared provisioned question (cr_now r)])\<rparr>)"
        by (rule acts_one [of _ "Journal [created_entry i prepared provisioned question (cr_now r)]"])
          (simp_all add: permitted_def)
      then show ?thesis using acts_trans [OF s2]
        by (simp add: open_created_run_def Let_def opened Inr asked question)
    qed
  qed
qed

lemma acts_admitted: "acts who s (fst (admitted_repository p canonicalize w r s))"
proof -
  have "acts who s s1" if "call (Identify repository) (po_identify p repository) s = (s1, x)" for repository s1 x
    using acts_call [of who s "Identify repository" "po_identify p repository"] that by simp
  then show ?thesis
    by (auto simp: admitted_repository_def split: option.split prod.split sum.split api_error.split
        intro: acts_trans [OF _ acts_refuse])
qed

lemma acts_hook_choice: "acts who s (fst (choose_hooks p w repo now s))"
  by (auto simp: choose_hooks_def permitted_def split: hook_trust.split
      intro: acts_one [of _ "Journal [unreadable_trust_entry repo failure now]" for failure])

lemma acts_prepare: "acts who s (fst (prepare_run p canonicalize sha256 w r s))"
  unfolding prepare_run_def
  by (intro acts_on_ok; (simp add: check_describable_def; fail)?)
    (auto simp: Let_def intro!: acts_on_ok acts_admitted split: prod.split,
     metis acts_hook_choice fst_conv)

lemma acts_create: "acts who s (fst (create_run p canonicalize sha256 w r s))"
  unfolding create_run_def Let_def by (intro acts_on_ok acts_prepare acts_open_created) simp

lemma serve_acts: "acts who s (fst (serve h who request s))"
  by (cases request) (simp_all add: acts_create acts_approve acts_answer_question acts_authorize_merge acts_cancel
      acts_retry acts_escalate acts_direct acts_request_merge acts_cleaning acts_reads)

section \<open>Sequences of requests\<close>

definition serve_all :: "'feed host \<Rightarrow> (principal \<times> api_request) list \<Rightarrow> core \<Rightarrow> core" where
  "serve_all h requests s = fold (\<lambda>(who, request) s. fst (serve h who request s)) requests s"

lemma serve_all_simps [simp]:
  "serve_all h [] s = s" "serve_all h ((who, request) # requests) s = serve_all h requests (fst (serve h who request s))"
  by (simp_all add: serve_all_def)

lemma permitted_admissible: "permitted who op \<Longrightarrow> admissible op"
  by (cases op) (auto simp: permitted_def admissible_def)

lemma acts_reachable: "acts who s s' \<Longrightarrow> reachable (co_db s) \<Longrightarrow> reachable (co_db s')"
  unfolding acts_def using permitted_admissible list.pred_mono_strong reachable_perform_all by metis

lemma serve_all_reachable: "reachable (co_db s) \<Longrightarrow> reachable (co_db (serve_all h requests s))"
  by (induction requests arbitrary: s) (auto simp: acts_reachable [OF serve_acts])

text \<open>What only the user gives: an approval leaves the open state, and a run leaves the draft
  for anything but a cancellation, by the user's requests alone.\<close>

definition authority_kept :: "db \<Rightarrow> db \<Rightarrow> bool" where
  "authority_kept d d' \<longleftrightarrow>
     (\<forall>q \<in> set (db_questions d'). qu_kind q = Approval \<longrightarrow> qu_state q \<noteq> Open \<longrightarrow> q \<in> set (db_questions d)) \<and>
     (\<forall>r \<in> set (db_runs d'). rr_state r \<notin> {Draft, Cancelled} \<longrightarrow>
        (\<exists>before \<in> set (db_runs d). rr_id before = rr_id r \<and> rr_state before \<notin> {Draft, Cancelled}))"

lemma authority_refl: "db_questions d' = db_questions d \<Longrightarrow> db_runs d' = db_runs d \<Longrightarrow> authority_kept d d'"
  by (auto simp: authority_kept_def)

lemma authority_trans: "authority_kept a b \<Longrightarrow> authority_kept b c \<Longrightarrow> authority_kept a c"
  unfolding authority_kept_def by metis

lemma authority_open_run:
  "rr_state r = Draft \<Longrightarrow> authority_kept d (fst (open_run d r))"
  by (rule open_run_cases [of d r]) (auto simp: authority_kept_def)

lemma authority_open_question: "fresh_question q \<Longrightarrow> authority_kept d (fst (open_question d q es))"
  by (rule open_question_cases [of d q es])
    (auto simp: authority_kept_def open_question_tables fresh_question_def)

lemma authority_worktree: "db_wf d \<Longrightarrow> authority_kept d (fst (apply_worktree d i tr f))"
  by (rule apply_worktree_cases [of d i tr f])
    (auto simp: authority_kept_def worktree_tx_tables sql_update_def)

lemma granted_by_user:
  assumes t: "t \<in> set question_transitions" "qt_kind t = Approval" "qt_trigger t \<in> {Answer, Void}"
    and guard: "check_question_guard t q f = Inr ()"
  shows "qt_trigger t = Answer" "qf_author f = Some question_author.User"
proof -
  show trigger: "qt_trigger t = Answer" using t by (auto simp: question_transitions_def)
  show "qf_author f = Some question_author.User"
    using guard approval_answer_guard [OF t(1,2) trigger]
    by (auto simp: check_question_guard_def Let_def question_guard_refused_def split: if_splits)
qed

lemma authority_question:
  assumes wf: "db_wf d" and tr: "tr = Void \<or> tr = Answer \<and> qf_author f \<noteq> Some question_author.User"
  shows "authority_kept d (fst (apply_question d i tr f))"
proof (rule apply_question_cases [of d i tr f])
  fix q t answer d' and out :: transition_outcome and a b
  assume q: "load_question d i = Some q"
    and t: "t \<in> set question_transitions" "qt_kind t = qu_kind q" "qt_trigger t = tr"
    and guard: "check_question_guard t q f = Inr ()"
    and tx: "transition_tx (question_write i q t tr f answer) d = Inr (d', out)"
    and res: "apply_question d i tr f = (d', Inr (Applied \<lparr>ap_from = qu_state q, ap_to = qt_to t,
         ap_effects = qt_effects t, ap_domain_event = qt_domain_event t,
         ap_state_changed_event_id = a, ap_domain_event_id = b,
         ap_opened_question_id = to_question_id out\<rparr>))"
  have "qu_kind q \<noteq> Approval" using granted_by_user [OF t(1) _ _ guard] t tr by auto
  then have "\<forall>x \<in> set (db_questions d). qu_id x = Some i \<longrightarrow> qu_kind x \<noteq> Approval"
    using only_question_with_id [OF wf q] by auto
  then show ?thesis
    by (cases answer)
      (auto simp: res authority_kept_def question_tx_tables [OF wf q tx] sql_update_def change_question_def)
qed (simp add: authority_refl)

lemma authority_run:
  assumes wf: "db_wf d" and tr: "tr \<in> {Cancel, Retry, run_trigger.Answered, Discard}" and f: "rf_opened_question f = None"
  shows "authority_kept d (fst (apply_run d i tr f))"
proof (rule apply_run_cases [of d i tr f])
  fix run t d' and out :: transition_outcome and a b
  assume run: "load_run d i = Some run"
    and t: "t \<in> set run_transitions" "rt_from t = rr_state run" "rt_trigger t = tr"
    and tx: "transition_tx (run_write d i run tr t f) d = Inr (d', out)"
    and res: "apply_run d i tr f = (d', Inr (Applied \<lparr>ap_from = rr_state run, ap_to = rt_to t,
         ap_effects = rt_effects t, ap_domain_event = rt_domain_event t,
         ap_state_changed_event_id = a, ap_domain_event_id = b,
         ap_opened_question_id = to_question_id out\<rparr>))"
  have "rt_to t = Cancelled \<or> rr_state run \<notin> {Draft, Cancelled}"
    using t tr by (auto simp: run_transitions_def cancellation_def)
  moreover have "\<forall>x \<in> set (db_runs d). rr_id x = Some i \<longrightarrow> x = run"
    using load_run_iff [OF wf, of i] run by (metis option.inject)
  ultimately have "\<forall>r \<in> set (db_runs d'). rr_state r \<notin> {Draft, Cancelled} \<longrightarrow>
      (\<exists>before \<in> set (db_runs d). rr_id before = rr_id r \<and> rr_state before \<notin> {Draft, Cancelled})"
    by (auto simp: run_tx_tables(1) [OF wf run tx] sql_update_def run_moved_def Let_def)
  then show ?thesis
    using moved_questions [OF wf, of i tr f] f by (auto simp: res authority_kept_def)
qed (auto simp: authority_refl)

lemma authority_step:
  assumes "db_wf d" "permitted who op" "who \<noteq> principal.User"
  shows "authority_kept d (perform op d)"
  using assms
  by (cases op) (auto simp: permitted_def authority_open_run authority_open_question authority_worktree
      authority_question authority_run authority_refl journal_tables)

lemma acts_authority:
  assumes "acts who s s'" "reachable (co_db s)" "who \<noteq> principal.User"
  shows "authority_kept (co_db s) (co_db s')"
proof -
  have "authority_kept d (perform_all ops d)" if "reachable d" "list_all (permitted who) ops" for d ops
    using that
  proof (induction ops arbitrary: d)
    case (Cons op ops)
    then have "reachable (perform op d)" by (auto intro: reachable.step permitted_admissible)
    then show ?case
      using Cons authority_step [OF reachable_db_wf _ assms(3)] by (auto intro: authority_trans)
  qed (simp add: authority_refl)
  then show ?thesis using assms by (auto simp: acts_def)
qed

lemma serve_all_authority:
  assumes "reachable (co_db s)" "\<forall>(who, request) \<in> set requests. who \<noteq> principal.User"
  shows "authority_kept (co_db s) (co_db (serve_all h requests s))"
  using assms
proof (induction requests arbitrary: s)
  case (Cons x requests)
  obtain who request where x: "x = (who, request)" by (cases x)
  have "authority_kept (co_db s) (co_db (fst (serve h who request s)))"
    using Cons.prems by (intro acts_authority [OF serve_acts]) (auto simp: x)
  moreover have "reachable (co_db (fst (serve h who request s)))"
    using Cons.prems(1) by (rule acts_reachable [OF serve_acts])
  ultimately show ?case using Cons x by (auto intro: authority_trans)
qed (simp add: authority_refl)

section \<open>Answers and directories\<close>

lemma authorize_Inr: "authorize op who run_id now s = (s1, Inr a) \<Longrightarrow> s1 = s \<and> admits op who"
  by (auto simp: authorize_def refuse_def split: if_splits prod.splits)

lemma refuse_not_Inr: "refuse op who run_id now reason s \<noteq> (s1, Inr a)"
  by (simp add: refuse_def split: prod.split)

lemma core_load_question_Inr:
  "core_load_question i s = (s1, Inr q) \<Longrightarrow> s1 = s \<and> load_question (co_db s) i = Some q"
  by (cases "load_question (co_db s) i") (auto simp: core_load_question_def ok_or_def)

lemma praetor_answers_offered:
  assumes "answer_question p principal.Praetor i answer now s = (s', Inr r)"
  shows "\<exists>q. load_question (co_db s) i = Some q \<and> qu_kind q = Question \<and>
    (\<exists>options. from_str (qu_options q) = Some (JArray options) \<and> (\<exists>v \<in> set options. offers v answer)) \<and>
    \<not> po_is_pending p i (co_calls s)"
proof -
  from assms obtain q s1 where q: "core_load_question i s = (s1, Inr q)"
    and rest: "on_ok (authorize AnswerQuestion principal.Praetor (Some (qu_run_id q)) now s1) (\<lambda>_ s.
       case answer_refusal p principal.Praetor i q answer s of
         Some reason \<Rightarrow> refuse AnswerQuestion principal.Praetor (Some (qu_run_id q)) now reason s
       | None \<Rightarrow> on_ok (author_for AnswerQuestion principal.Praetor (Some (qu_run_id q)) now s) (\<lambda>author s.
           on_ok (on_machines (\<lambda>d. apply_question d i Answer (question_answer_facts now answer author)) s) (\<lambda>moved s.
           on_ok (perform_question_effects p moved q answer s) (\<lambda>_ s.
           on_ok (apply_hook_trust p i answer s) (\<lambda>_ s.
           on_ok (resume_run_waiting_on q i now s) (\<lambda>run s.
           (s, Inr \<lparr>aq_run_id = qu_run_id q, aq_question = moved, aq_run = run\<rparr>))))))) = (s', Inr r)"
    unfolding answer_question_def by (rule on_ok_InrE) blast
  from rest obtain a s2 where "authorize AnswerQuestion principal.Praetor (Some (qu_run_id q)) now s1 = (s2, Inr a)"
    and none: "answer_refusal p principal.Praetor i q answer s2 = None"
    by (rule on_ok_InrE) (auto simp: refuse_not_Inr split: option.splits)
  then have "s2 = s" and q: "load_question (co_db s) i = Some q"
    using authorize_Inr core_load_question_Inr [OF q] by blast+
  moreover have "qu_kind q = Question" using none by (cases "qu_kind q") (auto simp: answer_refusal_def)
  moreover have "\<not> po_is_pending p i (co_calls s2)" using none by (auto simp: answer_refusal_def split: if_splits)
  moreover have "praetor_may_answer q answer = Inr ()"
    using none by (auto simp: answer_refusal_def split: if_splits sum.splits)
  ultimately show ?thesis using praetor_answers_detail by blast
qed

lemma removal_guarded:
  assumes wf: "db_wf d" and moved: "apply_worktree d i trigger f = (d', Inr outcome)"
    and out: "applied outcome = Some t" "RemoveWorktreeDirectory \<in> set (ap_effects t)"
  obtains run where "load_run d i = Some run" "load_run d' i = Some (run\<lparr>rr_worktree_status := Some Cleaned\<rparr>)"
    "trigger = Reclaim \<and> rr_worktree_status run = Some Reclaimable \<and> wf_worktree_clean f \<or>
     trigger = ManualDisposition \<and> rr_worktree_status run = Some Active \<and> wf_manual_disposition_confirmed f"
proof (rule apply_worktree_cases [of d i trigger f])
  fix run s row d'' and result :: transition_outcome and a b
  assume run: "load_run d i = Some run" "rr_worktree_status run = Some s"
    and row: "row \<in> set worktree_transitions" "wt_from row = s" "wt_trigger row = trigger"
    and guard: "check_worktree_guard row f = Inr ()"
    and tx: "transition_tx (worktree_write i run s row trigger f) d = Inr (d'', result)"
    and res: "apply_worktree d i trigger f = (d'', Inr (Applied \<lparr>ap_from = s, ap_to = wt_to row,
         ap_effects = wt_effects row, ap_domain_event = wt_domain_event row,
         ap_state_changed_event_id = a, ap_domain_event_id = b,
         ap_opened_question_id = to_question_id result\<rparr>))"
  have same: "d'' = d'" "RemoveWorktreeDirectory \<in> set (wt_effects row)" using moved res out by auto
  have to: "wt_to row = Cleaned" using row(1) same(2) by (auto simp: worktree_transitions_def)
  have "db_wf d'" using apply_worktree_wf [OF wf] moved by (metis fst_conv)
  moreover have "run\<lparr>rr_worktree_status := Some Cleaned\<rparr> \<in> set (db_runs d')" "rr_id run = Some i"
    using load_run_iff [OF wf, of i] run(1) worktree_tx_tables(1) [OF wf run tx] to same(1)
    by (auto simp: sql_update_def image_iff)
  ultimately have "load_run d' i = Some (run\<lparr>rr_worktree_status := Some Cleaned\<rparr>)"
    using load_run_iff by simp
  moreover have "trigger = Reclaim \<and> rr_worktree_status run = Some Reclaimable \<and> wf_worktree_clean f \<or>
     trigger = ManualDisposition \<and> rr_worktree_status run = Some Active \<and> wf_manual_disposition_confirmed f"
    using row run(2) guard same(2)
    by (auto simp: worktree_transitions_def check_worktree_guard_def Let_def split: if_splits)
  ultimately show ?thesis using that run(1) by blast
qed (use moved in simp)

lemma cleaning_removes:
  assumes wf: "db_wf (co_db s)" and served: "fst (cleaning p who i disposition confirmed now s) = s'"
    and removed: "Remove run \<in> set (drop (length (co_calls s)) (co_calls s'))"
  shows "load_run (co_db s) i = Some run \<and>
    load_run (co_db s') i = Some (run\<lparr>rr_worktree_status := Some Cleaned\<rparr>) \<and>
    (case disposition of
       ReclaimMerged \<Rightarrow> rr_worktree_status run = Some Reclaimable \<and>
         (\<exists>v. po_derive p run (co_calls s) = Inr v \<and> wd_worktree_clean v)
     | Dispose \<Rightarrow> rr_worktree_status run = Some Active \<and> confirmed \<and> who = principal.User)"
proof -
  have admitted: "admits (cleaning_operation disposition) who"
  proof (rule ccontr)
    assume "\<not> admits (cleaning_operation disposition) who"
    then have "co_calls s' = co_calls s"
      using served unfolding cleaning_def by (auto simp: denied_calls)
    then show False using removed by simp
  qed
  obtain run' where run': "load_run (co_db s) i = Some run'"
    using served removed by (cases "load_run (co_db s) i")
      (auto simp: cleaning_def authorize_def admitted core_load_run_def ok_or_def)
  obtain v where v: "po_derive p run' (co_calls s) = Inr v"
    using served removed by (cases "po_derive p run' (co_calls s)")
      (auto simp: cleaning_def authorize_def admitted core_load_run_def ok_or_def run' call_def)
  obtain trigger facts where move: "cleaning_move disposition v confirmed now = (trigger, facts)" by fastforce
  obtain d' x where applied: "apply_worktree (co_db s) i trigger facts = (d', x)" by fastforce
  note step = cleaning_def authorize_def admitted core_load_run_def ok_or_def run' call_def v move on_machines_def applied
  obtain outcome where outcome: "x = Inr outcome"
    using served removed by (cases x) (auto simp: step)
  obtain t where t: "applied outcome = Some t" "RemoveWorktreeDirectory \<in> set (ap_effects t)"
    using served removed by (cases "applied outcome") (auto simp: step outcome split: if_splits)
  have s': "co_db s' = d'" "co_calls s' = co_calls s @ [Derive run', Remove run']"
    using served by (auto simp: step outcome t split: sum.splits)
  have "run = run'" using removed s'(2) by simp
  moreover from move have "(disposition = ReclaimMerged \<and> trigger = Reclaim \<and> wf_worktree_clean facts = wd_worktree_clean v) \<or>
      (disposition = Dispose \<and> trigger = ManualDisposition \<and> wf_manual_disposition_confirmed facts = confirmed)"
    by (cases disposition) auto
  moreover have "disposition = Dispose \<longrightarrow> who = principal.User"
    using admitted by (cases who) (auto simp: praetor_reaches coordinator_reaches_nothing)
  ultimately show ?thesis
    using removal_guarded [OF wf applied [unfolded outcome] t] run' v s'(1)
    by (auto split: cleaning_disposition.split)
qed

end
