(* ===== verification/Run_Rollback.thy ===== *)
theory Run_Rollback
  imports Run_Creation Landing
begin

text \<open>
  A creation that fails after its draft was written is undone (api/runs.rs): the directory is
  given back, the draft is cancelled with its worktree cleaned, and the question it had
  opened is expired.
\<close>

lemma last_id_new:
  assumes "tbl_ok rid (rows @ [x])" "rid x = Some n" "r \<in> set rows" shows "rid r \<noteq> Some n"
proof
  assume "rid r = Some n"
  then have "n \<in> set (tbl_ids rid rows)" using assms(3) by (auto simp: tbl_ids_def image_iff intro!: bexI [of _ r])
  then show False using assms(1,2) by (auto simp: tbl_ok_def tbl_ids_def sorted_wrt_append)
qed

lemma update_new_row:
  assumes "tbl_ok rid (rows @ [x])" "rid x = Some n"
  shows "sql_update (\<lambda>r. rid r = Some n) f (rows @ [x]) = rows @ [f x]"
  using last_id_new [OF assms] assms(2) by (auto simp: sql_update_def intro: map_idI)

lemma opened_question_id:
  assumes tx: "transition_tx w d = Inr (d', out)" and q: "tw_new_question w = Some q"
  shows "\<exists>i. to_question_id out = Some i"
proof -
  from tx obtain d3 where "transition_rows w (write_result (tw_run_id w) (tw_result w) d3) = Inr (d', out)"
    unfolding transition_tx_def by (elim and_then_InrE)
  then obtain d5 where "write_new_question (Some q) (write_result (tw_run_id w) (tw_result w) d3) =
      Inr (d5, to_question_id out)"
    using q by (auto elim: transition_rowsE)
  then show ?thesis by (auto simp: write_new_question_def and_then_Inr_iff intro: sym)
qed

lemma draft_discarded:
  assumes wf: "db_wf d" and run: "load_run d i = Some run" "rr_state run = Draft" "rr_worktree_status run = Some Active"
    and d1: "d1 = fst (apply_worktree d i ManualDisposition (disposal_facts now))"
    and d2: "d2 = fst (apply_run d1 i Discard (discard_facts now))"
  shows "db_questions d2 = db_questions d \<and>
    db_runs d2 = sql_update (\<lambda>r. rr_id r = Some i)
      (\<lambda>r. r\<lparr>rr_worktree_status := Some Cleaned, rr_state := Cancelled\<rparr>) (db_runs d)"
proof -
  obtain t where t: "find_worktree_transition Active ManualDisposition = Some t" "wt_to t = Cleaned"
      "check_worktree_guard t (disposal_facts now) = Inr ()"
    by (simp add: find_worktree_transition_def worktree_transitions_def check_worktree_guard_def disposal_facts_def)
  have d1': "db_wf d1" "db_questions d1 = db_questions d"
      "db_runs d1 = sql_update (\<lambda>r. rr_id r = Some i) (\<lambda>r. r\<lparr>rr_worktree_status := Some Cleaned\<rparr>) (db_runs d)"
    using guarded_worktree_applies [OF wf run(1,3) t(1,3)] t(2) d1 by auto
  let ?run1 = "run\<lparr>rr_worktree_status := Some Cleaned\<rparr>"
  have "run \<in> set (db_runs d)" "rr_id run = Some i" using load_run_iff [OF wf] run(1) by auto
  then have "?run1 \<in> set (db_runs d1)" "rr_id ?run1 = Some i" by (auto simp: d1'(3) sql_update_def)
  then have run1: "load_run d1 i = Some ?run1" using load_run_iff [OF d1'(1)] by simp
  obtain u where u: "find_run_transition (rr_state ?run1) Discard = Some u" "rt_to u = Cancelled" "rt_effects u = []"
      "rt_guard u = NoGuard"
    using run(2) by (simp add: find_run_transition_def run_transitions_def)
  have guard: "check_run_guard d1 u i (rr_provider ?run1) (rr_worktree_status ?run1) (discard_facts now) = Inr ()"
    by (simp add: check_run_guard_def u)
  have "references_ok d1 u (discard_facts now)" by (simp add: references_ok_def u)
  then obtain d2' a b q out where app: "apply_run d1 i Discard (discard_facts now) = (d2', Inr (Applied
      \<lparr>ap_from = rr_state ?run1, ap_to = rt_to u, ap_effects = rt_effects u, ap_domain_event = rt_domain_event u,
       ap_state_changed_event_id = a, ap_domain_event_id = b, ap_opened_question_id = q\<rparr>))"
    and tx: "transition_tx (run_write d1 i ?run1 Discard u (discard_facts now)) d1 = Inr (d2', out)"
    using guarded_run_applies [OF d1'(1) run1 u(1) guard] by blast
  have "d2 = d2'" using d2 app by simp
  then show ?thesis
    using run_tx_tables(1,2) [OF d1'(1) run1 tx] d1'
    by (simp add: u run_moved_def sql_update_def Let_def)
qed

text \<open>The question about the hooks: when asking fails, it is not left open.\<close>

lemma failed_ask_expires:
  assumes wf: "db_wf (co_db s)" and failed: "ask_about_hooks p i prepared provisioned now s = (s', Inl e)"
  shows "db_wf (co_db s') \<and> db_runs (co_db s') = db_runs (co_db s) \<and>
    (db_questions (co_db s') = db_questions (co_db s) \<or>
     (\<exists>q. db_questions (co_db s') = db_questions (co_db s) @ [q] \<and> qu_state q = Expired)) \<and>
    take (length (co_calls s)) (co_calls s') = co_calls s"
proof -
  let ?q = "hook_question i prepared provisioned now"
  have asking: "on_ok (on_machines (\<lambda>d. open_question d ?q []) s) (\<lambda>question_id s.
      let pending = \<lparr>ph_question_id = question_id, ph_repo_id = pr_repo_id prepared,
                     ph_repository = pr_repository prepared, ph_asked_at = now\<rparr>
      in case call (RecordPending pending) (po_record_pending p pending) s of
           (s, Inr _) \<Rightarrow> (s, Inr (Some question_id))
         | (s, Inl e) \<Rightarrow> (s\<lparr>co_db := fst (apply_question (co_db s) question_id Void (void_facts now))\<rparr>, Inl e)) = (s', Inl e)"
    using failed by (simp add: ask_about_hooks_def split: if_splits)
  show ?thesis
  proof (rule open_question_cases [of "co_db s" ?q "[]"])
    fix x assume "fst (open_question (co_db s) ?q []) = co_db s" "snd (open_question (co_db s) ?q []) = Inl x"
    then have "open_question (co_db s) ?q [] = (co_db s, Inl x)" by (metis prod.collapse)
    then show ?thesis using asking wf by (auto simp: on_machines_def)
  next
    fix d and out :: transition_outcome
    assume tx: "transition_tx ((empty_write (qu_run_id ?q) [])\<lparr>tw_new_question := Some ?q\<rparr>) (co_db s) = Inr (d, out)"
    obtain n where n: "to_question_id out = Some n" using opened_question_id [OF tx] by auto
    have opened: "open_question (co_db s) ?q [] = (d, Inr n)"
      using tx by (simp add: open_question_def apply_transition_def n ok_or_def)
    have d: "db_wf d" "db_runs d = db_runs (co_db s)" "db_questions d = db_questions (co_db s) @ [?q\<lparr>qu_id := Some n\<rparr>]"
      using transition_tx_wf [OF wf tx] open_question_tables [OF tx] n by simp_all
    then have q: "load_question d n = Some (?q\<lparr>qu_id := Some n\<rparr>)" using load_question_iff [OF d(1)] by simp
    let ?q' = "?q\<lparr>qu_id := Some n\<rparr>"
    have "?q' \<in> set (db_questions d)" using d(3) by simp
    then have checks: "question_checks ?q'" using d(1) unfolding db_wf_def by blast
    obtain t where t: "find_question_transition (qu_kind ?q') (qu_state ?q') Void = Some t" "qt_to t = Expired"
        "check_question_guard t ?q' (void_facts now) = Inr ()"
      by (simp add: find_question_transition_def question_transitions_def hook_question_def check_question_guard_def)
    have "question_checks (?q'\<lparr>qu_state := qt_to t\<rparr>)"
      using checks by (auto simp: t(2) question_checks_def)
    then obtain d2 y where voided: "apply_question d n Void (void_facts now) = (d2, Inr y)" "db_wf d2"
        "db_questions d2 = sql_update (\<lambda>q. qu_id q = Some n) (\<lambda>q. q\<lparr>qu_state := qt_to t\<rparr>) (db_questions d)"
        "db_runs d2 = db_runs d"
      using guarded_question_applies [OF d(1) q t(1,3)] t(2) by auto
    have "tbl_ok qu_id (db_questions (co_db s) @ [?q'])" using d(1,3) by (simp add: db_wf_def)
    then have "db_questions d2 = db_questions (co_db s) @ [?q'\<lparr>qu_state := Expired\<rparr>]"
      using voided(3) d(3) t(2) by (simp add: update_new_row)
    then show ?thesis
      using asking voided d
      by (auto simp: on_machines_def opened call_def Let_def split: sum.splits)
  qed
qed

lemma failed_creation_undone:
  assumes wf: "db_wf (co_db s)" and failed: "open_created_run p r prepared provisioned s = (s', Inl e)"
  shows "(db_runs (co_db s') = db_runs (co_db s) \<or>
      (\<exists>run. db_runs (co_db s') = db_runs (co_db s) @ [run] \<and> rr_state run = Cancelled \<and>
         rr_worktree_status run = Some Cleaned)) \<and>
    (db_questions (co_db s') = db_questions (co_db s) \<or>
      (\<exists>q. db_questions (co_db s') = db_questions (co_db s) @ [q] \<and> qu_state q = Expired)) \<and>
    (\<exists>run. last (co_calls s') = Remove run \<and> rr_worktree_path run = Some (pw_path provisioned))"
proof -
  let ?row = "draft_row r prepared provisioned"
  show ?thesis
  proof (rule open_run_cases [of "co_db s" ?row])
    fix x assume "open_run (co_db s) ?row = (co_db s, Inl x)"
    then have "s' = fst (call (Remove ?row) (po_remove p ?row) s)"
      using failed by (simp add: open_created_run_def Let_def)
    then show ?thesis by (simp add: call_def draft_row_def)
  next
    fix i d assume opened: "open_run (co_db s) ?row = (d, Inr i)"
      and d: "d = (co_db s)\<lparr>db_runs := db_runs (co_db s) @ [?row\<lparr>rr_id := Some i\<rparr>]\<rparr>"
    let ?run = "?row\<lparr>rr_id := Some i\<rparr>" and ?s1 = "s\<lparr>co_db := d\<rparr>"
    have wf1: "db_wf d" using insert_run_wf [OF wf, of ?row] opened by (simp add: open_run_def)
    obtain s2 y where asked: "ask_about_hooks p i prepared provisioned (cr_now r) ?s1 = (s2, y)" by fastforce
    obtain e' where y: "y = Inl e'"
      using failed opened asked by (cases y) (simp_all add: open_created_run_def Let_def)
    have s2: "db_wf (co_db s2)" "db_runs (co_db s2) = db_runs (co_db s) @ [?run]"
        "db_questions (co_db s2) = db_questions (co_db s) \<or>
         (\<exists>q. db_questions (co_db s2) = db_questions (co_db s) @ [q] \<and> qu_state q = Expired)"
      using failed_ask_expires [of ?s1, OF _ asked [unfolded y]] wf1 by (auto simp: d)
    let ?now = "cr_now r" and ?s3 = "fst (call (Remove ?run) (po_remove p ?run) s2)"
    let ?d1 = "fst (apply_worktree (co_db s2) i ManualDisposition (disposal_facts ?now))"
    let ?d2 = "fst (apply_run ?d1 i Discard (discard_facts ?now))"
    have s': "s' = ?s3\<lparr>co_db := ?d2\<rparr>"
      using failed opened asked y by (simp add: open_created_run_def discard_created_run_def Let_def call_def)
    have run: "load_run (co_db s2) i = Some ?run" using load_run_iff [OF s2(1)] s2(2) by simp
    have "tbl_ok rr_id (db_runs (co_db s) @ [?run])" using s2(1,2) by (simp add: db_wf_def)
    then have "db_runs ?d2 = db_runs (co_db s) @ [?run\<lparr>rr_worktree_status := Some Cleaned, rr_state := Cancelled\<rparr>]"
        "db_questions ?d2 = db_questions (co_db s2)"
      using draft_discarded [OF s2(1) run _ _ refl refl] s2(2) by (simp_all add: draft_row_def update_new_row)
    then show ?thesis using s2(3) by (simp add: s' call_def draft_row_def)
  qed
qed

text \<open>What is decided before the worktree only journals.\<close>

definition only_journals :: "core \<Rightarrow> core \<Rightarrow> bool" where
  "only_journals s s' \<longleftrightarrow>
     (db_wf (co_db s) \<longrightarrow> db_wf (co_db s')) \<and> db_runs (co_db s') = db_runs (co_db s) \<and>
     db_questions (co_db s') = db_questions (co_db s)"

lemma only_journals_same: "co_db s' = co_db s \<Longrightarrow> only_journals s s'"
  by (simp add: only_journals_def)

lemma only_journals_trans: "only_journals a b \<Longrightarrow> only_journals b c \<Longrightarrow> only_journals a c"
  by (simp add: only_journals_def)

lemma only_journals_journal: "co_db s' = fst (journal (co_db s) es) \<Longrightarrow> only_journals s s'"
  by (simp add: only_journals_def journal_tables journal_wf)

lemma only_journals_on_ok:
  assumes "only_journals s (fst m)" "\<And>a s1. only_journals s1 (fst (k a s1))"
  shows "only_journals s (fst (on_ok m k))"
  by (rule on_ok_keeps [where P = "only_journals s"]) (use assms in \<open>auto intro: only_journals_trans\<close>)

lemma only_journals_refuse: "only_journals s (fst (refuse op who run_id now reason s))"
  by (rule only_journals_journal [where es = "[denied_entry op who run_id now reason]"])
    (simp add: refuse_def split: prod.split)

lemma only_journals_call: "only_journals s (fst (call c answer s))"
  by (rule only_journals_same) (simp add: call_def)

lemma only_journals_admitted: "only_journals s (fst (admitted_repository p canonicalize who r s))"
proof -
  have "only_journals s s1" if "call (Identify repository) (po_identify p repository) s = (s1, x)" for repository s1 x
    using only_journals_call [of s "Identify repository" "po_identify p repository"] that by simp
  then show ?thesis
    by (auto simp: admitted_repository_def split: option.split prod.split sum.split api_error.split
        intro: only_journals_trans [OF _ only_journals_refuse] only_journals_refuse)
qed

lemma only_journals_hooks: "only_journals s (fst (choose_hooks p who repo now s))"
  by (auto simp: choose_hooks_def split: hook_trust.split
      intro: only_journals_same only_journals_journal)

lemma only_journals_prepare: "only_journals s (fst (prepare_run p canonicalize sha256 who r s))"
proof -
  have "only_journals s1 (fst (authorize op who run_id now s1))" for op run_id now s1
    by (simp add: authorize_def only_journals_same only_journals_refuse)
  moreover have "only_journals s1 (fst (check_describable who r s1))" for s1
    by (simp add: check_describable_def only_journals_same only_journals_refuse)
  ultimately show ?thesis
    unfolding prepare_run_def Let_def
    by (intro only_journals_on_ok only_journals_admitted)
      (auto split: prod.split, metis only_journals_hooks fst_conv)
qed

lemma failed_creation_leaves:
  assumes wf: "db_wf (co_db s)" and failed: "create_run p canonicalize sha256 who r s = (s', Inl e)"
  shows "db_runs (co_db s') = db_runs (co_db s) \<or>
      (\<exists>run. db_runs (co_db s') = db_runs (co_db s) @ [run] \<and> rr_state run = Cancelled \<and>
         rr_worktree_status run = Some Cleaned)"
    and "db_questions (co_db s') = db_questions (co_db s) \<or>
      (\<exists>q. db_questions (co_db s') = db_questions (co_db s) @ [q] \<and> qu_state q = Expired)"
    and "prepare_run p canonicalize sha256 who r s = (s1, Inr prepared) \<Longrightarrow>
      po_provision p (worktree_request_of prepared (cr_start_point r)) (co_calls s1) = Inr provisioned \<Longrightarrow>
      \<exists>run. last (co_calls s') = Remove run \<and> rr_worktree_path run = Some (pw_path provisioned)"
proof -
  obtain s2 x where prepared: "prepare_run p canonicalize sha256 who r s = (s2, x)" by fastforce
  have s2: "db_wf (co_db s2)" "db_runs (co_db s2) = db_runs (co_db s)" "db_questions (co_db s2) = db_questions (co_db s)"
    using only_journals_prepare [of s p canonicalize sha256 who r] wf by (simp_all add: prepared only_journals_def)
  have "(db_runs (co_db s') = db_runs (co_db s) \<or>
      (\<exists>run. db_runs (co_db s') = db_runs (co_db s) @ [run] \<and> rr_state run = Cancelled \<and>
         rr_worktree_status run = Some Cleaned)) \<and>
    (db_questions (co_db s') = db_questions (co_db s) \<or>
      (\<exists>q. db_questions (co_db s') = db_questions (co_db s) @ [q] \<and> qu_state q = Expired)) \<and>
    (prepare_run p canonicalize sha256 who r s = (s1, Inr prepared) \<longrightarrow>
      po_provision p (worktree_request_of prepared (cr_start_point r)) (co_calls s1) = Inr provisioned \<longrightarrow>
      (\<exists>run. last (co_calls s') = Remove run \<and> rr_worktree_path run = Some (pw_path provisioned)))"
  proof (cases x)
    case (Inl e')
    then show ?thesis using failed s2 by (simp add: create_run_def prepared)
  next
    case (Inr y)
    let ?request = "worktree_request_of y (cr_start_point r)"
    show ?thesis
    proof (cases "po_provision p ?request (co_calls s2)")
      case (Inl e')
      then show ?thesis using failed s2 by (auto simp: create_run_def prepared Inr Let_def call_def)
    next
      case made: (Inr z)
      let ?s3 = "s2\<lparr>co_calls := co_calls s2 @ [Provision ?request]\<rparr>"
      have "open_created_run p r y z ?s3 = (s', Inl e)"
        using failed by (simp add: create_run_def prepared Inr Let_def call_def made)
      then show ?thesis using failed_creation_undone [of ?s3 p r y z s' e] s2 made prepared Inr by auto
    qed
  qed
  then show "db_runs (co_db s') = db_runs (co_db s) \<or>
      (\<exists>run. db_runs (co_db s') = db_runs (co_db s) @ [run] \<and> rr_state run = Cancelled \<and>
         rr_worktree_status run = Some Cleaned)"
    "db_questions (co_db s') = db_questions (co_db s) \<or>
      (\<exists>q. db_questions (co_db s') = db_questions (co_db s) @ [q] \<and> qu_state q = Expired)"
    "prepare_run p canonicalize sha256 who r s = (s1, Inr prepared) \<Longrightarrow>
      po_provision p (worktree_request_of prepared (cr_start_point r)) (co_calls s1) = Inr provisioned \<Longrightarrow>
      \<exists>run. last (co_calls s') = Remove run \<and> rr_worktree_path run = Some (pw_path provisioned)" by blast+
qed

end
