(* ===== verification/Access_Control.thy ===== *)
theory Access_Control
  imports Permission_Safety Denylist_Facts Retained_Result Api_Safety Run_Rollback Scenario_Facts
begin

text \<open>
  The properties of what stands between an agent and the machine (permissions, the hard
  denylist, what is kept of a result) and between a principal and the control plane (the
  in-process API), each with a concrete instance.
\<close>

section \<open>A glob matcher and rules to evaluate on\<close>

definition demo_globset :: globset where
  "demo_globset sep pattern v =
     (case strip_suffix ''**'' pattern of
        Some front \<Rightarrow>
          \<not> has_glob_wildcard front \<and>
          (case strip_prefix front v of
             Some rest \<Rightarrow> sep \<and> front \<noteq> [] \<and> last front \<noteq> separator \<longrightarrow> separator \<notin> set rest
           | None \<Rightarrow> False)
      | None \<Rightarrow>
          (case strip_suffix ''*'' pattern of
             Some front \<Rightarrow>
               \<not> has_glob_wildcard front \<and>
               (case strip_prefix front v of Some rest \<Rightarrow> sep \<longrightarrow> separator \<notin> set rest | None \<Rightarrow> False)
           | None \<Rightarrow> v = pattern))"

lemma demo_globset_documented: "documented_globset demo_globset"
proof -
  have no_star: "\<not> has_glob_wildcard p \<Longrightarrow> strip_suffix ''*'' p = None \<and> strip_suffix ''**'' p = None" for p
    by (cases "strip_suffix ''*'' p"; cases "strip_suffix ''**'' p")
      (auto simp: strip_suffix_iff has_glob_wildcard_def)
  have one_star: "\<not> has_glob_wildcard p \<Longrightarrow> strip_suffix ''**'' (p @ ''*'') = None" for p
    by (cases "strip_suffix ''**'' (p @ ''*'')") (auto simp: strip_suffix_iff has_glob_wildcard_def)
  have "strip_suffix q (p @ q) = Some p" for p q :: string by (simp add: strip_suffix_iff)
  then show ?thesis
    unfolding documented_globset_def demo_globset_def
    by (auto simp: no_star one_star strip_prefix_iff split: option.splits)
qed

definition native_tool :: "string \<Rightarrow> permission_pattern" where
  "native_tool name = Exact (native_identity name)"

definition text_glob :: "string \<Rightarrow> permission_pattern" where
  "text_glob pattern = Glob \<lparr>pg_pattern = pattern, pg_literal_separator = False\<rparr>"

text \<open>What the demo rules and commands are evaluated with.\<close>

lemmas rule_reading = prevailing_rule_decision_def narrowest_decision_def narrowest_rules_def global_rule_def
  rule_matches_def grant_matches_def native_tool_def text_glob_def target_selected_by_def subject_selected_by_def
  glob_matches_def demo_globset_def rule_covers_def scope_covers_def pattern_covers_def glob_covers_def
  trailing_wildcard_prefix_def glob_denotes_everything_def has_glob_wildcard_def prevailing_decision_def
  strip_suffix_def max_target_bytes_def separator_def backslash_def floor_constraint_def floor_decision_def
  evaluate_with_unmatched_authority_def stated_decision_def hard_safety_allows_def last_opt_def or_else_def
  resolve_ask_def

lemmas word_reading = plain_word_def ascii_def is_whitespace_def single_quote_def double_quote_def backslash_def
  backtick_def plain_chain_def plain_byte_def operator_text_def is_separator_def newline_def trim_def trim_start_def char_extra_def

lemmas shell_reading = shell_script_def normalized_form_def words_def command_name_def is_environment_assignment_def
  wrapper_commands_def shell_commands_def separator_def

definition demo_rules :: "permission_rule list" where
  "demo_rules =
     [global_rule Allow (native_tool ''bash'') (text_glob ''git*''),
      global_rule Deny (native_tool ''bash'') (text_glob ''git push*'')]"

definition push_request :: permission_request where
  "push_request = new_request ''p'' (native_identity ''bash'') ''git push'' Write"

text \<open>The demo commands, read.\<close>

lemma plain_segment_read:
  assumes "length invocations < max_invocations" "trim segment = written" "written \<noteq> []"
    and "strip_prefixes (tokenize written) = stripped" "shell_script stripped = None"
    and "normalized_form stripped = normalized" "normalized \<noteq> []"
  shows "collect_segments (segment # rest) d invocations =
    collect_segments rest d (invocations @ [invocation_forms written normalized])"
  using assms by (subst collect_segments.simps(2)) (simp add: Let_def)

lemma demo_scans: "scan ''git push'' = ([''git push''], [])" "scan ''ls && git push'' = ([''ls '', '' git push''], [])"
proof -
  have "plain_chain [] ''git push''" "plain_chain [(''ls '', ''&&'')] '' git push''"
    by (simp_all add: word_reading)
  from this[THEN scan_of_chain] show "scan ''git push'' = ([''git push''], [])" "scan ''ls && git push'' = ([''ls '', '' git push''], [])" by simp_all
qed

lemma demo_tokens: "tokenize ''git push'' = [''git'', ''push'']" "tokenize ''ls'' = [''ls'']"
proof -
  have "\<forall>w \<in> set [''git'', ''push'']. plain_word w" "\<forall>w \<in> set [''ls'']. plain_word w"
    by (simp_all add: word_reading)
  from this [THEN tokenize_words] show "tokenize ''git push'' = [''git'', ''push'']" "tokenize ''ls'' = [''ls'']"
    by (simp_all add: words_def)
qed

lemma demo_trims: "trim ''git push'' = ''git push''" "trim '' git push'' = ''git push''" "trim ''ls '' = ''ls''"
  by (simp_all add: word_reading)

lemma demo_strips: "strip_prefixes [''git'', ''push''] = [''git'', ''push'']" "strip_prefixes [''ls''] = [''ls'']"
  by (simp_all add: shell_reading)

lemma demo_scripts: "shell_script [''git'', ''push''] = None" "shell_script [''ls''] = None"
  by (simp_all add: shell_reading)

lemma demo_forms: "normalized_form [''git'', ''push''] = ''git push''" "normalized_form [''ls''] = ''ls''"
  by (simp_all add: shell_reading)

lemma demo_invocations: "command_invocations ''git push'' = [[''git push'']]" "command_invocations ''ls && git push'' = [[''ls''], [''git push'']]"
proof -
  have push: "collect_segments (segment # rest) 0 invs = collect_segments rest 0 (invs @ [[''git push'']])"
    if "length invs < 2" "segment \<in> {''git push'', '' git push''}" for segment rest invs
    using that plain_segment_read [of invs segment "''git push''" "[''git'', ''push'']" "''git push''" rest 0]
      demo_trims demo_strips demo_tokens demo_scripts demo_forms by (auto simp: max_invocations_def invocation_forms_def simp del: strip_prefixes.simps)
  have ls: "collect_segments (''ls '' # rest) 0 [] = collect_segments rest 0 [[''ls'']]" for rest
    using plain_segment_read [of "[]" "''ls ''" "''ls''" "[''ls'']" "''ls''" rest 0] demo_trims demo_strips demo_tokens demo_scripts demo_forms
    by (simp add: max_invocations_def invocation_forms_def del: strip_prefixes.simps)
  show "command_invocations ''git push'' = [[''git push'']]" "command_invocations ''ls && git push'' = [[''ls''], [''git push'']]"
    by (simp_all add: command_invocations_def collect_invocations.simps demo_scans push ls)
qed

lemma demo_segment: "segment_forms '' git push'' = Some [''git push'']"
  by (simp add: segment_forms_def demo_trims demo_tokens demo_strips demo_forms invocation_forms_def Let_def del: strip_prefixes.simps)

lemma demo_length: "length ''ls && git push'' \<le> max_target_bytes" by (simp add: max_target_bytes_def)

lemma demo_bash: "bare_tool_name (native_identity ''bash'') = ''bash''" by (rule bare_native_identity) simp

lemma push_request_eq: "push_request =
    \<lparr>rq_project = ''p'', rq_tool = native_identity ''bash'', rq_target = ''git push'', rq_access = Write,
     rq_outside_worktree = False, rq_subjects = [[''git push'']]\<rparr>"
  by (simp add: push_request_def bash_request demo_bash max_target_bytes_def demo_invocations)

section \<open>Permissions\<close>



text \<open>
  C9. A denial is final: what the hard safety of the policy forbids, or its declared rules
  deny, is denied whatever grants the project or the session hold, with the bypass on, and
  whatever an unmatched call would be given; a search that is so denied may not report the
  path.
\<close>

theorem denial_is_final:
  assumes "\<not> hard_safety_allows m policy request \<or>
    prevailing_rule_decision m (pol_static_rules policy) request = Some Deny"
  shows "evaluate_with_unmatched_authority m policy request pg sg bypass unmatched = (Deny, Decided) \<and>
    (\<forall>reader. reader_policy reader = policy \<and>
       new_request (reader_project reader) (reader_tool reader) path (reader_access reader) = request \<longrightarrow>
       \<not> permits m reader path)"
  using denial_final [OF assms] denial_stated [OF assms] by (auto simp: permits_def)

lemma denial_is_final_witness:
  "evaluate_with_unmatched_authority demo_globset (new_policy Edit demo_rules) push_request
     [\<lparr>grant_project = ''p'', grant_decision = Allow, grant_tool = Any, grant_target = Any\<rparr>] [] True True = (Deny, Decided)"
proof -
  have "prevailing_rule_decision demo_globset (pol_static_rules (new_policy Edit demo_rules)) push_request = Some Deny"
    by (simp add: rule_reading demo_rules_def push_request_eq new_policy_def)
  then show ?thesis using denial_is_final by blast
qed

text \<open>
  The operator's configured rules are a floor: where they constrain a call, the answer
  is at least as restrictive as their decision, whatever the declared rules, the grants, the
  bypass and the unmatched answer say; and configured rules that only restrict never allow,
  so without a declared rule or a grant that names the call their permission changes nothing.
\<close>

theorem configured_rules_are_a_floor:
  assumes "pol_configured_floor policy = Some f" "floor_constraint m f request = Some c"
  shows "restrictiveness c \<le>
      restrictiveness (fst (evaluate_with_unmatched_authority m policy request pg sg bypass unmatched)) \<and>
    (floor_role f = Restricting \<longrightarrow> c \<noteq> Allow)"
  using floor_bounds_answer [OF assms] assms(2)
  by (auto simp: floor_constraint_def split: option.splits if_splits)

lemma configured_rules_are_a_floor_witness:
  "restrictiveness permission_decision.Ask \<le> restrictiveness (fst (evaluate_with_unmatched_authority demo_globset
     (with_configured_floor (new_policy Edit []) \<lparr>floor_rules = [global_rule permission_decision.Ask Any Any], floor_role = Restricting\<rparr>)
     push_request [\<lparr>grant_project = ''p'', grant_decision = Allow, grant_tool = Any, grant_target = Any\<rparr>] [] True True))"
proof -
  let ?f = "\<lparr>floor_rules = [global_rule permission_decision.Ask Any Any], floor_role = Restricting\<rparr>"
  have "floor_constraint demo_globset ?f push_request = Some permission_decision.Ask"
    by (simp add: rule_reading demo_rules_def push_request_eq new_policy_def)
  moreover have "pol_configured_floor (with_configured_floor (new_policy Edit []) ?f) = Some ?f"
    by (simp add: with_configured_floor_def)
  ultimately show ?thesis using configured_rules_are_a_floor by blast
qed

text \<open>
  C8. Nothing is allowed without an authority: a call that is allowed is forbidden by no
  safety predicate and denied by no prevailing rule, and a grant that matches it, a declared
  rule, or a governing configured rule allows it; otherwise nothing was stated about it and
  the operator had chosen to allow what is unmatched, or had turned the questions off.
\<close>

theorem allowance_has_authority:
  assumes "fst (evaluate_with_unmatched_authority m policy request pg sg bypass unmatched) = Allow"
  shows "hard_safety_allows m policy request \<and>
    prevailing_rule_decision m (pol_static_rules policy) request \<noteq> Some Deny \<and>
    (granted m request (pg @ sg) \<or> ruled_in m request (pol_static_rules policy) \<or>
     (\<exists>f. pol_configured_floor policy = Some f \<and> floor_role f = Governing \<and> ruled_in m request (floor_rules f)) \<or>
     stated_decision m policy request pg sg = None \<and> (unmatched \<or> bypass))"
  using allowed_has_authority [OF assms] by blast

lemma allowance_has_authority_witness:
  "granted demo_globset push_request
     [\<lparr>grant_project = ''p'', grant_decision = Allow, grant_tool = native_tool ''bash'', grant_target = Any\<rparr>]"
proof -
  let ?g = "[\<lparr>grant_project = ''p'', grant_decision = Allow, grant_tool = native_tool ''bash'', grant_target = Any\<rparr>]"
  have "fst (evaluate_with_unmatched_authority demo_globset (new_policy Edit []) push_request ?g [] False False) = Allow"
    by (simp add: rule_reading demo_rules_def push_request_eq new_policy_def)
  from allowance_has_authority [OF this] show ?thesis
    by (auto simp: ruled_in_def new_policy_def)
qed

text \<open>
  C11. A chained command is judged by its parts, up to the bound of the reader: take a call of
  the shell tool within the length a target keeps, whose line is plain segments joined by
  shell operators and from which fewer than sixty-four invocations are read, and a rule of
  global scope for that tool. If the rule denies or asks, it selects the whole call as soon as
  one spelling of one segment is selected; if it allows, and does not name one exact text, it
  selects the call only when every segment that is a command is selected under some spelling. So below the
  bound \<open>allow git*\<close> does not allow \<open>git status && rm -rf x\<close>, and \<open>deny rm*\<close> denies it; that the
  bound is needed is \<open>long_chain_slips_past_an_allowance\<close>.
\<close>

theorem chained_command_judged_by_its_parts:
  assumes "bare_tool_name tool = ''bash''" "plain_chain ps final" "length (chain ps final) \<le> max_target_bytes"
    and "length (command_invocations (chain ps final)) < max_invocations"
    and "segment \<in> set (map fst ps @ [final])" "segment_forms segment = Some forms"
    and "pattern_matches m (rule_tool r) tool" "rule_scope r = Global"
  shows "(rule_decision r \<noteq> Allow \<and> (\<exists>form \<in> set forms. pattern_matches m (rule_target r) form) \<longrightarrow>
      rule_matches m (new_request project tool (chain ps final) access) r) \<and>
    (rule_decision r = Allow \<and> \<not> is_exact (rule_target r) \<and>
      rule_matches m (new_request project tool (chain ps final) access) r \<longrightarrow>
      (\<exists>form \<in> set forms. pattern_matches m (rule_target r) form))"
proof -
  let ?request = "new_request project tool (chain ps final) access"
  have "segment \<in> set (fst (scan (chain ps final))) \<union> set (snd (scan (chain ps final)))"
    using assms(5) scan_of_chain [OF assms(2)] by simp
  then have found: "forms \<in> set (command_invocations (chain ps final))"
    using command_segment_found assms(4,6) by blast
  have "rq_tool ?request = tool" by (simp add: bash_request [OF assms(1,3)])
  then show ?thesis
    using invocation_restricts [OF assms(1,3) found, of _ m "rule_target r" "rule_decision r"]
      invocation_permits [OF assms(1,3) found, of "rule_target r" m] assms(7,8)
    by (auto simp: rule_matches_def)
qed

lemma chained_command_judged_by_its_parts_witness:
  "rule_matches demo_globset (new_request ''p'' (native_identity ''bash'') ''ls && git push'' Write)
     (global_rule Deny (native_tool ''bash'') (text_glob ''git push*'')) \<and>
   \<not> rule_matches demo_globset (new_request ''p'' (native_identity ''bash'') ''ls && git push'' Write)
     (global_rule Allow (native_tool ''bash'') (text_glob ''ls*''))"
proof -
  let ?ps = "[(''ls '', ''&&'')]" and ?final = "'' git push''"
  have line: "chain ?ps ?final = ''ls && git push''" by simp
  have plain: "plain_chain ?ps ?final" by (simp add: word_reading)
  have fits: "length (chain ?ps ?final) \<le> max_target_bytes"
    "length (command_invocations (chain ?ps ?final)) < max_invocations"
    by (simp_all add: demo_invocations max_invocations_def max_target_bytes_def)
  note at = chained_command_judged_by_its_parts [OF demo_bash plain fits _ demo_segment, unfolded line, where m = demo_globset]
  have deny: "pattern_matches demo_globset (rule_tool (global_rule Deny (native_tool ''bash'') (text_glob ''git push*'')))
      (native_identity ''bash'')"
    "pattern_matches demo_globset (text_glob ''git push*'') ''git push''"
    "\<not> pattern_matches demo_globset (text_glob ''ls*'') ''git push''"
    "pattern_matches demo_globset (rule_tool (global_rule Allow (native_tool ''bash'') (text_glob ''ls*'')))
      (native_identity ''bash'')" by (simp_all add: rule_reading)
  show ?thesis using at [OF _ deny(1)] at [OF _ deny(4)] deny
    by (auto simp: global_rule_def text_glob_def)
qed

definition long_chain :: string where
  "long_chain = chain (replicate 64 (''git'', '';'')) ''rm -rf x''"

lemma git_read: "trim ''git'' = ''git''" "shell_script (strip_prefixes (tokenize ''git'')) = None"
  "normalized_form (strip_prefixes (tokenize ''git'')) = ''git''" "invocation_forms ''git'' ''git'' = [''git'']"
  by code_simp+

lemma gits_fill:
  "length invs + n \<le> max_invocations \<Longrightarrow>
     collect_segments (replicate n ''git'' @ rest) nesting invs = collect_segments rest nesting (invs @ replicate n [''git''])"
proof (induction n arbitrary: invs)
  case (Suc n)
  have "collect_segments (''git'' # replicate n ''git'' @ rest) nesting invs =
      collect_segments (replicate n ''git'' @ rest) nesting (invs @ [[''git'']])"
    using Suc.prems by (subst collect_segments.simps) (simp add: git_read Let_def del: strip_prefixes.simps)
  then show ?case using Suc.prems Suc.IH [of "invs @ [[''git'']]"] by simp
qed simp

lemma long_chain_read: "command_invocations long_chain = replicate 64 [''git'']"
proof -
  have "plain_chain (replicate 64 (''git'', '';'')) ''rm -rf x''"
    by (simp add: plain_chain_def list_all_iff word_reading)
  from scan_of_chain [OF this] have "scan long_chain = (replicate 64 ''git'' @ [''rm -rf x''], [])"
    by (simp add: long_chain_def)
  moreover have "collect_segments [''rm -rf x''] 0 (replicate 64 [''git'']) = replicate 64 [''git'']"
    by (subst collect_segments.simps) (simp add: max_invocations_def)
  ultimately show ?thesis
    using gits_fill [of "[]" 64 "[''rm -rf x'']" 0]
    by (simp add: command_invocations_def collect_invocations.simps max_invocations_def)
qed

lemma length_chain: "length (chain (replicate n (a, b)) c) = n * (length a + length b) + length c"
  by (induction n) simp_all

text \<open>
  Past the bound an allowance reaches further than it says: with sixty-four commands before
  it, \<open>rm -rf x\<close> is not read, and \<open>allow git*\<close> selects the whole line.
\<close>

theorem long_chain_slips_past_an_allowance:
  "rule_matches demo_globset (new_request ''p'' (native_identity ''bash'') long_chain Write)
     (global_rule Allow (native_tool ''bash'') (text_glob ''git*''))"
proof -
  have "length long_chain \<le> max_target_bytes"
    by (simp add: long_chain_def length_chain max_target_bytes_def)
  moreover have "pattern_matches demo_globset (native_tool ''bash'') (native_identity ''bash'')"
    "pattern_matches demo_globset (text_glob ''git*'') ''git''" by (simp_all add: rule_reading)
  ultimately show ?thesis
    by (auto simp: bash_request [OF demo_bash] rule_matches_def target_selected_by_def subject_selected_by_def
        long_chain_read global_rule_def list_all_iff)
qed

text \<open>
  A tool its rules deny everywhere is never allowed: when the declarations of the
  operator deny every target of a tool, which is what hides the tool from the model, the
  rules deny every call of it, whatever narrower permission is written beside the denial.
\<close>

theorem hidden_tool_is_denied:
  assumes "documented_globset m" "global_rules rules" "request_fits request"
    and "declarations_deny_every_target m rules (rq_tool request)"
  shows "prevailing_rule_decision m rules request = Some Deny"
  by (rule denied_region_denies [OF assms])

lemma hidden_tool_is_denied_witness:
  "prevailing_rule_decision demo_globset [global_rule Deny Any Any, global_rule Allow Any Any] push_request = Some Deny"
  by (rule hidden_tool_is_denied [OF demo_globset_documented])
    (simp_all add: rule_reading push_request_eq global_rules_def request_fits_def declarations_deny_every_target_def
      rule_ok_def pattern_ok_def whole_segment_def)

section \<open>The hard denylist and what is kept of a result\<close>




text \<open>
  A bare word is never read as a path, so the commonest way to read a secret has no class.
\<close>

theorem bare_secret_is_unclassified: "names_a_secret ''.env'' \<and> classify_command ''/w'' ''cat .env'' = None"
proof -
  have plain: "plain_chain [] ''cat .env''" "\<forall>w \<in> set [''cat'', ''.env'']. plain_word w"
    by (simp_all add: word_reading)
  have read: "trim ''cat .env'' = ''cat .env''" "shell_script (strip_prefixes [''cat'', ''.env'']) = None"
    by (simp_all add: word_reading shell_reading)
  have "tokenize ''cat .env'' = [''cat'', ''.env'']" using tokenize_words [OF plain(2)] by (simp add: words_def)
  moreover have "scan ''cat .env'' = ([''cat .env''], [])" using scan_of_chain [OF plain(1)] by simp
  ultimately have tokens: "command_invocation_tokens ''cat .env'' = [[''cat'', ''.env'']]"
    by (simp add: command_invocation_tokens_def collect_invocation_tokens.simps segment_tokens_step read max_invocations_def
        del: strip_prefixes.simps)
  have "names_a_secret ''.env''" by code_simp
  moreover have "classify_command ''/w'' ''cat .env'' = None" unfolding classify_command_def tokens by code_simp
  ultimately show ?thesis by blast
qed

text \<open>
  C25. A denied act is found anywhere in a chain: a command of plain segments joined by shell
  operators is classified as soon as one segment runs a program the denylist refuses (an
  escalation of privilege, or an invocation its tables name such as \<open>git push\<close>), whatever
  stands before it, as long as the line stays under the number of invocations the reader
  looks at. \<open>long_line_tokens\<close> shows that the bound matters: after sixty-four other
  commands the act is not read.
\<close>

theorem denied_act_in_a_chain_is_found:
  assumes "plain_chain ps final" "segment \<in> set (map fst ps @ [final])"
    and "denied_program (tokenize (trim segment))"
    and "length (command_invocation_tokens (chain ps final)) < max_invocations"
  shows "classify_command worktree (chain ps final) \<noteq> None"
  by (rule denied_segment_classified [of segment])
    (use assms(2-4) scan_of_chain [OF assms(1)] in simp_all)

lemma denied_act_in_a_chain_is_found_witness: "classify_command ''/w'' ''ls && git push'' \<noteq> None"
proof -
  let ?ps = "[(''ls '', ''&&'')]" and ?final = "'' git push''"
  have plain: "plain_chain ?ps ?final" by (simp add: word_reading)
  have line: "chain ?ps ?final = ''ls && git push''" by simp
  have "command_invocation_tokens ''ls && git push'' = [[''ls''], [''git'', ''push'']]"
    by (simp add: command_invocation_tokens_def collect_invocation_tokens.simps segment_tokens_step demo_scans demo_trims demo_tokens
        demo_strips demo_scripts max_invocations_def del: strip_prefixes.simps)
  then have few: "length (command_invocation_tokens (chain ?ps ?final)) < max_invocations"
    by (simp add: line max_invocations_def)
  have "denied_program [''git'', ''push'']" by code_simp
  then have "denied_program (tokenize (trim '' git push''))" by (simp add: demo_trims demo_tokens)
  from denied_act_in_a_chain_is_found [OF plain _ this few] show ?thesis by (simp only: line) simp
qed

text \<open>
  Bounding a result returns: for every content a machine can hold the loop that looks
  for a place to cut ends, and what is kept is the content itself or the longest prefix
  that ends on a character boundary and leaves room for the marker, with the marker; either
  way it is within the bound.
\<close>

theorem bounding_a_result_returns:
  assumes "length content < 10 ^ 20"
  shows "\<exists>kept. bound_retained_tool_result content = Some kept \<and> length kept \<le> max_retained_bytes \<and>
    (kept = content \<or>
     (\<exists>k. kept = take k content @ truncation_marker (length content - k) \<and> fits_at content k \<and>
        (\<forall>j. k < j \<and> j \<le> max_retained_bytes \<longrightarrow> \<not> fits_at content j)))"
proof (cases "length content \<le> max_retained_bytes")
  case False
  obtain k where "retain content max_retained_bytes = Some (take k content @ truncation_marker (length content - k))"
      "fits_at content k" "\<forall>j. k < j \<and> j \<le> max_retained_bytes \<longrightarrow> \<not> fits_at content j"
    using retain_returns [OF assms] by blast
  then show ?thesis using False length_kept by (auto simp: bound_retained_tool_result_def)
qed (simp add: bound_retained_tool_result_def)

lemma bounding_a_result_returns_witness:
  "\<exists>kept. bound_retained_tool_result (replicate 100000 CHR ''a'') = Some kept \<and> length kept \<le> max_retained_bytes"
proof -
  have "length (replicate 100000 CHR ''a'') < 10 ^ 20" by simp
  from bounding_a_result_returns [OF this] show ?thesis by blast
qed

section \<open>The in-process API\<close>

text \<open>Ports that answer, except that the question about hooks cannot be recorded.\<close>

definition demo_ports :: "unit ports" where
  "demo_ports =
     \<lparr>po_set_admissions_paused = (\<lambda>_ _. Inr False),
      po_derive = (\<lambda>_ _. Inr \<lparr>wd_branch_merged = True, wd_worktree_clean = True, wd_tree_hash = ''t'', wd_paths_digest = ''d''\<rparr>),
      po_remove = (\<lambda>_ _. Inr ()), po_identify = (\<lambda>_ _. Inr \<lparr>ri_repo_id = ''repo'', ri_remote_url = None\<rparr>),
      po_provision = (\<lambda>_ _. Inr \<lparr>pw_path = ''/w'', pw_hook_failures = [], pw_declared_hooks = [''make''], pw_hooks_ran = False\<rparr>),
      po_enqueue = (\<lambda>_ _. Inr ()), po_cancel = (\<lambda>_ _. Inr ()),
      po_take_over = (\<lambda>i _. Inr \<lparr>th_run_id = i, th_session_id = 1\<rparr>), po_stop = (\<lambda>_ _. Inr ()),
      po_subscribe = (\<lambda>_ _. Inr ()), po_is_pending = (\<lambda>_ _. False), po_hook_trust = (\<lambda>_ _. TrustUnknown),
      po_record_pending = (\<lambda>_ _. Inl \<lparr>pe_port = ''hooks'', pe_detail = ''full''\<rparr>),
      po_resolve_pending = (\<lambda>_ _ _. Inr False)\<rparr>"

definition demo_host :: "unit host" where
  "demo_host = \<lparr>ho_ports = demo_ports, ho_canonicalize = Some, ho_sha256 = (\<lambda>_. ''abcd'')\<rparr>"

definition demo_core :: core where
  "demo_core = \<lparr>co_db = queued_db, co_calls = []\<rparr>"

definition asking_core :: core where
  "asking_core = \<lparr>co_db = perform_all [OpenRun (demo_run 0 None),
     OpenAsk (escalation_row 1 ''which'' (JText (JArray [JString ''yes''])) None 5) []] empty_db, co_calls = []\<rparr>"

definition empty_core :: core where
  "empty_core = \<lparr>co_db = empty_db, co_calls = []\<rparr>"

definition new_run_request :: create_request where
  "new_run_request =
     \<lparr>cr_repo_root = ''/repo'', cr_task = ''task'', cr_scope = ''scope'', cr_dod = ''done'', cr_external_ref = None,
      cr_parent_run_id = None, cr_dep_run_id = None, cr_provider = ''p'', cr_priority = 0, cr_budget_tokens = None,
      cr_start_point = ''main'', cr_now = 7\<rparr>"

text \<open>The creation the ports refuse half way.\<close>

definition demo_prepared :: prepared_run where
  "demo_prepared = \<lparr>pr_repository = ''/repo'', pr_repo_id = ''repo'', pr_remote_url = None, pr_name = ''task-61626364'',
     pr_branch = ''agens/task-61626364'', pr_hooks = AskHooks\<rparr>"

lemma demo_name: "worktree_name (\<lambda>_. ''abcd'') ''task'' ''repo'' 7 = ''task-61626364''"
  by code_simp

lemma demo_fields: "trim ''task'' = ''task''" "trim ''scope'' = ''scope''" "trim ''done'' = ''done''" "trim ''p'' = ''p''"
  by (simp_all add: word_reading)

lemma demo_prepares:
  "prepare_run demo_ports Some (\<lambda>_. ''abcd'') principal.User new_run_request empty_core =
     (empty_core\<lparr>co_calls := [Identify ''/repo'']\<rparr>, Inr demo_prepared)"
  by (simp add: prepare_run_def authorize_def user_reaches_everything check_describable_def missing_fields_def
      new_run_request_def demo_fields admitted_repository_def call_def demo_ports_def choose_hooks_def demo_name
      demo_prepared_def empty_core_def Let_def)

lemma demo_creation_fails:
  "\<exists>s' e. create_run demo_ports Some (\<lambda>_. ''abcd'') principal.User new_run_request empty_core = (s', Inl e)"
proof -
  let ?provisioned = "\<lparr>pw_path = ''/w'', pw_hook_failures = [], pw_declared_hooks = [''make''], pw_hooks_ran = False\<rparr>"
  let ?request = "worktree_request_of demo_prepared ''main''"
  let ?s = "\<lparr>co_db = empty_db, co_calls = [Identify ''/repo'', Provision ?request]\<rparr>"
  have created: "create_run demo_ports Some (\<lambda>_. ''abcd'') principal.User new_run_request empty_core =
      open_created_run demo_ports new_run_request demo_prepared ?provisioned ?s"
    unfolding create_run_def demo_prepares
    by (simp add: call_def demo_ports_def empty_core_def new_run_request_def Let_def)
  have "\<not> is_inr (snd (open_created_run demo_ports new_run_request demo_prepared ?provisioned ?s))" by code_simp
  then show ?thesis unfolding created
    by (cases "open_created_run demo_ports new_run_request demo_prepared ?provisioned ?s") (auto simp: is_inr_def split: sum.splits)
qed



text \<open>
  C2. Only the user commits the machine: over any sequence of requests none of which is the
  user's, whatever the ports answer, the control plane stays one its operations reach, no
  approval of a merge is granted or otherwise leaves the open state, and no plan is approved:
  a run that is neither a draft nor cancelled was neither before.
\<close>

theorem only_the_user_commits:
  assumes "reachable (co_db s)" "\<forall>(who, request) \<in> set requests. who \<noteq> principal.User"
  shows "reachable (co_db (serve_all h requests s)) \<and>
    (\<forall>q \<in> set (db_questions (co_db (serve_all h requests s))).
       qu_kind q = Approval \<and> qu_state q \<noteq> Open \<longrightarrow> q \<in> set (db_questions (co_db s))) \<and>
    (\<forall>r \<in> set (db_runs (co_db (serve_all h requests s))). rr_state r \<notin> {Draft, run_state.Cancelled} \<longrightarrow>
       (\<exists>before \<in> set (db_runs (co_db s)). rr_id before = rr_id r \<and> rr_state before \<notin> {Draft, run_state.Cancelled}))"
  using serve_all_reachable [OF assms(1)] serve_all_authority [OF assms] unfolding authority_kept_def by blast

lemma only_the_user_commits_witness:
  "reachable (co_db (serve_all demo_host
     [(principal.Praetor, CreateRequest new_run_request), (principal.Praetor, ApproveRequest 3 8),
      (principal.Praetor, MergeRequest 1 None None 9), (principal.Praetor, AuthorizeRequest (Existing 1) ''merge'' 9)]
     demo_core))"
  using only_the_user_commits [of demo_core "[(principal.Praetor, CreateRequest new_run_request),
      (principal.Praetor, ApproveRequest 3 8), (principal.Praetor, MergeRequest 1 None None 9),
      (principal.Praetor, AuthorizeRequest (Existing 1) ''merge'' 9)]" demo_host]
  by (simp add: demo_core_def demo_reachable(1))

text \<open>
  Praetor answers details: an answer of Praetor's that is accepted answers a question
  that is not an authorization, whose options could be read and offered that answer, and
  which is not the one about a repository's hooks.
\<close>

theorem praetor_answers_details_only:
  assumes "answer_question p principal.Praetor i answer now s = (s', Inr r)"
  shows "\<exists>q. load_question (co_db s) i = Some q \<and> qu_kind q = Question \<and>
    (\<exists>options. from_str (qu_options q) = Some (JArray options) \<and> (\<exists>v \<in> set options. offers v answer)) \<and>
    \<not> po_is_pending p i (co_calls s)"
  by (rule praetor_answers_offered [OF assms])

lemma praetor_answers_details_only_witness:
  "\<exists>q. load_question (co_db asking_core) 1 = Some q \<and> qu_kind q = Question"
proof -
  have "\<exists>s' r. answer_question demo_ports principal.Praetor 1 ''yes'' 8 asking_core = (s', Inr r)"
    by (rule is_inrD) code_simp
  then show ?thesis using praetor_answers_details_only by blast
qed

text \<open>
  C24. A creation that fails leaves nothing to run: its draft, when it had been written, is
  cancelled with its worktree cleaned, the question about the repository's hooks, when it
  had been opened, is expired, no other row of either table has changed, and a directory
  that was provisioned is given back as the last call the creation makes.
\<close>

theorem failed_creation_leaves_nothing_behind:
  assumes "db_wf (co_db s)" "create_run p canonicalize sha256 who r s = (s', Inl e)"
  shows "(db_runs (co_db s') = db_runs (co_db s) \<or>
      (\<exists>run. db_runs (co_db s') = db_runs (co_db s) @ [run] \<and> rr_state run = run_state.Cancelled \<and>
         rr_worktree_status run = Some Cleaned)) \<and>
    (db_questions (co_db s') = db_questions (co_db s) \<or>
      (\<exists>q. db_questions (co_db s') = db_questions (co_db s) @ [q] \<and> qu_state q = Expired)) \<and>
    (\<forall>prepared s1 provisioned. prepare_run p canonicalize sha256 who r s = (s1, Inr prepared) \<and>
       po_provision p (worktree_request_of prepared (cr_start_point r)) (co_calls s1) = Inr provisioned \<longrightarrow>
       (\<exists>run. last (co_calls s') = Remove run \<and> rr_worktree_path run = Some (pw_path provisioned)))"
  using failed_creation_leaves [OF assms] by blast

lemma failed_creation_leaves_nothing_behind_witness:
  "\<exists>s' e. create_run demo_ports Some (\<lambda>_. ''abcd'') principal.User new_run_request empty_core = (s', Inl e) \<and>
     (db_questions (co_db s') = db_questions empty_db \<or>
      (\<exists>q. db_questions (co_db s') = db_questions empty_db @ [q] \<and> qu_state q = Expired))"
proof -
  obtain s' e where failed: "create_run demo_ports Some (\<lambda>_. ''abcd'') principal.User new_run_request empty_core = (s', Inl e)"
    using demo_creation_fails by blast
  have "db_wf (co_db empty_core)" using reachable.start reachable_db_wf by (simp add: empty_core_def)
  from failed_creation_leaves_nothing_behind [OF this failed] show ?thesis
    using failed by (auto simp: empty_core_def)
qed

end
