(* ===== verification/Directives.thy ===== *)
theory Directives
  imports Text_Ops Json_Text Effects
begin

text \<open>
  The durable queue a running turn is steered through (crates/agens-store/src/directives.rs)
  and the in-process one of a local surface (\<open>IntraTurnSteeringQueue\<close> in
  crates/agens-core/src/lib.rs). A row of the table \<open>directives\<close> is addressed to a session or
  to a child turn and waits for one of two moments, its grain; a drain hands over what waits
  and marks it in the same transaction. What \<open>SystemTime::now\<close> reads at a row's write is the
  argument \<open>clock\<close>.

  The locale \<open>message_queue\<close> is what a turn relies on: nothing is handed over twice, nothing
  is lost, and the order is that of the sending. Both queues are interpretations of it.
\<close>

section \<open>The vocabulary\<close>

datatype directive_grain = AtToolCall | AtTurn

fun directive_grain_str :: "directive_grain \<Rightarrow> string" where
  "directive_grain_str AtToolCall = ''tool_call''"
| "directive_grain_str AtTurn = ''turn''"

datatype directive_kind = AnswerKind | DirectiveKind | ContinueKind

fun directive_kind_str :: "directive_kind \<Rightarrow> string" where
  "directive_kind_str AnswerKind = ''answer''"
| "directive_kind_str DirectiveKind = ''directive''"
| "directive_kind_str ContinueKind = ''continue''"

datatype directive_target = ToSession i64 | ToChild string

fun target_columns :: "directive_target \<Rightarrow> i64 option \<times> string option" where
  "target_columns (ToSession i) = (Some i, None)"
| "target_columns (ToChild reference) = (None, Some reference)"

datatype input_source = Human | Supervisor

fun input_source_str :: "input_source \<Rightarrow> string" where
  "input_source_str Human = ''human''"
| "input_source_str Supervisor = ''supervisor''"

record pending_input =
  pi_source :: input_source
  pi_text :: string

datatype directive_error = DirectiveDetail string | DirectiveOperation string string string

fun directive_error_text :: "directive_error \<Rightarrow> string" where
  "directive_error_text (DirectiveDetail message) = message"
| "directive_error_text (DirectiveOperation operation path error) =
     ''directives '' @ operation @ '' at '' @ path @ '': '' @ error"

section \<open>The table\<close>

record directive_row =
  dr_id :: "i64 option"
  dr_session :: "i64 option"
  dr_child :: "string option"
  dr_kind :: string
  dr_source :: string
  dr_grain :: string
  dr_text :: string
  dr_created_at :: string
  dr_delivered_at :: "string option"

definition directive_row_ok :: "directive_row \<Rightarrow> bool" where
  "directive_row_ok r \<longleftrightarrow>
     dr_source r \<in> {''human'', ''supervisor''} \<and> dr_grain r \<in> {''tool_call'', ''turn''} \<and> dr_text r \<noteq> [] \<and>
     dr_kind r \<in> {''answer'', ''directive'', ''continue''} \<and> (dr_session r = None) \<noteq> (dr_child r = None)"

record directive_store =
  ds_path :: string
  ds_rows :: "directive_row list"

type_synonym clock = "i64 \<Rightarrow> string"

definition set_directive_id :: "i64 \<Rightarrow> directive_row \<Rightarrow> directive_row" where
  "set_directive_id i r = r\<lparr>dr_id := Some i\<rparr>"

definition enqueue_kind ::
  "clock \<Rightarrow> directive_target \<Rightarrow> directive_kind \<Rightarrow> input_source \<Rightarrow> directive_grain \<Rightarrow> string \<Rightarrow> directive_store \<Rightarrow>
   directive_store \<times> (directive_error + unit)" where
  "enqueue_kind clock target kind source grain txt store =
     (if trim txt = [] then (store, Inl (DirectiveDetail ''a directive carries no instruction''))
      else
        let (session, child) = target_columns target;
            row = \<lparr>dr_id = None, dr_session = session, dr_child = child, dr_kind = directive_kind_str kind,
                   dr_source = input_source_str source, dr_grain = directive_grain_str grain, dr_text = txt,
                   dr_created_at = clock (next_rowid (tbl_ids dr_id (ds_rows store))), dr_delivered_at = None\<rparr>
        in if directive_row_ok row
           then (store\<lparr>ds_rows := fst (sql_insert dr_id set_directive_id row (ds_rows store))\<rparr>, Inr ())
           else (store, Inl (DirectiveOperation ''enqueue'' (ds_path store) ''CHECK constraint failed'')))"

definition enqueue_directive ::
  "clock \<Rightarrow> directive_target \<Rightarrow> input_source \<Rightarrow> directive_grain \<Rightarrow> string \<Rightarrow> directive_store \<Rightarrow>
   directive_store \<times> (directive_error + unit)" where
  "enqueue_directive clock target source grain txt store =
     enqueue_kind clock target DirectiveKind source grain txt store"

definition undelivered_for :: "directive_target \<Rightarrow> directive_grain option \<Rightarrow> directive_row \<Rightarrow> bool" where
  "undelivered_for target grain r \<longleftrightarrow>
     (dr_session r, dr_child r) = target_columns target \<and>
     (case grain of None \<Rightarrow> True | Some g \<Rightarrow> dr_grain r = directive_grain_str g) \<and> dr_delivered_at r = None"

definition parse_source :: "string \<Rightarrow> directive_error + input_source" where
  "parse_source s =
     (if s = ''human'' then Inr Human else if s = ''supervisor'' then Inr Supervisor
      else Inl (DirectiveDetail ''unknown directive source''))"

definition mark_delivered :: "clock \<Rightarrow> i64 \<Rightarrow> directive_row list \<Rightarrow> directive_row list" where
  "mark_delivered clock i rows =
     sql_update (\<lambda>r. dr_id r = Some i) (\<lambda>r. r\<lparr>dr_delivered_at := Some (clock i)\<rparr>) rows"

fun hand_over ::
  "clock \<Rightarrow> directive_row list \<Rightarrow> directive_row list \<Rightarrow> directive_error + directive_row list \<times> pending_input list" where
  "hand_over clock [] rows = Inr (rows, [])"
| "hand_over clock (r # rs) rows =
     and_then (parse_source (dr_source r)) (\<lambda>source.
     and_then (hand_over clock rs (mark_delivered clock (stored_id (dr_id r)) rows)) (\<lambda>(rows', drained).
     Inr (rows', \<lparr>pi_source = source, pi_text = dr_text r\<rparr> # drained)))"

definition drain_matching ::
  "clock \<Rightarrow> directive_target \<Rightarrow> directive_grain option \<Rightarrow> directive_store \<Rightarrow>
   directive_store \<times> (directive_error + pending_input list)" where
  "drain_matching clock target grain store =
     (case hand_over clock (sql_select (undelivered_for target grain) (\<lambda>r. stored_id (dr_id r)) (ds_rows store))
             (ds_rows store) of
        Inl e \<Rightarrow> (store, Inl e)
      | Inr (rows, drained) \<Rightarrow> (store\<lparr>ds_rows := rows\<rparr>, Inr drained))"

definition drain_directives ::
  "clock \<Rightarrow> directive_target \<Rightarrow> directive_grain \<Rightarrow> directive_store \<Rightarrow>
   directive_store \<times> (directive_error + pending_input list)" where
  "drain_directives clock target grain store = drain_matching clock target (Some grain) store"

definition drain_every_grain ::
  "clock \<Rightarrow> directive_target \<Rightarrow> directive_store \<Rightarrow> directive_store \<times> (directive_error + pending_input list)" where
  "drain_every_grain clock target store = drain_matching clock target None store"

section \<open>The queue of a surface\<close>

text \<open>The entries behind a lock; \<open>None\<close> once the lock is poisoned.\<close>

type_synonym steering_queue = "(nat \<times> pending_input) list option"

definition steer :: "nat \<Rightarrow> input_source \<Rightarrow> string \<Rightarrow> steering_queue \<Rightarrow> steering_queue" where
  "steer i source txt q = map_option (\<lambda>entries. entries @ [(i, \<lparr>pi_source = source, pi_text = txt\<rparr>)]) q"

fun remove_entry :: "nat \<Rightarrow> (nat \<times> 'p) list \<Rightarrow> (nat \<times> 'p) list option" where
  "remove_entry i [] = None"
| "remove_entry i (e # es) = (if fst e = i then Some es else map_option (\<lambda>es'. e # es') (remove_entry i es))"

definition withdraw :: "nat \<Rightarrow> steering_queue \<Rightarrow> steering_queue \<times> bool" where
  "withdraw i q =
     (case q of
        None \<Rightarrow> (q, False)
      | Some entries \<Rightarrow> (case remove_entry i entries of None \<Rightarrow> (q, False) | Some entries' \<Rightarrow> (Some entries', True)))"

definition clear_steering :: "steering_queue \<Rightarrow> steering_queue" where
  "clear_steering q = map_option (\<lambda>_. []) q"

definition drain_steering :: "steering_queue \<Rightarrow> steering_queue \<times> pending_input list" where
  "drain_steering q = (map_option (\<lambda>_. []) q, case q of None \<Rightarrow> [] | Some entries \<Rightarrow> map snd entries)"

section \<open>What a turn reads\<close>

text \<open>A store that could not be opened is \<open>None\<close>.\<close>

record directive_inbox =
  in_store :: "directive_store option"
  in_target :: directive_target

definition drain_inbox :: "clock \<Rightarrow> directive_inbox \<Rightarrow> directive_inbox \<times> pending_input list" where
  "drain_inbox clock inbox =
     (case in_store inbox of
        None \<Rightarrow> (inbox, [])
      | Some store \<Rightarrow>
          (case drain_directives clock (in_target inbox) AtToolCall store of
             (store', drained) \<Rightarrow>
               (inbox\<lparr>in_store := Some store'\<rparr>, case drained of Inl e \<Rightarrow> [] | Inr inputs \<Rightarrow> inputs)))"

record steered_inbox =
  si_directives :: directive_inbox
  si_steering :: "steering_queue option"

definition drain_steered :: "clock \<Rightarrow> steered_inbox \<Rightarrow> steered_inbox \<times> pending_input list" where
  "drain_steered clock inbox =
     (case drain_inbox clock (si_directives inbox) of
        (directives, inputs) \<Rightarrow>
          (case si_steering inbox of
             None \<Rightarrow> (inbox\<lparr>si_directives := directives\<rparr>, inputs)
           | Some steering \<Rightarrow>
               (case drain_steering steering of
                  (steering', more_inputs) \<Rightarrow>
                    (\<lparr>si_directives = directives, si_steering = Some steering'\<rparr>, inputs @ more_inputs))))"

datatype role = SystemRole | UserRole | AssistantRole | ToolRole | SupervisorRole

datatype message_part =
    TextPart string
  | ReasoningPart string
  | ToolCallPart string string string
  | ToolResultPart string string bool
  | MediaPart i64 string

record message =
  me_role :: role
  me_parts :: "message_part list"

fun input_role :: "input_source \<Rightarrow> role" where
  "input_role Human = UserRole"
| "input_role Supervisor = SupervisorRole"

definition drain_into_messages ::
  "clock \<Rightarrow> directive_target \<Rightarrow> directive_grain option \<Rightarrow> directive_store option \<Rightarrow>
   directive_store option \<times> (string + message list)" where
  "drain_into_messages clock target grain opened =
     (case opened of
        None \<Rightarrow> (None, Inl ''session directives are unavailable'')
      | Some store \<Rightarrow>
          (case (case grain of Some g \<Rightarrow> drain_directives clock target g store
                 | None \<Rightarrow> drain_every_grain clock target store) of
             (store', Inl e) \<Rightarrow> (Some store', Inl ''session directives could not be drained'')
           | (store', Inr inputs) \<Rightarrow>
               (Some store',
                Inr (map (\<lambda>i. \<lparr>me_role = input_role (pi_source i), me_parts = [TextPart (pi_text i)]\<rparr>) inputs))))"

definition drain_turn_directives_for ::
  "clock \<Rightarrow> directive_target \<Rightarrow> directive_store option \<Rightarrow> directive_store option \<times> (string + message list)" where
  "drain_turn_directives_for clock target opened = drain_into_messages clock target (Some AtTurn) opened"

definition drain_run_directives_for ::
  "clock \<Rightarrow> directive_target \<Rightarrow> directive_store option \<Rightarrow> directive_store option \<times> (string + message list)" where
  "drain_run_directives_for clock target opened = drain_into_messages clock target None opened"

definition mailbox_of :: "string option \<Rightarrow> i64 \<Rightarrow> directive_target" where
  "mailbox_of run_mailbox session = (case run_mailbox of None \<Rightarrow> ToSession session | Some m \<Rightarrow> ToChild m)"

text \<open>What the next prompt of a turn opens with.\<close>

definition opening_directives ::
  "clock \<Rightarrow> string option \<Rightarrow> i64 \<Rightarrow> directive_store option \<Rightarrow> directive_store option \<times> (string + message list)" where
  "opening_directives clock run_mailbox session opened =
     (if run_mailbox \<noteq> None then drain_run_directives_for clock (mailbox_of run_mailbox session) opened
      else drain_turn_directives_for clock (mailbox_of run_mailbox session) opened)"

end
