(* ===== verification/Message_Queue.thy ===== *)
theory Message_Queue
  imports Directives
begin

text \<open>
  What a turn relies on of the queues it is steered through, stated once as the locale
  \<open>message_queue\<close> and discharged for the table of directives and for the in-process queue.
\<close>

section \<open>Senders and readers of a queue\<close>

datatype ('a, 'b) queue_op = Put 'a | Take 'b

fun work_queue ::
  "('a \<Rightarrow> 's \<Rightarrow> 's \<times> ('e + unit)) \<Rightarrow> ('b \<Rightarrow> 's \<Rightarrow> 's \<times> ('e + 'p list)) \<Rightarrow> ('a, 'b) queue_op list \<Rightarrow> 's \<Rightarrow>
   's \<times> ('e + 'p list) list" where
  "work_queue put tak [] s = (s, [])"
| "work_queue put tak (Put a # ops) s =
     (case put a s of (s1, r) \<Rightarrow> case work_queue put tak ops s1 of (s2, replies) \<Rightarrow>
        (s2, (case r of Inl e \<Rightarrow> Inl e | Inr u \<Rightarrow> Inr []) # replies))"
| "work_queue put tak (Take b # ops) s =
     (case tak b s of (s1, r) \<Rightarrow> case work_queue put tak ops s1 of (s2, replies) \<Rightarrow> (s2, r # replies))"

fun sent_of :: "('a \<Rightarrow> 'm) \<Rightarrow> ('m \<Rightarrow> bool) \<Rightarrow> ('a, 'b) queue_op list \<Rightarrow> 'm list" where
  "sent_of msg accepted [] = []"
| "sent_of msg accepted (Put a # ops) =
     (if accepted (msg a) then msg a # sent_of msg accepted ops else sent_of msg accepted ops)"
| "sent_of msg accepted (Take b # ops) = sent_of msg accepted ops"

text \<open>What an operation is answered when the messages it took are \<open>taken\<close>.\<close>

fun fair_reply ::
  "('a \<Rightarrow> 'm) \<Rightarrow> ('m \<Rightarrow> bool) \<Rightarrow> ('b \<Rightarrow> 'm \<Rightarrow> bool) \<Rightarrow> ('m \<Rightarrow> 'p) \<Rightarrow>
   ('a, 'b) queue_op \<Rightarrow> 'm list \<Rightarrow> ('e + 'p list) \<Rightarrow> bool" where
  "fair_reply msg accepted selects shown (Put a) taken r =
     (taken = [] \<and> (if accepted (msg a) then r = Inr [] else isl r))"
| "fair_reply msg accepted selects shown (Take b) taken r =
     (r = Inr (map shown taken) \<and> list_all (selects b) taken)"

locale message_queue =
  fixes put :: "'a \<Rightarrow> 's \<Rightarrow> 's \<times> ('e + unit)"
    and tak :: "'b \<Rightarrow> 's \<Rightarrow> 's \<times> ('e + 'p list)"
    and ok :: "'s \<Rightarrow> bool"
    and waiting :: "'s \<Rightarrow> 'm list"
    and msg :: "'a \<Rightarrow> 'm"
    and accepted :: "'m \<Rightarrow> bool"
    and selects :: "'b \<Rightarrow> 'm \<Rightarrow> bool"
    and shown :: "'m \<Rightarrow> 'p"
  assumes put_ok: "ok s \<Longrightarrow> ok (fst (put a s))"
    and take_ok: "ok s \<Longrightarrow> ok (fst (tak b s))"
    and put_accepted: "ok s \<Longrightarrow> accepted (msg a) \<Longrightarrow>
      snd (put a s) = Inr () \<and> waiting (fst (put a s)) = waiting s @ [msg a]"
    and put_refused: "ok s \<Longrightarrow> \<not> accepted (msg a) \<Longrightarrow> isl (snd (put a s)) \<and> waiting (fst (put a s)) = waiting s"
    and taken: "ok s \<Longrightarrow>
      snd (tak b s) = Inr (map shown (filter (selects b) (waiting s))) \<and>
      waiting (fst (tak b s)) = filter (\<lambda>m. \<not> selects b m) (waiting s)"
begin

text \<open>
  A class of messages no reader splits, such as those of one addressee and grain, leaves
  the queue in the order it was sent, nothing twice and nothing lost.
\<close>

definition unsplit :: "('m \<Rightarrow> bool) \<Rightarrow> bool" where
  "unsplit P \<longleftrightarrow> (\<forall>b. (\<forall>m. P m \<longrightarrow> selects b m) \<or> (\<forall>m. P m \<longrightarrow> \<not> selects b m))"

lemma unsplit_filter:
  "unsplit P \<Longrightarrow> filter P (filter (selects b) w) @ filter P (filter (\<lambda>m. \<not> selects b m) w) = filter P w"
  unfolding unsplit_def
proof (elim allE [of _ b] disjE)
  assume all: "\<forall>m. P m \<longrightarrow> selects b m"
  then have "filter P (filter (selects b) w) = filter P w" "filter P (filter (\<lambda>m. \<not> selects b m) w) = []"
    by (auto simp: filter_empty_conv intro!: filter_cong)
  then show ?thesis by simp
next
  assume none: "\<forall>m. P m \<longrightarrow> \<not> selects b m"
  then have "filter P (filter (selects b) w) = []" "filter P (filter (\<lambda>m. \<not> selects b m) w) = filter P w"
    by (auto simp: filter_empty_conv intro!: filter_cong)
  then show ?thesis by simp
qed

lemma fair:
  assumes "ok s"
  shows "\<exists>taken. length taken = length ops \<and>
    list_all2 (\<lambda>(op, xs) r. fair_reply msg accepted selects shown op xs r) (zip ops taken)
      (snd (work_queue put tak ops s)) \<and>
    (\<forall>P. unsplit P \<longrightarrow>
      filter P (concat taken @ waiting (fst (work_queue put tak ops s))) =
      filter P (waiting s @ sent_of msg accepted ops))"
  using assms
proof (induction ops arbitrary: s)
  case (Cons op ops)
  show ?case
  proof (cases op)
    case (Put a)
    obtain s1 r where step: "put a s = (s1, r)" by (cases "put a s")
    have s1: "ok s1" using put_ok [OF Cons.prems, of a] step by simp
    from Cons.IH [OF s1] obtain taken where t: "length taken = length ops"
      "list_all2 (\<lambda>(op, xs) r. fair_reply msg accepted selects shown op xs r) (zip ops taken)
         (snd (work_queue put tak ops s1))"
      "\<And>P. unsplit P \<Longrightarrow> filter P (concat taken @ waiting (fst (work_queue put tak ops s1))) =
         filter P (waiting s1 @ sent_of msg accepted ops)" by blast
    have "fair_reply msg accepted selects shown op [] (case r of Inl e \<Rightarrow> Inl e | Inr u \<Rightarrow> Inr [])"
      and "waiting s1 @ sent_of msg accepted ops = waiting s @ sent_of msg accepted (op # ops)"
      using put_accepted [OF Cons.prems, of a] put_refused [OF Cons.prems, of a] step Put
      by (auto simp: isl_def split: sum.splits)
    then show ?thesis using t Put step
      by (intro exI [of _ "[] # taken"]) (auto split: prod.splits)
  next
    case (Take b)
    obtain s1 r where step: "tak b s = (s1, r)" by (cases "tak b s")
    have s1: "ok s1" using take_ok [OF Cons.prems, of b] step by simp
    have got: "r = Inr (map shown (filter (selects b) (waiting s)))"
      "waiting s1 = filter (\<lambda>m. \<not> selects b m) (waiting s)"
      using taken [OF Cons.prems, of b] step by simp_all
    from Cons.IH [OF s1] obtain taken where t: "length taken = length ops"
      "list_all2 (\<lambda>(op, xs) r. fair_reply msg accepted selects shown op xs r) (zip ops taken)
         (snd (work_queue put tak ops s1))"
      "\<And>P. unsplit P \<Longrightarrow> filter P (concat taken @ waiting (fst (work_queue put tak ops s1))) =
         filter P (waiting s1 @ sent_of msg accepted ops)" by blast
    have "fair_reply msg accepted selects shown op (filter (selects b) (waiting s)) r"
      using got(1) Take by (simp add: list_all_iff)
    moreover have "filter P (filter (selects b) (waiting s) @ concat taken @ waiting (fst (work_queue put tak ops s1))) =
        filter P (waiting s @ sent_of msg accepted (op # ops))" if "unsplit P" for P
      using unsplit_filter [OF that, of b "waiting s"] t(3) [OF that] got(2) Take by simp
    ultimately show ?thesis using t(1,2) Take step
      by (intro exI [of _ "filter (selects b) (waiting s) # taken"]) (auto split: prod.splits)
  qed
qed simp

end

section \<open>The table of directives\<close>

interpretation directives: sql_table dr_id set_directive_id
  by unfold_locales (simp add: set_directive_id_def)

record queued_message =
  qm_target :: directive_target
  qm_kind :: directive_kind
  qm_source :: input_source
  qm_grain :: directive_grain
  qm_text :: string

definition message_of :: "directive_row \<Rightarrow> queued_message" where
  "message_of r =
     \<lparr>qm_target = (case dr_session r of Some i \<Rightarrow> ToSession i | None \<Rightarrow> ToChild (the (dr_child r))),
      qm_kind = (if dr_kind r = ''answer'' then AnswerKind else if dr_kind r = ''directive'' then DirectiveKind
                 else ContinueKind),
      qm_source = (if dr_source r = ''human'' then Human else Supervisor),
      qm_grain = (if dr_grain r = ''tool_call'' then AtToolCall else AtTurn), qm_text = dr_text r\<rparr>"

definition store_ok :: "directive_store \<Rightarrow> bool" where
  "store_ok store \<longleftrightarrow> tbl_ok dr_id (ds_rows store) \<and> list_all directive_row_ok (ds_rows store)"

definition undelivered :: "directive_store \<Rightarrow> queued_message list" where
  "undelivered store = map message_of (filter (\<lambda>r. dr_delivered_at r = None) (ds_rows store))"

definition instructs :: "queued_message \<Rightarrow> bool" where
  "instructs m \<longleftrightarrow> trim (qm_text m) \<noteq> []"

definition selected_by :: "directive_target \<times> directive_grain option \<Rightarrow> queued_message \<Rightarrow> bool" where
  "selected_by b m \<longleftrightarrow> qm_target m = fst b \<and> (case snd b of None \<Rightarrow> True | Some g \<Rightarrow> qm_grain m = g)"

definition shown_input :: "queued_message \<Rightarrow> pending_input" where
  "shown_input m = \<lparr>pi_source = qm_source m, pi_text = qm_text m\<rparr>"

fun send :: "clock \<times> queued_message \<Rightarrow> directive_store \<Rightarrow> directive_store \<times> (directive_error + unit)" where
  "send (clock, m) store = enqueue_kind clock (qm_target m) (qm_kind m) (qm_source m) (qm_grain m) (qm_text m) store"

fun read_queue ::
  "clock \<times> directive_target \<times> directive_grain option \<Rightarrow> directive_store \<Rightarrow>
   directive_store \<times> (directive_error + pending_input list)" where
  "read_queue (clock, target, grain) store = drain_matching clock target grain store"

lemma strs_inject [simp]:
  "directive_grain_str g = directive_grain_str g' \<longleftrightarrow> g = g'"
  "target_columns t = target_columns t' \<longleftrightarrow> t = t'"
  by (cases g; cases g'; simp) (cases t; cases t'; simp)

lemma trim_nonempty: "trim s \<noteq> [] \<Longrightarrow> s \<noteq> []"
  by (auto simp: trim_def trim_start_def)

lemma undelivered_for_iff:
  assumes "directive_row_ok r"
  shows "undelivered_for target grain r \<longleftrightarrow> dr_delivered_at r = None \<and> selected_by (target, grain) (message_of r)"
  using assms unfolding undelivered_for_def directive_row_ok_def selected_by_def message_of_def
  by (cases target; cases grain; cases "the grain") (auto split: option.splits)

text \<open>A whole drain marks exactly the rows it selected.\<close>

lemma hand_over_rows:
  assumes "list_all directive_row_ok rs"
  shows "hand_over clock rs rows =
    Inr (fold (\<lambda>r. mark_delivered clock (stored_id (dr_id r))) rs rows,
         map (\<lambda>r. shown_input (message_of r)) rs)"
  using assms
proof (induction rs arbitrary: rows)
  case (Cons r rs)
  then have "parse_source (dr_source r) = Inr (qm_source (message_of r))"
    by (auto simp: directive_row_ok_def parse_source_def message_of_def)
  then show ?case using Cons by (simp add: shown_input_def message_of_def)
qed simp

lemma fold_mark:
  "fold (\<lambda>r. mark_delivered clock (stored_id (dr_id r))) rs rows =
     map (\<lambda>r. if dr_id r \<in> (\<lambda>x. Some (stored_id (dr_id x))) ` set rs
              then r\<lparr>dr_delivered_at := Some (clock (stored_id (dr_id r)))\<rparr> else r) rows"
  by (induction rs arbitrary: rows)
    (auto simp: mark_delivered_def sql_update_def image_iff)

lemma drain_marks:
  assumes "store_ok store"
  shows "drain_matching clock target grain store =
    (store\<lparr>ds_rows := sql_update (undelivered_for target grain)
       (\<lambda>r. r\<lparr>dr_delivered_at := Some (clock (stored_id (dr_id r)))\<rparr>) (ds_rows store)\<rparr>,
     Inr (map (\<lambda>r. shown_input (message_of r)) (filter (undelivered_for target grain) (ds_rows store))))"
proof -
  let ?p = "undelivered_for target grain"
  have ok: "tbl_ok dr_id (ds_rows store)" "list_all directive_row_ok (ds_rows store)"
    using assms by (simp_all add: store_ok_def)
  have sel: "sql_select ?p (\<lambda>r. stored_id (dr_id r)) (ds_rows store) = filter ?p (ds_rows store)"
    by (rule directives.select_by_id [OF ok(1)])
  have "dr_id r \<in> (\<lambda>x. Some (stored_id (dr_id x))) ` set (filter ?p (ds_rows store)) \<longleftrightarrow> ?p r"
    if r: "r \<in> set (ds_rows store)" for r
  proof -
    have some: "\<forall>x \<in> set (ds_rows store). Some (stored_id (dr_id x)) = dr_id x"
      using ok(1) by (auto simp: tbl_ok_def)
    show ?thesis using r some directives.id_unique [OF ok(1) r] by (auto simp: image_iff)
  qed
  then have "fold (\<lambda>r. mark_delivered clock (stored_id (dr_id r))) (filter ?p (ds_rows store)) (ds_rows store) =
      sql_update ?p (\<lambda>r. r\<lparr>dr_delivered_at := Some (clock (stored_id (dr_id r)))\<rparr>) (ds_rows store)"
    by (simp add: fold_mark sql_update_def)
  moreover have "list_all directive_row_ok (filter ?p (ds_rows store))"
    using ok(2) by (auto simp: list_all_iff)
  ultimately show ?thesis
    by (simp add: drain_matching_def sel hand_over_rows)
qed

lemma enqueue_accepted:
  assumes "trim txt \<noteq> []"
  obtains row where "enqueue_kind clock target kind source grain txt store =
      (store\<lparr>ds_rows := fst (sql_insert dr_id set_directive_id row (ds_rows store))\<rparr>, Inr ())"
    "directive_row_ok row" "dr_delivered_at row = None"
    "message_of row = \<lparr>qm_target = target, qm_kind = kind, qm_source = source, qm_grain = grain, qm_text = txt\<rparr>"
proof -
  let ?row = "\<lparr>dr_id = None, dr_session = fst (target_columns target), dr_child = snd (target_columns target),
     dr_kind = directive_kind_str kind, dr_source = input_source_str source, dr_grain = directive_grain_str grain,
     dr_text = txt, dr_created_at = clock (next_rowid (tbl_ids dr_id (ds_rows store))), dr_delivered_at = None\<rparr>"
  have ok: "directive_row_ok ?row" using trim_nonempty [OF assms]
    by (cases target; cases kind; cases source; cases grain) (simp_all add: directive_row_ok_def)
  show ?thesis
  proof (rule that [OF _ ok])
    show "enqueue_kind clock target kind source grain txt store =
      (store\<lparr>ds_rows := fst (sql_insert dr_id set_directive_id ?row (ds_rows store))\<rparr>, Inr ())"
      using assms ok by (cases "target_columns target") (simp add: enqueue_kind_def Let_def)
    show "message_of ?row = \<lparr>qm_target = target, qm_kind = kind, qm_source = source, qm_grain = grain, qm_text = txt\<rparr>"
      by (cases target; cases kind; cases source; cases grain) (simp_all add: message_of_def)
  qed simp
qed

lemma message_of_id [simp]: "message_of (set_directive_id i r) = message_of r"
  by (simp add: message_of_def set_directive_id_def split: option.split)

lemma delivered_id [simp]: "dr_delivered_at (set_directive_id i r) = dr_delivered_at r"
  by (simp add: set_directive_id_def)

lemma row_ok_id [simp]: "directive_row_ok (set_directive_id i r) = directive_row_ok r"
  by (simp add: directive_row_ok_def set_directive_id_def)

lemma enqueue_waits:
  assumes "store_ok store" "trim txt \<noteq> []"
  shows "snd (enqueue_kind clock target kind source grain txt store) = Inr ()"
    and "store_ok (fst (enqueue_kind clock target kind source grain txt store))"
    and "undelivered (fst (enqueue_kind clock target kind source grain txt store)) = undelivered store @
      [\<lparr>qm_target = target, qm_kind = kind, qm_source = source, qm_grain = grain, qm_text = txt\<rparr>]"
proof -
  obtain row where row: "enqueue_kind clock target kind source grain txt store =
      (store\<lparr>ds_rows := fst (sql_insert dr_id set_directive_id row (ds_rows store))\<rparr>, Inr ())"
    "directive_row_ok row" "dr_delivered_at row = None"
    "message_of row = \<lparr>qm_target = target, qm_kind = kind, qm_source = source, qm_grain = grain, qm_text = txt\<rparr>"
    by (rule enqueue_accepted [OF assms(2)])
  show "snd (enqueue_kind clock target kind source grain txt store) = Inr ()" by (simp add: row(1))
  have "tbl_ok dr_id (fst (sql_insert dr_id set_directive_id row (ds_rows store)))"
    using assms(1) directives.insert_ok by (simp add: store_ok_def)
  then show "store_ok (fst (enqueue_kind clock target kind source grain txt store))"
    using assms(1) row(2) by (simp add: row(1) store_ok_def directives.insert_fst list_all_iff)
  show "undelivered (fst (enqueue_kind clock target kind source grain txt store)) = undelivered store @
      [\<lparr>qm_target = target, qm_kind = kind, qm_source = source, qm_grain = grain, qm_text = txt\<rparr>]"
    using row(3) by (simp add: row(1) undelivered_def directives.insert_fst delivered_id row(4))
qed

lemma drain_keeps_ok:
  assumes "store_ok store" shows "store_ok (fst (drain_matching clock target grain store))"
proof -
  have "tbl_ok dr_id (sql_update (undelivered_for target grain)
      (\<lambda>r. r\<lparr>dr_delivered_at := Some (clock (stored_id (dr_id r)))\<rparr>) (ds_rows store))"
    by (rule directives.update_ok) (use assms in \<open>simp_all add: store_ok_def\<close>)
  moreover have "directive_row_ok (r\<lparr>dr_delivered_at := at\<rparr>) = directive_row_ok r" for r at
    by (simp add: directive_row_ok_def)
  ultimately show ?thesis using assms
    by (auto simp: drain_marks [OF assms] store_ok_def list_all_iff in_sql_update)
qed

lemma undelivered_filter:
  "filter P (undelivered store) =
     map message_of (filter (\<lambda>r. dr_delivered_at r = None \<and> P (message_of r)) (ds_rows store))"
  by (simp add: undelivered_def filter_map comp_def conj_commute)

lemma drain_takes:
  assumes "store_ok store"
  shows "snd (drain_matching clock target grain store) =
      Inr (map shown_input (filter (selected_by (target, grain)) (undelivered store)))"
    and "undelivered (fst (drain_matching clock target grain store)) =
      filter (\<lambda>m. \<not> selected_by (target, grain) m) (undelivered store)"
proof -
  have ok: "\<forall>r \<in> set (ds_rows store). directive_row_ok r"
    using assms by (simp add: store_ok_def list_all_iff)
  have sel: "filter (undelivered_for target grain) (ds_rows store) =
      filter (\<lambda>r. dr_delivered_at r = None \<and> selected_by (target, grain) (message_of r)) (ds_rows store)"
    using ok undelivered_for_iff by (intro filter_cong) auto
  show "snd (drain_matching clock target grain store) =
      Inr (map shown_input (filter (selected_by (target, grain)) (undelivered store)))"
    by (simp add: drain_marks [OF assms] sel undelivered_filter)
  have "map message_of (filter (\<lambda>r. dr_delivered_at r = None)
      (sql_update (undelivered_for target grain) (\<lambda>r. r\<lparr>dr_delivered_at := Some (clock (stored_id (dr_id r)))\<rparr>) rows)) =
    map message_of (filter (\<lambda>r. dr_delivered_at r = None \<and> \<not> selected_by (target, grain) (message_of r)) rows)"
    if "\<forall>r \<in> set rows. directive_row_ok r" for rows
    using that by (induction rows) (auto simp: sql_update_def undelivered_for_iff)
  from this [OF ok] show "undelivered (fst (drain_matching clock target grain store)) =
      filter (\<lambda>m. \<not> selected_by (target, grain) m) (undelivered store)"
    by (simp add: drain_marks [OF assms] undelivered_filter) (simp add: undelivered_def)
qed

interpretation directive_queue: message_queue send read_queue store_ok undelivered snd instructs
  "\<lambda>(clock, b). selected_by b" shown_input
proof unfold_locales
  fix store :: directive_store and a :: "clock \<times> queued_message" and b :: "clock \<times> directive_target \<times> directive_grain option"
  assume ok: "store_ok store"
  obtain clock m where a: "a = (clock, m)" by (cases a)
  obtain clock' target grain where b: "b = (clock', target, grain)" by (cases b)
  have refused: "send a store = (store, Inl (DirectiveDetail ''a directive carries no instruction''))"
    if "\<not> instructs (snd a)" using that by (simp add: a instructs_def enqueue_kind_def)
  note waits = enqueue_waits [OF ok, of "qm_text m" clock "qm_target m" "qm_kind m" "qm_source m" "qm_grain m"]
  show "store_ok (fst (send a store))"
    using waits(2) refused ok by (cases "instructs (snd a)") (auto simp: a instructs_def)
  show "store_ok (fst (read_queue b store))" by (simp add: b drain_keeps_ok [OF ok])
  show "snd (send a store) = Inr () \<and> undelivered (fst (send a store)) = undelivered store @ [snd a]"
    if "instructs (snd a)" using waits(1,3) that by (simp add: a instructs_def)
  show "isl (snd (send a store)) \<and> undelivered (fst (send a store)) = undelivered store"
    if "\<not> instructs (snd a)" using refused [OF that] by (simp add: isl_def)
  show "snd (read_queue b store) =
        Inr (map shown_input (filter ((\<lambda>(clock, b). selected_by b) b) (undelivered store))) \<and>
      undelivered (fst (read_queue b store)) =
        filter (\<lambda>m. \<not> (\<lambda>(clock, b). selected_by b) b m) (undelivered store)"
    by (simp add: b drain_takes [OF ok])
qed

section \<open>The in-process queue\<close>

fun steer_with :: "nat \<times> pending_input \<Rightarrow> steering_queue \<Rightarrow> steering_queue \<times> (unit + unit)" where
  "steer_with (i, input) q = (steer i (pi_source input) (pi_text input) q, Inr ())"

definition collect_steering :: "unit \<Rightarrow> steering_queue \<Rightarrow> steering_queue \<times> (unit + pending_input list)" where
  "collect_steering u q = map_prod id Inr (drain_steering q)"

interpretation steering: message_queue steer_with collect_steering "\<lambda>q. q \<noteq> None" the id "\<lambda>_. True" "\<lambda>_ _. True" snd
  by unfold_locales (auto simp: steer_def collect_steering_def drain_steering_def)

text \<open>A withdrawn entry is never collected, and the others keep their order.\<close>

lemma remove_entry_Some:
  assumes "remove_entry i es = Some es'"
  shows "\<exists>as p bs. es = as @ (i, p) # bs \<and> i \<notin> fst ` set as \<and> es' = as @ bs"
  using assms
proof (induction es arbitrary: es')
  case (Cons e es)
  show ?case
  proof (cases "fst e = i")
    case True
    then have "e # es = [] @ (i, snd e) # es" "es' = [] @ es" using Cons.prems by auto
    then show ?thesis by fastforce
  next
    case False
    then obtain es2 where "remove_entry i es = Some es2" "es' = e # es2" using Cons.prems by auto
    moreover from Cons.IH [OF this(1)] obtain as p bs where
      "es = as @ (i, p) # bs" "i \<notin> fst ` set as" "es2 = as @ bs" by blast
    ultimately have "e # es = (e # as) @ (i, p) # bs \<and> i \<notin> fst ` set (e # as) \<and> es' = (e # as) @ bs"
      using False by auto
    then show ?thesis by blast
  qed
qed simp

lemma withdrawn_is_not_collected:
  assumes "withdraw i q = (q', True)"
  obtains as p bs where "q = Some (as @ (i, p) # bs)" "snd (drain_steering q') = map snd (as @ bs)"
proof -
  obtain es es' where q: "q = Some es" "remove_entry i es = Some es'" "q' = Some es'"
    using assms unfolding withdraw_def by (simp split: option.splits) metis
  from remove_entry_Some [OF q(2)] obtain as p bs where "es = as @ (i, p) # bs" "es' = as @ bs" by blast
  then show ?thesis using that [of as p bs] q by (simp add: drain_steering_def)
qed

lemma withdrawn_too_late: "withdraw i q = (q', False) \<Longrightarrow> q' = q"
  by (auto simp: withdraw_def split: option.splits)

end
