(* ===== verification/Delivery.thy ===== *)
theory Delivery
  imports Message_Queue Access_Control
begin

text \<open>
  The port of the core that delivers to a run (crates/agens-server/src/ports/delivery.rs):
  what is delivered is queued as a directive to the run's mailbox, which the session that
  executes the run reads. The theorems follow an answer from the request that gives it to
  the prompt of the session that reads it.
\<close>

section \<open>The port\<close>

definition run_mailbox :: "i64 \<Rightarrow> string" where
  "run_mailbox run_id = ''run:'' @ show_i64 run_id"

fun kind_and_text :: "delivery_payload \<Rightarrow> directive_kind \<times> string" where
  "kind_and_text (AnswerPayload question_id answer) = (AnswerKind, answer)"
| "kind_and_text (Directive directive) = (DirectiveKind, directive)"
| "kind_and_text Continue = (ContinueKind, ''continue'')"

fun directive_grain_of :: "delivery_grain \<Rightarrow> directive_grain" where
  "directive_grain_of ToolCall = AtToolCall"
| "directive_grain_of Turn = AtTurn"

text \<open>The store behind its lock; \<open>None\<close> once the lock is poisoned.\<close>

type_synonym run_deliveries = "directive_store option"

definition enqueue_delivery :: "clock \<Rightarrow> delivery \<Rightarrow> run_deliveries \<Rightarrow> run_deliveries \<times> (port_error + unit)" where
  "enqueue_delivery clock delivery q =
     (case q of
        None \<Rightarrow> (q, Inl \<lparr>pe_port = ''delivery'', pe_detail = ''the queue is unusable after a failed enqueue''\<rparr>)
      | Some store \<Rightarrow>
          (let target = ToChild (run_mailbox (de_run_id delivery));
               (kind, txt) = kind_and_text (de_payload delivery)
           in case enqueue_kind clock target kind Supervisor (directive_grain_of (de_grain delivery)) txt store of
                (store', Inl e) \<Rightarrow> (Some store', Inl \<lparr>pe_port = ''delivery'', pe_detail = directive_error_text e\<rparr>)
              | (store', Inr u) \<Rightarrow> (Some store', Inr ())))"

text \<open>The queue after the calls a core has made of its ports.\<close>

definition after_calls :: "clock \<Rightarrow> port_call list \<Rightarrow> run_deliveries \<Rightarrow> run_deliveries" where
  "after_calls clock calls q =
     fold (\<lambda>c q. case c of Enqueue delivery \<Rightarrow> fst (enqueue_delivery clock delivery q) | _ \<Rightarrow> q) calls q"

section \<open>Delivering\<close>

lemma after_calls_append [simp]:
  "after_calls clock (calls @ calls') q = after_calls clock calls' (after_calls clock calls q)"
  by (simp add: after_calls_def)

lemma after_calls_step [simp]:
  "after_calls clock [] q = q"
  "after_calls clock (Enqueue delivery # calls) q = after_calls clock calls (fst (enqueue_delivery clock delivery q))"
  "after_calls clock (ResolvePending i trusted # calls) q = after_calls clock calls q"
  "after_calls clock (QueueChanged i # calls) q = after_calls clock calls q"
  by (simp_all add: after_calls_def)





section \<open>How answering a question ends\<close>











section \<open>The properties\<close>



section \<open>A daemon with its queue\<close>

definition demo_clock :: clock where "demo_clock = (\<lambda>i. ''5'')"

definition empty_queue :: directive_store where
  "empty_queue = \<lparr>ds_path = ''/data/agens.db'', ds_rows = []\<rparr>"



definition reply_of :: "string \<Rightarrow> directive_kind \<Rightarrow> queued_message" where
  "reply_of said kind = \<lparr>qm_target = ToChild ''run:1'', qm_kind = kind, qm_source = Supervisor,
     qm_grain = AtToolCall, qm_text = said\<rparr>"




text \<open>
  C20. Directives are delivered once and in order: whatever is sent to the queue and
  whatever is drained from it, for every addressee and grain the messages handed over
  followed by those still waiting are those that were accepted, in the order they were sent;
  a drain hands over only messages it is addressed by, no drain fails, and a message is
  refused exactly when it carries no instruction.
\<close>

theorem directives_delivered_once:
  assumes "work_queue send read_queue ops \<lparr>ds_path = path, ds_rows = []\<rparr> = (store, replies)"
  shows "\<exists>taken. length taken = length ops \<and>
    list_all2 (\<lambda>(op, messages) reply. case op of
        Put (clock, m) \<Rightarrow> messages = [] \<and> (if trim (qm_text m) = [] then isl reply else reply = Inr [])
      | Take (clock, target, g) \<Rightarrow> reply = Inr (map shown_input messages) \<and>
          list_all (selected_by (target, g)) messages) (zip ops taken) replies \<and>
    (\<forall>target g. filter (selected_by (target, Some g)) (concat taken @ undelivered store) =
       filter (selected_by (target, Some g)) (sent_of snd instructs ops))"
proof -
  let ?empty = "\<lparr>ds_path = path, ds_rows = []\<rparr>"
  have "store_ok ?empty" by (simp add: store_ok_def tbl_ok_def)
  from directive_queue.fair [OF this, of ops] obtain taken where t: "length taken = length ops"
    "list_all2 (\<lambda>(op, xs) r. fair_reply snd instructs (\<lambda>(clock, b). selected_by b) shown_input op xs r) (zip ops taken) replies"
    "\<And>P. directive_queue.unsplit P \<Longrightarrow>
       filter P (concat taken @ undelivered store) = filter P (undelivered ?empty @ sent_of snd instructs ops)"
    unfolding assms by auto
  have "directive_queue.unsplit (selected_by (target, Some g))" for target g
    unfolding directive_queue.unsplit_def by (auto simp: selected_by_def split: option.splits)
  from t(3) [OF this] have "\<forall>target g. filter (selected_by (target, Some g)) (concat taken @ undelivered store) =
      filter (selected_by (target, Some g)) (sent_of snd instructs ops)"
    by (simp add: undelivered_def)
  moreover have "list_all2 (\<lambda>(op, messages) reply. case op of
        Put (clock, m) \<Rightarrow> messages = [] \<and> (if trim (qm_text m) = [] then isl reply else reply = Inr [])
      | Take (clock, target, g) \<Rightarrow> reply = Inr (map shown_input messages) \<and>
          list_all (selected_by (target, g)) messages) (zip ops taken) replies"
    by (rule list_all2_mono [OF t(2)]) (auto simp: instructs_def split: queue_op.splits if_splits)
  ultimately show ?thesis using t(1) by blast
qed

lemma directives_delivered_once_witness:
  "\<exists>taken. filter (selected_by (ToChild ''run:1'', Some AtToolCall))
      (concat taken @ undelivered (fst (work_queue send read_queue
        [Put (demo_clock, reply_of ''yes'' AnswerKind), Put (demo_clock, reply_of '' '' DirectiveKind),
         Take (demo_clock, ToChild ''run:1'', None), Put (demo_clock, reply_of ''go on'' DirectiveKind)] empty_queue))) =
    [reply_of ''yes'' AnswerKind, reply_of ''go on'' DirectiveKind]"
proof -
  let ?ops = "[Put (demo_clock, reply_of ''yes'' AnswerKind), Put (demo_clock, reply_of '' '' DirectiveKind),
    Take (demo_clock, ToChild ''run:1'', None :: directive_grain option), Put (demo_clock, reply_of ''go on'' DirectiveKind)]"
  obtain store replies where ran: "work_queue send read_queue ?ops empty_queue = (store, replies)" by fastforce
  have "instructs (reply_of ''yes'' AnswerKind)" "\<not> instructs (reply_of '' '' DirectiveKind)"
    "instructs (reply_of ''go on'' DirectiveKind)" by code_simp+
  then have "sent_of snd instructs ?ops = [reply_of ''yes'' AnswerKind, reply_of ''go on'' DirectiveKind]" by simp
  moreover from directives_delivered_once [OF ran [unfolded empty_queue_def]] obtain taken where
    "\<forall>target g. filter (selected_by (target, Some g)) (concat taken @ undelivered store) =
       filter (selected_by (target, Some g)) (sent_of snd instructs ?ops)" by (elim exE conjE) (rule that)
  ultimately have "filter (selected_by (ToChild ''run:1'', Some AtToolCall)) (concat taken @ undelivered store) =
      [reply_of ''yes'' AnswerKind, reply_of ''go on'' DirectiveKind]"
    by (simp add: selected_by_def reply_of_def)
  then show ?thesis unfolding ran fst_conv by blast
qed





end
