(* ===== verification/Turn.thy ===== *)
theory Turn
  imports Directives Retained_Result Health
begin

text \<open>
  One turn of an agent (\<open>TurnCoordinator\<close> and the validator of persisted turns in
  crates/agens-core/src/lib.rs): the states a turn goes through, the events it leaves, and
  the replay that decides whether a stored history is one a turn can have left.
\<close>

section \<open>States and events\<close>

datatype turn_state =
  TurnIdle | TurnRequesting | TurnStreaming | TurnDispatching | TurnCompleted | TurnCancelled | TurnFailed

fun is_terminal :: "turn_state \<Rightarrow> bool" where
  "is_terminal st \<longleftrightarrow> st \<in> {TurnCompleted, TurnCancelled, TurnFailed}"

record turn_transition_error =
  te_source :: turn_state
  te_target :: turn_state

definition transition_to :: "turn_state \<Rightarrow> turn_state \<Rightarrow> turn_transition_error + turn_state" where
  "transition_to source target =
     (if (source, target) \<in> {(TurnIdle, TurnRequesting), (TurnRequesting, TurnStreaming),
           (TurnRequesting, TurnCompleted), (TurnStreaming, TurnDispatching), (TurnStreaming, TurnCompleted),
           (TurnDispatching, TurnRequesting)} \<or>
         (source \<in> {TurnRequesting, TurnStreaming, TurnDispatching} \<and> target \<in> {TurnCancelled, TurnFailed})
      then Inr target else Inl \<lparr>te_source = source, te_target = target\<rparr>)"

record usage =
  us_input_tokens :: "nat option"
  us_output_tokens :: "nat option"
  us_total_tokens :: "nat option"
  us_context_window :: "nat option"

datatype turn_retry_reason = RateLimited | ServerError | NetworkError | RequestTimeout | Transient

record fact_identity =
  fa_tool_call_id :: string
  fa_session_id :: "i64 option"
  fa_attempt_id :: "i64 option"
  fa_sequence :: nat
  fa_dispatch_id :: "nat option"

datatype turn_event =
    StateChanged turn_state
  | ProviderPart message_part
  | UsageSeen usage
  | ToolCallRequested string string string
  | ToolResultTaken message_part
  | ResultFacts fact_identity tool_result_facts
  | ProviderRetry nat "nat option" "nat option" turn_retry_reason
  | IntraTurnInput input_source string

datatype turn_event_error =
    TransitionError turn_transition_error
  | InvalidProviderPart
  | DuplicateToolCallId string
  | UnexpectedToolResult string
  | UnexpectedIntraTurnInput

section \<open>The coordinator of a turn\<close>

record turn_attempt_key =
  ak_session_id :: i64
  ak_attempt_id :: i64

datatype attempt_key_error = InvalidSessionId | InvalidAttemptId

definition new_attempt_key :: "i64 \<Rightarrow> i64 \<Rightarrow> attempt_key_error + turn_attempt_key" where
  "new_attempt_key session_id attempt_id =
     (if session_id \<le> 0 then Inl InvalidSessionId else if attempt_id \<le> 0 then Inl InvalidAttemptId
      else Inr \<lparr>ak_session_id = session_id, ak_attempt_id = attempt_id\<rparr>)"

record pending_tool_call =
  pc_id :: string
  pc_name :: string
  pc_input :: string

record turn_coordinator =
  tc_state :: turn_state
  tc_events :: "turn_event list"
  tc_pending :: "pending_tool_call list"
  tc_persisted :: bool
  tc_persistence_attempted :: bool
  tc_attempt_key :: "turn_attempt_key option"
  tc_fact_sequence :: nat

definition new_coordinator :: turn_coordinator where
  "new_coordinator = \<lparr>tc_state = TurnIdle, tc_events = [], tc_pending = [], tc_persisted = False,
     tc_persistence_attempted = False, tc_attempt_key = None, tc_fact_sequence = 0\<rparr>"

definition for_attempt :: "turn_attempt_key \<Rightarrow> turn_coordinator" where
  "for_attempt key = new_coordinator\<lparr>tc_attempt_key := Some key\<rparr>"

type_synonym turn_step = "turn_coordinator \<Rightarrow> turn_coordinator \<times> (turn_event_error + unit)"

definition enter :: "turn_state \<Rightarrow> turn_step" where
  "enter target c =
     (case transition_to (tc_state c) target of
        Inl e \<Rightarrow> (c, Inl (TransitionError e))
      | Inr st \<Rightarrow> (c\<lparr>tc_state := st, tc_events := tc_events c @ [StateChanged st]\<rparr>, Inr ()))"

definition emit :: "turn_event \<Rightarrow> turn_coordinator \<Rightarrow> turn_coordinator" where
  "emit e c = c\<lparr>tc_events := tc_events c @ [e]\<rparr>"

definition require_state :: "turn_state \<Rightarrow> turn_coordinator \<Rightarrow> turn_event_error + unit" where
  "require_state target c =
     (if tc_state c = target then Inr ()
      else Inl (TransitionError \<lparr>te_source = tc_state c, te_target = target\<rparr>))"

definition validate_provider_part :: "message_part \<Rightarrow> turn_coordinator \<Rightarrow> turn_event_error + unit" where
  "validate_provider_part part c =
     (if tc_state c \<notin> {TurnRequesting, TurnStreaming} then require_state TurnStreaming c
      else case part of
             ToolResultPart i content is_error \<Rightarrow> Inl InvalidProviderPart
           | ToolCallPart i name input \<Rightarrow>
               if i \<in> pc_id ` set (tc_pending c) then Inl (DuplicateToolCallId i) else Inr ()
           | _ \<Rightarrow> Inr ())"

definition begin_turn :: turn_step where "begin_turn = enter TurnRequesting"

fun pending_call_of :: "message_part \<Rightarrow> pending_tool_call list" where
  "pending_call_of (ToolCallPart i name input) = [\<lparr>pc_id = i, pc_name = name, pc_input = input\<rparr>]"
| "pending_call_of part = []"

definition accept_provider_part :: "message_part \<Rightarrow> turn_step" where
  "accept_provider_part part c =
     (case validate_provider_part part c of
        Inl e \<Rightarrow> (c, Inl e)
      | Inr u \<Rightarrow>
          on_ok (if tc_state c = TurnRequesting then enter TurnStreaming c else (c, Inr ())) (\<lambda>_ c.
            (emit (ProviderPart part) (c\<lparr>tc_pending := tc_pending c @ pending_call_of part\<rparr>), Inr ())))"

definition requested :: "pending_tool_call \<Rightarrow> turn_event" where
  "requested call = ToolCallRequested (pc_id call) (pc_name call) (pc_input call)"

definition finish_provider_iteration :: turn_step where
  "finish_provider_iteration c =
     (case require_state TurnStreaming c of
        Inl e \<Rightarrow> (c, Inl e)
      | Inr u \<Rightarrow>
          if tc_pending c = [] then enter TurnCompleted c
          else on_ok (enter TurnDispatching c) (\<lambda>_ c.
                 (c\<lparr>tc_events := tc_events c @ map requested (tc_pending c)\<rparr>, Inr ())))"

definition accept_intra_turn_input :: "input_source \<Rightarrow> string \<Rightarrow> turn_step" where
  "accept_intra_turn_input source said c =
     (if tc_state c \<noteq> TurnRequesting then (c, Inl UnexpectedIntraTurnInput)
      else (emit (IntraTurnInput source said) c, Inr ()))"

text \<open>
  A result is kept within the bound of \<open>bound_retained_tool_result\<close>, which returns for every
  text of fewer than \<open>2 ^ 64\<close> bytes, so for every text there is; \<open>[]\<close> stands for the rest.
\<close>

definition retained :: "string \<Rightarrow> string" where
  "retained content = (case bound_retained_tool_result content of Some kept \<Rightarrow> kept | None \<Rightarrow> [])"

definition fact_sequence_max :: nat where "fact_sequence_max = 18446744073709551615"

fun remove_call :: "string \<Rightarrow> pending_tool_call list \<Rightarrow> pending_tool_call list option" where
  "remove_call i [] = None"
| "remove_call i (c # cs) = (if pc_id c = i then Some cs else map_option (\<lambda>cs'. c # cs') (remove_call i cs))"

definition fact_of :: "string \<Rightarrow> tool_result_facts \<Rightarrow> turn_coordinator \<Rightarrow> turn_event" where
  "fact_of i facts c =
     ResultFacts \<lparr>fa_tool_call_id = i, fa_session_id = map_option ak_session_id (tc_attempt_key c),
       fa_attempt_id = map_option ak_attempt_id (tc_attempt_key c), fa_sequence = tc_fact_sequence c,
       fa_dispatch_id = None\<rparr> facts"

definition take_facts :: "string \<Rightarrow> tool_result_facts option \<Rightarrow> turn_coordinator \<Rightarrow> turn_coordinator" where
  "take_facts i facts c =
     (case facts of
        None \<Rightarrow> c
      | Some f \<Rightarrow>
          let c' = c\<lparr>tc_fact_sequence := min fact_sequence_max (tc_fact_sequence c + 1)\<rparr> in emit (fact_of i f c') c')"

definition accept_tool_result :: "string \<Rightarrow> string \<Rightarrow> bool \<Rightarrow> tool_result_facts option \<Rightarrow> turn_step" where
  "accept_tool_result i content is_error facts c =
     (if tc_state c \<noteq> TurnDispatching then (c, Inl (UnexpectedToolResult i))
      else case remove_call i (tc_pending c) of
             None \<Rightarrow> (c, Inl (UnexpectedToolResult i))
           | Some pending \<Rightarrow>
               let c' = take_facts i facts
                     (emit (ToolResultTaken (ToolResultPart i (retained content) is_error)) (c\<lparr>tc_pending := pending\<rparr>))
               in if pending = [] then enter TurnRequesting c' else (c', Inr ()))"

definition cancel_turn :: turn_step where "cancel_turn = enter TurnCancelled"

definition fail_turn :: turn_step where "fail_turn = enter TurnFailed"

section \<open>Persisted turns\<close>

fun is_live_only_event :: "turn_event \<Rightarrow> bool" where
  "is_live_only_event (ResultFacts identity facts) = True"
| "is_live_only_event e = False"

definition persisted_history :: "turn_event list \<Rightarrow> turn_event list" where
  "persisted_history es = filter (\<lambda>e. \<not> is_live_only_event e) es"

datatype snapshot_error = InvalidSnapshot

definition consume_generated_events ::
  "turn_step \<Rightarrow> turn_coordinator \<Rightarrow> turn_event list \<Rightarrow> snapshot_error + turn_coordinator \<times> turn_event list" where
  "consume_generated_events operation c es =
     (case operation c of
        (c', Inl e) \<Rightarrow> Inl InvalidSnapshot
      | (c', Inr u) \<Rightarrow>
          let generated = drop (length (tc_events c)) (tc_events c')
          in if take (length generated) es = generated then Inr (c', drop (length generated) es)
             else Inl InvalidSnapshot)"

text \<open>The operation the next events ask for.\<close>

fun first_result :: "turn_event list \<Rightarrow> (string \<times> string \<times> bool) option" where
  "first_result (ToolResultTaken (ToolResultPart i content is_error) # es) = Some (i, content, is_error)"
| "first_result es = None"

fun first_part :: "turn_event list \<Rightarrow> message_part option" where
  "first_part (ProviderPart part # es) = Some part"
| "first_part es = None"

fun first_state :: "turn_event list \<Rightarrow> turn_state option" where
  "first_state (StateChanged st # es) = Some st"
| "first_state es = None"

fun first_input :: "turn_event list \<Rightarrow> (input_source \<times> string) option" where
  "first_input (IntraTurnInput source said # es) = Some (source, said)"
| "first_input es = None"

definition replayed_operation :: "turn_state \<Rightarrow> turn_event list \<Rightarrow> turn_step option" where
  "replayed_operation st es =
     (case st of
        TurnRequesting \<Rightarrow>
          (case first_input es of
             Some (source, said) \<Rightarrow> Some (accept_intra_turn_input source said)
           | None \<Rightarrow> if first_state es = Some TurnStreaming then map_option accept_provider_part (first_part (tl es))
                      else None)
      | TurnStreaming \<Rightarrow>
          (case first_part es of
             Some part \<Rightarrow> Some (accept_provider_part part)
           | None \<Rightarrow> if first_state es \<in> {Some TurnDispatching, Some TurnCompleted}
                      then Some finish_provider_iteration else None)
      | TurnDispatching \<Rightarrow>
          map_option (\<lambda>(i, content, is_error). accept_tool_result i content is_error None) (first_result es)
      | _ \<Rightarrow> None)"

text \<open>Every operation that is replayed generates an event, so the replay comes to an end.\<close>

lemma enter_events:
  "enter target c = (c', r) \<Longrightarrow> \<exists>es. tc_events c' = tc_events c @ es \<and> (r = Inr () \<longrightarrow> es \<noteq> [])"
  by (auto simp: enter_def split: sum.splits)

lemma take_facts_events: "\<exists>es. tc_events (take_facts i facts c) = tc_events c @ es"
  by (auto simp: take_facts_def emit_def Let_def split: option.split)

lemma replayed_operation_generates:
  assumes "replayed_operation st es = Some operation" "operation c = (c', Inr u)"
  shows "\<exists>gen. tc_events c' = tc_events c @ gen \<and> gen \<noteq> []"
proof -
  have part: "\<exists>gen. tc_events c' = tc_events c @ gen \<and> gen \<noteq> []"
    if "accept_provider_part part c = (c', Inr u)" for part
    using that by (auto simp: accept_provider_part_def emit_def enter_def split: sum.splits if_splits)
  have finish: "\<exists>gen. tc_events c' = tc_events c @ gen \<and> gen \<noteq> []"
    if "finish_provider_iteration c = (c', Inr u)"
    using that by (auto simp: finish_provider_iteration_def enter_def split: sum.splits if_splits)
  have input: "\<exists>gen. tc_events c' = tc_events c @ gen \<and> gen \<noteq> []"
    if "accept_intra_turn_input source said c = (c', Inr u)" for source said
    using that by (auto simp: accept_intra_turn_input_def emit_def split: if_splits)
  have result: "\<exists>gen. tc_events c' = tc_events c @ gen \<and> gen \<noteq> []"
    if "accept_tool_result i content is_error None c = (c', Inr u)" for i content is_error
    using that by (auto simp: accept_tool_result_def take_facts_def emit_def enter_def Let_def
        split: sum.splits if_splits option.splits)
  show ?thesis using assms part finish input result
    by (auto simp: replayed_operation_def split: turn_state.splits option.splits if_splits prod.splits)
qed

lemma consumed_is_shorter:
  assumes "replayed_operation st es = Some operation"
    and "consume_generated_events operation c es = Inr (c', rest)"
  shows "length rest < length es"
proof -
  obtain u where op: "operation c = (c', Inr u)"
    and taken: "take (length (drop (length (tc_events c)) (tc_events c'))) es = drop (length (tc_events c)) (tc_events c')"
    "rest = drop (length (drop (length (tc_events c)) (tc_events c'))) es"
    using assms(2) by (auto simp: consume_generated_events_def Let_def split: prod.splits sum.splits if_splits)
  obtain gen where gen: "tc_events c' = tc_events c @ gen" "gen \<noteq> []"
    using replayed_operation_generates [OF assms(1) op] by blast
  then have "es \<noteq> []" using taken(1) by auto
  then show ?thesis using gen taken(2) by (cases es) auto
qed

function replay_events :: "turn_coordinator \<Rightarrow> turn_event list \<Rightarrow> snapshot_error + unit" where
  "replay_events c es =
     (if es = [] \<or> tc_state c = TurnCompleted
      then if tc_state c = TurnCompleted \<and> es = [] then Inr () else Inl InvalidSnapshot
      else case replayed_operation (tc_state c) es of
             None \<Rightarrow> Inl InvalidSnapshot
           | Some operation \<Rightarrow>
               (case consume_generated_events operation c es of
                  Inl e \<Rightarrow> Inl e
                | Inr (c', rest) \<Rightarrow> replay_events c' rest))"
  by pat_completeness auto
termination by (relation "measure (\<lambda>(c, es). length es)") (auto dest: consumed_is_shorter)

declare replay_events.simps [simp del]

definition validate_completed_turn_events :: "turn_event list \<Rightarrow> snapshot_error + unit" where
  "validate_completed_turn_events es =
     and_then (consume_generated_events begin_turn new_coordinator es) (\<lambda>(c, rest). replay_events c rest)"

definition from_persisted_events :: "turn_event list \<Rightarrow> snapshot_error + turn_event list" where
  "from_persisted_events es = and_then (validate_completed_turn_events es) (\<lambda>_. Inr es)"

end
