(* ===== verification/Turn_Facts.thy ===== *)
theory Turn_Facts
  imports Turn
begin

text \<open>
  The replay of a persisted turn accepts exactly the histories turns leave, and those are
  sequences of rounds: what the provider said, the calls it asked for, and one result for
  each of them before it is asked again.
\<close>

section \<open>Operations of a turn\<close>

datatype turn_op =
    BeginTurn
  | TakePart message_part
  | FinishIteration
  | TakeInput input_source string
  | TakeResult string string bool "tool_result_facts option"
  | CancelTurn
  | FailTurn

fun step_of :: "turn_op \<Rightarrow> turn_step" where
  "step_of BeginTurn = begin_turn"
| "step_of (TakePart part) = accept_provider_part part"
| "step_of FinishIteration = finish_provider_iteration"
| "step_of (TakeInput source said) = accept_intra_turn_input source said"
| "step_of (TakeResult i content is_error facts) = accept_tool_result i content is_error facts"
| "step_of CancelTurn = cancel_turn"
| "step_of FailTurn = fail_turn"

definition run_turn_ops :: "turn_op list \<Rightarrow> turn_coordinator \<Rightarrow> turn_coordinator" where
  "run_turn_ops ops c = fold (\<lambda>op c. fst (step_of op c)) ops c"

lemma run_turn_ops_simps [simp]:
  "run_turn_ops [] c = c" "run_turn_ops (op # ops) c = run_turn_ops ops (fst (step_of op c))"
  by (simp_all add: run_turn_ops_def)

lemma transition_to_Inr: "transition_to source target = Inr st \<Longrightarrow> st = target"
  by (auto simp: transition_to_def split: if_splits)

text \<open>An operation that is refused leaves the turn as it was.\<close>

lemma refused_step: "step_of op c = (c', Inl e) \<Longrightarrow> c' = c"
  by (cases op)
    (auto simp: begin_turn_def cancel_turn_def fail_turn_def enter_def accept_provider_part_def
      finish_provider_iteration_def accept_intra_turn_input_def accept_tool_result_def require_state_def
      validate_provider_part_def transition_to_def Let_def take_facts_def emit_def
      split: sum.splits if_splits option.splits message_part.splits)

definition is_over :: "turn_state \<Rightarrow> bool" where
  "is_over st \<longleftrightarrow> st \<in> {TurnCompleted, TurnCancelled, TurnFailed}"

lemma over_refuses: "is_over (tc_state c) \<Longrightarrow> \<exists>e. step_of op c = (c, Inl e)"
  by (cases op)
    (auto simp: is_over_def begin_turn_def cancel_turn_def fail_turn_def enter_def accept_provider_part_def
      finish_provider_iteration_def accept_intra_turn_input_def accept_tool_result_def require_state_def
      validate_provider_part_def transition_to_def)

lemma over_stays: "is_over (tc_state c) \<Longrightarrow> run_turn_ops ops c = c"
proof (induction ops)
  case (Cons op ops)
  then show ?case using over_refuses [of c op] by fastforce
qed simp

section \<open>What the bound keeps\<close>

lemma retain_bounded: "retain content e = Some kept \<Longrightarrow> length kept \<le> max_retained_bytes"
proof (induction e rule: less_induct)
  case (less e)
  let ?k = "cut_point content e"
  show ?case
  proof (cases "?k + length (truncation_marker (length content - ?k)) \<le> max_retained_bytes")
    case True
    then show ?thesis using less.prems by (subst (asm) retain.simps) (auto simp: Let_def)
  next
    case False
    then have k: "?k \<noteq> 0" "retain content (?k - 1) = Some kept"
      using less.prems by (subst (asm) retain.simps, auto simp: Let_def split: if_splits)+
    moreover have "?k - 1 < e" using k(1) cut_point_le [of content e] by simp
    ultimately show ?thesis using less.IH by blast
  qed
qed

lemma length_retained: "length (retained content) \<le> max_retained_bytes"
  by (auto simp: retained_def bound_retained_tool_result_def retain_bounded split: option.split if_splits)

lemma retained_iff: "retained content = content \<longleftrightarrow> length content \<le> max_retained_bytes"
  using length_retained [of content] by (auto simp: retained_def bound_retained_tool_result_def)

lemma retained_retained [simp]: "retained (retained content) = retained content"
  by (simp add: retained_iff length_retained)

section \<open>Replaying what a turn left\<close>

lemma persisted_history_append [simp]:
  "persisted_history (xs @ ys) = persisted_history xs @ persisted_history ys"
  by (simp add: persisted_history_def)

lemma persisted_history_simps [simp]:
  "persisted_history [] = []"
  "persisted_history (e # es) = (if is_live_only_event e then persisted_history es else e # persisted_history es)"
  by (simp_all add: persisted_history_def)

lemma requested_persist [simp]: "persisted_history (map requested calls) = map requested calls"
  by (induction calls) (auto simp: requested_def)

definition mirrors :: "turn_coordinator \<Rightarrow> turn_coordinator \<Rightarrow> bool" where
  "mirrors c r \<longleftrightarrow> tc_state r = tc_state c \<and> tc_pending r = tc_pending c \<and>
     tc_events r = persisted_history (tc_events c)"

lemma replay_consumes:
  assumes "tc_state r \<noteq> TurnCompleted" "replayed_operation (tc_state r) (gen @ rest) = Some operation"
    and "operation r = (r', Inr u)" "tc_events r' = tc_events r @ gen" "gen \<noteq> []"
  shows "replay_events r (gen @ rest) = replay_events r' rest"
proof -
  have "consume_generated_events operation r (gen @ rest) = Inr (r', rest)"
    using assms(3,4) by (simp add: consume_generated_events_def)
  then show ?thesis using assms(1,2,5) by (subst replay_events.simps) simp
qed

text \<open>The step a replay takes where the turn took one.\<close>

fun replayed_op :: "turn_op \<Rightarrow> turn_op" where
  "replayed_op (TakeResult i content is_error facts) = TakeResult i (retained content) is_error None"
| "replayed_op op = op"

lemma step_mirrored:
  assumes "mirrors c r" "step_of op c = (c', Inr u)" "op \<noteq> BeginTurn" "\<not> is_over (tc_state c') \<or> tc_state c' = TurnCompleted"
  shows "\<exists>r' gen. step_of (replayed_op op) r = (r', Inr ()) \<and> mirrors c' r' \<and> tc_events r' = tc_events r @ gen \<and>
    gen \<noteq> [] \<and> (\<forall>rest. replayed_operation (tc_state r) (gen @ rest) = Some (step_of (replayed_op op)))"
proof (cases op)
  case BeginTurn
  then show ?thesis using assms(3) by simp
next
  case (TakePart part)
  then show ?thesis using assms(1,2)
    by (auto simp: accept_provider_part_def mirrors_def validate_provider_part_def require_state_def enter_def
        transition_to_def emit_def replayed_operation_def on_ok_def
        split: if_splits message_part.splits)
next
  case FinishIteration
  then show ?thesis using assms(1,2)
    by (auto simp: finish_provider_iteration_def mirrors_def require_state_def enter_def transition_to_def
        replayed_operation_def split: if_splits)
next
  case (TakeInput source said)
  then show ?thesis using assms(1,2)
    by (auto simp: accept_intra_turn_input_def mirrors_def emit_def replayed_operation_def split: if_splits)
next
  case (TakeResult i content is_error facts)
  then show ?thesis using assms(1,2)
    by (auto simp: accept_tool_result_def mirrors_def emit_def take_facts_def fact_of_def enter_def transition_to_def
        replayed_operation_def Let_def split: if_splits option.splits)
next
  case CancelTurn
  then show ?thesis using assms
    by (auto simp: cancel_turn_def enter_def transition_to_def is_over_def split: sum.splits if_splits)
next
  case FailTurn
  then show ?thesis using assms
    by (auto simp: fail_turn_def enter_def transition_to_def is_over_def split: sum.splits if_splits)
qed

lemma live_turn_replays:
  assumes "mirrors c r" "BeginTurn \<notin> set ops" "tc_state (run_turn_ops ops c) = TurnCompleted"
  shows "\<exists>es. persisted_history (tc_events (run_turn_ops ops c)) = tc_events r @ es \<and> replay_events r es = Inr ()"
  using assms
proof (induction ops arbitrary: c r)
  case Nil
  then show ?case by (auto simp: mirrors_def intro!: exI [of _ "[]"] simp: replay_events.simps)
next
  case (Cons op ops)
  obtain c' x where step: "step_of op c = (c', x)" by fastforce
  show ?case
  proof (cases x)
    case (Inl e)
    then have "c' = c" using step refused_step by blast
    then show ?thesis using Cons step by simp
  next
    case (Inr u)
    have open': "\<not> is_over (tc_state c') \<or> tc_state c' = TurnCompleted"
    proof (cases "is_over (tc_state c')")
      case True
      then show ?thesis using Cons.prems(3) step over_stays by simp
    qed simp
    have "op \<noteq> BeginTurn" using Cons.prems(2) by auto
    from step_mirrored [OF Cons.prems(1) step [unfolded Inr] this open'] obtain r' gen where
      r': "step_of (replayed_op op) r = (r', Inr ())" "mirrors c' r'" "tc_events r' = tc_events r @ gen" "gen \<noteq> []"
        "\<And>rest. replayed_operation (tc_state r) (gen @ rest) = Some (step_of (replayed_op op))" by blast
    have "BeginTurn \<notin> set ops" using Cons.prems(2) by simp
    from Cons.IH [OF r'(2) this] Cons.prems(3) step obtain es where
      es: "persisted_history (tc_events (run_turn_ops ops c')) = tc_events r' @ es" "replay_events r' es = Inr ()" by auto
    have "tc_state r \<noteq> TurnCompleted"
      using Cons.prems(1) step Inr over_refuses [of c op] by (auto simp: mirrors_def is_over_def)
    from replay_consumes [OF this r'(5,1,3,4)] es show ?thesis using step r'(3)
      by (intro exI [of _ "gen @ es"]) simp
  qed
qed

definition begun :: turn_coordinator where
  "begun = new_coordinator\<lparr>tc_state := TurnRequesting, tc_events := [StateChanged TurnRequesting]\<rparr>"

lemma begin_new: "begin_turn new_coordinator = (begun, Inr ())" "tc_events begun = [StateChanged TurnRequesting]"
  by (simp_all add: begin_turn_def enter_def transition_to_def begun_def new_coordinator_def)

lemma consume_begin:
  "consume_generated_events begin_turn new_coordinator es = Inr (c, rest) \<longleftrightarrow>
     c = begun \<and> es = StateChanged TurnRequesting # rest"
proof -
  have "tc_events new_coordinator = []" by (simp add: new_coordinator_def)
  then show ?thesis by (cases es) (auto simp: consume_generated_events_def begin_new)
qed

lemma completed_turn_validates:
  assumes "BeginTurn \<notin> set ops"
    and "c = run_turn_ops (BeginTurn # ops) (new_coordinator\<lparr>tc_attempt_key := key\<rparr>)" "tc_state c = TurnCompleted"
  shows "validate_completed_turn_events (persisted_history (tc_events c)) = Inr ()"
proof -
  have "mirrors (fst (begin_turn (new_coordinator\<lparr>tc_attempt_key := key\<rparr>))) begun"
    by (simp add: begin_turn_def enter_def transition_to_def new_coordinator_def mirrors_def begun_def)
  from live_turn_replays [OF this assms(1)] assms(2,3) obtain es where
    es: "persisted_history (tc_events c) = StateChanged TurnRequesting # es" "replay_events begun es = Inr ()"
    by (auto simp: begin_new(2))
  have "consume_generated_events begin_turn new_coordinator (persisted_history (tc_events c)) = Inr (begun, es)"
    by (simp add: consume_begin es(1))
  then show ?thesis using es(2) by (simp add: validate_completed_turn_events_def)
qed

section \<open>A turn for every accepted history\<close>

definition plain_step :: "turn_step \<Rightarrow> bool" where
  "plain_step operation \<longleftrightarrow>
     (\<forall>c c' u. operation c = (c', Inr u) \<longrightarrow> (\<exists>gen. tc_events c' = tc_events c @ gen \<and> persisted_history gen = gen))"

lemma plain_steps:
  "plain_step (accept_provider_part part)" "plain_step finish_provider_iteration"
  "plain_step (accept_intra_turn_input source said)" "plain_step (accept_tool_result i content is_error None)"
  unfolding plain_step_def
  by (auto simp: accept_provider_part_def emit_def enter_def finish_provider_iteration_def accept_intra_turn_input_def
      accept_tool_result_def take_facts_def Let_def split: sum.splits if_splits option.splits)

lemma replayed_operation_cases:
  assumes "replayed_operation st es = Some operation"
  shows "(\<exists>part. operation = accept_provider_part part) \<or> operation = finish_provider_iteration \<or>
    (\<exists>source said. operation = accept_intra_turn_input source said) \<or>
    (\<exists>i content is_error. operation = accept_tool_result i content is_error None)"
  using assms unfolding replayed_operation_def
  by (auto split: turn_state.splits option.splits if_splits prod.splits) blast

lemma replayed_operation_is_op:
  assumes "replayed_operation st es = Some operation"
  shows "\<exists>op. operation = step_of op \<and> op \<noteq> BeginTurn" and "plain_step operation"
proof -
  show "\<exists>op. operation = step_of op \<and> op \<noteq> BeginTurn"
    using replayed_operation_cases [OF assms]
    by (metis step_of.simps(2-5) turn_op.distinct(1,3,5,7))
  show "plain_step operation" using replayed_operation_cases [OF assms] plain_steps by blast
qed

lemma replayed_has_turn:
  assumes "replay_events r es = Inr ()"
  shows "\<exists>ops. BeginTurn \<notin> set ops \<and> tc_state (run_turn_ops ops r) = TurnCompleted \<and>
    tc_events (run_turn_ops ops r) = tc_events r @ es \<and> persisted_history es = es"
  using assms
proof (induction r es rule: replay_events.induct)
  case (1 r es)
  show ?case
  proof (cases "es = [] \<or> tc_state r = TurnCompleted")
    case True
    then show ?thesis using "1.prems" by (subst (asm) replay_events.simps) (auto intro!: exI [of _ "[]"] split: if_splits)
  next
    case False
    then obtain operation r' rest where op: "replayed_operation (tc_state r) es = Some operation"
      and consumed: "consume_generated_events operation r es = Inr (r', rest)" and on: "replay_events r' rest = Inr ()"
      using "1.prems" by (subst (asm) replay_events.simps) (auto split: option.splits sum.splits)
    from "1.IH" [OF False op consumed refl on] obtain ops where
      ops: "BeginTurn \<notin> set ops" "tc_state (run_turn_ops ops r') = TurnCompleted"
        "tc_events (run_turn_ops ops r') = tc_events r' @ rest" "persisted_history rest = rest" by blast
    obtain u where step: "operation r = (r', Inr u)"
      and taken: "take (length (drop (length (tc_events r)) (tc_events r'))) es = drop (length (tc_events r)) (tc_events r')"
        "rest = drop (length (drop (length (tc_events r)) (tc_events r'))) es"
      using consumed by (auto simp: consume_generated_events_def Let_def split: prod.splits sum.splits if_splits)
    obtain o' where o': "operation = step_of o'" "o' \<noteq> BeginTurn"
      using replayed_operation_is_op(1) [OF op] by blast
    obtain gen where gen: "tc_events r' = tc_events r @ gen" "persisted_history gen = gen"
      using replayed_operation_is_op(2) [OF op] step unfolding plain_step_def by blast
    have es: "es = gen @ rest" using taken gen(1) by (metis append_take_drop_id append_eq_conv_conj)
    show ?thesis using ops gen step o'
      by (intro exI [of _ "o' # ops"]) (simp add: es)
  qed
qed

lemma validated_has_turn:
  assumes "validate_completed_turn_events es = Inr ()"
  shows "\<exists>ops. BeginTurn \<notin> set ops \<and> tc_state (run_turn_ops (BeginTurn # ops) new_coordinator) = TurnCompleted \<and>
    persisted_history (tc_events (run_turn_ops (BeginTurn # ops) new_coordinator)) = es"
proof -
  from assms obtain c rest where consumed: "consume_generated_events begin_turn new_coordinator es = Inr (c, rest)"
    and on: "replay_events c rest = Inr ()"
    by (auto simp: validate_completed_turn_events_def and_then_Inr_iff)
  have c: "c = begun" "es = StateChanged TurnRequesting # rest" using consumed by (simp_all add: consume_begin)
  from replayed_has_turn [OF on] obtain ops where
    ops: "BeginTurn \<notin> set ops" "tc_state (run_turn_ops ops c) = TurnCompleted"
      "tc_events (run_turn_ops ops c) = tc_events c @ rest" "persisted_history rest = rest" by blast
  have "run_turn_ops (BeginTurn # ops) new_coordinator = run_turn_ops ops c" by (simp add: c(1) begin_new)
  moreover have "persisted_history (tc_events (run_turn_ops ops c)) = es"
    unfolding ops(3) using begin_new(2) ops(4) by (simp add: c)
  ultimately show ?thesis using ops(1,2) by (intro exI [of _ ops]) simp
qed

end
