(* ===== verification/Turn_Rounds.thy ===== *)
theory Turn_Rounds
  imports Turn_Facts
begin

text \<open>
  What a history that the validator accepts looks like: the abstract specification of a
  turn as a sequence of rounds, and the proof that the replay decides it.
\<close>

section \<open>The specification\<close>

fun is_input :: "turn_event \<Rightarrow> bool" where
  "is_input (IntraTurnInput source said) = True"
| "is_input e = False"

fun is_result :: "message_part \<Rightarrow> bool" where
  "is_result (ToolResultPart i content is_error) = True"
| "is_result part = False"

definition calls_of :: "message_part list \<Rightarrow> pending_tool_call list" where
  "calls_of parts = concat (map pending_call_of parts)"

text \<open>What a provider may say in one iteration.\<close>

definition provider_message :: "message_part list \<Rightarrow> bool" where
  "provider_message parts \<longleftrightarrow>
     parts \<noteq> [] \<and> \<not> list_ex is_result parts \<and> distinct (map pc_id (calls_of parts))"

definition took :: "string \<times> string \<times> bool \<Rightarrow> turn_event" where
  "took r = ToolResultTaken (ToolResultPart (fst r) (fst (snd r)) (snd (snd r)))"

text \<open>One result for every call, whatever the order they came in.\<close>

definition settles_calls :: "(string \<times> string \<times> bool) list \<Rightarrow> pending_tool_call list \<Rightarrow> bool" where
  "settles_calls results calls \<longleftrightarrow>
     mset (map fst results) = mset (map pc_id calls) \<and>
     list_all (\<lambda>r. length (fst (snd r)) \<le> max_retained_bytes) results"

inductive rounds :: "turn_event list \<Rightarrow> bool" where
  last_round: "list_all is_input inputs \<Longrightarrow> provider_message parts \<Longrightarrow> calls_of parts = [] \<Longrightarrow>
    rounds (inputs @ StateChanged TurnStreaming # map ProviderPart parts @ [StateChanged TurnCompleted])"
| tool_round: "list_all is_input inputs \<Longrightarrow> provider_message parts \<Longrightarrow> calls_of parts \<noteq> [] \<Longrightarrow>
    settles_calls results (calls_of parts) \<Longrightarrow> rounds rest \<Longrightarrow>
    rounds (inputs @ StateChanged TurnStreaming # map ProviderPart parts @
      StateChanged TurnDispatching # map requested (calls_of parts) @ map took results @
      StateChanged TurnRequesting # rest)"

section \<open>What a replay depends on\<close>

definition alike :: "turn_coordinator \<Rightarrow> turn_coordinator \<Rightarrow> bool" where
  "alike c r \<longleftrightarrow> tc_state r = tc_state c \<and> tc_pending r = tc_pending c"

definition same_step :: "turn_step \<Rightarrow> bool" where
  "same_step operation \<longleftrightarrow> (\<forall>c r. alike c r \<longrightarrow>
     (case (operation c, operation r) of
        ((c', Inr u), (r', Inr u')) \<Rightarrow>
          alike c' r' \<and> (\<exists>gen. tc_events c' = tc_events c @ gen \<and> tc_events r' = tc_events r @ gen)
      | ((c', Inl e), (r', Inl e')) \<Rightarrow> True
      | _ \<Rightarrow> False))"

lemma same_steps:
  "same_step (accept_provider_part part)" "same_step finish_provider_iteration"
  "same_step (accept_intra_turn_input source said)" "same_step (accept_tool_result i content is_error None)"
  unfolding same_step_def
  by (auto simp: accept_provider_part_def validate_provider_part_def require_state_def emit_def enter_def alike_def
      finish_provider_iteration_def accept_intra_turn_input_def transition_to_def
      accept_tool_result_def take_facts_def Let_def
      split: sum.splits if_splits option.splits message_part.splits)

lemma consume_alike:
  assumes "same_step operation" "alike c r"
  shows "(\<exists>c' r' rest. consume_generated_events operation c es = Inr (c', rest) \<and>
      consume_generated_events operation r es = Inr (r', rest) \<and> alike c' r') \<or>
    (\<exists>e e'. consume_generated_events operation c es = Inl e \<and> consume_generated_events operation r es = Inl e')"
proof -
  obtain c' x where c': "operation c = (c', x)" by fastforce
  obtain r' y where r': "operation r = (r', y)" by fastforce
  have "case ((c', x), (r', y)) of
        ((c', Inr u), (r', Inr u')) \<Rightarrow>
          alike c' r' \<and> (\<exists>gen. tc_events c' = tc_events c @ gen \<and> tc_events r' = tc_events r @ gen)
      | ((c', Inl e), (r', Inl e')) \<Rightarrow> True
      | _ \<Rightarrow> False"
    using assms c' r' unfolding same_step_def by (metis (no_types, lifting))
  then show ?thesis
    by (cases x; cases y) (auto simp: consume_generated_events_def c' r')
qed

lemma replay_alike: "alike c r \<Longrightarrow> replay_events c es = replay_events r es"
proof (induction c es arbitrary: r rule: replay_events.induct)
  case (1 c es)
  have state: "tc_state r = tc_state c" using "1.prems" by (simp add: alike_def)
  show ?case
  proof (cases "es = [] \<or> tc_state c = TurnCompleted")
    case True
    then show ?thesis by (subst (1 2) replay_events.simps) (simp add: state)
  next
    case open': False
    show ?thesis
    proof (cases "replayed_operation (tc_state c) es")
      case None
      then show ?thesis using open' by (subst (1 2) replay_events.simps) (simp add: state)
    next
      case (Some operation)
      have "same_step operation" using replayed_operation_cases [OF Some] same_steps by blast
      from consume_alike [OF this "1.prems", of es] show ?thesis
      proof (elim disjE exE conjE)
        fix c' r' rest
        assume c': "consume_generated_events operation c es = Inr (c', rest)"
          and r': "consume_generated_events operation r es = Inr (r', rest)" and al: "alike c' r'"
        from "1.IH" [OF open' Some c' refl al] show ?thesis
          using open' Some c' r' by (subst (1 2) replay_events.simps) (simp add: state)
      next
        fix e e'
        assume "consume_generated_events operation c es = Inl e" "consume_generated_events operation r es = Inl e'"
        then show ?thesis using open' Some
          by (subst (1 2) replay_events.simps) (cases e; cases e'; simp add: state)
      qed
    qed
  qed
qed

definition poised :: "turn_state \<Rightarrow> pending_tool_call list \<Rightarrow> turn_coordinator" where
  "poised st calls = new_coordinator\<lparr>tc_state := st, tc_pending := calls\<rparr>"

lemma poised_simps [simp]:
  "tc_state (poised st calls) = st" "tc_pending (poised st calls) = calls" "tc_events (poised st calls) = []"
  by (simp_all add: poised_def new_coordinator_def)

definition accepts :: "turn_state \<Rightarrow> pending_tool_call list \<Rightarrow> turn_event list \<Rightarrow> bool" where
  "accepts st calls es \<longleftrightarrow> replay_events (poised st calls) es = Inr ()"

lemma replay_accepts: "replay_events c es = Inr () \<longleftrightarrow> accepts (tc_state c) (tc_pending c) es"
  unfolding accepts_def by (subst replay_alike [of c]) (simp_all add: alike_def)

lemma accepts_step:
  assumes "st \<noteq> TurnCompleted"
  shows "accepts st calls es \<longleftrightarrow>
    (\<exists>operation c' u gen rest. replayed_operation st es = Some operation \<and>
       operation (poised st calls) = (c', Inr u) \<and>
       tc_events c' = gen \<and> es = gen @ rest \<and> accepts (tc_state c') (tc_pending c') rest)"
proof -
  let ?c = "poised st calls"
  have none: "replayed_operation st [] = None" by (cases st) (simp_all add: replayed_operation_def)
  have consumed: "consume_generated_events operation ?c es = Inr (c', rest) \<longleftrightarrow>
      (\<exists>u. operation ?c = (c', Inr u) \<and> es = tc_events c' @ rest)" for operation c' rest
    by (cases "operation ?c"; cases "snd (operation ?c)")
      (auto simp: consume_generated_events_def Let_def, metis append_take_drop_id)
  have "accepts st calls es \<longleftrightarrow> (\<exists>operation c' rest. replayed_operation st es = Some operation \<and>
      consume_generated_events operation ?c es = Inr (c', rest) \<and> replay_events c' rest = Inr ())"
    unfolding accepts_def using assms none
    by (subst replay_events.simps) (cases es; auto split: option.split sum.split prod.splits)
  then show ?thesis unfolding consumed replay_accepts by blast
qed

section \<open>One kind of event at a time\<close>

lemma accepts_completed: "accepts TurnCompleted calls es \<longleftrightarrow> es = []"
  unfolding accepts_def by (subst replay_events.simps) simp

lemma first_simps:
  "first_input es = Some (source, said) \<longleftrightarrow> (\<exists>es'. es = IntraTurnInput source said # es')"
  "first_part es = Some part \<longleftrightarrow> (\<exists>es'. es = ProviderPart part # es')"
  "first_state es = Some st \<longleftrightarrow> (\<exists>es'. es = StateChanged st # es')"
  "first_result es = Some (i, content, is_error) \<longleftrightarrow>
     (\<exists>es'. es = ToolResultTaken (ToolResultPart i content is_error) # es')"
     apply (cases es rule: first_input.cases; simp)
    apply (cases es rule: first_part.cases; simp)
   apply (cases es rule: first_state.cases; simp)
  apply (cases es rule: first_result.cases; simp)
  done

lemma poised_input:
  "accept_intra_turn_input source said (poised TurnRequesting calls) =
     (emit (IntraTurnInput source said) (poised TurnRequesting calls), Inr ())"
  by (simp add: accept_intra_turn_input_def)

lemma poised_part:
  assumes "st \<in> {TurnRequesting, TurnStreaming}"
  shows "accept_provider_part part (poised st calls) = (c', Inr u) \<longleftrightarrow> \<not> is_result part \<and>
    pc_id ` set (pending_call_of part) \<inter> pc_id ` set calls = {} \<and>
    c' = emit (ProviderPart part) ((poised st calls)\<lparr>tc_state := TurnStreaming,
      tc_events := (if st = TurnRequesting then [StateChanged TurnStreaming] else []),
      tc_pending := calls @ pending_call_of part\<rparr>)"
  using assms
  by (cases part) (auto simp: accept_provider_part_def validate_provider_part_def enter_def transition_to_def
      poised_def emit_def new_coordinator_def)

lemma accepts_requesting:
  "accepts TurnRequesting [] es \<longleftrightarrow>
    (\<exists>source said rest. es = IntraTurnInput source said # rest \<and> accepts TurnRequesting [] rest) \<or>
    (\<exists>part rest. es = StateChanged TurnStreaming # ProviderPart part # rest \<and> \<not> is_result part \<and>
       accepts TurnStreaming (pending_call_of part) rest)"
proof (cases "first_input es")
  case (Some x)
  then obtain source said es' where es: "es = IntraTurnInput source said # es'"
    by (cases x) (auto simp: first_simps)
  show ?thesis
    by (subst accepts_step) (simp_all add: es replayed_operation_def poised_input emit_def)
next
  case None
  show ?thesis
  proof (cases "first_state es = Some TurnStreaming \<and> first_part (tl es) \<noteq> None")
    case True
    then obtain part es' where es: "es = StateChanged TurnStreaming # ProviderPart part # es'"
      by (auto simp: first_simps)
    show ?thesis
      by (subst accepts_step) (auto simp: es replayed_operation_def poised_part emit_def)
  next
    case False
    then have "replayed_operation TurnRequesting es = None" using None by (auto simp: replayed_operation_def)
    then have "\<not> accepts TurnRequesting [] es" by (subst accepts_step) simp_all
    then show ?thesis using None False by auto
  qed
qed

lemma poised_finish:
  "finish_provider_iteration (poised TurnStreaming calls) =
     (if calls = [] then ((poised TurnStreaming calls)\<lparr>tc_state := TurnCompleted, tc_events := [StateChanged TurnCompleted]\<rparr>, Inr ())
      else ((poised TurnStreaming calls)\<lparr>tc_state := TurnDispatching,
        tc_events := StateChanged TurnDispatching # map requested calls\<rparr>, Inr ()))"
  by (simp add: finish_provider_iteration_def require_state_def enter_def transition_to_def)

lemma accepts_streaming:
  "accepts TurnStreaming calls es \<longleftrightarrow>
    (\<exists>part rest. es = ProviderPart part # rest \<and> \<not> is_result part \<and>
       pc_id ` set (pending_call_of part) \<inter> pc_id ` set calls = {} \<and>
       accepts TurnStreaming (calls @ pending_call_of part) rest) \<or>
    (calls = [] \<and> es = [StateChanged TurnCompleted]) \<or>
    (calls \<noteq> [] \<and> (\<exists>rest. es = StateChanged TurnDispatching # map requested calls @ rest \<and>
       accepts TurnDispatching calls rest))"
proof (cases "first_part es")
  case (Some part)
  then obtain es' where es: "es = ProviderPart part # es'" by (auto simp: first_simps)
  show ?thesis
    by (subst accepts_step) (auto simp: es replayed_operation_def poised_part emit_def)
next
  case None
  show ?thesis
  proof (cases "first_state es \<in> {Some TurnDispatching, Some TurnCompleted}")
    case True
    then have op: "replayed_operation TurnStreaming es = Some finish_provider_iteration"
      using None by (simp add: replayed_operation_def)
    show ?thesis
      using None by (subst accepts_step) (auto simp: op poised_finish accepts_completed)
  next
    case False
    then have "replayed_operation TurnStreaming es = None" using None by (auto simp: replayed_operation_def)
    then have "\<not> accepts TurnStreaming calls es" by (subst accepts_step) simp_all
    then show ?thesis using None False by auto
  qed
qed

lemma accepts_dispatching:
  "accepts TurnDispatching calls es \<longleftrightarrow>
    (\<exists>i content is_error rest calls'. es = took (i, content, is_error) # rest \<and>
       length content \<le> max_retained_bytes \<and> remove_call i calls = Some calls' \<and>
       (if calls' = [] then \<exists>rest'. rest = StateChanged TurnRequesting # rest' \<and> accepts TurnRequesting [] rest'
        else accepts TurnDispatching calls' rest))"
proof (cases "first_result es")
  case None
  then have "replayed_operation TurnDispatching es = None" by (simp add: replayed_operation_def)
  then have "\<not> accepts TurnDispatching calls es" by (subst accepts_step) simp_all
  then show ?thesis using None by (auto simp: took_def)
next
  case (Some x)
  then obtain i content is_error es' where es: "es = ToolResultTaken (ToolResultPart i content is_error) # es'"
    by (cases x) (auto simp: first_simps)
  show ?thesis
    by (subst accepts_step)
      (auto simp: es replayed_operation_def took_def accept_tool_result_def take_facts_def emit_def enter_def
        transition_to_def Let_def retained_iff [symmetric] split: option.split)
qed

section \<open>The replay decides the specification\<close>

lemma remove_call_Some:
  "remove_call i calls = Some calls' \<Longrightarrow>
     mset (map pc_id calls) = add_mset i (mset (map pc_id calls')) \<and> length calls' < length calls"
  by (induction i calls arbitrary: calls' rule: remove_call.induct) (auto split: if_splits)

lemma remove_call_found: "i \<in> pc_id ` set calls \<Longrightarrow> \<exists>calls'. remove_call i calls = Some calls'"
  by (induction i calls rule: remove_call.induct) auto

lemma answers_Cons:
  "settles_calls ((i, content, is_error) # results) calls \<longleftrightarrow>
     length content \<le> max_retained_bytes \<and> (\<exists>calls'. remove_call i calls = Some calls' \<and> settles_calls results calls')"
proof -
  have "i \<in> pc_id ` set calls" if "add_mset i (mset (map fst results)) = mset (map pc_id calls)"
    using that by (metis image_set set_mset_mset union_single_eq_member)
  then show ?thesis unfolding settles_calls_def
    using remove_call_found [of i calls] remove_call_Some [of i calls] by fastforce
qed

lemma answers_Nil: "settles_calls [] calls \<longleftrightarrow> calls = []"
  by (auto simp: settles_calls_def)

lemma answered_rounds:
  assumes "calls \<noteq> []"
  shows "accepts TurnDispatching calls es \<longleftrightarrow>
    (\<exists>results rest. es = map took results @ StateChanged TurnRequesting # rest \<and> settles_calls results calls \<and>
       accepts TurnRequesting [] rest)"
  using assms
proof (induction "length calls" arbitrary: calls es rule: less_induct)
  case less
  have "(\<exists>results rest. es = map took results @ StateChanged TurnRequesting # rest \<and> settles_calls results calls \<and>
       accepts TurnRequesting [] rest) \<longleftrightarrow>
    (\<exists>i content is_error es' calls'. es = took (i, content, is_error) # es' \<and>
       length content \<le> max_retained_bytes \<and> remove_call i calls = Some calls' \<and>
       (\<exists>results rest. es' = map took results @ StateChanged TurnRequesting # rest \<and> settles_calls results calls' \<and>
          accepts TurnRequesting [] rest))" (is "?L \<longleftrightarrow> ?R")
  proof
    assume ?L
    then obtain results rest where r: "es = map took results @ StateChanged TurnRequesting # rest"
      "settles_calls results calls" "accepts TurnRequesting [] rest" by blast
    then obtain x results' where "results = x # results'" using less.prems by (cases results) (auto simp: answers_Nil)
    then show ?R using r by (cases x) (auto simp: answers_Cons, blast)
  next
    assume ?R
    then obtain i content is_error calls' results rest where
      "es = map took ((i, content, is_error) # results) @ StateChanged TurnRequesting # rest"
      "settles_calls ((i, content, is_error) # results) calls" "accepts TurnRequesting [] rest"
      by (auto simp: answers_Cons)
    then show ?L by blast
  qed
  note first_one = this
  have "(\<exists>results rest. es' = map took results @ StateChanged TurnRequesting # rest \<and> settles_calls results calls' \<and>
        accepts TurnRequesting [] rest) \<longleftrightarrow>
      (if calls' = [] then \<exists>rest'. es' = StateChanged TurnRequesting # rest' \<and> accepts TurnRequesting [] rest'
       else accepts TurnDispatching calls' es')" if "remove_call i calls = Some calls'" for i es' calls'
  proof (cases "calls' = []")
    case True
    have "settles_calls results [] \<longleftrightarrow> results = []" for results by (auto simp: settles_calls_def)
    then show ?thesis by (auto simp: True)
  next
    case False
    then show ?thesis using less.hyps [of calls' es'] remove_call_Some [OF that] by simp
  qed
  note next_one = this
  have "accepts TurnDispatching calls es \<longleftrightarrow>
    (\<exists>i content is_error es' calls'. es = took (i, content, is_error) # es' \<and>
       length content \<le> max_retained_bytes \<and> remove_call i calls = Some calls' \<and>
       (\<exists>results rest. es' = map took results @ StateChanged TurnRequesting # rest \<and> settles_calls results calls' \<and>
          accepts TurnRequesting [] rest))"
    by (subst accepts_dispatching) (intro iff_exI conj_cong refl, simp only: next_one)
  then show ?case unfolding first_one .
qed

lemma calls_of_simps [simp]:
  "calls_of [] = []" "calls_of (part # parts) = pending_call_of part @ calls_of parts"
  by (simp_all add: calls_of_def)

lemma distinct_part: "distinct (map pc_id (pending_call_of part))"
  by (cases part) auto

lemma spoken_rounds:
  assumes "distinct (map pc_id calls)"
  shows "accepts TurnStreaming calls es \<longleftrightarrow>
    (\<exists>parts rest. es = map ProviderPart parts @ rest \<and> \<not> list_ex is_result parts \<and>
       distinct (map pc_id (calls @ calls_of parts)) \<and>
       (calls @ calls_of parts = [] \<and> rest = [StateChanged TurnCompleted] \<or>
        calls @ calls_of parts \<noteq> [] \<and> (\<exists>rest'. rest = StateChanged TurnDispatching # map requested (calls @ calls_of parts) @ rest' \<and>
          accepts TurnDispatching (calls @ calls_of parts) rest')))"
  (is "_ \<longleftrightarrow> (\<exists>parts rest. ?spoken calls es parts rest)")
  using assms
proof (induction es arbitrary: calls)
  case Nil
  then show ?case by (subst accepts_streaming) auto
next
  case (Cons e es)
  show ?case
  proof (cases "\<exists>part. e = ProviderPart part")
    case True
    then obtain part where e: "e = ProviderPart part" by blast
    have fresh: "pc_id ` set (pending_call_of part) \<inter> pc_id ` set calls = {} \<longleftrightarrow>
        distinct (map pc_id (calls @ pending_call_of part))"
      using Cons.prems distinct_part [of part] by auto
    have "accepts TurnStreaming calls (e # es) \<longleftrightarrow> \<not> is_result part \<and>
        pc_id ` set (pending_call_of part) \<inter> pc_id ` set calls = {} \<and>
        accepts TurnStreaming (calls @ pending_call_of part) es"
      by (subst accepts_streaming) (auto simp: e)
    also have "\<dots> \<longleftrightarrow> \<not> is_result part \<and> distinct (map pc_id (calls @ pending_call_of part)) \<and>
        (\<exists>parts rest. ?spoken (calls @ pending_call_of part) es parts rest)"
      using fresh Cons.IH [of "calls @ pending_call_of part"] by blast
    also have "\<dots> \<longleftrightarrow> (\<exists>parts rest. ?spoken calls (e # es) (part # parts) rest)"
      by (auto simp: e)
    also have "\<dots> \<longleftrightarrow> (\<exists>parts rest. ?spoken calls (e # es) parts rest)"
    proof
      assume "\<exists>parts rest. ?spoken calls (e # es) parts rest"
      then obtain parts rest where p: "?spoken calls (e # es) parts rest" by blast
      then obtain parts' where "parts = part # parts'" by (cases parts) (auto simp: e)
      then show "\<exists>parts rest. ?spoken calls (e # es) (part # parts) rest" using p by blast
    qed blast
    finally show ?thesis .
  next
    case False
    have "?spoken calls (e # es) parts rest \<longleftrightarrow> parts = [] \<and> ?spoken calls (e # es) [] rest" for parts rest
      using False by (cases parts) auto
    then have "(\<exists>parts rest. ?spoken calls (e # es) parts rest) \<longleftrightarrow> ?spoken calls (e # es) [] (e # es)"
      by auto
    moreover have "accepts TurnStreaming calls (e # es) \<longleftrightarrow> ?spoken calls (e # es) [] (e # es)"
      using False Cons.prems by (subst accepts_streaming) auto
    ultimately show ?thesis by blast
  qed
qed

lemma rounds_input: "rounds (IntraTurnInput source said # es) \<longleftrightarrow> rounds es"
proof
  assume "rounds (IntraTurnInput source said # es)"
  then show "rounds es"
  proof cases
    case (last_round inputs parts)
    then obtain inputs' where "inputs = IntraTurnInput source said # inputs'" by (cases inputs) auto
    then show ?thesis using last_round rounds.last_round [of inputs' parts] by simp
  next
    case (tool_round inputs parts results rest)
    then obtain inputs' where "inputs = IntraTurnInput source said # inputs'" by (cases inputs) auto
    then show ?thesis using tool_round rounds.tool_round [of inputs' parts results rest] by simp
  qed
next
  assume "rounds es"
  then show "rounds (IntraTurnInput source said # es)"
  proof cases
    case (last_round inputs parts)
    then show ?thesis using rounds.last_round [of "IntraTurnInput source said # inputs" parts] by simp
  next
    case (tool_round inputs parts results rest)
    then show ?thesis using rounds.tool_round [of "IntraTurnInput source said # inputs" parts results rest] by simp
  qed
qed

lemma rounds_streaming:
  "rounds (StateChanged TurnStreaming # es) \<longleftrightarrow> (\<exists>parts. provider_message parts \<and>
     (calls_of parts = [] \<and> es = map ProviderPart parts @ [StateChanged TurnCompleted] \<or>
      calls_of parts \<noteq> [] \<and> (\<exists>results rest. settles_calls results (calls_of parts) \<and> rounds rest \<and>
        es = map ProviderPart parts @ StateChanged TurnDispatching # map requested (calls_of parts) @
          map took results @ StateChanged TurnRequesting # rest)))" (is "?L \<longleftrightarrow> ?R")
proof
  assume ?L
  then show ?R
  proof cases
    case (last_round inputs parts)
    then have "inputs = []" by (cases inputs) auto
    then show ?thesis using last_round by auto
  next
    case (tool_round inputs parts results rest)
    then have "inputs = []" by (cases inputs) auto
    then show ?thesis using tool_round by auto
  qed
next
  assume ?R
  then show ?L using rounds.last_round [of "[]"] rounds.tool_round [of "[]"] by fastforce
qed

lemma rounds_start: "rounds es \<Longrightarrow> \<exists>e es'. es = e # es' \<and> (is_input e \<or> e = StateChanged TurnStreaming)"
  by (erule rounds.cases; case_tac inputs) auto

lemma accepts_rounds: "accepts TurnRequesting [] es \<longleftrightarrow> rounds es"
proof (induction "length es" arbitrary: es rule: less_induct)
  case less
  show ?case
  proof (cases es)
    case Nil
    then show ?thesis using rounds_start [of "[]"] by (subst accepts_requesting) auto
  next
    case (Cons e es')
    consider (input) source said where "e = IntraTurnInput source said" | (speaks) "e = StateChanged TurnStreaming"
      | (neither) "\<not> is_input e" "e \<noteq> StateChanged TurnStreaming" by (cases e rule: is_input.cases) auto
    then show ?thesis
    proof cases
      case input
      then show ?thesis using less [of es'] by (subst accepts_requesting) (simp add: Cons rounds_input)
    next
      case neither
      then show ?thesis using rounds_start [of es] by (subst accepts_requesting) (auto simp: Cons)
    next
      case speaks
      have IH: "accepts TurnRequesting [] rest \<longleftrightarrow> rounds rest" if "length rest < length es" for rest
        using less that by simp
      have "accepts TurnRequesting [] es \<longleftrightarrow> (\<exists>part rest. es' = ProviderPart part # rest \<and> \<not> is_result part \<and>
          accepts TurnStreaming (pending_call_of part) rest)"
        by (subst accepts_requesting) (auto simp: Cons speaks)
      also have "\<dots> \<longleftrightarrow> (\<exists>parts rest. provider_message parts \<and> es' = map ProviderPart parts @ rest \<and>
          (calls_of parts = [] \<and> rest = [StateChanged TurnCompleted] \<or>
           calls_of parts \<noteq> [] \<and> (\<exists>rest'. rest = StateChanged TurnDispatching # map requested (calls_of parts) @ rest' \<and>
             accepts TurnDispatching (calls_of parts) rest')))" (is "?A \<longleftrightarrow> (\<exists>parts rest. ?B parts rest)")
      proof
        assume ?A
        then obtain part rest where p: "es' = ProviderPart part # rest" "\<not> is_result part"
          "accepts TurnStreaming (pending_call_of part) rest" by blast
        from p(3) obtain parts rest' where "?B (part # parts) rest'"
          unfolding spoken_rounds [OF distinct_part] using p(1,2) by (auto simp: provider_message_def)
        then show "\<exists>parts rest. ?B parts rest" by blast
      next
        assume "\<exists>parts rest. ?B parts rest"
        then obtain parts rest where b: "?B parts rest" by blast
        then obtain part parts' where "parts = part # parts'" by (cases parts) (auto simp: provider_message_def)
        then show ?A using b by (auto simp: spoken_rounds [OF distinct_part] provider_message_def)
      qed
      also have "\<dots> \<longleftrightarrow> rounds es"
        unfolding Cons speaks rounds_streaming
      proof (rule iff_exI)
        fix parts
        let ?said = "map ProviderPart parts @ StateChanged TurnDispatching # map requested (calls_of parts)"
        show "(\<exists>rest. ?B parts rest) \<longleftrightarrow> provider_message parts \<and>
          (calls_of parts = [] \<and> es' = map ProviderPart parts @ [StateChanged TurnCompleted] \<or>
           calls_of parts \<noteq> [] \<and> (\<exists>results rest. settles_calls results (calls_of parts) \<and> rounds rest \<and>
             es' = map ProviderPart parts @ StateChanged TurnDispatching # map requested (calls_of parts) @
               map took results @ StateChanged TurnRequesting # rest))"
        proof (cases "calls_of parts = []")
          case False
          have "(\<exists>rest. ?B parts rest) \<longleftrightarrow> provider_message parts \<and>
              (\<exists>rest'. es' = ?said @ rest' \<and> accepts TurnDispatching (calls_of parts) rest')"
            using False by auto
          also have "\<dots> \<longleftrightarrow> provider_message parts \<and> (\<exists>results rest.
              es' = ?said @ map took results @ StateChanged TurnRequesting # rest \<and> settles_calls results (calls_of parts) \<and>
              accepts TurnRequesting [] rest)"
            unfolding answered_rounds [OF False] by blast
          also have "\<dots> \<longleftrightarrow> provider_message parts \<and> (\<exists>results rest.
              es' = ?said @ map took results @ StateChanged TurnRequesting # rest \<and> settles_calls results (calls_of parts) \<and>
              rounds rest)"
            by (intro conj_cong iff_exI refl IH) (simp add: Cons)
          finally show ?thesis using False by auto
        qed auto
      qed
      finally show ?thesis .
    qed
  qed
qed

lemma validated_histories:
  "validate_completed_turn_events es = Inr () \<longleftrightarrow> (\<exists>rest. es = StateChanged TurnRequesting # rest \<and> rounds rest)"
proof -
  have "validate_completed_turn_events es = Inr () \<longleftrightarrow>
      (\<exists>c rest. consume_generated_events begin_turn new_coordinator es = Inr (c, rest) \<and> replay_events c rest = Inr ())"
    by (auto simp: validate_completed_turn_events_def and_then_Inr_iff)
  moreover have "tc_state begun = TurnRequesting" "tc_pending begun = []"
    by (simp_all add: begun_def new_coordinator_def)
  ultimately show ?thesis by (simp add: consume_begin replay_accepts accepts_rounds)
qed

end
