(* ===== verification/Turn_Loop.thy ===== *)
theory Turn_Loop
  imports Turn_Rounds Effects Permission_Rules
begin

text \<open>
  The loop that runs one turn (\<open>run_headless_turn_with_iteration_limit\<close> of
  crates/agens-core/src/lib.rs): the provider is asked, the calls it makes are authorized
  one by one and only then carried out, and what reached the turn in the meantime is handed
  over before the provider is asked again. The provider, the permission gate and its
  resolver, the dispatcher, the inbox, the store and the cancellation are ports: what each
  answers is an argument, which may depend on every call made before. The progress sink only
  observes and is left out.
\<close>

section \<open>Ports and errors\<close>

record headless_tool_call =
  hc_id :: string
  hc_name :: string
  hc_input :: string

record headless_tool_output =
  ht_content :: string
  ht_is_error :: bool
  ht_facts :: "tool_result_facts option"

datatype task_terminal =
    TaskCancelled | TaskTimedOut | TaskAgentUnavailable | TaskModelUnavailable | TaskSkillUnavailable
  | TaskInputLimit | TaskOutputLimit | TaskConcurrencyLimit | TaskProviderFailure | TaskChildFailure
  | TaskDeclarationRejected

datatype turn_port_error =
    PortCancelled | PortTimedOut | PortAuthentication | PortProvider | PortProviderRejected
  | PortProviderContext | PortHistoryBudget | PortRateLimited "nat option" | PortServer | PortNetwork
  | PortProtocol | PortPermission | PortPermissionExpired | PortTool | PortPermissionUnresolvable
  | PortUnknownTool | PortTaskTerminal task_terminal

datatype turn_error =
    ErrCancelled | ErrTimedOut | ErrAuthentication | ErrProvider | ErrProviderRejected
  | ErrProviderContext | ErrHistoryBudget | ErrRateLimited "nat option" | ErrServer | ErrNetwork
  | ErrProtocol | ErrPermission | ErrPermissionEvaluation | ErrPermissionRequired | ErrTool | ErrStore
  | ErrMaxIterations | ErrState | ErrTaskTerminal task_terminal

datatype interruption = WasCancelled | HasExpired

datatype turn_call =
    CheckInterrupted
  | NextParts "turn_event list"
  | EvaluateCall headless_tool_call
  | ResolveCall headless_tool_call
  | DispatchCall headless_tool_call
  | DrainInbox
  | QueueMessages "message list"
  | PersistTurn "turn_event list"

type_synonym 'a port_answer = "turn_call list \<Rightarrow> turn_port_error + 'a"

record turn_ports =
  tp_interrupted :: "turn_call list \<Rightarrow> interruption option"
  tp_next_parts :: "turn_event list \<Rightarrow> message_part list port_answer"
  tp_evaluate :: "headless_tool_call \<Rightarrow> permission_decision port_answer"
  tp_resolve :: "headless_tool_call \<Rightarrow> permission_decision port_answer"
  tp_denial_facts :: "headless_tool_call \<Rightarrow> turn_call list \<Rightarrow> tool_result_facts option"
  tp_dispatch :: "headless_tool_call \<Rightarrow> headless_tool_output port_answer"
  tp_drain :: "pending_input list port_answer"
  tp_queue :: "message list \<Rightarrow> unit port_answer"
  tp_persist :: "turn_event list \<Rightarrow> turn_call list \<Rightarrow> string + unit"

record turn_run =
  tr_coordinator :: turn_coordinator
  tr_calls :: "turn_call list"

type_synonym 'a turn_action = "turn_run \<Rightarrow> turn_run \<times> (turn_error + 'a)"

definition log_call :: "turn_call \<Rightarrow> turn_run \<Rightarrow> turn_run" where
  "log_call c s = s\<lparr>tr_calls := tr_calls s @ [c]\<rparr>"

section \<open>How a turn ends early\<close>

text \<open>Leaving through a step of the coordinator: the outcome, or \<open>ErrState\<close> when it refuses.\<close>

definition leave_by :: "turn_step \<Rightarrow> turn_error \<Rightarrow> 'a turn_action" where
  "leave_by operation outcome s =
     (case operation (tr_coordinator s) of
        (c, Inl e) \<Rightarrow> (s\<lparr>tr_coordinator := c\<rparr>, Inl ErrState)
      | (c, Inr u) \<Rightarrow> (s\<lparr>tr_coordinator := c\<rparr>, Inl outcome))"

fun map_port_error :: "turn_port_error \<Rightarrow> turn_error option" where
  "map_port_error PortProviderRejected = Some ErrProviderRejected"
| "map_port_error PortProviderContext = Some ErrProviderContext"
| "map_port_error PortHistoryBudget = Some ErrHistoryBudget"
| "map_port_error (PortRateLimited reset) = Some (ErrRateLimited reset)"
| "map_port_error PortServer = Some ErrServer"
| "map_port_error PortNetwork = Some ErrNetwork"
| "map_port_error PortProtocol = Some ErrProtocol"
| "map_port_error e = None"

definition finish_port_error :: "turn_port_error \<Rightarrow> turn_error \<Rightarrow> 'a turn_action" where
  "finish_port_error e failure =
     (case e of
        PortCancelled \<Rightarrow> leave_by cancel_turn ErrCancelled
      | PortTimedOut \<Rightarrow> leave_by fail_turn ErrTimedOut
      | PortAuthentication \<Rightarrow> leave_by fail_turn ErrAuthentication
      | _ \<Rightarrow> (case map_port_error e of
                Some provider_failure \<Rightarrow> leave_by fail_turn provider_failure
              | None \<Rightarrow> (case e of
                           PortTaskTerminal terminal \<Rightarrow> leave_by fail_turn (ErrTaskTerminal terminal)
                         | _ \<Rightarrow> leave_by fail_turn failure)))"

definition fail_state :: "'a turn_action" where
  "fail_state s = (s\<lparr>tr_coordinator := fst (fail_turn (tr_coordinator s))\<rparr>, Inl ErrState)"

definition permission_required :: "'a turn_action" where
  "permission_required = leave_by fail_turn ErrPermissionRequired"

definition check_cancelled :: "turn_ports \<Rightarrow> unit turn_action" where
  "check_cancelled p s =
     (let s' = log_call CheckInterrupted s
      in case tp_interrupted p (tr_calls s) of
           None \<Rightarrow> (s', Inr ())
         | Some WasCancelled \<Rightarrow> leave_by cancel_turn ErrCancelled s'
         | Some HasExpired \<Rightarrow> leave_by fail_turn ErrTimedOut s')"

text \<open>A port is called; its error ends the turn.\<close>

definition call_port :: "turn_call \<Rightarrow> 'a port_answer \<Rightarrow> turn_error \<Rightarrow> 'a turn_action" where
  "call_port c answer failure s =
     (case answer (tr_calls s) of
        Inl e \<Rightarrow> finish_port_error e failure (log_call c s)
      | Inr a \<Rightarrow> (log_call c s, Inr a))"

text \<open>A step of the coordinator; its refusal ends the turn.\<close>

definition turn_does :: "turn_step \<Rightarrow> unit turn_action" where
  "turn_does operation s =
     (case operation (tr_coordinator s) of
        (c, Inl e) \<Rightarrow> fail_state (s\<lparr>tr_coordinator := c\<rparr>)
      | (c, Inr u) \<Rightarrow> (s\<lparr>tr_coordinator := c\<rparr>, Inr ()))"

section \<open>Authorizing the calls of a batch\<close>

datatype ask_unreachable = PromptIsReachable | PromptIsUnreachable

datatype preflight =
    InvalidArguments | UnresolvablePermission | PermissionResolutionFailed | PermissionPromptExpired
  | UnknownTool | PreflightDecided permission_decision | UnreachablePromptDenial

definition ask_for_permission :: "turn_ports \<Rightarrow> ask_unreachable \<Rightarrow> headless_tool_call \<Rightarrow> preflight turn_action" where
  "ask_for_permission p unreachable call s =
     (let s' = log_call (ResolveCall call) s
      in case tp_resolve p call (tr_calls s) of
           Inr resolved \<Rightarrow>
             (s', Inr (if resolved = Deny \<and> unreachable = PromptIsUnreachable then UnreachablePromptDenial
                       else PreflightDecided resolved))
         | Inl PortCancelled \<Rightarrow> finish_port_error PortCancelled ErrCancelled s'
         | Inl PortTimedOut \<Rightarrow> finish_port_error PortTimedOut ErrTimedOut s'
         | Inl PortPermissionExpired \<Rightarrow> (s', Inr PermissionPromptExpired)
         | Inl _ \<Rightarrow> (s', Inr PermissionResolutionFailed))"

definition preflight_call :: "turn_ports \<Rightarrow> ask_unreachable \<Rightarrow> headless_tool_call \<Rightarrow> preflight turn_action" where
  "preflight_call p unreachable call s =
     on_ok (check_cancelled p s) (\<lambda>_ s.
       let s' = log_call (EvaluateCall call) s
       in case tp_evaluate p call (tr_calls s) of
            Inl PortTool \<Rightarrow> (s', Inr InvalidArguments)
          | Inl PortPermissionUnresolvable \<Rightarrow> (s', Inr UnresolvablePermission)
          | Inl PortUnknownTool \<Rightarrow> (s', Inr UnknownTool)
          | Inl e \<Rightarrow> finish_port_error e ErrPermissionEvaluation s'
          | Inr decision \<Rightarrow>
              on_ok (check_cancelled p s') (\<lambda>_ s.
              on_ok (if decision \<noteq> Ask then (s, Inr (PreflightDecided decision))
                     else ask_for_permission p unreachable call s) (\<lambda>authorization s.
              on_ok (check_cancelled p s) (\<lambda>_ s. (s, Inr authorization)))))"

section \<open>Carrying the calls out\<close>

definition refused_output :: "string \<Rightarrow> headless_tool_output" where
  "refused_output content = \<lparr>ht_content = content, ht_is_error = True, ht_facts = None\<rparr>"

definition with_denial_facts ::
  "turn_ports \<Rightarrow> headless_tool_call \<Rightarrow> turn_run \<Rightarrow> headless_tool_output \<Rightarrow> headless_tool_output" where
  "with_denial_facts p call s output =
     (case tp_denial_facts p call (tr_calls s) of None \<Rightarrow> output | Some facts \<Rightarrow> output\<lparr>ht_facts := Some facts\<rparr>)"

definition output_of :: "turn_ports \<Rightarrow> headless_tool_call \<Rightarrow> preflight \<Rightarrow> headless_tool_output turn_action" where
  "output_of p call authorization s =
     (case authorization of
        InvalidArguments \<Rightarrow> (s, Inr (refused_output ''invalid tool arguments''))
      | UnresolvablePermission \<Rightarrow> (s, Inr (with_denial_facts p call s (refused_output
          (''tool call refused: this tool is misconfigured in this session and no '' @
           ''permission decision could be made for it; the arguments are not at '' @
           ''fault, and repeating the call will not change this''))))
      | PermissionResolutionFailed \<Rightarrow> (s, Inr (refused_output
          (''tool call refused: the permission approval for this call could not be '' @
           ''completed; try the call again, or use a simpler single command'')))
      | PermissionPromptExpired \<Rightarrow> (s, Inr (refused_output
          ''tool call refused: the unattended permission question expired before anyone answered''))
      | UnknownTool \<Rightarrow> (s, Inr (refused_output
          (''tool call refused: this session has no tool by that name; it was not denied '' @
           ''and its arguments are not at fault, so no rewriting of this call can reach a '' @
           ''tool; call one of the tools you were given instead'')))
      | PreflightDecided Allow \<Rightarrow> call_port (DispatchCall call) (tp_dispatch p call) ErrTool s
      | PreflightDecided Deny \<Rightarrow> (s, Inr (with_denial_facts p call s (refused_output ''permission denied'')))
      | UnreachablePromptDenial \<Rightarrow> (s, Inr (with_denial_facts p call s (refused_output
          ''permission denied: the approval prompt could not be reached in a subagent'')))
      | PreflightDecided Ask \<Rightarrow> permission_required s)"

definition carry_out :: "turn_ports \<Rightarrow> headless_tool_call \<Rightarrow> preflight \<Rightarrow> unit turn_action" where
  "carry_out p call authorization s =
     on_ok (check_cancelled p s) (\<lambda>_ s.
     on_ok (output_of p call authorization s) (\<lambda>output s.
     on_ok (turn_does (accept_tool_result (hc_id call) (ht_content output) (ht_is_error output) (ht_facts output)) s)
       (\<lambda>_ s. check_cancelled p s)))"

section \<open>The loop\<close>

fun headless_tool_calls :: "message_part \<Rightarrow> headless_tool_call list" where
  "headless_tool_calls (ToolCallPart i name input) = [\<lparr>hc_id = i, hc_name = name, hc_input = input\<rparr>]"
| "headless_tool_calls part = []"

fun accept_parts :: "message_part list \<Rightarrow> unit turn_action" where
  "accept_parts [] s = (s, Inr ())"
| "accept_parts (part # parts) s = on_ok (turn_does (accept_provider_part part) s) (\<lambda>_ s. accept_parts parts s)"

fun preflight_calls ::
  "turn_ports \<Rightarrow> ask_unreachable \<Rightarrow> headless_tool_call list \<Rightarrow> (headless_tool_call \<times> preflight) list turn_action" where
  "preflight_calls p unreachable [] s = (s, Inr [])"
| "preflight_calls p unreachable (call # calls) s =
     on_ok (preflight_call p unreachable call s) (\<lambda>authorization s.
     on_ok (preflight_calls p unreachable calls s) (\<lambda>rest s. (s, Inr ((call, authorization) # rest))))"

fun carry_out_calls :: "turn_ports \<Rightarrow> (headless_tool_call \<times> preflight) list \<Rightarrow> unit turn_action" where
  "carry_out_calls p [] s = (s, Inr ())"
| "carry_out_calls p ((call, authorization) # rest) s =
     on_ok (carry_out p call authorization s) (\<lambda>_ s. carry_out_calls p rest s)"

fun accept_inputs :: "pending_input list \<Rightarrow> unit turn_action" where
  "accept_inputs [] s = (s, Inr ())"
| "accept_inputs (i # is) s =
     on_ok (turn_does (accept_intra_turn_input (pi_source i) (pi_text i)) s) (\<lambda>_ s. accept_inputs is s)"

definition input_message :: "pending_input \<Rightarrow> message" where
  "input_message i = \<lparr>me_role = input_role (pi_source i), me_parts = [TextPart (pi_text i)]\<rparr>"

definition hand_over_inputs :: "turn_ports \<Rightarrow> unit turn_action" where
  "hand_over_inputs p s =
     on_ok (call_port DrainInbox (tp_drain p) ErrState s) (\<lambda>inputs s.
     on_ok (accept_inputs inputs s) (\<lambda>_ s.
     let queued = map input_message inputs
     in if queued = [] then (s, Inr ()) else call_port (QueueMessages queued) (tp_queue p queued) ErrProvider s))"

datatype persistence_error =
    PersistNotCompleted turn_state | AlreadyPersisted | AlreadyAttempted | PersistFailed string

definition persist_completed_turn :: "turn_ports \<Rightarrow> turn_run \<Rightarrow> turn_run \<times> (persistence_error + unit)" where
  "persist_completed_turn p s =
     (let c = tr_coordinator s
      in if tc_state c \<noteq> TurnCompleted then (s, Inl (PersistNotCompleted (tc_state c)))
         else if tc_persisted c then (s, Inl AlreadyPersisted)
         else if tc_persistence_attempted c then (s, Inl AlreadyAttempted)
         else
           let snapshot = persisted_history (tc_events c);
               s' = log_call (PersistTurn snapshot) (s\<lparr>tr_coordinator := c\<lparr>tc_persistence_attempted := True\<rparr>\<rparr>)
           in case tp_persist p snapshot (tr_calls s) of
                Inl e \<Rightarrow> (s', Inl (PersistFailed e))
              | Inr u \<Rightarrow> (s'\<lparr>tr_coordinator := (tr_coordinator s')\<lparr>tc_persisted := True\<rparr>\<rparr>, Inr ()))"

definition store_turn :: "turn_ports \<Rightarrow> turn_event list turn_action" where
  "store_turn p s =
     (case persist_completed_turn p s of
        (s', Inl e) \<Rightarrow> (s', Inl ErrStore)
      | (s', Inr u) \<Rightarrow>
          (s', case from_persisted_events (persisted_history (tc_events (tr_coordinator s'))) of
                 Inl e \<Rightarrow> Inl ErrState
               | Inr es \<Rightarrow> Inr es))"

text \<open>One iteration: the history of the turn when it has completed, \<open>None\<close> to go on.\<close>

definition turn_iteration ::
  "turn_ports \<Rightarrow> ask_unreachable \<Rightarrow> nat option \<Rightarrow> nat \<Rightarrow> turn_event list option turn_action" where
  "turn_iteration p unreachable max_iterations iterations s =
     on_ok (check_cancelled p s) (\<lambda>_ s.
     if (case max_iterations of None \<Rightarrow> False | Some limit \<Rightarrow> limit \<le> iterations)
     then leave_by fail_turn ErrMaxIterations s
     else
       on_ok (call_port (NextParts (tc_events (tr_coordinator s)))
                (tp_next_parts p (tc_events (tr_coordinator s))) ErrProvider s) (\<lambda>parts s.
       on_ok (check_cancelled p s) (\<lambda>_ s.
       on_ok (accept_parts parts s) (\<lambda>_ s.
       on_ok (turn_does finish_provider_iteration s) (\<lambda>_ s.
       if tc_state (tr_coordinator s) = TurnCompleted
       then on_ok (store_turn p s) (\<lambda>es s. (s, Inr (Some es)))
       else
         on_ok (preflight_calls p unreachable (concat (map headless_tool_calls parts)) s) (\<lambda>authorized s.
         on_ok (carry_out_calls p authorized s) (\<lambda>_ s.
         on_ok (hand_over_inputs p s) (\<lambda>_ s. (s, Inr None)))))))))"

partial_function (option) turn_loop ::
  "turn_ports \<Rightarrow> ask_unreachable \<Rightarrow> nat option \<Rightarrow> nat \<Rightarrow> turn_run \<Rightarrow>
   (turn_run \<times> (turn_error + turn_event list)) option" where
  "turn_loop p unreachable max_iterations iterations s =
     (case turn_iteration p unreachable max_iterations iterations s of
        (s', Inl e) \<Rightarrow> Some (s', Inl e)
      | (s', Inr (Some es)) \<Rightarrow> Some (s', Inr es)
      | (s', Inr None) \<Rightarrow> turn_loop p unreachable max_iterations (iterations + 1) s')"

definition run_headless_turn ::
  "turn_ports \<Rightarrow> ask_unreachable \<Rightarrow> nat option \<Rightarrow> turn_attempt_key option \<Rightarrow>
   (turn_run \<times> (turn_error + turn_event list)) option" where
  "run_headless_turn p unreachable max_iterations attempt =
     (case begin_turn (case attempt of Some key \<Rightarrow> for_attempt key | None \<Rightarrow> new_coordinator) of
        (c, Inl e) \<Rightarrow> Some (\<lparr>tr_coordinator = c, tr_calls = []\<rparr>, Inl ErrState)
      | (c, Inr u) \<Rightarrow> turn_loop p unreachable max_iterations 0 \<lparr>tr_coordinator = c, tr_calls = []\<rparr>)"

declare turn_loop.simps [code]

end
