(* ===== verification/Turn_Safety.thy ===== *)
theory Turn_Safety
  imports Turn_Loop
begin

text \<open>
  What the loop of a turn keeps, whatever its ports answer, as triples of a precondition, an
  action, and what holds of the state it leaves: no tool runs without a permission, every
  way out leaves a turn that is over, and a completed turn is stored once.
\<close>

section \<open>Triples\<close>

definition triple ::
  "(turn_run \<Rightarrow> bool) \<Rightarrow> 'a turn_action \<Rightarrow> ('a \<Rightarrow> turn_run \<Rightarrow> bool) \<Rightarrow> (turn_error \<Rightarrow> turn_run \<Rightarrow> bool) \<Rightarrow> bool" where
  "triple P m Q E \<longleftrightarrow> (\<forall>s. P s \<longrightarrow> (case m s of (s', Inl e) \<Rightarrow> E e s' | (s', Inr a) \<Rightarrow> Q a s'))"

lemma tripleI:
  "(\<And>s. P s \<Longrightarrow> case m s of (s', Inl e) \<Rightarrow> E e s' | (s', Inr a) \<Rightarrow> Q a s') \<Longrightarrow> triple P m Q E"
  by (simp add: triple_def)

lemma triple_Inr: "triple P m Q E \<Longrightarrow> P s \<Longrightarrow> m s = (s', Inr a) \<Longrightarrow> Q a s'"
  by (fastforce simp: triple_def)

lemma triple_Inl: "triple P m Q E \<Longrightarrow> P s \<Longrightarrow> m s = (s', Inl e) \<Longrightarrow> E e s'"
  by (fastforce simp: triple_def)

lemma triple_seq:
  assumes "triple P m Q E" "\<And>a. triple (Q a) (k a) R E"
  shows "triple P (\<lambda>s. on_ok (m s) k) R E"
proof (rule tripleI)
  fix s assume P: "P s"
  obtain s' r where m: "m s = (s', r)" by fastforce
  show "case on_ok (m s) k of (s', Inl e) \<Rightarrow> E e s' | (s', Inr a) \<Rightarrow> R a s'"
  proof (cases r)
    case (Inl e)
    then show ?thesis using triple_Inl [OF assms(1) P] m by simp
  next
    case (Inr a)
    then have "Q a s'" using triple_Inr [OF assms(1) P] m by simp
    then show ?thesis using assms(2) [of a] m Inr by (simp add: triple_def)
  qed
qed

lemma triple_conseq:
  "triple P m Q E \<Longrightarrow> (\<And>s. P' s \<Longrightarrow> P s) \<Longrightarrow> (\<And>a s. Q a s \<Longrightarrow> Q' a s) \<Longrightarrow> (\<And>e s. E e s \<Longrightarrow> E' e s) \<Longrightarrow> triple P' m Q' E'"
  unfolding triple_def by (fastforce split: prod.splits sum.splits)

lemma triple_return: "triple (Q a) (\<lambda>s. (s, Inr a)) Q E"
  by (simp add: triple_def)

lemma triple_if:
  "(b \<Longrightarrow> triple P m Q E) \<Longrightarrow> (\<not> b \<Longrightarrow> triple P m' Q E) \<Longrightarrow> triple P (\<lambda>s. if b then m s else m' s) Q E"
  by (cases b) simp_all

section \<open>Permissions in a log of calls\<close>

definition licensed :: "turn_ports \<Rightarrow> turn_call list \<Rightarrow> headless_tool_call \<Rightarrow> bool" where
  "licensed p log call \<longleftrightarrow> (\<exists>pre post. log = pre @ EvaluateCall call # post \<and>
     (tp_evaluate p call pre = Inr Allow \<or>
      tp_evaluate p call pre = Inr Ask \<and>
        (\<exists>mid rest. post = mid @ ResolveCall call # rest \<and>
           tp_resolve p call (pre @ EvaluateCall call # mid) = Inr Allow)))"

definition asked_about :: "turn_ports \<Rightarrow> turn_call list \<Rightarrow> headless_tool_call \<Rightarrow> bool" where
  "asked_about p log call \<longleftrightarrow>
     (\<exists>pre post. log = pre @ EvaluateCall call # post \<and> tp_evaluate p call pre = Inr Ask)"

definition all_licensed :: "turn_ports \<Rightarrow> turn_call list \<Rightarrow> bool" where
  "all_licensed p log \<longleftrightarrow> (\<forall>pre call post. log = pre @ DispatchCall call # post \<longrightarrow> licensed p pre call)"

lemma licensed_grows: "licensed p log call \<Longrightarrow> licensed p (log @ new) call"
  unfolding licensed_def by (metis append.assoc append_Cons)

lemma asked_grows: "asked_about p log call \<Longrightarrow> asked_about p (log @ new) call"
  unfolding asked_about_def by (metis append.assoc append_Cons)

lemma allowed_at_once: "tp_evaluate p call log = Inr Allow \<Longrightarrow> licensed p (log @ [EvaluateCall call]) call"
  unfolding licensed_def by blast

lemma asked_at_once: "tp_evaluate p call log = Inr Ask \<Longrightarrow> asked_about p (log @ [EvaluateCall call]) call"
  unfolding asked_about_def by blast

lemma allowed_when_asked:
  assumes "asked_about p log call" "tp_resolve p call log = Inr Allow"
  shows "licensed p (log @ [ResolveCall call]) call"
proof -
  obtain pre post where log: "log = pre @ EvaluateCall call # post" "tp_evaluate p call pre = Inr Ask"
    using assms(1) unfolding asked_about_def by blast
  have "log @ [ResolveCall call] = pre @ EvaluateCall call # (post @ [ResolveCall call])" by (simp add: log)
  then show ?thesis unfolding licensed_def using log assms(2) by blast
qed

lemma all_licensed_Nil [simp]: "all_licensed p []"
  by (simp add: all_licensed_def)

lemma all_licensed_step:
  assumes "all_licensed p log" "\<And>call. c = DispatchCall call \<Longrightarrow> licensed p log call"
  shows "all_licensed p (log @ [c])"
  using assms unfolding all_licensed_def by (auto simp: append_eq_append_conv2 append_eq_Cons_conv Cons_eq_append_conv)

section \<open>What every step keeps\<close>

text \<open>A coordinator that has only been driven by its operations, begun once.\<close>

definition driven :: "turn_coordinator \<Rightarrow> bool" where
  "driven c \<longleftrightarrow> (\<exists>ops key. BeginTurn \<notin> set ops \<and>
     c = run_turn_ops (BeginTurn # ops) (new_coordinator\<lparr>tc_attempt_key := key\<rparr>))"

lemma driven_step: "driven c \<Longrightarrow> op \<noteq> BeginTurn \<Longrightarrow> driven (fst (step_of op c))"
proof -
  assume "driven c" "op \<noteq> BeginTurn"
  then obtain ops key where ops: "BeginTurn \<notin> set ops"
    "c = run_turn_ops (BeginTurn # ops) (new_coordinator\<lparr>tc_attempt_key := key\<rparr>)" unfolding driven_def by blast
  have "fst (step_of op c) = run_turn_ops (BeginTurn # ops @ [op]) (new_coordinator\<lparr>tc_attempt_key := key\<rparr>)"
    by (simp add: ops(2) run_turn_ops_def)
  then show ?thesis unfolding driven_def using ops(1) \<open>op \<noteq> BeginTurn\<close> by (intro exI [of _ "ops @ [op]"]) auto
qed

definition stores_nothing :: "turn_call list \<Rightarrow> bool" where
  "stores_nothing log \<longleftrightarrow> (\<forall>es. PersistTurn es \<notin> set log)"

text \<open>No check for an interruption has found one.\<close>

definition calm :: "turn_ports \<Rightarrow> turn_call list \<Rightarrow> bool" where
  "calm p log \<longleftrightarrow> (\<forall>pre post. log = pre @ CheckInterrupted # post \<longrightarrow> tp_interrupted p pre = None)"

fun interruption_error :: "interruption \<Rightarrow> turn_error" where
  "interruption_error WasCancelled = ErrCancelled"
| "interruption_error HasExpired = ErrTimedOut"

text \<open>The first interruption found is the last thing the turn did, and it is why the turn ended.\<close>

definition stops :: "turn_ports \<Rightarrow> turn_error \<Rightarrow> turn_call list \<Rightarrow> bool" where
  "stops p e log \<longleftrightarrow> (\<forall>pre post i. log = pre @ CheckInterrupted # post \<and> tp_interrupted p pre = Some i \<longrightarrow>
     post = [] \<and> e = interruption_error i)"

lemma calm_stops: "calm p log \<Longrightarrow> stops p e log"
  by (fastforce simp: calm_def stops_def)

lemma calm_Nil [simp]: "calm p []"
  by (simp add: calm_def)

lemma snoc_split: "log @ [c] = pre @ x # post \<longleftrightarrow> (post = [] \<and> pre = log \<and> x = c) \<or> (\<exists>post'. post = post' @ [c] \<and> log = pre @ x # post')"
  by (cases post rule: rev_cases) auto

lemma calm_step: "calm p log \<Longrightarrow> (c = CheckInterrupted \<Longrightarrow> tp_interrupted p log = None) \<Longrightarrow> calm p (log @ [c])"
  by (auto simp: calm_def snoc_split)

lemma stops_step: "calm p log \<Longrightarrow> tp_interrupted p log = Some i \<Longrightarrow> stops p (interruption_error i) (log @ [CheckInterrupted])"
  by (fastforce simp: calm_def stops_def snoc_split)

definition unstored :: "turn_ports \<Rightarrow> turn_run \<Rightarrow> bool" where
  "unstored p s \<longleftrightarrow> driven (tr_coordinator s) \<and> stores_nothing (tr_calls s) \<and> all_licensed p (tr_calls s)"

definition sound :: "turn_ports \<Rightarrow> turn_run \<Rightarrow> bool" where
  "sound p s \<longleftrightarrow> unstored p s \<and> calm p (tr_calls s)"

definition halting :: "turn_ports \<Rightarrow> turn_error \<Rightarrow> turn_run \<Rightarrow> bool" where
  "halting p e s \<longleftrightarrow> unstored p s \<and> stops p e (tr_calls s)"

lemma sound_halting: "sound p s \<Longrightarrow> halting p e s"
  by (simp add: sound_def halting_def calm_stops)

definition under_way :: "turn_run \<Rightarrow> bool" where
  "under_way s \<longleftrightarrow> tc_state (tr_coordinator s) \<in> {TurnRequesting, TurnStreaming, TurnDispatching}"

definition ended :: "turn_ports \<Rightarrow> turn_error \<Rightarrow> turn_run \<Rightarrow> bool" where
  "ended p e s \<longleftrightarrow> halting p e s \<and> tc_state (tr_coordinator s) \<in> {TurnCancelled, TurnFailed}"

text \<open>Facts that further calls do not change.\<close>

definition stable :: "(turn_run \<Rightarrow> bool) \<Rightarrow> bool" where
  "stable K \<longleftrightarrow> (\<forall>s new. K s \<longrightarrow> K (s\<lparr>tr_calls := tr_calls s @ new\<rparr>))"

lemma stable_log: "stable K \<Longrightarrow> K s \<Longrightarrow> K (log_call c s)"
  by (simp add: stable_def log_call_def)

lemma stable_coordinator [simp]: "stable (\<lambda>s. R (tr_coordinator s))"
  by (simp add: stable_def)

lemma stable_conj [simp]: "stable K \<Longrightarrow> stable K' \<Longrightarrow> stable (\<lambda>s. K s \<and> K' s)"
  by (simp add: stable_def)

lemma stable_licensed [simp]: "stable (\<lambda>s. b \<longrightarrow> licensed p (tr_calls s) call)"
  by (simp add: stable_def licensed_grows)

lemma stable_asked [simp]: "stable (\<lambda>s. b \<longrightarrow> asked_about p (tr_calls s) call)"
  by (simp add: stable_def asked_grows)

lemma log_call_simps [simp]:
  "tr_coordinator (log_call c s) = tr_coordinator s" "tr_calls (log_call c s) = tr_calls s @ [c]"
  by (simp_all add: log_call_def)

lemma sound_log:
  assumes "sound p s" "\<And>es. c \<noteq> PersistTurn es" "\<And>call. c = DispatchCall call \<Longrightarrow> licensed p (tr_calls s) call"
    and "c = CheckInterrupted \<Longrightarrow> tp_interrupted p (tr_calls s) = None"
  shows "sound p (log_call c s)"
  using assms all_licensed_step [of p "tr_calls s" c] calm_step [of p "tr_calls s" c]
  by (auto simp: sound_def unstored_def stores_nothing_def)

lemma halting_check:
  assumes "sound p s" "tp_interrupted p (tr_calls s) = Some i"
  shows "halting p (interruption_error i) (log_call CheckInterrupted s)"
  using assms all_licensed_step [of p "tr_calls s" CheckInterrupted] stops_step [of p "tr_calls s" i]
  by (auto simp: sound_def halting_def unstored_def stores_nothing_def)

lemma live_log [simp]: "under_way (log_call c s) = under_way s"
  by (simp add: under_way_def)

section \<open>Ways out\<close>

definition ends :: "turn_ports \<Rightarrow> 'a turn_action \<Rightarrow> turn_run \<Rightarrow> bool" where
  "ends p m s \<longleftrightarrow> (case m s of (s', Inl e) \<Rightarrow> ended p e s' | (s', Inr a) \<Rightarrow> False)"

lemma ends_case: "ends p m s \<Longrightarrow> case m s of (s', Inl e) \<Rightarrow> ended p e s' | (s', Inr a) \<Rightarrow> Q a s'"
  by (auto simp: ends_def split: prod.splits sum.splits)

lemma leave_by_step_ends:
  assumes "op \<in> {CancelTurn, FailTurn}" "halting p outcome s" "under_way s"
  shows "ends p (leave_by (step_of op) outcome) s"
proof -
  have "driven (fst (step_of op (tr_coordinator s)))"
    using assms(1,2) driven_step [of "tr_coordinator s" op] by (auto simp: halting_def unstored_def)
  moreover have "tc_state (fst (step_of op (tr_coordinator s))) \<in> {TurnCancelled, TurnFailed}"
    "\<not> isl (snd (step_of op (tr_coordinator s)))"
    using assms(1,3) by (auto simp: under_way_def cancel_turn_def fail_turn_def enter_def transition_to_def)
  ultimately show ?thesis using assms(2)
    by (cases "step_of op (tr_coordinator s)"; cases "snd (step_of op (tr_coordinator s))")
      (auto simp: leave_by_def ended_def halting_def unstored_def ends_def)
qed

lemma leave_by_ends:
  assumes "halting p outcome s" "under_way s"
  shows "ends p (leave_by cancel_turn outcome) s" "ends p (leave_by fail_turn outcome) s"
  using leave_by_step_ends [OF _ assms, of CancelTurn] leave_by_step_ends [OF _ assms, of FailTurn] by simp_all

lemma finish_port_error_ends: "sound p s \<Longrightarrow> under_way s \<Longrightarrow> ends p (finish_port_error e failure) s"
  by (cases e) (simp_all add: finish_port_error_def leave_by_ends sound_halting)

lemma fail_state_ends:
  assumes "sound p s" "under_way s" shows "ended p ErrState (fst (fail_state s))"
proof -
  have "driven (fst (fail_turn (tr_coordinator s)))"
    using assms(1) driven_step [of _ FailTurn] by (simp add: sound_def unstored_def)
  moreover have "tc_state (fst (fail_turn (tr_coordinator s))) = TurnFailed"
    using assms(2) by (auto simp: under_way_def fail_turn_def enter_def transition_to_def)
  ultimately show ?thesis using sound_halting [OF assms(1), of ErrState]
    by (simp add: fail_state_def ended_def halting_def unstored_def)
qed

lemma check_cancelled_triple:
  assumes "stable K"
  shows "triple (\<lambda>s. sound p s \<and> under_way s \<and> K s) (check_cancelled p) (\<lambda>_ s. sound p s \<and> under_way s \<and> K s) (ended p)"
proof (rule tripleI)
  fix s assume s: "sound p s \<and> under_way s \<and> K s"
  let ?s = "log_call CheckInterrupted s"
  have live_s: "under_way ?s" "K ?s" using s stable_log [OF assms] by auto
  show "case check_cancelled p s of (s', Inl e) \<Rightarrow> ended p e s' | (s', Inr a) \<Rightarrow> sound p s' \<and> under_way s' \<and> K s'"
  proof (cases "tp_interrupted p (tr_calls s)")
    case None
    then show ?thesis using live_s s sound_log [of p s CheckInterrupted] by (simp add: check_cancelled_def Let_def)
  next
    case (Some i)
    then have halts: "halting p (interruption_error i) ?s" using halting_check s by blast
    show ?thesis
      using ends_case [OF leave_by_ends(1) [OF halts live_s(1)]] ends_case [OF leave_by_ends(2) [OF halts live_s(1)]]
      by (cases i) (simp_all add: check_cancelled_def Some)
  qed
qed

lemma call_port_triple:
  assumes "stable K" "\<And>es. c \<noteq> PersistTurn es" "c \<noteq> CheckInterrupted"
  shows "triple (\<lambda>s. sound p s \<and> under_way s \<and> K s \<and> (\<forall>call. c = DispatchCall call \<longrightarrow> licensed p (tr_calls s) call))
    (call_port c answer failure) (\<lambda>_ s. sound p s \<and> under_way s \<and> K s) (ended p)"
proof (rule tripleI)
  fix s assume s: "sound p s \<and> under_way s \<and> K s \<and> (\<forall>call. c = DispatchCall call \<longrightarrow> licensed p (tr_calls s) call)"
  then have next_s: "sound p (log_call c s)" "under_way (log_call c s)" "K (log_call c s)"
    using sound_log [of p s c] assms(2,3) stable_log [OF assms(1)] by auto
  show "case call_port c answer failure s of (s', Inl e) \<Rightarrow> ended p e s' | (s', Inr a) \<Rightarrow> sound p s' \<and> under_way s' \<and> K s'"
    using next_s ends_case [OF finish_port_error_ends [OF next_s(1,2)]]
    by (cases "answer (tr_calls s)") (simp_all add: call_port_def)
qed

section \<open>Authorizing\<close>

lemma ask_for_permission_triple:
  assumes "stable K"
  shows "triple (\<lambda>s. sound p s \<and> under_way s \<and> K s \<and> asked_about p (tr_calls s) call)
    (ask_for_permission p unreachable call)
    (\<lambda>a s. sound p s \<and> under_way s \<and> K s \<and> (a = PreflightDecided Allow \<longrightarrow> licensed p (tr_calls s) call)) (ended p)"
proof (rule tripleI)
  fix s assume s: "sound p s \<and> under_way s \<and> K s \<and> asked_about p (tr_calls s) call"
  let ?s = "log_call (ResolveCall call) s"
  have next_s: "sound p ?s" "under_way ?s" "K ?s" using s sound_log [of p s] stable_log [OF assms] by auto
  show "case ask_for_permission p unreachable call s of
      (s', Inl e) \<Rightarrow> ended p e s'
    | (s', Inr a) \<Rightarrow> sound p s' \<and> under_way s' \<and> K s' \<and> (a = PreflightDecided Allow \<longrightarrow> licensed p (tr_calls s') call)"
  proof (cases "tp_resolve p call (tr_calls s)")
    case (Inl e)
    then show ?thesis
      using next_s ends_case [OF finish_port_error_ends [OF next_s(1,2)]]
      by (cases e) (simp_all add: ask_for_permission_def Let_def)
  next
    case (Inr resolved)
    then show ?thesis using next_s s allowed_when_asked [of p "tr_calls s" call]
      by (auto simp: ask_for_permission_def)
  qed
qed

lemma preflight_call_triple:
  assumes K: "stable K"
  shows "triple (\<lambda>s. sound p s \<and> under_way s \<and> K s) (preflight_call p unreachable call)
    (\<lambda>a s. sound p s \<and> under_way s \<and> K s \<and> (a = PreflightDecided Allow \<longrightarrow> licensed p (tr_calls s) call)) (ended p)"
proof -
  let ?after = "\<lambda>decision s. sound p s \<and> under_way s \<and> (K s \<and> (decision = Allow \<longrightarrow> licensed p (tr_calls s) call) \<and>
      (decision = Ask \<longrightarrow> asked_about p (tr_calls s) call))"
  let ?done = "\<lambda>a s. sound p s \<and> under_way s \<and> (K s \<and> (a = PreflightDecided Allow \<longrightarrow> licensed p (tr_calls s) call))"
  have settle: "triple (?after decision) (\<lambda>s. on_ok (check_cancelled p s) (\<lambda>_ s.
        on_ok (if decision \<noteq> Ask then (s, Inr (PreflightDecided decision)) else ask_for_permission p unreachable call s)
          (\<lambda>authorization s. on_ok (check_cancelled p s) (\<lambda>_ s. (s, Inr authorization))))) ?done (ended p)" for decision
  proof (rule triple_seq [OF check_cancelled_triple], simp add: K)
    fix u :: unit
    show "triple (?after decision) (\<lambda>s. on_ok (if decision \<noteq> Ask then (s, Inr (PreflightDecided decision))
          else ask_for_permission p unreachable call s)
          (\<lambda>authorization s. on_ok (check_cancelled p s) (\<lambda>_ s. (s, Inr authorization)))) ?done (ended p)"
    proof (rule triple_seq)
      show "triple (?after decision) (\<lambda>s. if decision \<noteq> Ask then (s, Inr (PreflightDecided decision))
          else ask_for_permission p unreachable call s) ?done (ended p)"
      proof (rule triple_if)
        show "triple (?after decision) (\<lambda>s. (s, Inr (PreflightDecided decision))) ?done (ended p)"
          by (simp add: triple_def)
        assume "\<not> decision \<noteq> Ask"
        then show "triple (?after decision) (ask_for_permission p unreachable call) ?done (ended p)"
          by (intro triple_conseq [OF ask_for_permission_triple [OF K]]) auto
      qed
      show "triple (?done a) (\<lambda>s. on_ok (check_cancelled p s) (\<lambda>_ s. (s, Inr a))) ?done (ended p)" for a
        by (rule triple_seq [OF check_cancelled_triple], simp add: K, rule triple_return)
    qed
  qed
  have evaluate: "triple (\<lambda>s. sound p s \<and> under_way s \<and> K s)
      (\<lambda>s. let s' = log_call (EvaluateCall call) s
         in case tp_evaluate p call (tr_calls s) of
            Inl PortTool \<Rightarrow> (s', Inr InvalidArguments)
          | Inl PortPermissionUnresolvable \<Rightarrow> (s', Inr UnresolvablePermission)
          | Inl PortUnknownTool \<Rightarrow> (s', Inr UnknownTool)
          | Inl e \<Rightarrow> finish_port_error e ErrPermissionEvaluation s'
          | Inr decision \<Rightarrow>
              on_ok (check_cancelled p s') (\<lambda>_ s.
              on_ok (if decision \<noteq> Ask then (s, Inr (PreflightDecided decision))
                     else ask_for_permission p unreachable call s) (\<lambda>authorization s.
              on_ok (check_cancelled p s) (\<lambda>_ s. (s, Inr authorization))))) ?done (ended p)"
  proof (rule tripleI)
    fix s assume s: "sound p s \<and> under_way s \<and> K s"
    let ?s = "log_call (EvaluateCall call) s"
    let ?m = "\<lambda>s. let s' = log_call (EvaluateCall call) s
         in case tp_evaluate p call (tr_calls s) of
            Inl PortTool \<Rightarrow> (s', Inr InvalidArguments)
          | Inl PortPermissionUnresolvable \<Rightarrow> (s', Inr UnresolvablePermission)
          | Inl PortUnknownTool \<Rightarrow> (s', Inr UnknownTool)
          | Inl e \<Rightarrow> finish_port_error e ErrPermissionEvaluation s'
          | Inr decision \<Rightarrow>
              on_ok (check_cancelled p s') (\<lambda>_ s.
              on_ok (if decision \<noteq> Ask then (s, Inr (PreflightDecided decision))
                     else ask_for_permission p unreachable call s) (\<lambda>authorization s.
              on_ok (check_cancelled p s) (\<lambda>_ s. (s, Inr authorization))))"
    have next_s: "sound p ?s" "under_way ?s" "K ?s" using s sound_log [of p s] stable_log [OF K] by auto
    show "case ?m s of (s', Inl e) \<Rightarrow> ended p e s' | (s', Inr a) \<Rightarrow> ?done a s'"
    proof (cases "tp_evaluate p call (tr_calls s)")
      case (Inl e)
      then show ?thesis using next_s ends_case [OF finish_port_error_ends [OF next_s(1,2)]]
        by (cases e) (simp_all add: Let_def)
    next
      case (Inr decision)
      then have "?after decision ?s" using next_s allowed_at_once asked_at_once by simp
      then show ?thesis using settle [of decision] Inr by (simp add: triple_def Let_def)
    qed
  qed
  have "triple (\<lambda>s. sound p s \<and> under_way s \<and> K s) (preflight_call p unreachable call) ?done (ended p)"
    unfolding preflight_call_def [abs_def]
    by (rule triple_seq [OF check_cancelled_triple [OF K] evaluate])
  then show ?thesis by simp
qed

end
