(* ===== verification/Turn_Ends.thy ===== *)
theory Turn_Ends
  imports Turn_Safety
begin

text \<open>
  Where the loop of a turn stands between its steps, and how it ends: every call of a batch
  gets its result, and a turn leaves the loop only when it is over.
\<close>

section \<open>Standing between steps\<close>

definition standing_at :: "turn_state \<Rightarrow> pending_tool_call list \<Rightarrow> turn_run \<Rightarrow> bool" where
  "standing_at st calls s \<longleftrightarrow> tc_state (tr_coordinator s) = st \<and> tc_pending (tr_coordinator s) = calls"

definition hearing :: "pending_tool_call list \<Rightarrow> turn_run \<Rightarrow> bool" where
  "hearing calls s \<longleftrightarrow> standing_at TurnRequesting calls s \<or> standing_at TurnStreaming calls s"

text \<open>The calls of a batch that still wait for their result.\<close>

definition owes :: "pending_tool_call list \<Rightarrow> turn_run \<Rightarrow> bool" where
  "owes calls s \<longleftrightarrow> standing_at (if calls = [] then TurnRequesting else TurnDispatching) calls s"

lemma stable_stands [simp]: "stable (standing_at st calls)" "stable (hearing calls)" "stable (owes calls)"
  by (simp_all add: stable_def standing_at_def hearing_def owes_def)

lemma standing_live:
  "st \<in> {TurnRequesting, TurnStreaming, TurnDispatching} \<Longrightarrow> standing_at st calls s \<Longrightarrow> under_way s"
  "hearing calls s \<Longrightarrow> under_way s" "owes calls s \<Longrightarrow> under_way s"
  by (auto simp: standing_at_def hearing_def owes_def under_way_def split: if_splits)

lemma requesting_live: "standing_at TurnRequesting [] s \<Longrightarrow> under_way s"
  by (simp add: standing_at_def under_way_def)

lemma sound_does: "sound p s \<Longrightarrow> op \<noteq> BeginTurn \<Longrightarrow> sound p (s\<lparr>tr_coordinator := fst (step_of op (tr_coordinator s))\<rparr>)"
  using driven_step by (simp add: sound_def unstored_def)

lemma turn_does_triple:
  assumes "op \<noteq> BeginTurn" "\<And>s. P s \<Longrightarrow> under_way s"
    and "\<And>s c. P s \<Longrightarrow> step_of op (tr_coordinator s) = (c, Inr ()) \<Longrightarrow> Q (s\<lparr>tr_coordinator := c\<rparr>)"
  shows "triple (\<lambda>s. sound p s \<and> P s) (turn_does (step_of op)) (\<lambda>_ s. sound p s \<and> Q s) (ended p)"
proof (rule tripleI)
  fix s assume s: "sound p s \<and> P s"
  obtain c x where step: "step_of op (tr_coordinator s) = (c, x)" by fastforce
  show "case turn_does (step_of op) s of (s', Inl e) \<Rightarrow> ended p e s' | (s', Inr a) \<Rightarrow> sound p s' \<and> Q s'"
  proof (cases x)
    case (Inl e)
    then have "c = tr_coordinator s" using step refused_step by blast
    then have "turn_does (step_of op) s = fail_state s" using step Inl by (simp add: turn_does_def)
    moreover have "ended p ErrState (fst (fail_state s))" using fail_state_ends s assms(2) by blast
    ultimately show ?thesis by (simp add: fail_state_def)
  next
    case (Inr u)
    then show ?thesis using assms(3) [of s c] s step sound_does [OF _ assms(1), of p s]
      by (simp add: turn_does_def)
  qed
qed

section \<open>The provider's parts\<close>

lemma accept_parts_triple:
  "triple (\<lambda>s. sound p s \<and> hearing calls s) (accept_parts parts)
     (\<lambda>_ s. sound p s \<and> hearing (calls @ calls_of parts) s) (ended p)"
proof (induction parts arbitrary: calls)
  case Nil
  then show ?case by (simp add: triple_def)
next
  case (Cons part parts)
  have "triple (\<lambda>s. sound p s \<and> hearing calls s) (turn_does (step_of (TakePart part)))
      (\<lambda>_ s. sound p s \<and> hearing (calls @ pending_call_of part) s) (ended p)"
  proof (rule turn_does_triple)
    fix s c assume "hearing calls s" "step_of (TakePart part) (tr_coordinator s) = (c, Inr ())"
    then show "hearing (calls @ pending_call_of part) (s\<lparr>tr_coordinator := c\<rparr>)"
      by (auto simp: hearing_def standing_at_def accept_provider_part_def enter_def transition_to_def emit_def
          split: sum.splits if_splits)
  qed (simp_all add: standing_live)
  from triple_seq [OF this, of "\<lambda>_. accept_parts parts"] Cons.IH [of "calls @ pending_call_of part"]
  show ?case by simp
qed

lemma finish_iteration_triple:
  "triple (\<lambda>s. sound p s \<and> hearing calls s) (turn_does finish_provider_iteration)
     (\<lambda>_ s. sound p s \<and> standing_at (if calls = [] then TurnCompleted else TurnDispatching) calls s) (ended p)"
proof -
  have "triple (\<lambda>s. sound p s \<and> hearing calls s) (turn_does (step_of FinishIteration))
     (\<lambda>_ s. sound p s \<and> standing_at (if calls = [] then TurnCompleted else TurnDispatching) calls s) (ended p)"
  proof (rule turn_does_triple)
    fix s c assume "hearing calls s" "step_of FinishIteration (tr_coordinator s) = (c, Inr ())"
    then show "standing_at (if calls = [] then TurnCompleted else TurnDispatching) calls (s\<lparr>tr_coordinator := c\<rparr>)"
      by (auto simp: hearing_def standing_at_def finish_provider_iteration_def require_state_def enter_def transition_to_def
          split: sum.splits if_splits)
  qed (simp_all add: standing_live)
  then show ?thesis by simp
qed

section \<open>The calls of a batch\<close>

definition decided :: "turn_ports \<Rightarrow> (headless_tool_call \<times> preflight) list \<Rightarrow> turn_run \<Rightarrow> bool" where
  "decided p authorized s \<longleftrightarrow>
     (\<forall>(call, a) \<in> set authorized. a = PreflightDecided Allow \<longrightarrow> licensed p (tr_calls s) call)"

lemma stable_decided [simp]: "stable (decided p authorized)"
  by (fastforce simp: stable_def decided_def licensed_grows)

lemma decided_simps [simp]:
  "decided p [] s"
  "decided p ((call, a) # rest) s \<longleftrightarrow>
     (a = PreflightDecided Allow \<longrightarrow> licensed p (tr_calls s) call) \<and> decided p rest s"
  by (auto simp: decided_def)

lemma preflight_calls_triple:
  assumes "stable K"
  shows "triple (\<lambda>s. sound p s \<and> under_way s \<and> K s) (preflight_calls p unreachable calls)
    (\<lambda>authorized s. sound p s \<and> under_way s \<and> K s \<and> map fst authorized = calls \<and> decided p authorized s) (ended p)"
  using assms
proof (induction calls arbitrary: K)
  case Nil
  then show ?case by (simp add: triple_def)
next
  case (Cons call calls)
  have "triple (\<lambda>s. sound p s \<and> under_way s \<and> K s) (\<lambda>s. on_ok (preflight_call p unreachable call s) (\<lambda>a s.
      on_ok (preflight_calls p unreachable calls s) (\<lambda>rest s. (s, Inr ((call, a) # rest)))))
    (\<lambda>authorized s. sound p s \<and> under_way s \<and> K s \<and> map fst authorized = call # calls \<and> decided p authorized s) (ended p)"
  proof (rule triple_seq [OF preflight_call_triple [OF Cons.prems]])
    fix a
    let ?K = "\<lambda>s. K s \<and> (a = PreflightDecided Allow \<longrightarrow> licensed p (tr_calls s) call)"
    have "stable ?K" using Cons.prems by simp
    from triple_seq [OF Cons.IH [OF this], of "\<lambda>rest s. (s, Inr ((call, a) # rest))"
        "\<lambda>authorized s. sound p s \<and> under_way s \<and> K s \<and> map fst authorized = call # calls \<and> decided p authorized s"]
    show "triple (\<lambda>s. sound p s \<and> under_way s \<and> K s \<and> (a = PreflightDecided Allow \<longrightarrow> licensed p (tr_calls s) call))
      (\<lambda>s. on_ok (preflight_calls p unreachable calls s) (\<lambda>rest s. (s, Inr ((call, a) # rest))))
      (\<lambda>authorized s. sound p s \<and> under_way s \<and> K s \<and> map fst authorized = call # calls \<and> decided p authorized s) (ended p)"
      by (simp add: triple_def)
  qed
  then show ?case by simp
qed

lemma output_of_triple:
  assumes "stable K"
  shows "triple (\<lambda>s. sound p s \<and> under_way s \<and> K s \<and> (a = PreflightDecided Allow \<longrightarrow> licensed p (tr_calls s) call))
    (output_of p call a) (\<lambda>_ s. sound p s \<and> under_way s \<and> K s) (ended p)"
proof (cases "a = PreflightDecided Allow")
  case True
  have "triple (\<lambda>s. sound p s \<and> under_way s \<and> K s \<and>
      (\<forall>call'. DispatchCall call = DispatchCall call' \<longrightarrow> licensed p (tr_calls s) call'))
    (call_port (DispatchCall call) (tp_dispatch p call) ErrTool) (\<lambda>_ s. sound p s \<and> under_way s \<and> K s) (ended p)"
    by (rule call_port_triple [OF assms]) simp_all
  then show ?thesis using True by (simp add: output_of_def [abs_def])
next
  case False
  show ?thesis
  proof (cases "a = PreflightDecided Ask")
    case True
    then show ?thesis
      by (auto simp: output_of_def permission_required_def intro!: tripleI ends_case leave_by_ends sound_halting)
  next
    case not_ask: False
    then show ?thesis using False
      by (cases a; cases "the (case a of PreflightDecided d \<Rightarrow> Some d | _ \<Rightarrow> None)")
        (simp_all add: output_of_def [abs_def] triple_def)
  qed
qed

lemma carry_out_triple:
  assumes "hc_id call = pc_id c"
  shows "triple (\<lambda>s. sound p s \<and> owes (c # cs) s \<and> decided p ((call, a) # rest) s) (carry_out p call a)
    (\<lambda>_ s. sound p s \<and> owes cs s \<and> decided p rest s) (ended p)"
proof -
  let ?K = "\<lambda>s. owes (c # cs) s \<and> decided p rest s"
  let ?L = "\<lambda>s. owes cs s \<and> decided p rest s"
  have result: "triple (\<lambda>s. sound p s \<and> ?K s)
      (turn_does (step_of (TakeResult (hc_id call) content is_error facts))) (\<lambda>_ s. sound p s \<and> ?L s) (ended p)"
    for content is_error facts
  proof (rule turn_does_triple)
    fix s c' assume s: "?K s" "step_of (TakeResult (hc_id call) content is_error facts) (tr_coordinator s) = (c', Inr ())"
    then have "owes cs (s\<lparr>tr_coordinator := c'\<rparr>)" using assms
      by (auto simp: owes_def standing_at_def accept_tool_result_def take_facts_def emit_def enter_def transition_to_def Let_def
          split: if_splits option.splits)
    then show "?L (s\<lparr>tr_coordinator := c'\<rparr>)" using s by (simp add: decided_def)
  qed (auto simp: standing_live)
  have last: "triple (\<lambda>s. sound p s \<and> ?L s) (check_cancelled p) (\<lambda>_ s. sound p s \<and> ?L s) (ended p)"
    by (rule triple_conseq [OF check_cancelled_triple [of ?L p]]) (auto simp: standing_live)
  have middle: "triple (\<lambda>s. sound p s \<and> under_way s \<and> ?K s) (\<lambda>s. on_ok (turn_does (accept_tool_result (hc_id call)
      (ht_content answer) (ht_is_error answer) (ht_facts answer)) s) (\<lambda>_ s. check_cancelled p s))
      (\<lambda>_ s. sound p s \<and> ?L s) (ended p)" for answer
    by (rule triple_seq [OF triple_conseq [OF result [of "ht_content answer" "ht_is_error answer" "ht_facts answer",
          unfolded step_of.simps]] last]) auto
  have "triple (\<lambda>s. sound p s \<and> under_way s \<and> (?K s \<and> (a = PreflightDecided Allow \<longrightarrow> licensed p (tr_calls s) call)))
      (carry_out p call a) (\<lambda>_ s. sound p s \<and> ?L s) (ended p)"
    unfolding carry_out_def [abs_def]
    by (rule triple_seq [OF check_cancelled_triple triple_seq [OF triple_conseq [OF output_of_triple [of ?K]] middle]])
      auto
  then show ?thesis by (rule triple_conseq) (auto simp: standing_live)
qed

lemma carry_out_calls_triple:
  assumes "map (\<lambda>x. hc_id (fst x)) authorized = map pc_id calls"
  shows "triple (\<lambda>s. sound p s \<and> owes calls s \<and> decided p authorized s) (carry_out_calls p authorized)
    (\<lambda>_ s. sound p s \<and> standing_at TurnRequesting [] s) (ended p)"
  using assms
proof (induction authorized arbitrary: calls)
  case Nil
  then show ?case by (simp add: triple_def owes_def)
next
  case (Cons x authorized)
  obtain call a where x: "x = (call, a)" by fastforce
  obtain c cs where calls: "calls = c # cs" "hc_id call = pc_id c" "map (\<lambda>x. hc_id (fst x)) authorized = map pc_id cs"
    using Cons.prems x by (cases calls) auto
  from triple_seq [OF carry_out_triple [OF calls(2), of p cs a authorized] Cons.IH [OF calls(3)]]
  show ?case by (simp add: x calls(1))
qed

section \<open>What reached the turn meanwhile\<close>

lemma accept_inputs_triple:
  "triple (\<lambda>s. sound p s \<and> standing_at TurnRequesting [] s) (accept_inputs inputs)
     (\<lambda>_ s. sound p s \<and> standing_at TurnRequesting [] s) (ended p)"
proof (induction inputs)
  case Nil
  then show ?case by (simp add: triple_def)
next
  case (Cons i inputs)
  have "triple (\<lambda>s. sound p s \<and> standing_at TurnRequesting [] s) (turn_does (step_of (TakeInput (pi_source i) (pi_text i))))
      (\<lambda>_ s. sound p s \<and> standing_at TurnRequesting [] s) (ended p)"
    by (rule turn_does_triple)
      (auto simp: requesting_live standing_at_def accept_intra_turn_input_def emit_def split: if_splits)
  from triple_seq [OF this, of "\<lambda>_. accept_inputs inputs"] Cons.IH show ?case by simp
qed

lemma hand_over_inputs_triple:
  "triple (\<lambda>s. sound p s \<and> standing_at TurnRequesting [] s) (hand_over_inputs p)
     (\<lambda>_ s. sound p s \<and> standing_at TurnRequesting [] s) (ended p)"
proof -
  let ?P = "\<lambda>s. sound p s \<and> standing_at TurnRequesting [] s"
  have port: "triple ?P (call_port c answer failure) (\<lambda>_. ?P) (ended p)"
    if "\<And>es. c \<noteq> PersistTurn es" "\<And>call. c \<noteq> DispatchCall call" "c \<noteq> CheckInterrupted"
    for c failure and answer :: "'z port_answer"
    by (rule triple_conseq [OF call_port_triple [of "standing_at TurnRequesting []" c p]])
      (use that in \<open>auto simp: requesting_live\<close>)
  have queue: "triple ?P (\<lambda>s. if map input_message inputs = [] then (s, Inr ())
      else call_port (QueueMessages (map input_message inputs)) (tp_queue p (map input_message inputs)) ErrProvider s)
      (\<lambda>_. ?P) (ended p)" for inputs
    by (rule triple_if, rule triple_return, rule port) simp_all
  have "triple ?P (\<lambda>s. on_ok (call_port DrainInbox (tp_drain p) ErrState s) (\<lambda>inputs s.
      on_ok (accept_inputs inputs s) (\<lambda>_ s. if map input_message inputs = [] then (s, Inr ())
        else call_port (QueueMessages (map input_message inputs)) (tp_queue p (map input_message inputs)) ErrProvider s)))
      (\<lambda>_. ?P) (ended p)"
    by (rule triple_seq [OF port], simp, simp, simp, rule triple_seq [OF accept_inputs_triple queue])
  then show ?thesis by (simp add: hand_over_inputs_def [abs_def] Let_def)
qed

end
