(* ===== verification/Turn_Outcome.thy ===== *)
theory Turn_Outcome
  imports Turn_Ends
begin

text \<open>
  How a turn of an agent comes out: what is stored when it completes, what is left when it
  does not, and when the loop is bound to return.
\<close>

section \<open>Storing a completed turn\<close>

lemma step_keeps_flags:
  "tc_persisted (fst (step_of op c)) = tc_persisted c"
  "tc_persistence_attempted (fst (step_of op c)) = tc_persistence_attempted c"
  by (cases op;
      auto simp: begin_turn_def cancel_turn_def fail_turn_def enter_def accept_provider_part_def
        finish_provider_iteration_def accept_intra_turn_input_def accept_tool_result_def require_state_def
        Let_def take_facts_def emit_def
        split: sum.splits option.splits)+

lemma ops_keep_flags:
  "tc_persisted (run_turn_ops ops c) = tc_persisted c"
  "tc_persistence_attempted (run_turn_ops ops c) = tc_persistence_attempted c"
  by (induction ops arbitrary: c) (simp_all add: step_keeps_flags)

lemma driven_unstored: "driven c \<Longrightarrow> \<not> tc_persisted c \<and> \<not> tc_persistence_attempted c"
  unfolding driven_def by (elim exE conjE) (simp only: ops_keep_flags, simp add: new_coordinator_def)

lemma driven_validates:
  "driven c \<Longrightarrow> tc_state c = TurnCompleted \<Longrightarrow> validate_completed_turn_events (persisted_history (tc_events c)) = Inr ()"
  unfolding driven_def using completed_turn_validates by blast

definition turn_kept :: "turn_ports \<Rightarrow> turn_event list \<Rightarrow> turn_run \<Rightarrow> bool" where
  "turn_kept p es s \<longleftrightarrow> all_licensed p (tr_calls s) \<and> calm p (tr_calls s) \<and>
     tc_state (tr_coordinator s) = TurnCompleted \<and> tc_persisted (tr_coordinator s) \<and>
     es = persisted_history (tc_events (tr_coordinator s)) \<and> validate_completed_turn_events es = Inr () \<and>
     (\<exists>log. tr_calls s = log @ [PersistTurn es] \<and> stores_nothing log \<and> tp_persist p es log = Inr ())"

definition store_refused :: "turn_ports \<Rightarrow> turn_error \<Rightarrow> turn_run \<Rightarrow> bool" where
  "store_refused p e s \<longleftrightarrow> all_licensed p (tr_calls s) \<and> calm p (tr_calls s) \<and> e = ErrStore \<and>
     tc_state (tr_coordinator s) = TurnCompleted \<and> \<not> tc_persisted (tr_coordinator s) \<and>
     (\<exists>log es why. tr_calls s = log @ [PersistTurn es] \<and> stores_nothing log \<and> tp_persist p es log = Inl why)"

definition left :: "turn_ports \<Rightarrow> turn_error \<Rightarrow> turn_run \<Rightarrow> bool" where
  "left p e s \<longleftrightarrow> ended p e s \<or> store_refused p e s"

lemma store_turn_triple:
  "triple (\<lambda>s. sound p s \<and> standing_at TurnCompleted [] s) (store_turn p) (turn_kept p) (left p)"
proof (rule tripleI)
  fix s assume s: "sound p s \<and> standing_at TurnCompleted [] s"
  let ?c = "tr_coordinator s" and ?es = "persisted_history (tc_events (tr_coordinator s))"
  have c: "driven ?c" "tc_state ?c = TurnCompleted" using s by (auto simp: sound_def unstored_def standing_at_def)
  note unstored = driven_unstored [OF c(1)] and valid = driven_validates [OF c]
  have log: "all_licensed p (tr_calls s @ [PersistTurn ?es])" "calm p (tr_calls s @ [PersistTurn ?es])"
    "stores_nothing (tr_calls s)"
    using s by (auto simp: sound_def unstored_def intro: all_licensed_step calm_step)
  show "case store_turn p s of (s', Inl e) \<Rightarrow> left p e s' | (s', Inr es) \<Rightarrow> turn_kept p es s'"
  proof (cases "tp_persist p ?es (tr_calls s)")
    case (Inl why)
    then have "store_turn p s =
        (log_call (PersistTurn ?es) (s\<lparr>tr_coordinator := ?c\<lparr>tc_persistence_attempted := True\<rparr>\<rparr>), Inl ErrStore)"
      using c(2) unstored by (simp add: store_turn_def persist_completed_turn_def Let_def)
    then show ?thesis using log c(2) unstored Inl by (auto simp: left_def store_refused_def)
  next
    case (Inr u)
    then have "store_turn p s = (log_call (PersistTurn ?es)
        (s\<lparr>tr_coordinator := ?c\<lparr>tc_persistence_attempted := True, tc_persisted := True\<rparr>\<rparr>), Inr ?es)"
      using c(2) unstored valid
      by (simp add: store_turn_def persist_completed_turn_def Let_def from_persisted_events_def log_call_def)
    then show ?thesis using log c(2) valid Inr by (auto simp: turn_kept_def)
  qed
qed

section \<open>An iteration\<close>

definition at_the_top :: "turn_ports \<Rightarrow> turn_run \<Rightarrow> bool" where
  "at_the_top p s \<longleftrightarrow> sound p s \<and> standing_at TurnRequesting [] s"

definition goes_on :: "turn_ports \<Rightarrow> turn_event list option \<Rightarrow> turn_run \<Rightarrow> bool" where
  "goes_on p res s \<longleftrightarrow> (case res of None \<Rightarrow> at_the_top p s | Some es \<Rightarrow> turn_kept p es s)"

lemma triple_left: "triple P m Q (ended p) \<Longrightarrow> triple P m Q (left p)"
  by (erule triple_conseq) (simp_all add: left_def)

lemma calls_match_parts: "map (\<lambda>x. hc_id x) (concat (map headless_tool_calls parts)) = map pc_id (calls_of parts)"
proof (induction parts)
  case (Cons part parts)
  then show ?case by (cases part) auto
qed simp

lemma batch_triple:
  assumes "calls_of parts \<noteq> []"
  shows "triple (\<lambda>s. sound p s \<and> standing_at TurnDispatching (calls_of parts) s)
    (\<lambda>s. on_ok (preflight_calls p unreachable (concat (map headless_tool_calls parts)) s) (\<lambda>authorized s.
         on_ok (carry_out_calls p authorized s) (\<lambda>_ s.
         on_ok (hand_over_inputs p s) (\<lambda>_ s. (s, Inr None)))))
    (goes_on p) (ended p)"
proof -
  let ?waits = "standing_at TurnDispatching (calls_of parts)"
  have settle: "triple (\<lambda>s. sound p s \<and> under_way s \<and> ?waits s \<and>
        map fst authorized = concat (map headless_tool_calls parts) \<and> decided p authorized s)
      (\<lambda>s. on_ok (carry_out_calls p authorized s) (\<lambda>_ s. on_ok (hand_over_inputs p s) (\<lambda>_ s. (s, Inr None))))
      (goes_on p) (ended p)" for authorized
  proof (cases "map fst authorized = concat (map headless_tool_calls parts)")
    case True
    then have "map (\<lambda>x. hc_id (fst x)) authorized = map pc_id (calls_of parts)"
      by (metis (no_types, lifting) calls_match_parts list.map_comp comp_apply map_eq_conv)
    from carry_out_calls_triple [OF this, of p]
    have carry: "triple (\<lambda>s. sound p s \<and> under_way s \<and> ?waits s \<and>
        map fst authorized = concat (map headless_tool_calls parts) \<and> decided p authorized s)
        (carry_out_calls p authorized) (\<lambda>_ s. sound p s \<and> standing_at TurnRequesting [] s) (ended p)"
      by (rule triple_conseq) (use assms in \<open>auto simp: owes_def\<close>)
    have again: "triple (\<lambda>s. sound p s \<and> standing_at TurnRequesting [] s) (\<lambda>s. (s, Inr None)) (goes_on p) (ended p)"
      by (simp add: triple_def goes_on_def at_the_top_def)
    show ?thesis by (rule triple_seq [OF carry triple_seq [OF hand_over_inputs_triple again]])
  next
    case False
    then show ?thesis by (simp add: triple_def)
  qed
  have "triple (\<lambda>s. sound p s \<and> under_way s \<and> ?waits s)
    (\<lambda>s. on_ok (preflight_calls p unreachable (concat (map headless_tool_calls parts)) s) (\<lambda>authorized s.
         on_ok (carry_out_calls p authorized s) (\<lambda>_ s.
         on_ok (hand_over_inputs p s) (\<lambda>_ s. (s, Inr None)))))
    (goes_on p) (ended p)"
    by (rule triple_seq [OF preflight_calls_triple settle]) simp
  then show ?thesis by (rule triple_conseq) (auto simp: standing_at_def under_way_def)
qed

lemma after_parts_triple:
  "triple (\<lambda>s. sound p s \<and> standing_at (if calls_of parts = [] then TurnCompleted else TurnDispatching) (calls_of parts) s)
    (\<lambda>s. if tc_state (tr_coordinator s) = TurnCompleted
       then on_ok (store_turn p s) (\<lambda>es s. (s, Inr (Some es)))
       else on_ok (preflight_calls p unreachable (concat (map headless_tool_calls parts)) s) (\<lambda>authorized s.
         on_ok (carry_out_calls p authorized s) (\<lambda>_ s.
         on_ok (hand_over_inputs p s) (\<lambda>_ s. (s, Inr None)))))
    (goes_on p) (left p)"
proof (cases "calls_of parts = []")
  case True
  have "triple (turn_kept p es) (\<lambda>s. (s, Inr (Some es))) (goes_on p) (left p)" for es
    by (simp add: triple_def goes_on_def)
  from triple_seq [OF store_turn_triple this] show ?thesis
    by (simp add: True triple_def standing_at_def)
next
  case False
  from triple_left [OF batch_triple [OF False, of p unreachable]] show ?thesis
    by (simp add: False triple_def standing_at_def)
qed

lemma turn_iteration_triple:
  "triple (at_the_top p) (turn_iteration p unreachable limit n) (goes_on p) (left p)"
proof -
  let ?top = "\<lambda>s. sound p s \<and> standing_at TurnRequesting [] s"
  have check: "triple ?top (check_cancelled p) (\<lambda>_. ?top) (left p)"
    by (rule triple_left, rule triple_conseq [OF check_cancelled_triple [of "standing_at TurnRequesting []" p]])
      (auto simp: requesting_live)
  have asks: "triple ?top (\<lambda>s. call_port (NextParts (tc_events (tr_coordinator s)))
      (tp_next_parts p (tc_events (tr_coordinator s))) ErrProvider s) (\<lambda>_. ?top) (left p)"
  proof (rule tripleI)
    fix s assume s: "?top s"
    have "triple (\<lambda>s. sound p s \<and> under_way s \<and> standing_at TurnRequesting [] s \<and>
        (\<forall>call. NextParts (tc_events (tr_coordinator s')) = DispatchCall call \<longrightarrow> licensed p (tr_calls s) call))
      (call_port (NextParts (tc_events (tr_coordinator s'))) (tp_next_parts p (tc_events (tr_coordinator s'))) ErrProvider)
      (\<lambda>_ s. sound p s \<and> under_way s \<and> standing_at TurnRequesting [] s) (ended p)" for s'
      by (rule call_port_triple) simp_all
    from this [of s] s show "case call_port (NextParts (tc_events (tr_coordinator s)))
        (tp_next_parts p (tc_events (tr_coordinator s))) ErrProvider s of
        (s', Inl e) \<Rightarrow> left p e s' | (s', Inr a) \<Rightarrow> ?top s'"
      by (auto simp: triple_def left_def requesting_live split: prod.splits sum.splits)
  qed
  have hear: "triple ?top (accept_parts parts) (\<lambda>_ s. sound p s \<and> hearing (calls_of parts) s) (left p)" for parts
    by (rule triple_left, rule triple_conseq [OF accept_parts_triple [of p "[]"]]) (auto simp: hearing_def)
  have go: "triple ?top (\<lambda>s.
       on_ok (call_port (NextParts (tc_events (tr_coordinator s)))
                (tp_next_parts p (tc_events (tr_coordinator s))) ErrProvider s) (\<lambda>parts s.
       on_ok (check_cancelled p s) (\<lambda>_ s.
       on_ok (accept_parts parts s) (\<lambda>_ s.
       on_ok (turn_does finish_provider_iteration s) (\<lambda>_ s.
       if tc_state (tr_coordinator s) = TurnCompleted
       then on_ok (store_turn p s) (\<lambda>es s. (s, Inr (Some es)))
       else
         on_ok (preflight_calls p unreachable (concat (map headless_tool_calls parts)) s) (\<lambda>authorized s.
         on_ok (carry_out_calls p authorized s) (\<lambda>_ s.
         on_ok (hand_over_inputs p s) (\<lambda>_ s. (s, Inr None))))))))) (goes_on p) (left p)"
    by (rule triple_seq [OF asks], rule triple_seq [OF check], rule triple_seq [OF hear],
        rule triple_seq [OF triple_left [OF finish_iteration_triple]], rule after_parts_triple)
  have over_limit: "triple ?top (leave_by fail_turn ErrMaxIterations) (goes_on p) (left p)"
    by (rule triple_left, rule tripleI, rule ends_case, rule leave_by_ends)
      (auto simp: sound_halting requesting_live)
  have "triple ?top (turn_iteration p unreachable limit n) (goes_on p) (left p)"
    unfolding turn_iteration_def [abs_def] by (rule triple_seq [OF check], rule triple_if [OF over_limit go])
  then show ?thesis by (simp add: at_the_top_def [abs_def])
qed

section \<open>The whole turn\<close>

lemma turn_loop_result:
  assumes "turn_loop p unreachable limit n s = Some (s', r)" "at_the_top p s"
  shows "case r of Inl e \<Rightarrow> left p e s' | Inr es \<Rightarrow> turn_kept p es s'"
proof -
  let ?comes_out = "\<lambda>p s x. at_the_top p s \<longrightarrow> (case snd x of Inl e \<Rightarrow> left p e (fst x) | Inr es \<Rightarrow> turn_kept p es (fst x))"
  have "?comes_out p s x" if "turn_loop p unreachable limit n s = Some x" for p unreachable limit n s x
  proof (rule turn_loop.raw_induct [OF _ that, where P = "\<lambda>p unreachable limit n. ?comes_out p"])
    fix loop p unreachable limit n s x
    assume IH: "\<And>p unreachable limit n s x. loop p unreachable limit n s = Some x \<Longrightarrow> ?comes_out p s x"
      and runs_on: "(case turn_iteration p unreachable limit n s of
        (s', Inl e) \<Rightarrow> Some (s', Inl e)
      | (s', Inr None) \<Rightarrow> loop p unreachable limit (n + 1) s'
      | (s', Inr (Some es)) \<Rightarrow> Some (s', Inr es)) = Some x"
    note runs = turn_iteration_triple [of p unreachable limit n]
    show "?comes_out p s x"
    proof
      assume top: "at_the_top p s"
      obtain s' r where it: "turn_iteration p unreachable limit n s = (s', r)" by fastforce
      show "case snd x of Inl e \<Rightarrow> left p e (fst x) | Inr es \<Rightarrow> turn_kept p es (fst x)"
      proof (cases r)
        case (Inl e)
        then show ?thesis using runs_on triple_Inl [OF runs top] it by auto
      next
        case (Inr res)
        then have on: "goes_on p res s'" using triple_Inr [OF runs top] it by blast
        show ?thesis
        proof (cases res)
          case None
          then show ?thesis using IH [of p unreachable limit "n + 1" s' x] runs_on on it Inr by (auto simp: goes_on_def)
        next
          case (Some es)
          then show ?thesis using runs_on on it Inr by (auto simp: goes_on_def)
        qed
      qed
    qed
  qed
  from this [OF assms(1)] assms(2) show ?thesis by (simp only: fst_conv snd_conv)
qed

definition fresh_turn :: "turn_attempt_key option \<Rightarrow> turn_run" where
  "fresh_turn attempt = \<lparr>tr_coordinator = begun\<lparr>tc_attempt_key := attempt\<rparr>, tr_calls = []\<rparr>"

lemma run_headless_turn_loop:
  "run_headless_turn p unreachable limit attempt = turn_loop p unreachable limit 0 (fresh_turn attempt)"
  by (cases attempt)
    (simp_all add: run_headless_turn_def for_attempt_def begin_turn_def enter_def transition_to_def new_coordinator_def
      fresh_turn_def begun_def)

lemma fresh_turn_top: "at_the_top p (fresh_turn attempt)"
proof -
  have "begun\<lparr>tc_attempt_key := attempt\<rparr> = run_turn_ops [BeginTurn] (new_coordinator\<lparr>tc_attempt_key := attempt\<rparr>)"
    by (simp add: begin_turn_def enter_def transition_to_def new_coordinator_def begun_def)
  then have "driven (begun\<lparr>tc_attempt_key := attempt\<rparr>)" unfolding driven_def by (metis empty_iff list.set(1))
  then show ?thesis
    by (simp add: at_the_top_def sound_def unstored_def fresh_turn_def stores_nothing_def standing_at_def begun_def
        new_coordinator_def)
qed

lemma turn_result:
  assumes "run_headless_turn p unreachable limit attempt = Some (s, r)"
  shows "case r of Inl e \<Rightarrow> left p e s | Inr es \<Rightarrow> turn_kept p es s"
  using turn_loop_result [OF _ fresh_turn_top] assms unfolding run_headless_turn_loop by blast

lemma turn_licensed:
  assumes "run_headless_turn p unreachable limit attempt = Some (s, r)"
  shows "all_licensed p (tr_calls s)"
  using turn_result [OF assms]
  by (auto simp: left_def turn_kept_def store_refused_def ended_def halting_def unstored_def split: sum.splits)

lemma turn_stops:
  assumes "run_headless_turn p unreachable limit attempt = Some (s, r)"
    "tr_calls s = pre @ CheckInterrupted # post" "tp_interrupted p pre = Some i"
  shows "post = [] \<and> r = Inl (interruption_error i)"
proof (cases r)
  case (Inl e)
  then have "stops p e (tr_calls s)" using turn_result [OF assms(1)] calm_stops
    by (auto simp: left_def store_refused_def ended_def halting_def)
  then show ?thesis using Inl assms(2,3) by (auto simp: stops_def)
next
  case (Inr es)
  then have "calm p (tr_calls s)" using turn_result [OF assms(1)] by (simp add: turn_kept_def)
  then show ?thesis using assms(2,3) by (auto simp: calm_def)
qed

section \<open>How often the provider is asked\<close>

fun asks_provider :: "turn_call \<Rightarrow> bool" where
  "asks_provider (NextParts es) = True"
| "asks_provider c = False"

definition times_asked :: "turn_run \<Rightarrow> nat" where
  "times_asked s = length (filter asks_provider (tr_calls s))"

definition asks_nothing :: "'a turn_action \<Rightarrow> bool" where
  "asks_nothing m \<longleftrightarrow> (\<forall>s. times_asked (fst (m s)) = times_asked s)"

lemma times_asked_log [simp]:
  "times_asked (log_call c s) = times_asked s + (if asks_provider c then 1 else 0)"
  "times_asked (s\<lparr>tr_coordinator := co\<rparr>) = times_asked s"
  by (simp_all add: times_asked_def)

lemma on_ok_cases:
  "(\<exists>e s'. m = (s', Inl e) \<and> on_ok m k = (s', Inl e)) \<or> (\<exists>a s'. m = (s', Inr a) \<and> on_ok m k = k a s')"
  by (cases m; cases "snd m") simp_all

lemma quiet_seq: "asks_nothing m \<Longrightarrow> (\<And>a. asks_nothing (k a)) \<Longrightarrow> asks_nothing (\<lambda>s. on_ok (m s) k)"
  unfolding asks_nothing_def
proof
  fix s
  assume m: "\<forall>s. times_asked (fst (m s)) = times_asked s" and k: "\<And>a. \<forall>s. times_asked (fst (k a s)) = times_asked s"
  show "times_asked (fst (on_ok (m s) k)) = times_asked s"
    using on_ok_cases [of "m s" k] m [rule_format, of s] k by auto
qed

lemma quiet_return [simp]: "asks_nothing (\<lambda>s. (s, r))"
  by (simp add: asks_nothing_def)

lemma quiet_leave [simp]: "asks_nothing (leave_by operation outcome)"
  by (auto simp: asks_nothing_def leave_by_def split: prod.splits sum.splits)

lemma asked_leave: "times_asked (fst (leave_by operation outcome s)) = times_asked s"
  by (auto simp: leave_by_def split: prod.splits sum.splits)

lemma asked_port_error: "times_asked (fst (finish_port_error e failure s)) = times_asked s"
  by (cases e) (simp_all add: finish_port_error_def asked_leave)

lemma quiet_does [simp]: "asks_nothing (turn_does operation)"
  by (auto simp: asks_nothing_def turn_does_def fail_state_def split: prod.splits sum.splits)

lemma quiet_check [simp]: "asks_nothing (check_cancelled p)"
  by (auto simp: asks_nothing_def check_cancelled_def asked_leave Let_def split: option.splits interruption.splits)

lemma asked_port:
  "times_asked (fst (call_port c answer failure s)) = times_asked s + (if asks_provider c then 1 else 0)"
  by (cases "answer (tr_calls s)") (simp_all add: call_port_def asked_port_error)

lemma quiet_port [simp]: "\<not> asks_provider c \<Longrightarrow> asks_nothing (call_port c answer failure)"
  by (simp add: asks_nothing_def asked_port)

lemma quiet_ask [simp]: "asks_nothing (ask_for_permission p unreachable call)"
  by (auto simp: asks_nothing_def ask_for_permission_def Let_def asked_port_error split: sum.splits turn_port_error.splits)

lemma quiet_if: "asks_nothing m \<Longrightarrow> asks_nothing m' \<Longrightarrow> asks_nothing (\<lambda>s. if b then m s else m' s)"
  by (cases b) simp_all

lemma quiet_preflight [simp]: "asks_nothing (preflight_call p unreachable call)"
proof -
  let ?settle = "\<lambda>decision s. on_ok (check_cancelled p s) (\<lambda>_ s.
              on_ok (if decision \<noteq> Ask then (s, Inr (PreflightDecided decision))
                     else ask_for_permission p unreachable call s) (\<lambda>authorization s.
              on_ok (check_cancelled p s) (\<lambda>_ s. (s, Inr authorization))))"
  have settle: "asks_nothing (?settle decision)" for decision
    by (intro quiet_seq quiet_if) simp_all
  have "asks_nothing (\<lambda>s. let s' = log_call (EvaluateCall call) s
       in case tp_evaluate p call (tr_calls s) of
            Inl PortTool \<Rightarrow> (s', Inr InvalidArguments)
          | Inl PortPermissionUnresolvable \<Rightarrow> (s', Inr UnresolvablePermission)
          | Inl PortUnknownTool \<Rightarrow> (s', Inr UnknownTool)
          | Inl e \<Rightarrow> finish_port_error e ErrPermissionEvaluation s'
          | Inr decision \<Rightarrow> ?settle decision s')" (is "asks_nothing ?m")
    unfolding asks_nothing_def
  proof
    fix s
    show "times_asked (fst (?m s)) = times_asked s"
    proof (cases "tp_evaluate p call (tr_calls s)")
      case (Inl e)
      then show ?thesis by (cases e) (simp_all add: Let_def asked_port_error)
    next
      case (Inr decision)
      then show ?thesis using settle [of decision, unfolded asks_nothing_def, rule_format, of "log_call (EvaluateCall call) s"]
        by (simp add: Let_def)
    qed
  qed
  then show ?thesis unfolding preflight_call_def [abs_def] by (intro quiet_seq) simp_all
qed

lemma quiet_output [simp]: "asks_nothing (output_of p call a)"
proof (cases a)
  case (PreflightDecided d)
  then show ?thesis
    by (cases d) (simp_all add: asks_nothing_def output_of_def asked_port permission_required_def asked_leave)
qed (simp_all add: asks_nothing_def output_of_def)

lemma quiet_carry_out [simp]: "asks_nothing (carry_out p call a)"
  unfolding carry_out_def [abs_def] by (intro quiet_seq) simp_all

lemma quiet_lists [simp]:
  "asks_nothing (accept_parts parts)" "asks_nothing (preflight_calls p unreachable calls)"
  "asks_nothing (carry_out_calls p authorized)" "asks_nothing (accept_inputs inputs)"
proof -
  show "asks_nothing (accept_parts parts)"
  proof (induction parts)
    case (Cons part parts)
    show ?case using quiet_seq [OF quiet_does Cons.IH, of "accept_provider_part part"] by simp
  qed (simp add: asks_nothing_def)
  show "asks_nothing (preflight_calls p unreachable calls)"
  proof (induction calls)
    case (Cons call calls)
    have "asks_nothing (\<lambda>s. on_ok (preflight_calls p unreachable calls s) (\<lambda>rest s. (s, Inr ((call, a) # rest))))" for a
      using Cons.IH by (intro quiet_seq) simp_all
    from quiet_seq [OF quiet_preflight this] show ?case by simp
  qed (simp add: asks_nothing_def)
  show "asks_nothing (carry_out_calls p authorized)"
  proof (induction authorized)
    case (Cons x authorized)
    show ?case using quiet_seq [OF quiet_carry_out Cons.IH, of p "fst x" "snd x"] by (cases x) simp
  qed (simp add: asks_nothing_def)
  show "asks_nothing (accept_inputs inputs)"
  proof (induction inputs)
    case (Cons i inputs)
    show ?case using quiet_seq [OF quiet_does Cons.IH, of "accept_intra_turn_input (pi_source i) (pi_text i)"] by simp
  qed (simp add: asks_nothing_def)
qed

lemma quiet_hand_over [simp]: "asks_nothing (hand_over_inputs p)"
  unfolding hand_over_inputs_def [abs_def] Let_def by (intro quiet_seq quiet_if) simp_all

lemma quiet_store [simp]: "asks_nothing (store_turn p)"
  by (auto simp: asks_nothing_def store_turn_def persist_completed_turn_def Let_def split: prod.splits sum.splits if_splits)

lemma turn_iteration_asks:
  assumes "\<And>k. limit = Some k \<Longrightarrow> n < k"
  shows "times_asked (fst (turn_iteration p unreachable limit n s)) \<le> times_asked s + 1"
proof -
  have after: "asks_nothing (\<lambda>s. if tc_state (tr_coordinator s) = TurnCompleted
       then on_ok (store_turn p s) (\<lambda>es s. (s, Inr (Some es)))
       else on_ok (preflight_calls p unreachable calls s) (\<lambda>authorized s.
         on_ok (carry_out_calls p authorized s) (\<lambda>_ s.
         on_ok (hand_over_inputs p s) (\<lambda>_ s. (s, Inr None)))))" (is "asks_nothing (\<lambda>s. if ?c s then ?a s else ?b s)") for calls
  proof -
    have "asks_nothing ?a" "asks_nothing ?b" by (intro quiet_seq; simp)+
    then show ?thesis by (simp add: asks_nothing_def)
  qed
  have rest: "asks_nothing (\<lambda>s. on_ok (check_cancelled p s) (\<lambda>_ s.
       on_ok (accept_parts parts s) (\<lambda>_ s.
       on_ok (turn_does finish_provider_iteration s) (\<lambda>_ s.
       if tc_state (tr_coordinator s) = TurnCompleted
       then on_ok (store_turn p s) (\<lambda>es s. (s, Inr (Some es)))
       else on_ok (preflight_calls p unreachable (concat (map headless_tool_calls parts)) s) (\<lambda>authorized s.
         on_ok (carry_out_calls p authorized s) (\<lambda>_ s.
         on_ok (hand_over_inputs p s) (\<lambda>_ s. (s, Inr None))))))))" (is "asks_nothing (?rest parts)") for parts
    by (intro quiet_seq after) simp_all
  have asking: "times_asked (fst (on_ok (call_port (NextParts es) answer ErrProvider s) ?rest)) \<le> times_asked s + 1"
    for es answer s
    using asked_port [of "NextParts es" answer ErrProvider s] rest
    by (cases "call_port (NextParts es) answer ErrProvider s"; cases "snd (call_port (NextParts es) answer ErrProvider s)")
      (simp_all add: asks_nothing_def)
  have within: "\<not> (case limit of None \<Rightarrow> False | Some k \<Rightarrow> k \<le> n)" using assms by (cases limit) fastforce+
  obtain s1 r where c: "check_cancelled p s = (s1, r)" by fastforce
  have "times_asked s1 = times_asked s" using quiet_check [of p] c by (metis asks_nothing_def fst_conv)
  then show ?thesis using asking [of _ _ s1] within
    by (cases r) (simp_all add: turn_iteration_def c)
qed

lemma turn_loop_returns:
  "\<exists>s' r. turn_loop p unreachable (Some k) n s = Some (s', r) \<and> times_asked s' \<le> times_asked s + (k - n)"
proof (induction "k - n" arbitrary: n s)
  case 0
  have "asks_nothing (turn_iteration p unreachable (Some k) n)"
  proof -
    have "asks_nothing (\<lambda>s. on_ok (check_cancelled p s) (\<lambda>_. leave_by fail_turn ErrMaxIterations))"
      by (intro quiet_seq) simp_all
    then show ?thesis using 0 by (simp add: turn_iteration_def [abs_def])
  qed
  moreover have "\<exists>e. snd (turn_iteration p unreachable (Some k) n s) = Inl e"
    using 0 by (auto simp: turn_iteration_def leave_by_def on_ok_def split: prod.splits sum.splits)
  ultimately show ?case
    by (subst turn_loop.simps) (auto simp: asks_nothing_def split: prod.splits, metis fst_conv le_add1 order_refl snd_conv)
next
  case (Suc m)
  have "n < k" using Suc.hyps(2) by simp
  then have asks: "times_asked (fst (turn_iteration p unreachable (Some k) n s)) \<le> times_asked s + 1"
    by (intro turn_iteration_asks) simp
  obtain s1 r where it: "turn_iteration p unreachable (Some k) n s = (s1, r)" by fastforce
  show ?case
  proof (cases "r = Inr None")
    case True
    have "m = k - (n + 1)" using Suc.hyps(2) by simp
    from Suc.hyps(1) [OF this, of s1] obtain s' r' where
      "turn_loop p unreachable (Some k) (n + 1) s1 = Some (s', r')" "times_asked s' \<le> times_asked s1 + (k - (n + 1))"
      by blast
    then show ?thesis using it True asks Suc.hyps(2) by (subst turn_loop.simps) simp
  next
    case False
    then show ?thesis using it asks Suc.hyps(2)
      by (subst turn_loop.simps) (auto split: sum.splits option.splits)
  qed
qed

end
