(* ===== verification/Agent_Turn.thy ===== *)
theory Agent_Turn
  imports Turn_Outcome
begin

text \<open>
  What a turn of an agent promises, whatever the provider, the permission gate, the tools,
  the inbox and the store answer, and one turn on which each promise is checked: an agent
  asks for a command, is asked about, allowed and answered, and says it is done.
\<close>

section \<open>One turn\<close>

definition example_call :: headless_tool_call where
  "example_call = \<lparr>hc_id = ''c1'', hc_name = ''bash'', hc_input = ''ls''\<rparr>"

text \<open>With \<open>stop\<close> the turn is cancelled while the command runs.\<close>

definition example_ports :: "bool \<Rightarrow> turn_ports" where
  "example_ports stop = \<lparr>
     tp_interrupted = (\<lambda>log. if stop \<and> list_ex (\<lambda>c. c = DispatchCall example_call) log then Some WasCancelled else None),
     tp_next_parts = (\<lambda>es log. if list_ex asks_provider log then Inr [TextPart ''done'']
       else Inr [ToolCallPart ''c1'' ''bash'' ''ls'']),
     tp_evaluate = (\<lambda>call log. Inr Ask), tp_resolve = (\<lambda>call log. Inr Allow),
     tp_denial_facts = (\<lambda>call log. None),
     tp_dispatch = (\<lambda>call log. Inr \<lparr>ht_content = ''a.txt'', ht_is_error = False, ht_facts = None\<rparr>),
     tp_drain = (\<lambda>log. Inr []), tp_queue = (\<lambda>ms log. Inr ()), tp_persist = (\<lambda>es log. Inr ())\<rparr>"

definition authorizing :: "turn_call list" where
  "authorizing = [CheckInterrupted, NextParts [StateChanged TurnRequesting], CheckInterrupted, CheckInterrupted,
     EvaluateCall example_call, CheckInterrupted, ResolveCall example_call, CheckInterrupted, CheckInterrupted]"

definition tool_events :: "turn_event list" where
  "tool_events = [StateChanged TurnRequesting, StateChanged TurnStreaming, ProviderPart (ToolCallPart ''c1'' ''bash'' ''ls''),
     StateChanged TurnDispatching, ToolCallRequested ''c1'' ''bash'' ''ls'',
     ToolResultTaken (ToolResultPart ''c1'' ''a.txt'' False), StateChanged TurnRequesting]"

definition done_events :: "turn_event list" where
  "done_events = tool_events @ [StateChanged TurnStreaming, ProviderPart (TextPart ''done''), StateChanged TurnCompleted]"

lemma short_result: "retained ''a.txt'' = ''a.txt''"
  by (simp add: retained_iff max_retained_bytes_def)

lemmas turn_steps =
  check_cancelled_def call_port_def turn_does_def leave_by_def log_call_def accept_provider_part_def
  validate_provider_part_def require_state_def enter_def transition_to_def emit_def finish_provider_iteration_def
  requested_def preflight_call_def ask_for_permission_def carry_out_def output_of_def accept_tool_result_def
  take_facts_def hand_over_inputs_def cancel_turn_def short_result

lemma first_iteration:
  "turn_iteration (example_ports False) u (Some 5) 0 (fresh_turn None) =
     (\<lparr>tr_coordinator = new_coordinator\<lparr>tc_state := TurnRequesting, tc_events := tool_events\<rparr>,
       tr_calls = authorizing @ [DispatchCall example_call, CheckInterrupted, DrainInbox]\<rparr>, Inr None)"
  by (simp add: turn_iteration_def turn_steps example_ports_def fresh_turn_def begun_def new_coordinator_def
      tool_events_def authorizing_def example_call_def Let_def)

lemma cancelled_iteration:
  "turn_iteration (example_ports True) u (Some 5) 0 (fresh_turn None) =
     (\<lparr>tr_coordinator = new_coordinator\<lparr>tc_state := TurnCancelled, tc_events := tool_events @ [StateChanged TurnCancelled]\<rparr>,
       tr_calls = authorizing @ [DispatchCall example_call, CheckInterrupted]\<rparr>, Inl ErrCancelled)"
  by (simp add: turn_iteration_def turn_steps example_ports_def fresh_turn_def begun_def new_coordinator_def
      tool_events_def authorizing_def example_call_def Let_def)

definition after_batch :: turn_run where
  "after_batch = \<lparr>tr_coordinator = new_coordinator\<lparr>tc_state := TurnRequesting, tc_events := tool_events\<rparr>,
     tr_calls = authorizing @ [DispatchCall example_call, CheckInterrupted, DrainInbox]\<rparr>"

definition finished_turn :: turn_run where
  "finished_turn = \<lparr>tr_coordinator = new_coordinator\<lparr>tc_state := TurnCompleted, tc_events := done_events,
       tc_persisted := True, tc_persistence_attempted := True\<rparr>,
     tr_calls = authorizing @ [DispatchCall example_call, CheckInterrupted, DrainInbox, CheckInterrupted,
       NextParts tool_events, CheckInterrupted, PersistTurn done_events]\<rparr>"

definition stopped_turn :: turn_run where
  "stopped_turn = \<lparr>tr_coordinator = new_coordinator\<lparr>tc_state := TurnCancelled,
       tc_events := tool_events @ [StateChanged TurnCancelled]\<rparr>,
     tr_calls = authorizing @ [DispatchCall example_call, CheckInterrupted]\<rparr>"

lemma done_history: "persisted_history done_events = done_events"
  by (simp add: done_events_def tool_events_def)

lemma done_rounds: "rounds (tl done_events)"
proof -
  have last: "rounds [StateChanged TurnStreaming, ProviderPart (TextPart ''done''), StateChanged TurnCompleted]"
    using last_round [of "[]" "[TextPart ''done'']"] by (simp add: provider_message_def)
  have "settles_calls [(''c1'', ''a.txt'', False)] [\<lparr>pc_id = ''c1'', pc_name = ''bash'', pc_input = ''ls''\<rparr>]"
    by (simp add: settles_calls_def max_retained_bytes_def)
  from tool_round [of "[]" "[ToolCallPart ''c1'' ''bash'' ''ls'']" "[(''c1'', ''a.txt'', False)]", OF _ _ _ _ last] this
  show ?thesis by (simp add: provider_message_def requested_def took_def done_events_def tool_events_def)
qed

lemma done_validates: "validate_completed_turn_events done_events = Inr ()"
  unfolding validated_histories using done_rounds by (simp add: done_events_def tool_events_def)

lemma second_iteration:
  "turn_iteration (example_ports False) u (Some 5) 1 after_batch = (finished_turn, Inr (Some done_events))"
proof -
  have "persisted_history (tool_events @ [StateChanged TurnStreaming, ProviderPart (TextPart ''done''),
      StateChanged TurnCompleted]) = done_events"
    using done_history by (simp add: done_events_def)
  then show ?thesis
    using done_validates
    by (simp add: turn_iteration_def turn_steps example_ports_def after_batch_def new_coordinator_def
        authorizing_def Let_def store_turn_def persist_completed_turn_def from_persisted_events_def finished_turn_def)
      (simp add: done_events_def)
qed

lemma example_turn: "run_headless_turn (example_ports False) u (Some 5) None = Some (finished_turn, Inr done_events)"
  using first_iteration second_iteration unfolding after_batch_def [symmetric] run_headless_turn_loop
  by (subst turn_loop.simps, simp, subst turn_loop.simps, simp)

lemma cancelled_turn: "run_headless_turn (example_ports True) u (Some 5) None = Some (stopped_turn, Inl ErrCancelled)"
  using cancelled_iteration unfolding run_headless_turn_loop stopped_turn_def [symmetric]
  by (subst turn_loop.simps) simp

section \<open>What a turn promises\<close>

text \<open>
  C3. No tool runs without a permission: whatever a turn does and however it ends, every call it
  dispatched had been put to the permission gate before, in that turn, and the gate allowed
  it, or the gate asked and the resolver, asked after that about that very call, allowed it.
\<close>

theorem no_tool_without_permission:
  assumes "run_headless_turn p unreachable limit attempt = Some (s, r)"
    and "tr_calls s = before @ DispatchCall call # after"
  shows "\<exists>earlier later. before = earlier @ EvaluateCall call # later \<and>
    (tp_evaluate p call earlier = Inr Allow \<or>
     tp_evaluate p call earlier = Inr Ask \<and>
       (\<exists>mid rest. later = mid @ ResolveCall call # rest \<and>
          tp_resolve p call (earlier @ EvaluateCall call # mid) = Inr Allow))"
  using turn_licensed [OF assms(1)] assms(2) unfolding all_licensed_def licensed_def by blast

lemma no_tool_without_permission_witness:
  "\<exists>earlier later. authorizing = earlier @ EvaluateCall example_call # later \<and>
    (tp_evaluate (example_ports False) example_call earlier = Inr Allow \<or>
     tp_evaluate (example_ports False) example_call earlier = Inr Ask \<and>
       (\<exists>mid rest. later = mid @ ResolveCall example_call # rest \<and>
          tp_resolve (example_ports False) example_call (earlier @ EvaluateCall example_call # mid) = Inr Allow))"
proof -
  have "tr_calls finished_turn = authorizing @ DispatchCall example_call # [CheckInterrupted, DrainInbox,
      CheckInterrupted, NextParts tool_events, CheckInterrupted, PersistTurn done_events]"
    by (simp add: finished_turn_def)
  from no_tool_without_permission [OF example_turn this] show ?thesis .
qed

text \<open>
  C6. A turn is stored when it completes and only then: a turn that returns its history handed
  exactly that history to the store, once and as the last thing it did, after the store had
  been given nothing, and the store took it; the history is what the coordinator recorded
  without its live-only events, and it is one the replay accepts. A turn that returns an
  error was cancelled or failed and gave the store nothing, or it completed, offered its
  history once, and the store refused it.
\<close>

theorem completed_turn_is_stored_once:
  assumes "run_headless_turn p unreachable limit attempt = Some (s, r)"
  shows "case r of
      Inr es \<Rightarrow> (\<exists>log. tr_calls s = log @ [PersistTurn es] \<and> (\<forall>es'. PersistTurn es' \<notin> set log) \<and>
          tp_persist p es log = Inr ()) \<and>
        tc_state (tr_coordinator s) = TurnCompleted \<and> es = persisted_history (tc_events (tr_coordinator s)) \<and>
        from_persisted_events es = Inr es
    | Inl e \<Rightarrow> (tc_state (tr_coordinator s) \<in> {TurnCancelled, TurnFailed} \<and> (\<forall>es. PersistTurn es \<notin> set (tr_calls s))) \<or>
        (e = ErrStore \<and> tc_state (tr_coordinator s) = TurnCompleted \<and>
         (\<exists>log es why. tr_calls s = log @ [PersistTurn es] \<and> (\<forall>es'. PersistTurn es' \<notin> set log) \<and>
            tp_persist p es log = Inl why))"
  using turn_result [OF assms]
  by (cases r) (auto simp: turn_kept_def left_def store_refused_def ended_def halting_def unstored_def
      stores_nothing_def from_persisted_events_def)

lemma completed_turn_is_stored_once_witness:
  "(\<exists>log. tr_calls finished_turn = log @ [PersistTurn done_events] \<and> (\<forall>es'. PersistTurn es' \<notin> set log)) \<and>
   from_persisted_events done_events = Inr done_events"
  using completed_turn_is_stored_once [OF example_turn] by auto

text \<open>
  C7. An interruption ends the turn where it is found: the check that finds the turn cancelled
  or expired is the last thing the turn does, no tool, provider, inbox or store is reached
  after it, and the turn ends as cancelled or as timed out accordingly.
\<close>

theorem interruption_ends_the_turn:
  assumes "run_headless_turn p unreachable limit attempt = Some (s, r)"
    and "tr_calls s = before @ CheckInterrupted # after" and "tp_interrupted p before = Some i"
  shows "after = [] \<and> r = Inl (case i of WasCancelled \<Rightarrow> ErrCancelled | HasExpired \<Rightarrow> ErrTimedOut)"
  using turn_stops [OF assms] by (cases i) simp_all

lemma interruption_ends_the_turn_witness:
  "\<exists>before. tr_calls stopped_turn = before @ [CheckInterrupted] \<and> tp_interrupted (example_ports True) before = Some WasCancelled \<and>
     run_headless_turn (example_ports True) PromptIsReachable (Some 5) None = Some (stopped_turn, Inl ErrCancelled)"
proof -
  have split: "tr_calls stopped_turn = (authorizing @ [DispatchCall example_call]) @ CheckInterrupted # []"
    by (simp add: stopped_turn_def)
  have found: "tp_interrupted (example_ports True) (authorizing @ [DispatchCall example_call]) = Some WasCancelled"
    by (simp add: example_ports_def)
  show ?thesis
    using interruption_ends_the_turn [OF cancelled_turn split found] cancelled_turn [of PromptIsReachable] split found
    by auto
qed

text \<open>
  C15. A bounded turn returns: with a limit on the iterations the loop comes to an end whatever
  the ports answer and however often the provider asks for tools, and the provider is asked
  at most as often as the limit says.
\<close>

theorem bounded_turn_returns:
  "\<exists>s r. run_headless_turn p unreachable (Some k) attempt = Some (s, r) \<and>
     length (filter asks_provider (tr_calls s)) \<le> k"
  using turn_loop_returns [of p unreachable k 0 "fresh_turn attempt"]
  unfolding run_headless_turn_loop by (simp add: times_asked_def fresh_turn_def)

text \<open>
  C14. What is stored can be read back and nothing else can: a list of events is accepted as a
  persisted turn exactly when some coordinator, begun once and driven by any operations
  whatsoever, accepted or refused, completes and leaves that list as its persisted history.
\<close>

theorem replay_accepts_exactly_the_turns:
  "from_persisted_events es = Inr es \<longleftrightarrow>
     (\<exists>ops key c. BeginTurn \<notin> set ops \<and>
        c = run_turn_ops (BeginTurn # ops) (new_coordinator\<lparr>tc_attempt_key := key\<rparr>) \<and>
        tc_state c = TurnCompleted \<and> persisted_history (tc_events c) = es)"
proof -
  have fresh: "new_coordinator\<lparr>tc_attempt_key := None\<rparr> = new_coordinator" by (simp add: new_coordinator_def)
  have "from_persisted_events es = Inr es \<longleftrightarrow> validate_completed_turn_events es = Inr ()"
    by (auto simp: from_persisted_events_def and_then_Inr_iff)
  then show ?thesis using completed_turn_validates validated_has_turn [of es] fresh by metis
qed

text \<open>
  C13. The shape of a stored turn: a list of events is accepted exactly when the turn was begun
  and went through rounds, each one the input that had reached it, then what the provider
  said with no two calls of one id; a round with calls names each of them, takes exactly one
  bounded result for every call, in whatever order, and only then is the provider asked
  again; the round without calls is the last.
\<close>

theorem stored_turns_are_rounds:
  "from_persisted_events es = Inr es \<longleftrightarrow> (\<exists>rest. es = StateChanged TurnRequesting # rest \<and> rounds rest)"
  using validated_histories [of es] by (auto simp: from_persisted_events_def and_then_Inr_iff)

end
