(* ===== verification/Spec2Isabelle.thy ===== *)
theory Spec2Isabelle
  imports Scenario_Facts Scenario_Gates Access_Control Delivery Agent_Turn
begin

text \<open>
  Verification of the coordinator of agens, a daemon that runs coding agents in git
  worktrees under one control plane (src/crates).

  The program and its parts. A run is proposed, approved by the user, admitted by the
  scheduler, executed as attempts, parked on questions or on a provider's quota, finished,
  and merged on an authorization that names the bytes the user approved; its worktree is
  then reclaimed. All of it is rows of one SQLite database that only the state machines
  write, with a journal entry for every move. Around them stand the scheduler, the timer
  wheel, the reconciliation of a boot, the ingest of the facts workers report, the two git
  gates, and the session registry.

  Which theory models what, with its state.
  Prelude, Loops, Effects, Ordered_Map, Json_Text: the shared vocabulary, 64-bit integers
  as \<open>int\<close> with their range written out, SQL statements over lists of rows, JSON values, the
  loop that leaves at the first refusal, the state-and-error steps of code that uses \<open>?\<close>.
  Schema and Store (agens-store/src/control_plane.rs, database.rs): the tables as the
  record \<open>db\<close> of row lists, the constraints as predicates, every query and every
  transaction; a transaction returns the database it was given or the one with all its rows.
  Fsm, Run_Machine, Worktree_Machine, Question_Machine, Settlement, Rejection_Text
  (agens-server/src/fsm): the three transition tables row by row, their guards, what a
  transition writes, the settlement of a merge in one transaction, the texts of refusals.
  Lifecycle is the abstract specification of a run (its state and the outcomes of its
  attempts as a step relation); Control_Plane is the set of operations on the database and
  what is reachable by them; History is what any sequence of them keeps; Progress, Passage
  and Landing say when a transition, and a settlement, goes through.
  Scheduler and Sessions (scheduler/*.rs, sessions.rs): the queue and its order, the slots,
  one tick, the launcher, and the registry of sessions with its budgets.
  Health, Ingest, Derived_Health, Run_Cache, Fact_Path (ingest/*.rs, cache.rs, the facts of
  agens-core/src/lib.rs): the observations, their journal entries and the parser that reads
  them back, the fold and its detectors, the bounded memo, the spelling of reported paths.
  Timers, Timers_Due (timers/mod.rs), Reconcile, Recovery (coordinator/reconcile.rs): one
  tick of the wheel and what it is due to apply; a boot.
  Gates, Gate_Safety (gates/mod.rs): the pre-merge gate and the reclaim sweep over the
  answers of git, which are parameters, and the rules that decide both.
  Shell_Reader, Shell_Facts (agens-core/src/permission_target.rs): a command line read into
  the invocations it would run, and what the reader finds. Permission_Rules,
  Permission_Policy (permission_precedence.rs, the rules and policies of lib.rs): patterns,
  rules, grants, which rule prevails, the decision of a policy; Permission_Order is the
  specification of precedence, Permission_Facts what covering means for the calls a pattern
  selects, Permission_Safety what a policy never does. Denylist, Denylist_Facts
  (denylist.rs): the class of act a call is, with the working directory carried along a
  line. Retained_Result (lib.rs): what is kept of a tool's result.
  Authorization, Api_Core, Team, Run_Creation, Feed (agens-server/src/api): who may ask for
  what, the core with the calls it makes through its ports, and every request of the
  in-process API; Api_Safety says what any sequence of requests can write, Run_Rollback
  what a failed creation leaves.
  Access_Control: the properties of the permissions, of the denylist and of the API, each
  with a concrete instance.
  Directives, Message_Queue (agens-store/src/directives.rs, the steering queue of lib.rs, the
  inboxes of agens-headless and agens-session): the durable queue of the messages a turn is
  steered by, what a prompt and a safe point read of it, and what a reader relies on of a
  queue. Delivery (agens-server/src/ports/delivery.rs): the port through which an answer or a
  directive reaches a run's mailbox, with the properties of the way from an answer to the
  prompt that reads it.
  Turn, Turn_Loop (the coordinator, the validator and run_headless_turn of lib.rs): the
  states and events of one turn of an agent, the replay of a persisted history, and the loop
  that asks the provider, authorizes the calls of a batch, carries them out and hands over
  what reached the turn meanwhile; its ports are a record of answers that may depend on the
  calls made so far, and every call is logged. Turn_Facts and Turn_Rounds: what the replay
  accepts, with a turn as a sequence of rounds for its specification. Turn_Safety, Turn_Ends,
  Turn_Outcome: triples of a precondition, an action and what holds after it, for every part
  of the loop. Agent_Turn: the properties of a turn, with concrete turns.
  Scenario, Scenario_Facts, Scenario_Gates: concrete databases and requests, built by
  the model's own operations, on which the witnesses of the properties are evaluated.

  What the lemmas show. Of every history of the control plane: a run's life refines the
  step relation of Lifecycle, attempts match states, rows are frozen, the journal only
  grows, approvals are the user's, results are backed; that the schema holds is what the
  statements over the tables enforce, and the invariants rest on it. Of one operation:
  when it applies, what it writes, that a refusal writes nothing, the settlement, the retry
  budget, the bounded result. Of the scheduler and the registry: the ceilings, what a tick
  accounts for, who is admitted. Of the facts: health is recomputable from the journal,
  entries are read back, the memo is a least-recently-used cache. Of time, boots and gates:
  what a tick applies, that a boot leaves nothing executing, when a merge lands. Of the
  permissions: the narrowest rule decides, denials are final, nothing is allowed without an
  authority, a chained command below the reader's bound is judged by its parts, and what the denylist
  reads of an unclassified command stays inside its worktree. Of the API: who is not admitted moves nothing, only the user commits the
  machine, a failed creation leaves nothing behind. Of the deliveries: a
  message is handed over once and in order, an accepted answer opens the run's next prompt,
  and a blank answer strands its question. Of the turn: no tool runs without a
  permission, a completed turn is stored once, an interruption ends it, a limit on its
  iterations makes it return, and the stored histories are exactly those of turns. Theorems without a number say
  more of the same parts.

  Interfaces are locales, interpreted on the model: keyed tables with one row per key, rows
  with an identifier, a history that keeps rows, the store's transactions, the capacity of
  the memo, the queues a turn is steered through.

  Bounds and fuel. No definition uses fuel: the loops of the code are over rows read once or
  a list that shrinks, so the definitions are total. The exception is the loop that bounds a
  tool's result, which could step below offset 0: it is a partial function whose value is an
  option, and theorem bounding_a_result_returns shows that it returns for every content below
  10^20 bytes. The loop of a turn is a partial function too, since an agent may ask for tools
  for ever: with a limit on the iterations it is shown to return, and what is proved of its
  result holds whenever there is one. Integers are \<open>int\<close> restricted to the
  64 bits of the column they live in where the code checks or saturates; the deadline
  arithmetic of the timers is computed in the 128 bits the code uses, and no step leaves
  them. Strings are lists of bytes.

  Not modelled. The threads, channels and locks that run the parts (one caller at a time is
  what the mutex around the core gives), the wire surface and its generated code, the
  providers, tools and terminals, which are I/O around the program; the matching of one
  glob, which is the globset crate's, with what the rules rely on as a hypothesis the
  witnesses discharge on a concrete matcher; SQLite itself, whose
  statements are given their documented meaning over lists of rows; what git and the file
  system answer, what the clock reads, what a session is built from and the SHA-256 digest, which are parameters.
  The sum of the tokens charged to an attempt is not limited to the 64 bits of its column. Storage failures (a disk that fills) are not a branch of the model: a statement fails
  exactly when a constraint does.
\<close>

section \<open>Every history of the control plane\<close>

text \<open>
  C1. The detailed machine refines the abstract life of a run: over any sequence of
  operations every stored run is still stored, and its state together with the outcomes
  of its attempts has moved along zero or more steps of \<open>life\<close>.
\<close>

theorem run_life_refined:
  assumes "reachable d" "list_all admissible ops" "r \<in> set (db_runs d)"
  shows "\<exists>r' \<in> set (db_runs (perform_all ops d)). rr_id r' = rr_id r \<and>
    life\<^sup>*\<^sup>* (run_life_of d r) (run_life_of (perform_all ops d) r')"
  using history_kept [OF assms(1,2)] assms(3) by (simp add: lives_follow_def)

lemma run_life_refined_witness:
  "\<exists>r' \<in> set (db_runs (perform_all merging_ops working_db)). rr_id r' = rr_id (hd (db_runs working_db)) \<and>
    life\<^sup>*\<^sup>* (run_life_of working_db (hd (db_runs working_db))) (run_life_of (perform_all merging_ops working_db) r')"
  by (rule run_life_refined [OF demo_reachable(2) demo_admissible(3) working_run [THEN conjunct1]])

text \<open>
  C26. In every reachable database the attempts of a run are numbered 1, 2, 3 and so on in
  the order they were opened, an attempt is open exactly when it is the last one of a
  running run, and the last outcome is the one the state stands for: \<open>Succeeded\<close> for a
  finished run, \<open>Failed\<close> for a failed one, \<open>Interrupted\<close> for a parked one.
\<close>

theorem run_attempts_match_state:
  assumes "reachable d" "r \<in> set (db_runs d)"
    and "as = filter (\<lambda>a. at_run_id a = stored_id (rr_id r)) (db_attempts d)"
  shows "map at_n as = map (\<lambda>k. int k + 1) [0..<length as] \<and>
    (\<forall>k < length as. at_outcome (as ! k) = None \<longleftrightarrow> Suc k = length as \<and> rr_state r = run_state.Running) \<and>
    leg_fits (rr_state r) (map at_outcome as)"
proof -
  let ?ls = "map at_outcome as"
  have legs: "legs d (stored_id (rr_id r)) = map (\<lambda>a. (at_n a, at_outcome a)) as"
    by (simp add: legs_def assms(3))
  from reachable_lives [OF assms(1)] assms(2) have num: "numbered (legs d (stored_id (rr_id r)))"
    and ok: "life_ok (rr_state r, ?ls)"
    by (auto simp: lives_ok_def run_life_of_def legs comp_def)
  have "at_outcome (as ! k) = None \<longleftrightarrow> Suc k = length as \<and> rr_state r = run_state.Running" if k: "k < length as" for k
  proof (cases "Suc k = length as")
    case True
    then have "last ?ls = at_outcome (as ! k)" using k
      by (metis diff_Suc_1 last_conv_nth length_map list.size(3) not_less_zero nth_map)
    moreover have "?ls \<noteq> []" using k by auto
    ultimately show ?thesis using True ok by (cases "rr_state r") (auto simp: life_ok_def)
  next
    case False
    then have "?ls ! k \<in> set (butlast ?ls)" using k
      by (metis Suc_lessI length_butlast length_map less_diff_conv nth_butlast nth_mem plus_1_eq_Suc add.commute)
    then have "at_outcome (as ! k) \<in> set (butlast ?ls)" using k by simp
    moreover have "None \<notin> set (butlast ?ls)" using ok by (simp add: life_ok_def)
    ultimately show ?thesis using False by metis
  qed
  then show ?thesis using num ok by (simp add: numbered_def legs life_ok_def comp_def)
qed

lemma run_attempts_match_state_witness:
  "let r = hd (db_runs merging_db); as = filter (\<lambda>a. at_run_id a = stored_id (rr_id r)) (db_attempts merging_db)
   in map at_n as = map (\<lambda>k. int k + 1) [0..<length as] \<and>
    (\<forall>k < length as. at_outcome (as ! k) = None \<longleftrightarrow> Suc k = length as \<and> rr_state r = run_state.Running) \<and>
    leg_fits (rr_state r) (map at_outcome as)"
  unfolding Let_def
  by (rule run_attempts_match_state [OF demo_reachable(3) merging_run [THEN conjunct1] refl])

text \<open>
  C27. Over any sequence of operations no run is deleted and what was approved is frozen:
  every column but state, worktree status, result and genesis paths keeps its value, the
  genesis paths are written at most once, the worktree only moves forward, and a
  cancelled run stays cancelled.
\<close>

theorem runs_frozen:
  assumes "reachable d" "list_all admissible ops" "r \<in> set (db_runs d)"
  shows "\<exists>r' \<in> set (db_runs (perform_all ops d)). run_kept r r'"
  using history_kept [OF assms(1,2)] assms(3) run_history.row_still_there unfolding runs_kept_def by blast

lemma runs_frozen_witness:
  "\<exists>r' \<in> set (db_runs (perform_all merging_ops working_db)). run_kept (hd (db_runs working_db)) r'"
  by (rule runs_frozen [OF demo_reachable(2) demo_admissible(3) working_run [THEN conjunct1]])

text \<open>
  C28. The journal is append-only: any sequence of operations extends it, entries that
  were there keep their place and payload, and ids ascend strictly.
\<close>

theorem journal_append_only:
  assumes "reachable d" "list_all admissible ops"
  shows "\<exists>es. db_events (perform_all ops d) = db_events d @ es \<and>
    sorted_wrt (<) (tbl_ids ev_id (db_events (perform_all ops d)))"
proof -
  have "db_wf (perform_all ops d)"
    by (rule reachable_db_wf [OF reachable_perform_all [OF assms]])
  then show ?thesis
    using history_kept [OF assms] by (auto simp: journal_grows_def db_wf_def tbl_ok_def)
qed

lemma journal_append_only_witness:
  "\<exists>es. db_events (perform_all merging_ops working_db) = db_events working_db @ es \<and>
    sorted_wrt (<) (tbl_ids ev_id (db_events (perform_all merging_ops working_db)))"
  by (rule journal_append_only [OF demo_reachable(2) demo_admissible(3)])

text \<open>
  C29. Over any sequence of operations a question keeps everything it was asked with,
  the tree hash and paths digest of a merge authorization included; its state only moves
  forward, and an answer once recorded keeps its text and its author.
\<close>

theorem questions_keep_receipts:
  assumes "reachable d" "list_all admissible ops" "q \<in> set (db_questions d)"
  shows "\<exists>q' \<in> set (db_questions (perform_all ops d)). question_kept q q'"
  using history_kept [OF assms(1,2)] assms(3) question_history.row_still_there unfolding questions_kept_def by blast

lemma questions_keep_receipts_witness:
  "\<exists>q' \<in> set (db_questions (perform_all [SettleMerge landed_merge] merging_db)).
     question_kept (hd (db_questions merging_db)) q'"
  by (rule questions_keep_receipts [OF demo_reachable(3) _ first_of_states [OF merging_question, THEN conjunct1]])
    (simp add: admissible_def)

text \<open>
  C4. Only the user authorizes a merge: in every reachable database an approval that was
  answered or spent carries an answer whose author is the user, and a frozen tree hash.
\<close>

theorem approvals_are_the_users:
  assumes "reachable d" "q \<in> set (db_questions d)" "qu_kind q = Approval"
    and "qu_state q \<in> {question_state.Answered, Delivered}"
  shows "qu_author q = Some question_author.User \<and> qu_answer q \<noteq> None \<and> qu_tree_hash q \<noteq> None"
proof -
  have "question_checks q" using reachable_db_wf [OF assms(1)] assms(2) by (simp add: db_wf_def)
  moreover have "question_ok q" using reachable_questions_ok [OF assms(1)] assms(2) by (simp add: questions_ok_def)
  ultimately show ?thesis using assms(3,4) by (auto simp: question_checks_def question_ok_def)
qed

lemma approvals_are_the_users_witness:
  "qu_author (hd (db_questions merged_db)) = Some question_author.User \<and>
   qu_answer (hd (db_questions merged_db)) \<noteq> None \<and> qu_tree_hash (hd (db_questions merged_db)) \<noteq> None"
proof (rule approvals_are_the_users [OF demo_reachable(5) merged_approval [THEN conjunct1]])
  have "map qu_kind (db_questions merged_db) = [Approval]" by code_simp
  from first_of_states [OF this] show "qu_kind (hd (db_questions merged_db)) = Approval" by simp
  show "qu_state (hd (db_questions merged_db)) \<in> {question_state.Answered, Delivered}"
    using merged_approval by simp
qed

text \<open>
  A result is never claimed for a run that did not succeed: whenever a run has one,
  some attempt of that run was closed as \<open>Succeeded\<close>, and the text is within the bound.
\<close>

theorem results_are_backed:
  assumes "reachable d" "r \<in> set (db_runs d)" "rr_result r = Some result"
  shows "length result \<le> run_result_max_bytes \<and>
    (\<exists>a \<in> set (db_attempts d). at_run_id a = stored_id (rr_id r) \<and> at_outcome a = Some attempt_outcome.Succeeded)"
proof -
  have "result_backed d r" using reachable_backed [OF assms(1)] assms(2) by (simp add: runs_backed_def)
  then show ?thesis using assms(3) by (force simp: result_backed_def legs_def)
qed

lemma results_are_backed_witness:
  "length ''ok'' \<le> run_result_max_bytes \<and> (\<exists>a \<in> set (db_attempts merging_db).
     at_run_id a = stored_id (rr_id (hd (db_runs merging_db))) \<and> at_outcome a = Some attempt_outcome.Succeeded)"
proof (rule results_are_backed [OF demo_reachable(3) merging_run [THEN conjunct1]])
  have "map rr_result (db_runs merging_db) = [Some ''ok'', None]" by code_simp
  from first_of_states [OF this] show "rr_result (hd (db_runs merging_db)) = Some ''ok''" by simp
qed

text \<open>
  A run parked on input is parked on something: a question that names it is stored.
\<close>

theorem parked_runs_have_questions:
  assumes "reachable d" "r \<in> set (db_runs d)" "rr_state r = AwaitingInput"
  shows "\<exists>q \<in> set (db_questions d). qu_run_id q = stored_id (rr_id r)"
  using reachable_backed [OF assms(1)] assms(2,3) by (simp add: runs_backed_def parked_on_question_def)

lemma parked_runs_have_questions_witness:
  "\<exists>q \<in> set (db_questions parked_db). qu_run_id q = stored_id (rr_id (hd (db_runs parked_db)))"
  by (rule parked_runs_have_questions [OF demo_reachable(4)]) (use parked_run in simp_all)

section \<open>Single operations\<close>

text \<open>
  C31. A run transition whose guard passes goes through: in any database that satisfies
  the schema, if the table has a row for the run's state and the trigger, its guard
  accepts the facts, and the facts refer to sessions that exist and to a question the
  schema accepts, then the run is moved to the row's target.
\<close>

theorem run_transition_applies:
  assumes "db_wf d" "load_run d i = Some run" "find_run_transition (rr_state run) tr = Some t"
    and "check_run_guard d t i (rr_provider run) (rr_worktree_status run) f = Inr ()" "references_ok d t f"
  shows "\<exists>d' a b q. apply_run d i tr f = (d', Inr (Applied \<lparr>ap_from = rr_state run, ap_to = rt_to t,
      ap_effects = rt_effects t, ap_domain_event = rt_domain_event t, ap_state_changed_event_id = a,
      ap_domain_event_id = b, ap_opened_question_id = q\<rparr>)) \<and>
    (\<exists>run'. load_run d' i = Some run' \<and> rr_state run' = rt_to t)"
proof -
  obtain d' a b q out where app: "apply_run d i tr f = (d', Inr (Applied \<lparr>ap_from = rr_state run, ap_to = rt_to t,
      ap_effects = rt_effects t, ap_domain_event = rt_domain_event t, ap_state_changed_event_id = a,
      ap_domain_event_id = b, ap_opened_question_id = q\<rparr>))" "db_wf d'"
    and tx: "transition_tx (run_write d i run tr t f) d = Inr (d', out)"
    using guarded_run_applies [OF assms] by blast
  have "run \<in> set (db_runs d)" "rr_id run = Some i" using assms(2) load_run_iff [OF assms(1)] by auto
  then have "run_moved t f run \<in> set (db_runs d')"
    unfolding run_tx_tables(1) [OF assms(1,2) tx] in_sql_update by auto
  moreover have "rr_id (run_moved t f run) = Some i" "rr_state (run_moved t f run) = rt_to t"
    using \<open>rr_id run = Some i\<close> by (simp_all add: run_moved_def Let_def)
  ultimately show ?thesis using app load_run_iff [OF app(2)] by blast
qed

lemma run_transition_applies_witness:
  "\<exists>d' a b q. apply_run queued_db 1 Admit ready = (d', Inr (Applied \<lparr>ap_from = Queued, ap_to = run_state.Running,
      ap_effects = [OpenAttempt, LaunchSession], ap_domain_event = ''run_started'', ap_state_changed_event_id = a,
      ap_domain_event_id = b, ap_opened_question_id = q\<rparr>)) \<and>
    (\<exists>run'. load_run queued_db 1 \<noteq> None \<and> load_run d' 1 = Some run' \<and> rr_state run' = run_state.Running)"
proof -
  let ?t = "\<lparr>rt_from = Queued, rt_trigger = Admit, rt_to = run_state.Running, rt_guard = SchedulerAdmission,
       rt_effects = [OpenAttempt, LaunchSession], rt_domain_event = ''run_started'', rt_class = Infra\<rparr>"
  obtain run where run: "load_run queued_db 1 = Some run" "rr_state run = Queued"
    using queued_first by blast
  have t: "find_run_transition (rr_state run) Admit = Some ?t"
    unfolding run(2) by code_simp
  have guard: "check_run_guard queued_db ?t 1 (rr_provider run) (rr_worktree_status run) ready = Inr ()"
    by (simp add: check_run_guard_def check_admission_def ready_def)
  have refs: "references_ok queued_db ?t ready"
    by (simp add: references_ok_def ready_def default_run_facts_def)
  from run_transition_applies [OF reachable_db_wf [OF demo_reachable(1)] run(1) t guard refs]
  show ?thesis by (simp add: run)
qed

text \<open>
  C32. What an applied run transition writes: a row of the table was found for the state
  the run was in, its guard passed, the run is the only row of \<open>runs\<close> that changed, and
  the journal gained exactly two entries under consecutive ids, the generic
  \<open>run_state_changed\<close> first and the row's domain event second, both of this run.
\<close>

theorem run_transition_writes:
  assumes "db_wf d" "apply_run d i tr f = (d', Inr (Applied ap))"
  shows "\<exists>run t e1 e2. load_run d i = Some run \<and> find_run_transition (rr_state run) tr = Some t \<and>
    check_run_guard d t i (rr_provider run) (rr_worktree_status run) f = Inr () \<and>
    ap_from ap = rr_state run \<and> ap_to ap = rt_to t \<and> ap_effects ap = rt_effects t \<and>
    db_runs d' = sql_update (\<lambda>r. rr_id r = Some i) (run_moved t f) (db_runs d) \<and>
    db_events d' = db_events d @ [e1, e2] \<and>
    ev_type e1 = ''run_state_changed'' \<and> ev_type e2 = rt_domain_event t \<and>
    ev_run_id e1 = Some i \<and> ev_run_id e2 = Some i \<and>
    ev_id e1 = Some (ap_state_changed_event_id ap) \<and> ev_id e2 = Some (ap_domain_event_id ap) \<and>
    ap_domain_event_id ap = ap_state_changed_event_id ap + 1"
proof (rule apply_run_cases [of d i tr f])
  fix run t d1 and out :: transition_outcome and a b
  assume run: "load_run d i = Some run" and t: "t \<in> set run_transitions" "rt_from t = rr_state run" "rt_trigger t = tr"
    and guard: "check_run_guard d t i (rr_provider run) (rr_worktree_status run) f = Inr ()"
    and tx: "transition_tx (run_write d i run tr t f) d = Inr (d1, out)" and ids: "to_event_ids out = [a, b]"
    and res: "apply_run d i tr f = (d1, Inr (Applied \<lparr>ap_from = rr_state run, ap_to = rt_to t,
         ap_effects = rt_effects t, ap_domain_event = rt_domain_event t,
         ap_state_changed_event_id = a, ap_domain_event_id = b,
         ap_opened_question_id = to_question_id out\<rparr>))"
  have d': "d1 = d'" and ap: "ap = \<lparr>ap_from = rr_state run, ap_to = rt_to t,
         ap_effects = rt_effects t, ap_domain_event = rt_domain_event t,
         ap_state_changed_event_id = a, ap_domain_event_id = b,
         ap_opened_question_id = to_question_id out\<rparr>"
    using assms(2) res by simp_all
  note journal = transition_tx_journal [OF tx]
  let ?es = "tw_events (run_write d i run tr t f)"
  have es: "?es = [?es ! 0, ?es ! 1]" "ev_type (?es ! 0) = ''run_state_changed''" "ev_type (?es ! 1) = rt_domain_event t"
    "ev_run_id (?es ! 0) = Some i" "ev_run_id (?es ! 1) = Some i"
    by (simp_all add: run_write_def transition_events_def run_state_changed_def)
  have two: "length ?es = 2" by (simp add: run_write_def)
  have ab: "a = next_event_id d" "b = next_event_id d + 1"
    using journal(2) ids two by (simp_all add: numeral_2_eq_2)
  let ?e1 = "(filled_event (to_question_id out) (?es ! 0))\<lparr>ev_id := Some a\<rparr>"
  let ?e2 = "(filled_event (to_question_id out) (?es ! 1))\<lparr>ev_id := Some b\<rparr>"
  have "db_events d' = db_events d @ [?e1, ?e2]"
    using journal(1) unfolding d' by (subst (asm) es(1)) (simp add: ab)
  moreover have "find_run_transition (rr_state run) tr = Some t" using t by (simp add: find_run_transition_iff)
  ultimately show ?thesis
    using run guard es run_tx_tables(1) [OF assms(1) run tx] ab unfolding d' ap
    by (intro exI [of _ run] exI [of _ t] exI [of _ ?e1] exI [of _ ?e2]) simp
qed (use assms(2) in simp_all)

lemma run_transition_writes_witness:
  "\<exists>ap d'. apply_run queued_db 1 Admit ready = (d', Inr (Applied ap)) \<and>
     ap_domain_event_id ap = ap_state_changed_event_id ap + 1"
proof -
  obtain ap d' where app: "apply_run queued_db 1 Admit ready = (d', Inr (Applied ap))"
    using admit_first by blast
  from run_transition_writes [OF reachable_db_wf [OF demo_reachable(1)] app] app show ?thesis by blast
qed

text \<open>
  C33. A refusal writes nothing: whichever machine refuses, for whatever reason, the
  database is the one it was asked about.
\<close>

theorem refusals_write_nothing:
  "(snd (apply_run d i rtr rf) = Inl e \<longrightarrow> fst (apply_run d i rtr rf) = d) \<and>
   (snd (apply_worktree d i wtr wfa) = Inl e \<longrightarrow> fst (apply_worktree d i wtr wfa) = d) \<and>
   (snd (apply_question d i qtr qf) = Inl e \<longrightarrow> fst (apply_question d i qtr qf) = d) \<and>
   (snd (settle_merge d s) = Inl e \<longrightarrow> fst (settle_merge d s) = d)"
  by (metis apply_run_rolled_back apply_worktree_rolled_back apply_question_rolled_back settle_merge_rolled_back
      prod.collapse)

lemma refusals_write_nothing_witness:
  "fst (apply_run empty_db 1 Admit ready) = empty_db"
  using refusals_write_nothing [of empty_db 1 Admit ready "NoSuchRow ''run'' 1"]
  by (simp add: apply_run_def machines_load_run_def load_run_def load_optional_def empty_db_def)


text \<open>
  C16. A landed merge settles as one: a settlement that succeeds found an answered
  authorization of that very run, in date or already landed, and in one transaction spent
  it, released the directory if it was still active, changed no other question or run, and
  journaled the verdict, the spending, the merge and the release in that order.
\<close>

theorem settlement_is_whole:
  assumes "db_wf d" "settle_merge d s = (d', Inr m)"
  shows "\<exists>q run. load_question d (ms_approval_id s) = Some q \<and> load_run d (ms_run_id s) = Some run \<and>
    qu_run_id q = ms_run_id s \<and> qu_state q = question_state.Answered \<and> (in_date q (ms_now s) \<or> ms_landed s) \<and>
    db_questions d' = sql_update (\<lambda>x. qu_id x = Some (ms_approval_id s)) (\<lambda>x. x\<lparr>qu_state := Delivered\<rparr>) (db_questions d) \<and>
    db_runs d' = (if rr_worktree_status run = Some Active
      then sql_update (\<lambda>r. rr_id r = Some (ms_run_id s)) (\<lambda>r. r\<lparr>rr_worktree_status := Some Reclaimable\<rparr>) (db_runs d)
      else db_runs d) \<and>
    map ev_type (drop (length (db_events d)) (db_events d')) =
      [ev_type (ms_verdict s), ''run_state_changed'',
       (if qu_kind q = Approval then ''approval_consumed'' else ''question_delivered''), ev_type (ms_merged s)] @
      (if rr_worktree_status run = Some Active then [''run_state_changed'', ''worktree_reclaimable''] else [])"
proof (rule settle_merge_cases [of d s])
  fix q run approval release d1 and out :: transition_outcome and m1
  assume q: "load_question d (ms_approval_id s) = Some q" and run: "load_run d (ms_run_id s) = Some run"
    and app: "deliverable q (settlement_facts s) = Inr approval"
    and rel: "releasable run (ms_now s) (ms_worktree_clean s) = Inr release"
    and tx: "transition_tx (settlement_write s approval release) d = Inr (d1, out)"
    and res: "settle_merge d s = (d1, Inr m1)"
  have d1: "d1 = d'" using res assms(2) by simp
  note tables = settlement_tx_tables [OF assms(1) q run app rel tx, unfolded d1]
  from app obtain t i where t: "t \<in> set question_transitions" "qt_kind t = qu_kind q" "qt_from t = qu_state q"
      "qt_trigger t = Deliver" "check_question_guard t q (settlement_facts s) = Inr ()"
      "pt_events approval = question_events i (qf_now (settlement_facts s)) q t Deliver None"
    by (rule deliverableE)
  have st: "qu_state q = question_state.Answered" using deliver_row [OF t(1,4)] t(3) by simp
  have date: "in_date q (ms_now s) \<or> ms_landed s"
    using t(5) deliver_row [OF t(1,4)]
    by (auto simp: check_question_guard_def question_guard_refused_def settlement_facts_def Let_def split: if_splits)
  have aev: "map ev_type (pt_events approval) = [''run_state_changed'',
      (if qu_kind q = Approval then ''approval_consumed'' else ''question_delivered'')]"
    using t(1,2,4) unfolding t(6)
    by (auto simp: question_transitions_def question_events_def transition_events_def run_state_changed_def)
  have rev: "(case release of None \<Rightarrow> [] | Some r \<Rightarrow> map ev_type (pt_events r)) =
      (if rr_worktree_status run = Some Active then [''run_state_changed'', ''worktree_reclaimable''] else [])"
  proof (cases release)
    case None
    then show ?thesis using rel releasable_none_iff by simp
  next
    case (Some p)
    from rel [unfolded Some] obtain st u j where u: "rr_worktree_status run = Some st" "u \<in> set worktree_transitions"
      "wt_from u = st" "wt_trigger u = MergeDetected" "pt_events p = worktree_events j (ms_now s) run st u MergeDetected"
      by (rule releasableE)
    then have "st = Active" "wt_domain_event u = ''worktree_reclaimable''" by (auto simp: worktree_transitions_def)
    then show ?thesis
      by (simp add: Some u worktree_events_def transition_events_def run_state_changed_def)
  qed
  have "map ev_type (drop (length (db_events d)) (db_events d')) =
      map ev_type (settlement_events s approval release)"
    using transition_tx_journal(1) [OF tx] unfolding d1 by (simp add: settlement_write_def empty_write_def comp_def)
  then have ev: "map ev_type (drop (length (db_events d)) (db_events d')) =
      [ev_type (ms_verdict s)] @ map ev_type (pt_events approval) @ [ev_type (ms_merged s)] @
      (case release of None \<Rightarrow> [] | Some r \<Rightarrow> map ev_type (pt_events r))"
    by (simp add: settlement_events_def split: option.split)
  show ?thesis
    using q run tables(1-3) st date ev aev rev by (intro exI [of _ q] exI [of _ run]) simp
qed (use assms(2) in simp)

lemma settlement_is_whole_witness:
  "\<exists>d' m q. settle_merge merging_db landed_merge = (d', Inr m) \<and> load_question merging_db 1 = Some q \<and>
     qu_run_id q = 1 \<and> qu_state q = question_state.Answered"
proof -
  obtain d' m where m: "settle_merge merging_db landed_merge = (d', Inr m)" using merge_settles by blast
  from settlement_is_whole [OF reachable_db_wf [OF demo_reachable(3)] m] m show ?thesis
    by (auto simp: landed_merge_def)
qed

text \<open>
  C17. An authorization is spent once: after a settlement succeeded in a database the control
  plane can reach, and whatever operations were performed since, a settlement naming the same
  authorization is refused and writes nothing.
\<close>

theorem authorization_spent_once:
  assumes "reachable d" "list_all admissible ops"
    and "settle_merge d s = (d', Inr m)" "ms_approval_id s' = ms_approval_id s"
  shows "\<exists>e. settle_merge (perform_all ops d') s' = (perform_all ops d', Inl e)"
proof -
  have "reachable d'" using reachable.step [OF assms(1), of "SettleMerge s"] assms(3) by (simp add: admissible_def)
  then have after: "reachable (perform_all ops d')" "questions_kept d' (perform_all ops d')"
    using reachable_perform_all assms(2) history_kept by blast+
  obtain q where q: "db_wf d'" "load_question d' (ms_approval_id s) = Some q" "qu_state q = Delivered"
    using settled_delivers [OF reachable_db_wf [OF assms(1)] assms(3)] by blast
  obtain q' where "load_question (perform_all ops d') (ms_approval_id s) = Some q'" "qu_state q' = Delivered"
    using delivered_stays [OF after(2) q(1) reachable_db_wf [OF after(1)] q(2,3)] by blast
  then show ?thesis using delivered_never_settles [of "perform_all ops d'" s' q'] assms(4) by simp
qed

lemma authorization_spent_once_witness:
  "\<exists>e. settle_merge (perform_all [Journal [entry ''note'']] merged_db) landed_merge =
     (perform_all [Journal [entry ''note'']] merged_db, Inl e)"
proof -
  obtain d' m where m: "settle_merge merging_db landed_merge = (d', Inr m)" using merge_settles by blast
  then have d': "d' = merged_db" by (simp add: merged_db_def)
  have "list_all admissible [Journal [entry ''note'']]" by (simp add: admissible_def)
  from authorization_spent_once [OF demo_reachable(3) this m refl] show ?thesis by (simp only: d')
qed

text \<open>
  A retry is granted only within its budget: the run had settled as done or failed,
  its worktree is still active, there is guidance, and fewer attempts than the budget
  were charged, where an attempt that was interrupted is not charged.
\<close>

theorem retry_within_budget:
  assumes "db_wf d" "apply_run d i Retry f = (d', Inr x)" "rf_retry_budget f \<le> i64_max"
  shows "\<exists>run. load_run d i = Some run \<and> rr_state run \<in> {Done, run_state.Failed} \<and>
    rr_worktree_status run = Some Active \<and> (\<exists>g. rf_guidance f = Some g \<and> g \<noteq> []) \<and>
    int (length (filter (\<lambda>a. at_run_id a = i \<and> at_outcome a \<noteq> Some attempt_outcome.Interrupted) (db_attempts d)))
      < rf_retry_budget f"
proof (rule apply_run_cases [of d i Retry f])
  fix run t d1 and out :: transition_outcome and a b
  assume run: "load_run d i = Some run" and t: "t \<in> set run_transitions" "rt_from t = rr_state run" "rt_trigger t = Retry"
    and guard: "check_run_guard d t i (rr_provider run) (rr_worktree_status run) f = Inr ()"
  have "rt_from t \<in> {Done, run_state.Failed} \<and> rt_guard t = RetryEligible"
    using t(1,3) by (auto simp: run_transitions_def cancellation_def)
  moreover from this guard have g: "check_retry_eligible d t i (rr_worktree_status run) f = Inr ()"
    by (simp add: check_run_guard_def)
  then have ws: "rr_worktree_status run = Some Active"
    and gd: "\<not> (case rf_guidance f of None \<Rightarrow> True | Some text \<Rightarrow> text = [])"
    and ch: "charged_attempts (attempts_for_run d i) < rf_retry_budget f"
    by (auto simp: check_retry_eligible_def run_guard_refused_def Let_def split: if_splits)
  from gd have "\<exists>g. rf_guidance f = Some g \<and> g \<noteq> []" by (auto split: option.splits)
  moreover have "mset (filter (\<lambda>a. at_outcome a \<noteq> Some attempt_outcome.Interrupted) (attempts_for_run d i)) =
      mset (filter (\<lambda>a. at_run_id a = i \<and> at_outcome a \<noteq> Some attempt_outcome.Interrupted) (db_attempts d))"
    by (simp only: attempts_for_run_def sql_select_def mset_filter mset_sort filter_filter_mset conj_commute)
  from mset_eq_length [OF this] have "int (length (filter (\<lambda>a. at_run_id a = i \<and>
      at_outcome a \<noteq> Some attempt_outcome.Interrupted) (db_attempts d))) < rf_retry_budget f"
    using ch assms(3) by (auto simp: charged_attempts_def Let_def try_i64_def split: if_splits)
  ultimately show ?thesis using run t(2) ws by auto
qed (use assms(2) in simp_all)

lemma retry_within_budget_witness:
  "\<exists>run. load_run merging_db 1 = Some run \<and> rr_state run \<in> {Done, run_state.Failed} \<and>
    rr_worktree_status run = Some Active \<and> (\<exists>g. rf_guidance (try_again 2) = Some g \<and> g \<noteq> []) \<and>
    int (length (filter (\<lambda>a. at_run_id a = 1 \<and> at_outcome a \<noteq> Some attempt_outcome.Interrupted) (db_attempts merging_db)))
      < rf_retry_budget (try_again 2)"
proof -
  obtain d' x where "apply_run merging_db 1 Retry (try_again 2) = (d', Inr x)" using retry_granted by blast
  then show ?thesis
    by (rule retry_within_budget [OF reachable_db_wf [OF demo_reachable(3)]]) (simp add: try_again_def i64_max_def)
qed

text \<open>
  Cancelling is idempotent: once a cancellation was accepted, another one, whoever
  asks, is reported as already settled and writes nothing.
\<close>

theorem cancel_idempotent:
  assumes "db_wf d" "apply_run d i Cancel f = (d', Inr x)"
  shows "apply_run d' i Cancel g = (d', Inr AlreadySettled)"
proof (rule apply_run_cases [of d i Cancel f])
  fix run assume "apply_run d i Cancel f = (d, Inr AlreadySettled)" "load_run d i = Some run" "rr_state run = Cancelled"
  then show ?thesis using assms(2) by (simp add: apply_run_def machines_load_run_def)
next
  fix run t d1 and out :: transition_outcome and a b
  assume run: "load_run d i = Some run" and t: "t \<in> set run_transitions" "rt_trigger t = Cancel"
    and tx: "transition_tx (run_write d i run Cancel t f) d = Inr (d1, out)"
    and res: "apply_run d i Cancel f = (d1, Inr (Applied \<lparr>ap_from = rr_state run, ap_to = rt_to t,
         ap_effects = rt_effects t, ap_domain_event = rt_domain_event t,
         ap_state_changed_event_id = a, ap_domain_event_id = b,
         ap_opened_question_id = to_question_id out\<rparr>))"
  have d1: "d1 = d'" using res assms(2) by simp
  have "rt_to t = Cancelled" using cancel_transitions [OF t] by (simp add: cancellation_def) (metis run_transition.select_convs(3))
  then have st: "rr_state (run_moved t f run) = Cancelled" by (simp add: run_moved_def Let_def)
  have "run \<in> set (db_runs d)" and i: "rr_id run = Some i" using run load_run_iff [OF assms(1)] by auto
  then have "run_moved t f run \<in> set (db_runs d')"
    unfolding run_tx_tables(1) [OF assms(1) run tx, unfolded d1] in_sql_update by auto
  moreover have "rr_id (run_moved t f run) = Some i" using i by (simp add: run_moved_def Let_def)
  moreover have "db_wf d'" using transition_tx_wf [OF assms(1) tx] d1 by simp
  ultimately have "load_run d' i = Some (run_moved t f run)" by (simp add: load_run_iff)
  then show ?thesis using st by (simp add: apply_run_def machines_load_run_def)
qed (use assms(2) in simp)

lemma cancel_idempotent_witness:
  "\<exists>d'. apply_run (fst (apply_run working_db 1 Cancel ready)) 1 Cancel by_user = (d', Inr AlreadySettled)"
proof -
  obtain d' x where c: "apply_run working_db 1 Cancel ready = (d', Inr x)" using cancel_accepted by blast
  from cancel_idempotent [OF reachable_db_wf [OF demo_reachable(2)] c] show ?thesis by (simp add: c)
qed

text \<open>
  No lost update: a transition prepared against a run that has since been moved by
  another one is refused as a conflict, and writes nothing.
\<close>

theorem stale_transition_conflicts:
  assumes "db_wf d" "load_run d i = Some run" "find_run_transition (rr_state run) tr = Some t"
    and "apply_transition d (run_write d i run tr t f) = (d', Inr out)"
  shows "apply_transition d' (run_write d0 i run tr2 t2 f2) = (d', Inl (store_error.Conflict (RunMoved i (rr_state run))))"
proof -
  have t: "t \<in> set run_transitions" "rt_from t = rr_state run"
    using assms(3) by (simp_all add: find_run_transition_iff)
  then have moved: "rt_to t \<noteq> rr_state run" by (auto simp: run_transitions_def cancellation_def)
  have tx: "transition_tx (run_write d i run tr t f) d = Inr (d', out)"
    using assms(4) by (simp add: apply_transition_def commit_Inr_iff)
  have "\<forall>r \<in> set (db_runs d'). \<not> (rr_id r = Some i \<and> rr_state r = rr_state run)"
    unfolding run_tx_tables(1) [OF assms(1,2) tx] ball_sql_update
    using moved by (auto simp: run_moved_def Let_def)
  then have "sql_count (\<lambda>r. rr_id r = Some i \<and> rr_state r = rr_state run) (db_runs d') = 0"
    by (simp add: sql_count_def filter_empty_conv)
  then show ?thesis
    by (simp add: apply_transition_def transition_tx_def transition_changes_def write_run_state_def run_write_def Let_def)
qed

lemma stale_transition_conflicts_witness:
  "\<exists>d' run t. find_run_transition (rr_state run) Admit = Some t \<and>
    apply_transition d' (run_write queued_db 1 run Admit t ready) =
      (d', Inl (store_error.Conflict (RunMoved 1 Queued)))"
proof -
  obtain run where run: "load_run queued_db 1 = Some run" "rr_state run = Queued" using queued_first by blast
  let ?t = "\<lparr>rt_from = Queued, rt_trigger = Admit, rt_to = run_state.Running, rt_guard = SchedulerAdmission,
       rt_effects = [OpenAttempt, LaunchSession], rt_domain_event = ''run_started'', rt_class = Infra\<rparr>"
  have t: "find_run_transition (rr_state run) Admit = Some ?t" unfolding run(2) by code_simp
  have guard: "check_run_guard queued_db ?t 1 (rr_provider run) (rr_worktree_status run) ready = Inr ()"
    by (simp add: check_run_guard_def check_admission_def ready_def)
  have "references_ok queued_db ?t ready" by (simp add: references_ok_def ready_def default_run_facts_def)
  moreover have "?t \<in> set run_transitions" "rt_from ?t = rr_state run" using t by (simp_all add: find_run_transition_iff)
  ultimately obtain d' out where "transition_tx (run_write queued_db 1 run Admit ?t ready) queued_db = Inr (d', out)"
    using run_write_succeeds [OF reachable_db_wf [OF demo_reachable(1)] run(1)] guard by blast
  then have "apply_transition queued_db (run_write queued_db 1 run Admit ?t ready) = (d', Inr out)"
    by (simp add: apply_transition_def)
  from stale_transition_conflicts [OF reachable_db_wf [OF demo_reachable(1)] run(1) t this] t run(2)
  show ?thesis by metis
qed

text \<open>
  A run's result is cut on a character boundary: the kept text is a prefix of what
  was reported, at most 16 KiB, ends where a character ends, and no longer prefix within
  the bound does.
\<close>

theorem result_cut_on_boundary:
  "\<exists>k. bounded_result s = take k s \<and> k \<le> length s \<and> length (bounded_result s) \<le> 16384 \<and>
     is_char_boundary s k \<and> (\<forall>j. k < j \<and> j \<le> length s \<and> j \<le> 16384 \<longrightarrow> \<not> is_char_boundary s j)"
proof (cases "length s \<le> 16384")
  case True
  then show ?thesis
    by (intro exI [of _ "length s"]) (simp add: bounded_result_def run_result_max_bytes_def is_char_boundary_def)
next
  case False
  let ?k = "cut_point s 16384"
  have k: "?k \<le> 16384" "is_char_boundary s ?k" using cut_point_boundary [of s 16384] by simp_all
  have "\<forall>j. is_char_boundary s j \<and> j \<le> 16384 \<longrightarrow> \<not> ?k < j"
    by (meson cut_point_greatest leD)
  then show ?thesis using False k
    by (intro exI [of _ ?k]) (auto simp: bounded_result_def run_result_max_bytes_def)
qed

lemma result_cut_on_boundary_witness: "\<exists>k. bounded_result ''ok'' = take k ''ok''"
  using result_cut_on_boundary [of "''ok''"] by blast

section \<open>Admission\<close>

text \<open>
  C34. One tick never exceeds a ceiling: the runs executing, the worktrees held outside
  the queue and the runs of any one provider end within the configured limit, or where
  they already were if they stood above it when the tick began.
\<close>

theorem tick_within_ceilings:
  assumes "db_wf d" "tick launch abandon limits load l d = (l', d', report)"
  shows "sql_count (\<lambda>r. rr_state r = run_state.Running) (db_runs d') \<le>
      max (sql_count (\<lambda>r. rr_state r = run_state.Running) (db_runs d)) (sl_max_concurrent limits) \<and>
    held_worktrees_in d' holding_states_outside_the_queue \<le>
      max (held_worktrees_in d holding_states_outside_the_queue) (sl_available_worktrees limits) \<and>
    sql_count (\<lambda>r. rr_state r = run_state.Running \<and> rr_provider r = p) (db_runs d') \<le>
      max (sql_count (\<lambda>r. rr_state r = run_state.Running \<and> rr_provider r = p) (db_runs d))
        (capacity_for limits p - entry_or_default (ld_subagents load) p)"
proof -
  let ?s = "read_slots d limits load"
  note loop = assms(2) [unfolded tick_unfold]
  note match = queue_candidates_match [OF assms(1)]
  show ?thesis
    using concurrency.bounded [OF loop assms(1) match] worktrees.bounded [OF loop assms(1) match]
      headroom.bounded [OF loop assms(1) match, of p]
    unfolding read_slots_limits held_outside_queue read_slots_levels by simp
qed

lemma tick_within_ceilings_witness:
  "sql_count (\<lambda>r. rr_state r = run_state.Running) (db_runs (fst (snd demo_tick))) \<le>
     max (sql_count (\<lambda>r. rr_state r = run_state.Running) (db_runs queued_db)) 1"
proof -
  obtain l d rep where t: "demo_tick = (l, d, rep)" by (metis prod_cases3)
  from tick_within_ceilings [OF reachable_db_wf [OF demo_reachable(1)] t [unfolded demo_tick_def]]
  show ?thesis by (simp add: t one_slot_def)
qed

text \<open>
  C35. No queued run goes unreported, and none is charged for waiting: a tick reports
  every queued run exactly once, as admitted, deferred or failed, the depth is their
  number, and a run that was not admitted has the row and the attempts it had.
\<close>

theorem tick_accounts_for_every_run:
  assumes "db_wf d" "tick launch abandon limits load l d = (l', d', report)"
  shows "reported_ids report = mset (map fst (queued_with_id d)) \<and> distinct (map fst (queued_with_id d)) \<and>
    qr_depth report = length (queued_with_id d) \<and>
    (\<forall>i. i \<notin> admitted_ids report \<longrightarrow> load_run d' i = load_run d i \<and> legs d' i = legs d i)"
proof -
  have "untouched i d d' \<Longrightarrow> load_run d' i = load_run d i \<and> legs d' i = legs d i" for i
    by (simp add: untouched_def load_run_def)
  then show ?thesis
    using tick_report [OF assms(2,1)] queued_ids_distinct [OF assms(1)] by blast
qed

lemma tick_accounts_for_every_run_witness:
  "qr_depth (snd (snd demo_tick)) = length (queued_with_id queued_db) \<and>
   reported_ids (snd (snd demo_tick)) = mset (map fst (queued_with_id queued_db)) \<and>
   load_run (fst (snd demo_tick)) 1 = load_run queued_db 1"
proof -
  obtain l d rep where t: "demo_tick = (l, d, rep)" by (metis prod_cases3)
  have "admitted_ids rep = set (map ad_run_id (qr_admitted rep))" by (simp add: admitted_ids_def)
  then have "admitted_ids rep = {2}" using demo_tick_report by (simp add: t del: set_map)
  with tick_accounts_for_every_run [OF reachable_db_wf [OF demo_reachable(1)] t [unfolded demo_tick_def]]
  show ?thesis by (simp add: t)
qed

text \<open>
  The queue is in admission order and complete: the candidates are exactly the
  queued runs with no reason against them, and they come resumed work first, then by
  descending priority, then oldest first.
\<close>

theorem queue_in_admission_order:
  "sorted (map admission_rank (qe_eligible (build_queue d))) \<and>
   (\<forall>c \<in> set (qe_eligible (build_queue d)). \<exists>r \<in> set (db_runs d). ca_run c = r \<and> rr_id r = Some (ca_run_id c) \<and>
      rr_state r = Queued \<and> eligibility d r = None \<and> ca_resumed c = reached_queue_by_resuming d (ca_run_id c)) \<and>
   (\<forall>r \<in> set (db_runs d). rr_state r = Queued \<and> eligibility d r = None \<and> rr_id r = Some i \<longrightarrow>
      (\<exists>c \<in> set (qe_eligible (build_queue d)). ca_run_id c = i \<and> ca_run c = r)) \<and>
   (\<forall>b b' p p' c c' i i'. Rank b p c i \<le> Rank b' p' c' i' \<longrightarrow> (b' \<longrightarrow> b) \<and> (b = b' \<longrightarrow> p' \<le> p))"
proof (intro conjI)
  show "sorted (map admission_rank (qe_eligible (build_queue d)))" by (simp add: build_queue_def Let_def)
  show "\<forall>c \<in> set (qe_eligible (build_queue d)). \<exists>r \<in> set (db_runs d). ca_run c = r \<and> rr_id r = Some (ca_run_id c) \<and>
      rr_state r = Queued \<and> eligibility d r = None \<and> ca_resumed c = reached_queue_by_resuming d (ca_run_id c)"
    by (auto simp: eligible_iff candidate_of_def)
  show "\<forall>r \<in> set (db_runs d). rr_state r = Queued \<and> eligibility d r = None \<and> rr_id r = Some i \<longrightarrow>
      (\<exists>c \<in> set (qe_eligible (build_queue d)). ca_run_id c = i \<and> ca_run c = r)"
    unfolding Bex_def eligible_iff
    by (intro ballI impI exI [of _ "candidate_of d (i, _)"]) (auto simp: candidate_of_def)
  show "\<forall>b b' p p' c c' i i'. Rank b p c i \<le> Rank b' p' c' i' \<longrightarrow> (b' \<longrightarrow> b) \<and> (b = b' \<longrightarrow> p' \<le> p)"
    by (auto simp: less_eq_admission_rank_def)
qed

lemma queue_in_admission_order_witness:
  "map ca_run_id (qe_eligible (build_queue queued_db)) = [2, 1] \<and>
   sorted (map admission_rank (qe_eligible (build_queue queued_db)))"
proof
  show "map ca_run_id (qe_eligible (build_queue queued_db)) = [2, 1]" by code_simp
  show "sorted (map admission_rank (qe_eligible (build_queue queued_db)))"
    using queue_in_admission_order [of queued_db 1] by blast
qed

text \<open>
  C36. Admission makes progress: if every ceiling has room for the candidate at the head
  of the queue and the launcher starts a session it also recorded, that run is admitted.
\<close>

theorem head_of_queue_is_admitted:
  assumes "db_wf d" "qe_eligible (build_queue d) = c # cs"
    and "sql_count (\<lambda>r. rr_state r = run_state.Running) (db_runs d) < sl_max_concurrent limits"
    and "held_worktrees_in d holding_states_outside_the_queue < sl_available_worktrees limits"
    and "sql_count (\<lambda>r. rr_state r = run_state.Running \<and> rr_provider r = rr_provider (ca_run c)) (db_runs d) <
      capacity_for limits (rr_provider (ca_run c)) - entry_or_default (ld_subagents load) (rr_provider (ca_run c))"
    and "launch l \<lparr>pe_run_id = ca_run_id c, pe_run = ca_run c, pe_resumed = ca_resumed c\<rparr> = (l1, rows, Inr s)"
    and "la_session s \<in> set (fst rows)" "null_or (\<lambda>a. a \<in> set (snd rows)) (la_session_attempt_id s)"
    and "tick launch abandon limits load l d = (l', d', report)"
  shows "ca_run_id c \<in> admitted_ids report"
proof -
  let ?s = "read_slots d limits load"
  let ?d1 = "write_session_rows rows d"
  note loop = assms(9) [unfolded tick_unfold assms(2)]
  obtain s' where offer: "offer ?s (rr_provider (ca_run c)) = Inr s'"
    using offer_within [of ?s "rr_provider (ca_run c)"] assms(3-5)
    unfolding read_slots_levels read_slots_limits held_outside_queue by blast
  have refs: "null_or (\<lambda>a. a \<in> set (db_session_attempts ?d1)) (la_session_attempt_id s)"
    by (rule null_or_mono [OF assms(8)]) (simp add: write_session_rows_def)
  obtain d2 x where app: "apply_run ?d1 (ca_run_id c) Admit (admission_facts load c s) = (d2, Inr x)"
    using eligible_admission_applies [OF assms(1) _ _ refs refl, of c load] assms(2,7)
    by (auto simp: write_session_rows_def)
  define r0 where "r0 = \<lparr>qr_depth = depth (build_queue d), qr_running_before = st_running ?s, qr_admitted = [],
    qr_deferred = map (\<lambda>(i, reason). (i, IneligibleRun reason)) (qe_ineligible (build_queue d)), qr_failures = []\<rparr>"
  have step: "admit launch abandon load c (l, d, r0) =
      (l1, d2, r0\<lparr>qr_admitted := qr_admitted r0 @
        [\<lparr>ad_run_id = ca_run_id c, ad_session = la_session s, ad_resumed = ca_resumed c\<rparr>]\<rparr>)"
    using assms(6) app by (simp add: admit_def)
  have rest: "offer_each launch abandon load s' cs (admit launch abandon load c (l, d, r0)) = (l', d', report)"
    using loop offer by (simp add: r0_def)
  have "db_wf d2" using admit_starts [OF assms(1) step] by simp
  from admitted_stays [OF rest [unfolded step] this, of "ca_run_id c"]
  show ?thesis by (simp add: admitted_ids_def)
qed


lemma head_of_queue_is_admitted_witness: "2 \<in> admitted_ids (snd (snd demo_tick))"
proof -
  obtain c cs where q: "qe_eligible (build_queue queued_db) = c # cs" "ca_run_id c = 2" "rr_provider (ca_run c) = ''p''"
    using demo_head by blast
  obtain l d rep where t: "demo_tick = (l, d, rep)" by (metis prod_cases3)
  let ?p = "\<lparr>pe_run_id = ca_run_id c, pe_run = ca_run c, pe_resumed = ca_resumed c\<rparr>"
  have launch: "\<exists>l1. supervisor_launch demo_session_for demo_registry ?p =
      (l1, ([102], []), Inr \<lparr>la_session = 102, la_session_attempt_id = None\<rparr>)"
    by (simp add: supervisor_launch_def demo_session_for_def q supervisor_start_def registry_admit_def
        demo_registry_def new_registry_def live_count_def default_session_limits_def)
  then obtain l1 where launch: "supervisor_launch demo_session_for demo_registry ?p =
      (l1, ([102], []), Inr \<lparr>la_session = 102, la_session_attempt_id = None\<rparr>)" by blast
  have none: "sql_count (\<lambda>r. rr_state r = run_state.Running) (db_runs queued_db) = 0" by code_simp
  have held: "held_worktrees_in queued_db holding_states_outside_the_queue = 0" by code_simp
  have "sql_count (\<lambda>r. rr_state r = run_state.Running \<and> rr_provider r = ''p'') (db_runs queued_db) = 0" by code_simp
  with none held have "ca_run_id c \<in> admitted_ids rep"
    by (intro head_of_queue_is_admitted [OF reachable_db_wf [OF demo_reachable(1)] q(1) _ _ _ launch _ _
          t [unfolded demo_tick_def]])
      (simp_all add: q(3) one_slot_def capacity_for_def demo_load_def entry_or_default_def)
  then show ?thesis by (simp add: t q(2))
qed

text \<open>
  A dependency that was merged and then reclaimed is never satisfied again: once the
  worktree of the run another one depends on is \<open>Cleaned\<close>, the dependent run is
  ineligible in every later database, whatever happens.
\<close>

theorem reclaimed_dependency_blocks_forever:
  assumes "reachable d" "list_all admissible ops" "r \<in> set (db_runs d)" "rr_dep_run_id r = Some dep"
    and "load_run d dep = Some x" "rr_worktree_status x = Some Cleaned"
    and "r' \<in> set (db_runs (perform_all ops d))" "rr_id r' = rr_id r"
  shows "eligibility (perform_all ops d) r' \<noteq> None"
proof -
  let ?d = "perform_all ops d"
  have wf: "db_wf d" "db_wf ?d" using reachable_db_wf assms(1) reachable_perform_all [OF assms(1,2)] by blast+
  have ok: "tbl_ok rr_id (db_runs ?d)" using wf(2) by (simp add: db_wf_def)
  have kept: "\<exists>y' \<in> set (db_runs ?d). run_kept y y'" if "y \<in> set (db_runs d)" for y
    using history_kept [OF assms(1,2)] that run_history.row_still_there unfolding runs_kept_def by blast
  obtain r1 where r1: "r1 \<in> set (db_runs ?d)" "run_kept r r1" using kept [OF assms(3)] by blast
  then have "r1 = r'" using runs.id_unique [OF ok r1(1) assms(7)] run_kept_id [OF r1(2)] assms(8) by simp
  then have "rr_dep_run_id (frozen_part r') = rr_dep_run_id (frozen_part r)" using r1(2) by (simp add: run_kept_def)
  then have dep: "rr_dep_run_id r' = Some dep" using assms(4) by (simp add: frozen_part_def)
  have x: "x \<in> set (db_runs d)" "rr_id x = Some dep" using assms(5) load_run_iff [OF wf(1)] by auto
  obtain x' where x': "x' \<in> set (db_runs ?d)" "run_kept x x'" using kept [OF x(1)] by blast
  have "3 \<le> worktree_rank (rr_worktree_status x')" using x'(2) assms(6) by (simp add: run_kept_def)
  then have "rr_worktree_status x' \<noteq> Some Reclaimable" by auto
  moreover have "load_run ?d dep = Some x'"
    using x' x(2) run_kept_id [OF x'(2)] by (simp add: load_run_iff [OF wf(2)])
  ultimately show ?thesis using dep by (auto simp: eligibility_def)
qed

lemma reclaimed_dependency_blocks_forever_witness:
  "\<exists>r \<in> set (db_runs reclaimed_db). rr_state r = Queued \<and> rr_dep_run_id r = Some 1 \<and>
    eligibility (perform_all [] reclaimed_db) r \<noteq> None"
proof -
  obtain r x where r: "r \<in> set (db_runs reclaimed_db)" "rr_state r = Queued" "rr_dep_run_id r = Some 1"
    and x: "load_run reclaimed_db 1 = Some x" "rr_worktree_status x = Some Cleaned"
    using reclaimed_rows by blast
  have "eligibility (perform_all [] reclaimed_db) r \<noteq> None"
    by (rule reclaimed_dependency_blocks_forever [OF demo_reachable(6) _ r(1,3) x]) (simp_all add: r)
  then show ?thesis using r by blast
qed

text \<open>
  No session outlives its admission: over the supervisor's launcher, the sessions
  running and not asked to stop after a tick are those from before and the ones reported
  with an admitted run, each of them new and no two alike. A session whose run could not
  be moved is not among them.
\<close>

theorem tick_sessions_accounted:
  assumes "registry_ok l"
    and "tick (supervisor_launch session_for) supervisor_abandon limits load l d = (l', d', report)"
  shows "registry_ok l' \<and> active_sessions l' = active_sessions l \<union> ad_session ` set (qr_admitted report) \<and>
    ad_session ` set (qr_admitted report) \<inter> active_sessions l = {} \<and> distinct (map ad_session (qr_admitted report))"
  using supervisor.sessions_accounted [OF assms(2) [unfolded tick_unfold] assms(1)] by auto

lemma tick_sessions_accounted_witness:
  "active_sessions (fst demo_tick) = active_sessions demo_registry \<union> ad_session ` set (qr_admitted (snd (snd demo_tick)))"
proof -
  obtain l d rep where t: "demo_tick = (l, d, rep)" by (metis prod_cases3)
  from tick_sessions_accounted [OF demo_registry_ok t [unfolded demo_tick_def]] show ?thesis by (simp add: t)
qed

section \<open>The session registry\<close>

text \<open>
  However a registry is used, it never holds more live sessions than its limit, a
  session has an ending number exactly when it has ended, and one that is stopping was
  asked to.
\<close>

theorem registry_stays_within_limit:
  "live_count (fold registry_perform ops (new_registry limits)) \<le>
     li_max_live_sessions (sr_limits (fold registry_perform ops (new_registry limits))) \<and>
   (\<forall>(i, s) \<in> set (sr_sessions (fold registry_perform ops (new_registry limits))).
      (rs_finished_at s = None) = is_live s \<and> (rs_state s = Cancelling \<longrightarrow> rs_cancelled s))"
proof -
  have "registry_ok r \<Longrightarrow> registry_ok (fold registry_perform ops r)" for r
    by (induction ops arbitrary: r) (simp_all add: registry_perform_ok)
  from this [OF new_registry_ok] show ?thesis
    by (auto simp: registry_ok_def session_ok_def)
qed

lemma registry_stays_within_limit_witness:
  "live_count (fold registry_perform
     [StartSession \<lparr>sa_session = 1, sa_model = ''m'', sa_budget = unlimited\<rparr>, registry_op.CancelSession 1]
     (new_registry default_session_limits)) \<le> 8"
proof -
  have "sr_limits (fold registry_perform
     [StartSession \<lparr>sa_session = 1, sa_model = ''m'', sa_budget = unlimited\<rparr>, registry_op.CancelSession 1]
     (new_registry default_session_limits)) = default_session_limits"
    by code_simp
  then show ?thesis
    using registry_stays_within_limit [of "[StartSession \<lparr>sa_session = 1, sa_model = ''m'', sa_budget = unlimited\<rparr>,
      registry_op.CancelSession 1]" default_session_limits]
    by (simp add: default_session_limits_def del: fold.simps)
qed

text \<open>
  How a session ended is recorded once, and ending or cancelling one never reaches
  another: only the named session changes, and one that has ended keeps its outcome.
\<close>

theorem sessions_are_isolated:
  assumes "registry_ok r" "map_of (sr_sessions r) j = Some s" "j \<noteq> i \<or> \<not> is_live s"
  shows "map_of (sr_sessions (fst (registry_cancel r i))) j = Some s \<and>
    map_of (sr_sessions (fst (registry_finish r i outcome))) j = Some s"
  using assms registry_btree [OF assms(1)]
  by (auto simp: registry_cancel_def finish_fst record_end_def Let_def split: option.splits)

lemma sessions_are_isolated_witness:
  "\<exists>s. map_of (sr_sessions (fst (registry_cancel two_sessions 2))) 1 = Some s \<and>
       map_of (sr_sessions (fst (registry_finish two_sessions 2 Completed))) 1 = Some s"
proof -
  obtain s where "map_of (sr_sessions two_sessions) 1 = Some s" using two_sessions_first by blast
  from sessions_are_isolated [OF two_sessions_ok this, of 2 Completed] show ?thesis by simp
qed

text \<open>
  Pruning keeps every live session and, of those that ended, exactly as many as the
  registry retains: what it drops ended no later than anything ended it keeps.
\<close>

theorem pruning_drops_the_oldest:
  assumes "registry_ok r" "i \<in> set (snd (prune_finished r))"
  shows "\<exists>s n. map_of (sr_sessions r) i = Some s \<and> rs_finished_at s = Some n \<and> \<not> is_live s \<and>
    map_of (sr_sessions (fst (prune_finished r))) i = None \<and>
    length (finished_in_order (fst (prune_finished r))) = li_retained_finished_sessions (sr_limits r) \<and>
    (\<forall>j s'. map_of (sr_sessions r) j = Some s' \<and> is_live s' \<longrightarrow>
       map_of (sr_sessions (fst (prune_finished r))) j = Some s') \<and>
    (\<forall>j s' n'. map_of (sr_sessions (fst (prune_finished r))) j = Some s' \<and> rs_finished_at s' = Some n' \<longrightarrow> n \<le> n')"
proof -
  let ?fin = "finished_in_order r" and ?k = "length (finished_in_order r) - li_retained_finished_sessions (sr_limits r)"
  have more: "li_retained_finished_sessions (sr_limits r) < length ?fin"
    and pruned: "snd (prune_finished r) = map snd (take ?k ?fin)"
    using assms(2) by (auto simp: prune_finished_def Let_def split: if_splits)
  have sessions: "sr_sessions (fst (prune_finished r)) = filter (\<lambda>(k, v). k \<notin> snd ` set (take ?k ?fin)) (sr_sessions r)"
    unfolding prune_fst pruned by (simp add: fold_remove_filter)
  obtain s n where s: "map_of (sr_sessions r) i = Some s" "rs_finished_at s = Some n"
    using pruned_was_finished [OF assms] by blast
  have "\<not> is_live s" using registered_ok [OF assms(1) s(1)] s(2) by (auto simp: session_ok_def)
  moreover have "map_of (sr_sessions (fst (prune_finished r))) i = None"
    using assms(2) by (simp add: prune_fst map_of_fold_remove)
  moreover have "n \<le> n'"
    if "map_of (sr_sessions (fst (prune_finished r))) j = Some s'" "rs_finished_at s' = Some n'" for j s' n'
  proof -
    have "(n, i) \<in> set (take ?k ?fin)" by (rule finished_entry [OF assms(1) s]) (use assms(2) pruned in simp)
    moreover have "j \<notin> snd ` set (take ?k ?fin)" "map_of (sr_sessions r) j = Some s'"
      using that(1) by (auto simp: prune_fst map_of_fold_remove pruned split: if_splits)
    then have "(n', j) \<in> set ?fin" "(n', j) \<notin> set (take ?k ?fin)"
      using that(2) btree_entry [OF registry_btree [OF assms(1)]] by (force simp: finished_in_order_set)+
    then have "(n', j) \<in> set (drop ?k ?fin)" by (metis append_take_drop_id in_set_conv_decomp UnE set_append)
    ultimately show ?thesis by (rule finished_sorted)
  qed
  moreover have "length (finished_in_order (fst (prune_finished r))) = li_retained_finished_sessions (sr_limits r)"
    using finished_after_filter [OF assms(1), of ?k] more
    unfolding finished_in_order_sort [of "fst (prune_finished r)"] length_sort sessions by simp
  moreover have "map_of (sr_sessions (fst (prune_finished r))) j = Some s'"
    if "map_of (sr_sessions r) j = Some s'" "is_live s'" for j s'
  proof -
    have "j \<notin> set (snd (prune_finished r))"
    proof
      assume "j \<in> set (snd (prune_finished r))"
      from pruned_was_finished [OF assms(1) this] that registered_ok [OF assms(1) that(1)] show False
        by (auto simp: session_ok_def)
    qed
    then show ?thesis using that(1) by (simp add: prune_fst map_of_fold_remove)
  qed
  ultimately show ?thesis using s by blast
qed

lemma pruning_drops_the_oldest_witness:
  "\<exists>s n. map_of (sr_sessions ended_sessions) 2 = Some s \<and>
     rs_finished_at s = Some n \<and> map_of (sr_sessions (fst (prune_finished ended_sessions))) 2 = None"
  using pruning_drops_the_oldest [OF ended_sessions_ok, of 2] by (auto simp: ended_sessions_pruned)

section \<open>Health is derived\<close>

text \<open>
  C37. Health is derived and never a source of truth: whatever the daemon's other writers
  did in between, and however many entries the memo evicted, the row an accepted fact
  stores is the one a replay of the run's journal computes, and every state the writer
  still holds in memory is the replay of its run.
\<close>

theorem health_is_recomputable:
  assumes "ingesting thresholds x" "fact_fits re"
    and "accept thresholds touched re x = (y, Inr a)"
  shows "af_health a = recompute (fst y) (re_run_id re) (re_now re) \<and>
    load_run_health (fst y) (re_run_id re) = Some (af_health a) \<and>
    (\<forall>i \<in> dom (held (snd y)). held (snd y) i = Some (replay (fst y) i))"
proof -
  obtain d c d1 c1 where x: "x = (d, c)" and y: "y = (d1, c1)" by (cases x; cases y)
  have "coherent (d, c)" using ingesting_coherent [OF assms(1)] x by simp
  note accepted = accept_coherent [OF this assms(2), where thresholds = thresholds and touched = touched]
  from accepted(1) have "cache.faithful (replay d1) c1" using assms(3) by (simp add: x y coherent_def)
  then show ?thesis using accepted(2) assms(3) by (auto simp: x y cache.faithful_def dom_def)
qed

lemma health_is_recomputable_witness:
  "\<exists>y a. accept default_health_thresholds touched_one claimed_progress after_write = (y, Inr a) \<and>
    af_health a = recompute (fst y) 1 60 \<and> load_run_health (fst y) 1 = Some (af_health a)"
proof -
  obtain y a where acc: "accept default_health_thresholds touched_one claimed_progress after_write = (y, Inr a)"
    using checkpoint_accepted by blast
  show ?thesis using health_is_recomputable [OF after_write_ingesting facts_fit(2) acc] acc
    by (auto simp: claimed_progress_def)
qed

text \<open>
  C30. What is journaled is read back: the entry an observation is recorded as, stored
  under any row id, parses to that observation and to the turn it belonged to, for every
  value an \<open>i64\<close> can carry.
\<close>

theorem observation_round_trip:
  assumes "observation_fits ob" "fits_i64 turn"
  shows "from_event ((to_event run_id attempt_id turn ts credited ob)\<lparr>ev_id := i\<rparr>) = Some (ob, turn)"
  using from_to_event [OF assms] by (simp add: from_event_def)

lemma observation_round_trip_witness:
  "from_event ((to_event 1 None 7 50 False (GenesisPathsFrozen [''a'', ''b'']))\<lparr>ev_id := Some 9\<rparr>) =
    Some (GenesisPathsFrozen [''a'', ''b''], 7)"
  by (rule observation_round_trip) (simp_all add: fits_i64_def i64_max_def i64_min_def)

text \<open>
  C38. The bounded memo is a least-recently-used cache: over any sequence of lookups and
  insertions shorter than the stamps, what it holds, in the order of the stamps, is what the
  list kept in order of use holds; it never holds more than its capacity, and a lookup
  gives what the list gives.
\<close>

theorem cache_is_lru:
  assumes "int (length ops) < stamp_bound"
    and "c = fold cache_perform ops (with_capacity n)"
    and "xs = fold (lru_perform (max n 1)) ops []"
  shows "in_use_order c = xs \<and> length (rc_entries c) \<le> max n 1 \<and> snd (cache_get k c) = map_of xs k"
proof -
  have "rc_stamps (with_capacity n) + int (length ops) < stamp_bound" "rc_capacity (with_capacity n) = max n 1"
    using assms(1) by (simp_all add: with_capacity_def)
  note cap = this(2) and lru = cache_performs [OF with_capacity_ok this(1)]
  have "cache_ok c" "rc_capacity c = max n 1" "in_use_order c = xs"
    using lru unfolding assms(2,3) cap by simp_all
  then show ?thesis
    using in_use_order_lookup [of c] by (simp add: cache_get_held cache_ok_def)
qed

lemma cache_is_lru_witness:
  "snd (cache_get 1 (fold cache_perform [Remember 1 ''a'', Remember 2 ''b'', Look 1, Remember 3 ''c''] (with_capacity 2))) = Some ''a'' \<and>
   snd (cache_get 2 (fold cache_perform [Remember 1 ''a'', Remember 2 ''b'', Look 1, Remember 3 ''c''] (with_capacity 2))) = None"
proof -
  let ?ops = "[Remember 1 ''a'', Remember 2 ''b'', Look 1, Remember 3 ''c'']"
  have "int (length ?ops) < stamp_bound" by (simp add: stamp_bound_def)
  note lru = cache_is_lru [OF this refl refl, where n = 2]
  have "fold (lru_perform (max 2 1)) ?ops [] = [(1, ''a''), (3, ''c'')]"
    by (simp add: lru_insert_def lru_touch_def lru_drop_def)
  with lru [where k = 1] lru [where k = 2] show ?thesis by simp
qed

text \<open>
  Two reports of the same file never compare unequal: two accepted paths are equal
  exactly when their components are, a leading dot apart, and the stored spelling is
  itself accepted, unchanged and within the bound.
\<close>

theorem paths_have_one_spelling:
  assumes "new_fact_path p = Some a" "new_fact_path q = Some b" "Normal part \<in> set (components p)"
  shows "(a = b \<longleftrightarrow> filter (\<lambda>c. c \<noteq> CurDir) (components p) = filter (\<lambda>c. c \<noteq> CurDir) (components q)) \<and>
    new_fact_path a = Some a \<and> length a \<le> max_path_bytes"
proof -
  have wf: "well_formed_path p" "well_formed_path q" and a: "a = normalize_path p" and b: "b = normalize_path q"
    using assms(1,2) by (auto simp: new_fact_path_def split: if_splits)
  have "inj Normal" by (simp add: inj_def)
  then have same: "map Normal (path_parts p) = map Normal (path_parts q) \<longleftrightarrow> path_parts p = path_parts q"
    by (simp add: inj_map_eq_map)
  have "Normal part \<in> set (filter (\<lambda>c. c \<noteq> CurDir) (components p))" using assms(3) by simp
  then have "path_parts p \<noteq> []" unfolding named_components [OF wf(1)] by auto
  from new_fact_path_same [OF wf this]
  have "a = b \<longleftrightarrow> filter (\<lambda>c. c \<noteq> CurDir) (components p) = filter (\<lambda>c. c \<noteq> CurDir) (components q)"
    unfolding named_components [OF wf(1)] named_components [OF wf(2)] same using assms(1,2) by simp
  moreover have "new_fact_path a = Some a"
    using canonical_well_formed [OF wf(1)] normalize_idem [OF wf(1)] by (simp add: a new_fact_path_def)
  moreover have "length a \<le> max_path_bytes"
    using canonical_well_formed [OF wf(1)] by (simp add: a well_formed_path_def)
  ultimately show ?thesis by blast
qed

lemma paths_have_one_spelling_witness:
  "new_fact_path ''./src//a.rs'' = new_fact_path ''src/a.rs''"
proof -
  have "new_fact_path ''./src//a.rs'' = Some ''src/a.rs''" "new_fact_path ''src/a.rs'' = Some ''src/a.rs''"
    "Normal ''src'' \<in> set (components ''./src//a.rs'')" by code_simp+
  from paths_have_one_spelling [OF this] this show ?thesis by simp
qed

section \<open>Time and boots\<close>

text \<open>
  C39. A tick of the timer wheel applies exactly what is due and is never refused: the runs
  parked on a provider whose cap has elapsed go back to the queue, the questions past their
  expiry that may still expire (an answered question may not, an answered approval may) do,
  every other row stays, and no stage is left standing as rejected.
\<close>

theorem tick_applies_what_is_due:
  assumes "db_wf d" "wheel_tick settings (clock_now elapsed) standing d = (standing', d', t)"
  shows "tk_rejections t = [] \<and> (\<forall>stage. standing' stage = None) \<and>
    db_runs d' = map (\<lambda>r. if rr_state r = AwaitingQuota \<and> rr_provider r \<in> set (due_providers settings (clock_now elapsed) d)
      then r\<lparr>rr_state := Queued\<rparr> else r) (db_runs d) \<and>
    db_questions d' = map (\<lambda>q. if (\<exists>at. qu_expires_at q = Some at \<and> at \<le> clock_now elapsed) \<and>
      (qu_state q = Open \<or> qu_kind q = Approval \<and> qu_state q = question_state.Answered)
      then q\<lparr>qu_state := Expired\<rparr> else q) (db_questions d)"
proof -
  let ?now = "clock_now elapsed"
  let ?R = "\<lambda>r. rr_state r = AwaitingQuota \<and> rr_provider r \<in> set (due_providers settings ?now d)"
  let ?Q = "\<lambda>q. past_expiry ?now q \<and> expirable (qu_kind q) (qu_state q)"
  obtain st2 d2 t2 where tick: "wheel_tick settings ?now standing d = (st2, d2, t2)" "tk_rejections t2 = []"
    "\<forall>stage. st2 stage = None" "db_runs d2 = requeued d (rr_id ` {r \<in> set (db_runs d). ?R r})"
    "db_questions d2 = voided d (qu_id ` {q \<in> set (db_questions d). ?Q q})"
    by (rule tick_goes_through [OF assms(1) clock_now_fits [of elapsed], where settings = settings and standing = standing])
      (erule that, simp_all)
  have "requeued d (rr_id ` {r \<in> set (db_runs d). ?R r}) = map (\<lambda>r. if ?R r then r\<lparr>rr_state := Queued\<rparr> else r) (db_runs d)"
    using runs.id_unique [of "db_runs d"] assms(1) by (auto simp: requeued_def sql_update_def db_wf_def)
  moreover have "voided d (qu_id ` {q \<in> set (db_questions d). ?Q q}) = map (\<lambda>q. if ?Q q then q\<lparr>qu_state := Expired\<rparr> else q) (db_questions d)"
    using questions.id_unique [of "db_questions d"] assms(1) by (auto simp: voided_def sql_update_def db_wf_def)
  moreover have "?Q q \<longleftrightarrow> (\<exists>at. qu_expires_at q = Some at \<and> at \<le> ?now) \<and>
      (qu_state q = Open \<or> qu_kind q = Approval \<and> qu_state q = question_state.Answered)" for q
    by (auto simp: past_expiry_def expirable_states split: option.splits)
  ultimately show ?thesis using tick assms(2) by simp
qed

lemma tick_applies_what_is_due_witness:
  "\<exists>standing' d' t. wheel_tick default_timer_settings (clock_now (Some 60)) Map.empty capped_db = (standing', d', t) \<and>
    tk_rejections t = [] \<and> map rr_state (db_runs d') = [Queued, Queued]"
proof -
  obtain standing' d' t where tick: "wheel_tick default_timer_settings (clock_now (Some 60)) Map.empty capped_db = (standing', d', t)"
    by (metis prod_cases3)
  have "\<forall>r \<in> set (db_runs capped_db). rr_provider r = ''p''"
    using list_all_iff [of "\<lambda>r. rr_provider r = ''p''" "db_runs capped_db"] by code_simp
  then have "map rr_state (db_runs d') = map (\<lambda>s. if s = AwaitingQuota then Queued else s) (map rr_state (db_runs capped_db))"
    using tick_applies_what_is_due [OF reachable_db_wf [OF capped_reachable] tick] capped_due(1) by auto
  then show ?thesis
    using tick tick_applies_what_is_due [OF reachable_db_wf [OF capped_reachable] tick] capped_states by auto
qed

text \<open>
  A silent run is signalled once per checkpoint, and only once its deadline has passed:
  whatever operations are performed in between, a later signal about the same run measures
  it from another checkpoint entry.
\<close>

theorem overdue_signalled_once:
  assumes "reachable d" "list_all admissible ops" "fits_i64 (oc_checkpoint_event_id o1)"
    and "overdue_signal settings now i d = (d1, Inr (Some o1))"
    and "overdue_signal settings' now' i (perform_all ops d1) = (d2, Inr (Some o2))"
  shows "oc_deadline o1 \<le> now \<and> oc_checkpoint_event_id o2 \<noteq> oc_checkpoint_event_id o1"
proof -
  have "reachable d1" using overdue_signal_reachable [OF assms(1), of settings now i] assms(4) by simp
  then have "journal_grows d1 (perform_all ops d1)" using history_kept assms(2) by blast
  moreover have "oc_deadline o1 \<le> now"
    using assms(4) by (auto simp: overdue_signal_def split: option.splits if_splits prod.splits sum.splits list.splits)
  ultimately show ?thesis using signalled_once [OF assms(4,3) _ assms(5)] by blast
qed

lemma overdue_signalled_once_witness:
  "\<exists>d1 o1 d2 o2. overdue_signal default_timer_settings 4000 1 working_db = (d1, Inr (Some o1)) \<and>
    overdue_signal default_timer_settings 9000 1 (perform_all promise_ops d1) = (d2, Inr (Some o2)) \<and>
    oc_deadline o1 \<le> 4000 \<and> oc_checkpoint_event_id o2 \<noteq> oc_checkpoint_event_id o1"
proof -
  obtain d1 o1 d2 o2 where o1: "overdue_signal default_timer_settings 4000 1 working_db = (d1, Inr (Some o1))"
      "oc_checkpoint_event_id o1 = 6"
    and o2: "overdue_signal default_timer_settings 9000 1 (perform_all promise_ops d1) = (d2, Inr (Some o2))"
    using second_signal by blast
  have "list_all admissible promise_ops" by code_simp
  moreover have "fits_i64 (oc_checkpoint_event_id o1)" by (simp add: o1(2) fits_i64_def i64_min_def i64_max_def)
  ultimately show ?thesis using overdue_signalled_once [OF demo_reachable(2) _ _ o1(1) o2] o1(1) o2 by blast
qed

text \<open>
  C40. A boot leaves nothing executing: from any reachable database the reconciliation and the
  resumption that follows it go through; every run that was running or interrupted is queued
  again, a run parked on a quota may be, every other run is as it was, and no attempt is open.
\<close>

theorem boot_leaves_nothing_executing:
  assumes "reachable d"
  shows "\<exists>standing' d1 report d2.
    reconcile_before_surface settings fs data_directory now (clock_now elapsed) standing d = (standing', d1, Inr report) \<and>
    resume_interrupted later d1 = (d2, Inr (map (\<lambda>r. stored_id (rr_id r)) (runs_in_state d1 run_state.Interrupted))) \<and>
    br_interrupted report = map (\<lambda>r. stored_id (rr_id r)) (runs_in_state d run_state.Running) \<and>
    tk_rejections (br_timers report) = [] \<and>
    list_all2 (\<lambda>r r'. r' = r \<and> rr_state r \<notin> {run_state.Running, run_state.Interrupted} \<or>
        r' = r\<lparr>rr_state := Queued\<rparr> \<and> rr_state r \<in> {run_state.Running, run_state.Interrupted, AwaitingQuota})
      (db_runs d) (db_runs d2) \<and>
    (\<forall>a \<in> set (db_attempts d2). at_outcome a \<noteq> None)"
proof -
  obtain standing' d1 report K where boot:
    "reconcile_before_surface settings fs data_directory now (clock_now elapsed) standing d = (standing', d1, Inr report)" "reachable d1"
    "br_interrupted report = map (\<lambda>r. stored_id (rr_id r)) (runs_in_state d run_state.Running)" "tk_rejections (br_timers report) = []"
    "\<And>r. rr_id r \<in> K \<Longrightarrow> r \<in> set (db_runs d) \<Longrightarrow> rr_state r = AwaitingQuota"
    "db_runs d1 = sql_update (\<lambda>r. rr_id r \<in> K) (\<lambda>r. r\<lparr>rr_state := Queued\<rparr>)
      (sql_update (\<lambda>r. rr_state r = run_state.Running) (\<lambda>r. r\<lparr>rr_state := run_state.Interrupted\<rparr>) (db_runs d))"
    by (rule boot_goes_through [OF assms clock_now_fits [of elapsed], where settings = settings and fs = fs and
        data = data_directory and now = now and standing = standing]) (erule that, simp_all)
  obtain d2 where resume: "resume_interrupted later d1 = (d2, Inr (map (\<lambda>r. stored_id (rr_id r)) (runs_in_state d1 run_state.Interrupted)))"
      "reachable d2" "db_runs d2 = sql_update (\<lambda>r. rr_state r = run_state.Interrupted) (\<lambda>r. r\<lparr>rr_state := Queued\<rparr>) (db_runs d1)"
    using resume_goes_through [OF boot(2)] by blast
  have each: "list_all2 (\<lambda>r r'. r' = r \<and> rr_state r \<notin> {run_state.Running, run_state.Interrupted} \<or>
      r' = r\<lparr>rr_state := Queued\<rparr> \<and> rr_state r \<in> {run_state.Running, run_state.Interrupted, AwaitingQuota})
      (db_runs d) (db_runs d2)"
    unfolding resume(3) boot(6) sql_update_def map_map list_all2_map2 list_all2_same
    using boot(5) by auto
  then have "\<forall>r \<in> set (db_runs d2). rr_state r \<noteq> run_state.Running"
    by (fastforce simp: list_all2_conv_all_nth in_set_conv_nth)
  then show ?thesis using boot(1,3,4) resume(1) each closed_when_idle [OF resume(2)] by blast
qed

lemma boot_leaves_nothing_executing_witness:
  "\<exists>standing' d1 report d2 ids.
    reconcile_before_surface default_timer_settings empty_disk ''/data'' 70 (clock_now (Some 70)) Map.empty working_db =
      (standing', d1, Inr report) \<and>
    resume_interrupted 80 d1 = (d2, Inr ids) \<and> br_interrupted report = [1] \<and>
    map rr_state (db_runs d2) = [Queued, Queued]"
proof -
  obtain standing' d1 report d2 where boot:
    "reconcile_before_surface default_timer_settings empty_disk ''/data'' 70 (clock_now (Some 70)) Map.empty working_db =
      (standing', d1, Inr report)"
    "resume_interrupted 80 d1 = (d2, Inr (map (\<lambda>r. stored_id (rr_id r)) (runs_in_state d1 run_state.Interrupted)))"
    "br_interrupted report = map (\<lambda>r. stored_id (rr_id r)) (runs_in_state working_db run_state.Running)"
    "list_all2 (\<lambda>r r'. r' = r \<and> rr_state r \<notin> {run_state.Running, run_state.Interrupted} \<or>
        r' = r\<lparr>rr_state := Queued\<rparr> \<and> rr_state r \<in> {run_state.Running, run_state.Interrupted, AwaitingQuota})
      (db_runs working_db) (db_runs d2)"
    using boot_leaves_nothing_executing [OF demo_reachable(2), of default_timer_settings empty_disk "''/data''" 70 "Some 70"
      Map.empty 80] by blast
  obtain a b where rows: "db_runs working_db = [a, b]" "rr_state a = run_state.Running" "rr_state b = Queued"
    using working_states by (auto simp: map_eq_Cons_conv)
  have "map rr_state (db_runs d2) = [Queued, Queued]" using boot(4) by (auto simp: rows list_all2_Cons1)
  moreover have "map (\<lambda>r. stored_id (rr_id r)) (runs_in_state working_db run_state.Running) = [1]" by code_simp
  ultimately show ?thesis using boot(1,2,3) by auto
qed

section \<open>The gates\<close>

text \<open>
  C5. Work lands exactly when every rule holds: git derives a branch with a merge base and a
  clean tree; the approval is this run's, answered by the user, in date unless git already
  reports the branch as landed, and bound to the tree and, before landing, to the paths git
  derives; the attempts are within the cap; every changed path is under a frozen one; and
  the branch has landed, or the coordinator integrates it and git merges it.
\<close>

theorem merge_lands_exactly_when_ruled:
  assumes "db_wf d"
  shows "(\<exists>d' released. pre_merge g request d = (d', Inr (Merged sha released))) \<longleftrightarrow>
    (\<exists>run v q worktree stored genesis digest.
       load_run d (pm_run_id request) = Some run \<and> worktree_path run = Some worktree \<and>
       gi_derive g worktree (pm_main_ref request) = Inr v \<and>
       gd_branch v \<noteq> None \<and> gd_merge_base v \<noteq> None \<and> \<not> gd_dirty v \<and>
       load_question d (pm_approval_id request) = Some q \<and> qu_run_id q = pm_run_id request \<and> qu_kind q = Approval \<and>
       qu_state q = question_state.Answered \<and> qu_author q = Some question_author.User \<and>
       (gd_merged v \<or> in_date q (pm_now request)) \<and> qu_tree_hash q = Some (gd_head_tree v) \<and>
       qu_paths_digest q = Some digest \<and> (gd_merged v \<or> digest = paths_digest g (gd_changed_paths v)) \<and>
       charged_attempts (attempts_for_run d (pm_run_id request)) \<le> pm_attempt_cap request \<and>
       rr_genesis_paths run = Some stored \<and> parse_genesis_paths stored = Inr genesis \<and>
       (\<forall>path \<in> set (gd_changed_paths v). \<exists>allowed \<in> set genesis. covers allowed path) \<and>
       (if gd_merged v then sha = None
        else pm_path request = Integrate \<and> (\<exists>branch made. gd_branch v = Some branch \<and> sha = Some made \<and>
          gi_merge g (rr_repo_root run) branch = Inr (merge_outcome.Merged made))))"
proof -
  have "(\<exists>d' released. pre_merge g request d = (d', Inr (Merged sha released))) \<longleftrightarrow>
      (\<exists>run v q. rules_hold g request d run v q \<and> lands g request run v sha)"
  proof
    assume "\<exists>d' released. pre_merge g request d = (d', Inr (Merged sha released))"
    then show "\<exists>run v q. rules_hold g request d run v q \<and> lands g request run v sha"
      using pre_merge_settles [OF assms] by metis
  next
    assume "\<exists>run v q. rules_hold g request d run v q \<and> lands g request run v sha"
    then show "\<exists>d' released. pre_merge g request d = (d', Inr (Merged sha released))"
      using pre_merge_lands [OF assms] by metis
  qed
  then show ?thesis unfolding rules_hold_def authorizes_def in_scope_def lands_def
    by (simp only:) (rule iffI; (elim exE conjE; force split: if_splits option.splits))
qed

lemma merge_lands_exactly_when_ruled_witness:
  "(\<exists>d' released. pre_merge (demo_git False [''src/a.rs'']) demo_request landing_db = (d', Inr (Merged (Some ''c0ffee'') released))) \<and>
   \<not> (\<exists>d' released. pre_merge (demo_git False [''srcs/a.rs'']) demo_request landing_db = (d', Inr (Merged (Some ''c0ffee'') released)))"
proof -
  note ruled = merge_lands_exactly_when_ruled [OF reachable_db_wf [OF landing_reachable]]
  obtain run q stored where loaded: "load_run landing_db 1 = Some run" "worktree_path run = Some ''/wt''"
      "rr_genesis_paths run = Some stored" "parse_genesis_paths stored = Inr [''src'']"
      "load_question landing_db 1 = Some q" "qu_run_id q = 1" "qu_kind q = Approval" "qu_state q = question_state.Answered"
      "qu_author q = Some question_author.User" "in_date q 40" "qu_tree_hash q = Some ''tree''" "qu_paths_digest q = Some ''digest''"
    using landing_rows by blast
  have charged: "charged_attempts (attempts_for_run landing_db 1) \<le> 3" by code_simp
  have covered: "covers ''src'' ''src/a.rs''" "\<not> covers ''src'' ''srcs/a.rs''" by code_simp+
  have "\<exists>d' released. pre_merge (demo_git False [''src/a.rs'']) demo_request landing_db = (d', Inr (Merged (Some ''c0ffee'') released))"
    by (rule ruled [THEN iffD2]) (use loaded charged covered(1) in \<open>simp add: demo_git_def demo_request_def derived_def paths_digest_def\<close>)
  moreover have "\<not> (\<exists>d' released. pre_merge (demo_git False [''srcs/a.rs'']) demo_request landing_db =
      (d', Inr (Merged (Some ''c0ffee'') released)))"
    unfolding ruled using loaded covered(2) by (auto simp: demo_git_def demo_request_def derived_def)
  ultimately show ?thesis by blast
qed

text \<open>
  C18. An approval merges once: after the gate has landed a merge on it, it is spent, and no
  request presenting it lands again, whatever git answers and whatever operations were
  performed since.
\<close>

theorem approval_merges_once:
  assumes "reachable d" "list_all admissible ops"
    and "pre_merge g request d = (d', Inr (Merged sha released))"
    and "pm_approval_id request' = pm_approval_id request"
    and "pre_merge g' request' (perform_all ops d') = (d2, r)"
  shows "(\<exists>q. load_question (perform_all ops d') (pm_approval_id request) = Some q \<and> qu_state q = Delivered) \<and>
    (\<forall>sha' released'. r \<noteq> Inr (Merged sha' released'))"
proof -
  obtain run v q s m where settled: "settle_merge d s = (d', Inr m)" "ms_approval_id s = pm_approval_id request"
    by (rule pre_merge_settles [OF reachable_db_wf [OF assms(1)] assms(3)])
  have "reachable d'" using reachable.step [OF assms(1), of "SettleMerge s"] settled(1) by (simp add: admissible_def)
  then have after: "reachable (perform_all ops d')" "questions_kept d' (perform_all ops d')"
    using reachable_perform_all assms(2) history_kept by blast+
  obtain q' where "db_wf d'" "load_question d' (pm_approval_id request) = Some q'" "qu_state q' = Delivered"
    using settled_delivers [OF reachable_db_wf [OF assms(1)] settled(1)] settled(2) by auto
  then obtain q2 where q2: "load_question (perform_all ops d') (pm_approval_id request) = Some q2" "qu_state q2 = Delivered"
    using delivered_stays [OF after(2) _ reachable_db_wf [OF after(1)]] by blast
  have False if "r = Inr (Merged sha' released')" for sha' released'
  proof (rule pre_merge_settles [OF reachable_db_wf [OF after(1)] assms(5) [unfolded that]])
    fix s' m'
    assume "settle_merge (perform_all ops d') s' = (d2, Inr m')" "ms_approval_id s' = pm_approval_id request'"
    then show False using delivered_never_settles [of "perform_all ops d'" s' q2] q2 assms(4) by auto
  qed
  then show ?thesis using q2 by blast
qed

lemma approval_merges_once_witness:
  "\<exists>d' sha released. pre_merge (demo_git False [''src/a.rs'']) demo_request landing_db = (d', Inr (Merged sha released)) \<and>
    \<not> is_merged (snd (pre_merge (demo_git True [''src/a.rs'']) demo_request (perform_all [Journal [entry ''note'']] d')))"
proof -
  obtain d' sha released where merged:
    "pre_merge (demo_git False [''src/a.rs'']) demo_request landing_db = (d', Inr (Merged sha released))"
    using demo_gate_lands unfolding is_merged_iff by (metis prod.collapse)
  have "list_all admissible [Journal [entry ''note'']]" by (simp add: admissible_def)
  note once = approval_merges_once [OF landing_reachable this merged refl prod.collapse [symmetric], where g' = "demo_git True [''src/a.rs'']"]
  then have "\<not> is_merged (snd (pre_merge (demo_git True [''src/a.rs'']) demo_request (perform_all [Journal [entry ''note'']] d')))"
    unfolding is_merged_def by (auto split: sum.splits pre_merge_verdict.splits)
  then show ?thesis using merged by blast
qed

text \<open>
  A gate that does not land moves nothing: runs, questions and attempts are as they were,
  a refusal journals one \<open>gate_result\<close>, a merge that did not apply that and the request for a
  sub-agent, and no store constraint ever stands in the gate's way.
\<close>

theorem stopped_gate_only_journals:
  assumes "db_wf d" "pre_merge g request d = (d', r)" "\<forall>sha released. r \<noteq> Inr (Merged sha released)"
  shows "\<exists>es. d' = d\<lparr>db_events := db_events d @ es\<rparr> \<and>
    (\<forall>e \<in> set es. ev_run_id e = Some (pm_run_id request)) \<and>
    (case r of
       Inr (Refused refusal) \<Rightarrow> map ev_type es = [''gate_result'']
     | Inr (IntegrationRequired work) \<Rightarrow> map ev_type es = [''gate_result'', ''sub_agent_requested'']
     | Inl e \<Rightarrow> set (map ev_type es) \<subseteq> {''gate_result''} \<and> (\<forall>rejection. e \<noteq> Transition rejection)
     | Inr (Merged sha released) \<Rightarrow> False)"
proof (cases "\<exists>run v q. rules_hold g request d run v q")
  case False
  then show ?thesis using pre_merge_stopped [OF assms(1) False] assms(2)
    by (auto simp: logged_def infra_entry_def gate_result_event_def intro: exI [of _ "[]"])
next
  case True
  then obtain run v q where rules: "rules_hold g request d run v q" by blast
  then have "\<nexists>sha. lands g request run v sha" using pre_merge_lands [OF assms(1) rules] assms(2,3) by fastforce
  from pre_merge_not_landed [OF assms(1) rules this] show ?thesis
  proof (elim disjE exE)
    fix payload payload' work
    let ?e = "infra_entry (pm_run_id request) gate_result_event payload (pm_now request)"
    let ?e' = "infra_entry (pm_run_id request) sub_agent_event payload' (pm_now request)"
    assume "pre_merge g request d = (logged ?e' (logged ?e d), Inr (IntegrationRequired work))"
    then show ?thesis using assms(2)
      by (intro exI [of _ "[?e\<lparr>ev_id := Some (next_event_id d)\<rparr>, ?e'\<lparr>ev_id := Some (next_event_id (logged ?e d))\<rparr>]"])
        (auto simp: logged_def infra_entry_def gate_result_event_def sub_agent_event_def)
  qed (use assms(2) in \<open>auto simp: logged_def infra_entry_def gate_result_event_def intro: exI [of _ "[]"]\<close>)
qed

lemma stopped_gate_only_journals_witness:
  "\<exists>es. fst (pre_merge (demo_git False [''srcs/b.rs'']) demo_request landing_db) = landing_db\<lparr>db_events := db_events landing_db @ es\<rparr>"
proof -
  have "\<not> is_merged (snd (pre_merge (demo_git False [''srcs/b.rs'']) demo_request landing_db))" by code_simp
  then have "\<forall>sha released. snd (pre_merge (demo_git False [''srcs/b.rs'']) demo_request landing_db) \<noteq> Inr (Merged sha released)"
    by (auto simp: is_merged_iff)
  from stopped_gate_only_journals [OF reachable_db_wf [OF landing_reachable] prod.collapse [symmetric] this]
  show ?thesis by blast
qed

text \<open>
  C19. The sweep lets go only of what landed: a directory is released exactly when its run is
  active, git derives a branch that is merged and the tree is clean; its row becomes cleaned
  exactly when the directory is not there or git removed it; otherwise no row changes.
\<close>

theorem sweep_spares_unlanded_work:
  assumes "db_wf d" "load_run d (rq_run_id request) = Some run" "worktree_path run = Some worktree"
    and "reclaim g request d = (d', r)"
  shows "db_questions d' = db_questions d \<and>
    (if rr_worktree_status run = Some Active \<and>
        (\<exists>v. gi_derive g worktree (rq_main_ref request) = Inr v \<and> gd_branch v \<noteq> None \<and> gd_merged v \<and> \<not> gd_dirty v)
     then (\<exists>applied cleaned. r = Inr (Released applied cleaned) \<and>
        (cleaned \<noteq> None \<longleftrightarrow> \<not> gi_is_dir g worktree \<or> remove_directory g run worktree = None) \<and>
        db_runs d' = map (\<lambda>x. if rr_id x = Some (rq_run_id request)
          then x\<lparr>rr_worktree_status := Some (if cleaned = None then Reclaimable else Cleaned)\<rparr> else x) (db_runs d))
     else db_runs d' = db_runs d \<and> (\<forall>applied cleaned. r \<noteq> Inr (Released applied cleaned)))"
proof (cases "\<exists>v. releasable_now g request d run worktree v")
  case True
  then obtain v where ok: "releasable_now g request d run worktree v" by blast
  let ?gone = "directory_gone g run worktree"
  obtain applied cleaned where out: "r = Inr (Released applied cleaned)" "db_questions d' = db_questions d"
      "db_runs d' = with_status (if ?gone then Cleaned else Reclaimable) (rq_run_id request) (db_runs d)"
      "cleaned \<noteq> None \<longleftrightarrow> ?gone"
    using reclaim_releases [OF assms(1) ok] assms(4) by auto
  have active: "rr_worktree_status run = Some Active \<and>
      (\<exists>v. gi_derive g worktree (rq_main_ref request) = Inr v \<and> gd_branch v \<noteq> None \<and> gd_merged v \<and> \<not> gd_dirty v)"
    using ok by (auto simp: releasable_now_def)
  have "(if cleaned = None then Reclaimable else Cleaned) = (if ?gone then Cleaned else Reclaimable)"
    using out(4) by auto
  then have "db_runs d' = map (\<lambda>x. if rr_id x = Some (rq_run_id request)
      then x\<lparr>rr_worktree_status := Some (if cleaned = None then Reclaimable else Cleaned)\<rparr> else x) (db_runs d)"
    by (simp only: out(3) with_status_def sql_update_def)
  then show ?thesis unfolding if_P [OF active] using out(1,2,4) directory_gone_def by blast
next
  case False
  then have "\<nexists>run worktree v. releasable_now g request d run worktree v"
    using assms(2,3) by (auto simp: releasable_now_def)
  from reclaim_spares [OF assms(1) this assms(4)] show ?thesis using False assms(2,3)
    by (auto simp: releasable_now_def)
qed

lemma sweep_spares_unlanded_work_witness:
  "(\<exists>applied cleaned. snd (reclaim (demo_git True []) demo_sweep landing_db) = Inr (Released applied cleaned)) \<and>
   db_runs (fst (reclaim (demo_git False [''src/a.rs'']) demo_sweep landing_db)) = db_runs landing_db"
proof -
  obtain run where run: "load_run landing_db (rq_run_id demo_sweep) = Some run" "worktree_path run = Some ''/wt''"
      "rr_worktree_status run = Some Active"
    using landing_rows landing_active by (auto simp: demo_sweep_def)
  note sweep = sweep_spares_unlanded_work [OF reachable_db_wf [OF landing_reachable] run(1,2) prod.collapse [symmetric]]
  from sweep [of "demo_git True []"] sweep [of "demo_git False [''src/a.rs'']"] run(3) show ?thesis
    by (simp add: demo_git_def derived_def split: if_splits) blast
qed

end
